(* ===== verification/Linera_Prelude.thy ===== *)
theory Linera_Prelude
  imports Main "HOL-Library.Word"
begin

section \<open>Shared vocabulary of the development\<close>

text \<open>
  The vocabulary every component theory uses.
  \<^item> Machine integers: \<open>u8\<close> \dots \<open>u128\<close> are words of that width; the checked and
    saturating operations of Rust's integer types are defined on words, and the lemmas in the
    collection \<open>word_ops\<close> say what they compute on the unsigned values.
  \<^item> \<open>Result<T, E>\<close> is \<open>'e + 'a\<close> with \<open>Inl\<close> for the error. \<open>and_then\<close> is Rust's
    \<open>?\<close> operator: the first error ends the computation.
  \<^item> \<open>ensure\<close> is the macro of the same name of \<open>linera-base\<close>.
\<close>

named_theorems word_ops \<open>checked and saturating machine arithmetic, read on unsigned values\<close>

type_synonym u8 = "8 word"
type_synonym u32 = "32 word"
type_synonym u64 = "64 word"
type_synonym u128 = "128 word"

text \<open>A cryptographic hash and a public key are 32 bytes, a signature 64 bytes.\<close>

type_synonym crypto_hash = "256 word"
type_synonym public_key = "256 word"
type_synonym signature = "512 word"
type_synonym bytes = "u8 list"

type_synonym ('e, 'a) res = "'e + 'a"

subsection \<open>Results\<close>

fun and_then :: "('e, 'a) res \<Rightarrow> ('a \<Rightarrow> ('e, 'b) res) \<Rightarrow> ('e, 'b) res" where
  "and_then (Inl e) f = Inl e"
| "and_then (Inr x) f = f x"

fun map_err :: "('e \<Rightarrow> 'f) \<Rightarrow> ('e, 'a) res \<Rightarrow> ('f, 'a) res" where
  "map_err h (Inl e) = Inl (h e)"
| "map_err h (Inr x) = Inr x"

fun ok_or :: "'a option \<Rightarrow> 'e \<Rightarrow> ('e, 'a) res" where
  "ok_or None e = Inl e"
| "ok_or (Some x) e = Inr x"

definition ensure :: "bool \<Rightarrow> 'e \<Rightarrow> ('e, unit) res" where
  "ensure b e = (if b then Inr () else Inl e)"

subsection \<open>Checked and saturating arithmetic\<close>

definition max_value :: "'a::len word" where
  "max_value = - 1"

definition checked_add :: "'a::len word \<Rightarrow> 'a word \<Rightarrow> 'a word option" where
  "checked_add a b = (if unat a + unat b < 2 ^ LENGTH('a) then Some (a + b) else None)"

definition checked_sub :: "'a::len word \<Rightarrow> 'a word \<Rightarrow> 'a word option" where
  "checked_sub a b = (if b \<le> a then Some (a - b) else None)"

definition checked_mul :: "'a::len word \<Rightarrow> 'a word \<Rightarrow> 'a word option" where
  "checked_mul a b = (if unat a * unat b < 2 ^ LENGTH('a) then Some (a * b) else None)"

definition saturating_add :: "'a::len word \<Rightarrow> 'a word \<Rightarrow> 'a word" where
  "saturating_add a b = (case checked_add a b of Some c \<Rightarrow> c | None \<Rightarrow> max_value)"

definition saturating_sub :: "'a::len word \<Rightarrow> 'a word \<Rightarrow> 'a word" where
  "saturating_sub a b = (case checked_sub a b of Some c \<Rightarrow> c | None \<Rightarrow> 0)"

definition saturating_mul :: "'a::len word \<Rightarrow> 'a word \<Rightarrow> 'a word" where
  "saturating_mul a b = (case checked_mul a b of Some c \<Rightarrow> c | None \<Rightarrow> max_value)"

text \<open>\<open>uN::try_from\<close> of a machine integer or a length that may be too large.\<close>

definition try_from_nat :: "nat \<Rightarrow> 'a::len word option" where
  "try_from_nat n = (if n < 2 ^ LENGTH('a) then Some (word_of_nat n) else None)"

subsection \<open>Lemmas on results\<close>

lemma and_then_Inr_iff [simp]:
  "and_then r f = Inr y \<longleftrightarrow> (\<exists>x. r = Inr x \<and> f x = Inr y)"
  by (cases r) auto

lemma and_then_Inl_iff:
  "and_then r f = Inl e \<longleftrightarrow> r = Inl e \<or> (\<exists>x. r = Inr x \<and> f x = Inl e)"
  by (cases r) auto

lemma and_then_assoc: "and_then (and_then r f) g = and_then r (\<lambda>x. and_then (f x) g)"
  by (cases r) auto

lemma and_then_cong [fundef_cong]:
  "r = r' \<Longrightarrow> (\<And>x. r' = Inr x \<Longrightarrow> f x = g x) \<Longrightarrow> and_then r f = and_then r' g"
  by (cases r') auto

lemma map_err_Inr_iff [simp]: "map_err h r = Inr x \<longleftrightarrow> r = Inr x"
  by (cases r) auto

lemma map_err_Inl_iff: "map_err h r = Inl e \<longleftrightarrow> (\<exists>d. r = Inl d \<and> e = h d)"
  by (cases r) auto

lemma ok_or_Inr_iff [simp]: "ok_or x e = Inr y \<longleftrightarrow> x = Some y"
  by (cases x) auto

lemma ok_or_Inl_iff [simp]: "ok_or x e = Inl d \<longleftrightarrow> x = None \<and> d = e"
  by (cases x) auto

lemma ensure_Inr_iff [simp]: "ensure b e = Inr u \<longleftrightarrow> b"
  by (simp add: ensure_def)

lemma ensure_Inl_iff [simp]: "ensure b e = Inl d \<longleftrightarrow> \<not> b \<and> d = e"
  by (auto simp: ensure_def)

lemma ensure_True [simp]: "b \<Longrightarrow> ensure b e = Inr ()"
  by simp

lemma ensure_False [simp]: "\<not> b \<Longrightarrow> ensure b e = Inl e"
  by simp

subsection \<open>Lemmas on machine arithmetic\<close>

lemma unat_max_value [word_ops]: "unat (max_value :: 'a::len word) = 2 ^ LENGTH('a) - 1"
  by (simp add: max_value_def unsigned_minus_1_eq_mask mask_eq_exp_minus_1)

lemma le_max_value [simp]: "(x :: 'a::len word) \<le> max_value"
  by (simp add: max_value_def)

lemma max_value_pos [simp]: "0 < (max_value :: 'a::len word)"
  using one_less_power [of "2 :: nat" "LENGTH('a)"] by (simp add: word_less_nat_alt unat_max_value)

lemma unat_bound: "unat (x :: 'a::len word) < 2 ^ LENGTH('a)"
  by (rule unsigned_less)

lemma unat_add_exact:
  "unat a + unat b < 2 ^ LENGTH('a) \<Longrightarrow> unat (a + b) = unat a + unat (b :: 'a::len word)"
  by (simp add: unat_word_ariths)

lemma unat_mult_exact:
  "unat a * unat b < 2 ^ LENGTH('a) \<Longrightarrow> unat (a * b) = unat a * unat (b :: 'a::len word)"
  by (simp add: unat_word_ariths)

lemma unat_sub_exact: "b \<le> a \<Longrightarrow> unat (a - b) = unat a - unat (b :: 'a::len word)"
  by (rule unat_sub)

text \<open>A widening conversion (\<open>u64::from(r)\<close>) keeps the value.\<close>

lemma unat_ucast_widen:
  "LENGTH('a) \<le> LENGTH('b) \<Longrightarrow> unat (ucast (x :: 'a::len word) :: 'b::len word) = unat x"
  using less_le_trans [OF unat_bound [of x] power_increasing [of "LENGTH('a)" "LENGTH('b)" "2::nat"]]
  by (simp add: unsigned_ucast_eq unsigned_take_bit_eq take_bit_nat_eq_self_iff)

lemma checked_add_Some_iff [word_ops]:
  "checked_add a b = Some c \<longleftrightarrow> unat c = unat a + unat (b :: 'a::len word)"
proof
  assume "checked_add a b = Some c"
  then show "unat c = unat a + unat b"
    by (auto simp: checked_add_def unat_add_exact split: if_splits)
next
  assume eq: "unat c = unat a + unat b"
  then have lt: "unat a + unat b < 2 ^ LENGTH('a)"
    using unat_bound [of c] by simp
  with eq have "a + b = c"
    by (metis unat_add_exact word_unat_eq_iff)
  with lt show "checked_add a b = Some c"
    by (simp add: checked_add_def)
qed

lemma checked_add_None_iff [word_ops]:
  "checked_add a b = None \<longleftrightarrow> 2 ^ LENGTH('a) \<le> unat a + unat (b :: 'a::len word)"
  by (auto simp: checked_add_def)

lemma checked_sub_Some_iff [word_ops]:
  "checked_sub a b = Some c \<longleftrightarrow> unat a = unat b + unat (c :: 'a::len word)"
proof
  assume "checked_sub a b = Some c"
  then have "b \<le> a" and "c = a - b"
    by (auto simp: checked_sub_def split: if_splits)
  then show "unat a = unat b + unat c"
    by (simp add: unat_sub_exact word_le_nat_alt)
next
  assume eq: "unat a = unat b + unat c"
  then have le: "b \<le> a" by (simp add: word_le_nat_alt)
  with eq have "a - b = c"
    by (simp add: unat_sub_exact word_unat_eq_iff)
  with le show "checked_sub a b = Some c" by (simp add: checked_sub_def)
qed

lemma checked_sub_None_iff [word_ops]: "checked_sub a b = None \<longleftrightarrow> unat a < unat b"
  by (auto simp: checked_sub_def word_le_nat_alt)

lemma checked_mul_Some_iff [word_ops]:
  "checked_mul a b = Some c \<longleftrightarrow> unat c = unat a * unat (b :: 'a::len word)"
proof
  assume "checked_mul a b = Some c"
  then show "unat c = unat a * unat b"
    by (auto simp: checked_mul_def unat_mult_exact split: if_splits)
next
  assume eq: "unat c = unat a * unat b"
  then have lt: "unat a * unat b < 2 ^ LENGTH('a)"
    using unat_bound [of c] by simp
  with eq have "a * b = c"
    by (metis unat_mult_exact word_unat_eq_iff)
  with lt show "checked_mul a b = Some c"
    by (simp add: checked_mul_def)
qed

lemma checked_mul_None_iff [word_ops]:
  "checked_mul a b = None \<longleftrightarrow> 2 ^ LENGTH('a) \<le> unat a * unat (b :: 'a::len word)"
  by (auto simp: checked_mul_def)

lemma unat_saturating_add [word_ops]:
  "unat (saturating_add a b) = min (unat a + unat b) (2 ^ LENGTH('a) - 1)"
  for a b :: "'a::len word"
  by (auto simp: saturating_add_def checked_add_def unat_max_value unat_add_exact
      split: option.splits)

lemma unat_saturating_sub [word_ops]:
  "unat (saturating_sub a b) = unat a - unat b"
  for a b :: "'a::len word"
  by (auto simp: saturating_sub_def checked_sub_def unat_sub_exact word_le_nat_alt
      split: option.splits)

lemma unat_saturating_mul [word_ops]:
  "unat (saturating_mul a b) = min (unat a * unat b) (2 ^ LENGTH('a) - 1)"
  for a b :: "'a::len word"
  by (auto simp: saturating_mul_def checked_mul_def unat_max_value unat_mult_exact
      split: option.splits)

lemma try_from_nat_Some_iff [word_ops]:
  "(try_from_nat n = Some (w :: 'a::len word)) = (unat w = n)"
  by (auto simp: try_from_nat_def unat_of_nat take_bit_nat_eq_self_iff)

lemma try_from_nat_None_iff [word_ops]:
  "((try_from_nat n :: 'a::len word option) = None) = (2 ^ LENGTH('a) \<le> n)"
  by (auto simp: try_from_nat_def)

end
