(* ===== verification/Base_Types.thy ===== *)
theory Base_Types
  imports Linera_Prelude
begin

section \<open>Core data types and identifiers (linera-base)\<close>

text \<open>
  The data of \<open>linera-base/src/data_types.rs\<close> and \<open>linera-base/src/identifiers.rs\<close>: wrapped
  numbers and their checked arithmetic, rounds with their derived order, time stamps, token amounts,
  application permissions, and the identifiers. The newtypes \<open>Amount\<close>, \<open>BlockHeight\<close>,
  \<open>TimeDelta\<close> and \<open>Timestamp\<close> are names of their words. Serialisation (serde, BCS) and hashing
  are outside the model: where a component hashes a value, the hash function is an argument.
\<close>

type_synonym amount = u128
type_synonym block_height = u64
type_synonym time_delta = u64
type_synonym timestamp = u64

subsection \<open>Wrapped numbers\<close>

datatype arithmetic_error = Overflow | Underflow

definition try_add :: "'a::len word \<Rightarrow> 'a word \<Rightarrow> (arithmetic_error, 'a word) res" where
  "try_add self other = ok_or (checked_add self other) Overflow"

definition try_add_one :: "'a::len word \<Rightarrow> (arithmetic_error, 'a word) res" where
  "try_add_one self = ok_or (checked_add self 1) Overflow"

definition try_sub :: "'a::len word \<Rightarrow> 'a word \<Rightarrow> (arithmetic_error, 'a word) res" where
  "try_sub self other = ok_or (checked_sub self other) Underflow"

definition try_sub_one :: "'a::len word \<Rightarrow> (arithmetic_error, 'a word) res" where
  "try_sub_one self = ok_or (checked_sub self 1) Underflow"

definition try_mul :: "'a::len word \<Rightarrow> 'a word \<Rightarrow> (arithmetic_error, 'a word) res" where
  "try_mul self other = ok_or (checked_mul self other) Overflow"

text \<open>The in-place variants return the new value of \<open>self\<close>; on an error \<open>self\<close> is unchanged.\<close>

definition try_add_assign :: "'a::len word \<Rightarrow> 'a word \<Rightarrow> (arithmetic_error, 'a word) res" where
  "try_add_assign self other = ok_or (checked_add self other) Overflow"

definition try_add_assign_one :: "'a::len word \<Rightarrow> (arithmetic_error, 'a word) res" where
  "try_add_assign_one self = ok_or (checked_add self 1) Overflow"

definition try_sub_assign :: "'a::len word \<Rightarrow> 'a word \<Rightarrow> (arithmetic_error, 'a word) res" where
  "try_sub_assign self other = ok_or (checked_sub self other) Underflow"

definition try_mul_assign :: "'a::len word \<Rightarrow> 'a word \<Rightarrow> (arithmetic_error, 'a word) res" where
  "try_mul_assign self other = ok_or (checked_mul self other) Overflow"

subsection \<open>Rounds\<close>

datatype round = Fast | MultiLeader u32 | SingleLeader u32 | Validator u32

fun is_multi_leader :: "round \<Rightarrow> bool" where
  "is_multi_leader (MultiLeader r) = True"
| "is_multi_leader r = False"

fun is_fast :: "round \<Rightarrow> bool" where
  "is_fast Fast = True"
| "is_fast r = False"

fun round_number :: "round \<Rightarrow> u32" where
  "round_number Fast = 0"
| "round_number (MultiLeader r) = r"
| "round_number (SingleLeader r) = r"
| "round_number (Validator r) = r"

fun type_name :: "round \<Rightarrow> string" where
  "type_name Fast = ''fast''"
| "type_name (MultiLeader r) = ''multi''"
| "type_name (SingleLeader r) = ''single''"
| "type_name (Validator r) = ''validator''"

text \<open>The derived order compares the variants first and then their numbers.\<close>

fun round_variant :: "round \<Rightarrow> nat" where
  "round_variant Fast = 0"
| "round_variant (MultiLeader r) = 1"
| "round_variant (SingleLeader r) = 2"
| "round_variant (Validator r) = 3"

lemma round_eqI: "round_variant r = round_variant s \<Longrightarrow> round_number r = round_number s \<Longrightarrow> r = s"
  by (cases r; cases s) auto

instantiation round :: linorder
begin

definition less_eq_round :: "round \<Rightarrow> round \<Rightarrow> bool" where
  "less_eq_round r s \<longleftrightarrow> round_variant r < round_variant s \<or>
     round_variant r = round_variant s \<and> round_number r \<le> round_number s"

definition less_round :: "round \<Rightarrow> round \<Rightarrow> bool" where
  "less_round r s \<longleftrightarrow> round_variant r < round_variant s \<or>
     round_variant r = round_variant s \<and> round_number r < round_number s"

instance
proof
  fix r s t :: round
  show "r < s \<longleftrightarrow> r \<le> s \<and> \<not> s \<le> r"
    by (auto simp: less_eq_round_def less_round_def)
  show "r \<le> r"
    by (simp add: less_eq_round_def)
  show "r \<le> s \<Longrightarrow> s \<le> t \<Longrightarrow> r \<le> t"
    by (auto simp: less_eq_round_def)
  show "r \<le> s \<Longrightarrow> s \<le> r \<Longrightarrow> r = s"
    by (auto simp: less_eq_round_def intro: round_eqI)
  show "r \<le> s \<or> s \<le> r"
    by (auto simp: less_eq_round_def)
qed

end

subsection \<open>Time\<close>

definition time_delta_from_micros :: "u64 \<Rightarrow> time_delta" where
  "time_delta_from_micros micros = micros"

definition time_delta_from_millis :: "u64 \<Rightarrow> time_delta" where
  "time_delta_from_millis millis = saturating_mul millis 1000"

definition time_delta_from_secs :: "u64 \<Rightarrow> time_delta" where
  "time_delta_from_secs secs = saturating_mul secs 1000000"

definition delta_since :: "timestamp \<Rightarrow> timestamp \<Rightarrow> time_delta" where
  "delta_since self other = time_delta_from_micros (saturating_sub self other)"

definition timestamp_saturating_add :: "timestamp \<Rightarrow> time_delta \<Rightarrow> timestamp" where
  "timestamp_saturating_add self duration = saturating_add self duration"

definition timestamp_saturating_sub :: "timestamp \<Rightarrow> time_delta \<Rightarrow> timestamp" where
  "timestamp_saturating_sub self duration = saturating_sub self duration"

subsection \<open>Amounts\<close>

definition DECIMAL_PLACES :: u8 where
  "DECIMAL_PLACES = 18"

definition amount_ONE :: amount where
  "amount_ONE = 10 ^ unat DECIMAL_PLACES"

definition amount_from_tokens :: "u128 \<Rightarrow> amount" where
  "amount_from_tokens tokens = saturating_mul amount_ONE tokens"

definition amount_from_millis :: "u128 \<Rightarrow> amount" where
  "amount_from_millis millitokens = saturating_mul (10 ^ (unat DECIMAL_PLACES - 3)) millitokens"

definition amount_from_micros :: "u128 \<Rightarrow> amount" where
  "amount_from_micros microtokens = saturating_mul (10 ^ (unat DECIMAL_PLACES - 6)) microtokens"

definition amount_from_nanos :: "u128 \<Rightarrow> amount" where
  "amount_from_nanos nanotokens = saturating_mul (10 ^ (unat DECIMAL_PLACES - 9)) nanotokens"

definition amount_from_attos :: "u128 \<Rightarrow> amount" where
  "amount_from_attos attotokens = attotokens"

definition upper_half :: "amount \<Rightarrow> u64" where
  "upper_half self = ucast (drop_bit 64 self)"

definition lower_half :: "amount \<Rightarrow> u64" where
  "lower_half self = ucast self"

definition amount_saturating_div :: "amount \<Rightarrow> amount \<Rightarrow> u128" where
  "amount_saturating_div self other = (if other = 0 then max_value else self div other)"

definition amount_is_zero :: "amount \<Rightarrow> bool" where
  "amount_is_zero self \<longleftrightarrow> self = 0"

text \<open>\<open>Sum for Amount\<close> folds with saturating addition.\<close>

definition amount_sum :: "amount list \<Rightarrow> amount" where
  "amount_sum xs = foldl saturating_add 0 xs"

subsection \<open>Resources\<close>

record resources =
  r_fuel :: u64
  r_read_operations :: u32
  r_write_operations :: u32
  r_bytes_to_read :: u32
  r_bytes_to_write :: u32
  r_messages :: u32
  r_message_size :: u32
  r_storage_size_delta :: u32

subsection \<open>Identifiers\<close>

type_synonym owner = crypto_hash
type_synonym chain_id = crypto_hash
type_synonym channel_name = bytes
type_synonym stream_name = bytes

datatype message_id = MessageId (mid_chain_id: chain_id) (mid_height: block_height) (mid_index: u32)

datatype bytecode_id = BytecodeId (contract_blob_hash: crypto_hash) (service_blob_hash: crypto_hash)

datatype application_id = ApplicationId (app_bytecode_id: bytecode_id) (app_creation: message_id)

datatype account_owner = AccountUser owner | AccountApplication application_id

datatype account = Account (account_chain_id: chain_id) (account_owner_of: "account_owner option")

datatype chain_description = Root u32 | Child message_id

datatype blob_type = BlobData | BlobContractBytecode | BlobServiceBytecode

datatype blob_id = BlobId (blob_id_type: blob_type) (blob_id_hash: crypto_hash)

datatype generic_application_id = SystemApp | UserApp application_id

datatype stream_id = StreamId (stream_application_id: generic_application_id) (stream_name_of: stream_name)

datatype destination = Recipient chain_id | Subscribers channel_name

definition account_chain :: "chain_id \<Rightarrow> account" where
  "account_chain cid = Account cid None"

definition account_owner :: "chain_id \<Rightarrow> account_owner \<Rightarrow> account" where
  "account_owner cid own = Account cid (Some own)"

fun is_child :: "chain_description \<Rightarrow> bool" where
  "is_child (Child m) = True"
| "is_child (Root n) = False"

fun user_application_id :: "generic_application_id \<Rightarrow> application_id option" where
  "user_application_id (UserApp app) = Some app"
| "user_application_id SystemApp = None"

fun destination_is_channel :: "destination \<Rightarrow> bool" where
  "destination_is_channel (Subscribers n) = True"
| "destination_is_channel (Recipient c) = False"

text \<open>\<open>From<ChainDescription> for ChainId\<close>, \<open>ChainId::root\<close> and \<open>ChainId::child\<close>; \<open>hash\<close> is
  \<open>CryptoHash::new\<close> on chain descriptions.\<close>

definition chain_id_from :: "(chain_description \<Rightarrow> crypto_hash) \<Rightarrow> chain_description \<Rightarrow> chain_id" where
  "chain_id_from hash description = hash description"

definition chain_id_root :: "(chain_description \<Rightarrow> crypto_hash) \<Rightarrow> u32 \<Rightarrow> chain_id" where
  "chain_id_root hash index = chain_id_from hash (Root index)"

definition chain_id_child :: "(chain_description \<Rightarrow> crypto_hash) \<Rightarrow> message_id \<Rightarrow> chain_id" where
  "chain_id_child hash mid = chain_id_from hash (Child mid)"

subsection \<open>Permissions, oracle responses, descriptions and blobs\<close>

record application_permissions =
  execute_operations :: "application_id list option"
  mandatory_applications :: "application_id list"
  close_chain_apps :: "application_id list"

definition permissions_default :: application_permissions where
  "permissions_default =
     \<lparr>execute_operations = None, mandatory_applications = [], close_chain_apps = []\<rparr>"

definition permissions_new_single :: "application_id \<Rightarrow> application_permissions" where
  "permissions_new_single app_id =
     \<lparr>execute_operations = Some [app_id], mandatory_applications = [app_id],
      close_chain_apps = [app_id]\<rparr>"

definition can_execute_operations :: "application_permissions \<Rightarrow> generic_application_id \<Rightarrow> bool" where
  "can_execute_operations self app_id =
     (case execute_operations self of
        None \<Rightarrow> True
      | Some app_ids \<Rightarrow>
          (case app_id of SystemApp \<Rightarrow> False | UserApp app \<Rightarrow> app \<in> set app_ids))"

definition can_close_chain :: "application_permissions \<Rightarrow> application_id \<Rightarrow> bool" where
  "can_close_chain self app_id \<longleftrightarrow> app_id \<in> set (close_chain_apps self)"

text \<open>The response of the HTTP oracle is opaque to the protocol: its serialised bytes.\<close>

datatype oracle_response =
    OracleService bytes
  | OracleHttp bytes
  | OracleBlob blob_id
  | OracleAssert

record user_application_description =
  uad_bytecode_id :: bytecode_id
  uad_creation :: message_id
  uad_parameters :: bytes
  uad_required_application_ids :: "application_id list"

definition application_id_from_description :: "user_application_description \<Rightarrow> application_id" where
  "application_id_from_description d = ApplicationId (uad_bytecode_id d) (uad_creation d)"

record blob_content =
  bc_blob_type :: blob_type
  bc_bytes :: bytes

record blob =
  blob_hash :: crypto_hash
  blob_content_of :: blob_content

definition blob_new :: "(blob_content \<Rightarrow> crypto_hash) \<Rightarrow> blob_content \<Rightarrow> blob" where
  "blob_new hash content = \<lparr>blob_hash = hash content, blob_content_of = content\<rparr>"

definition blob_id :: "blob \<Rightarrow> blob_id" where
  "blob_id self = BlobId (bc_blob_type (blob_content_of self)) (blob_hash self)"

subsection \<open>Lemmas\<close>

lemma try_add_Inr_iff [simp]: "try_add a b = Inr c \<longleftrightarrow> unat c = unat a + unat b"
  by (simp add: try_add_def word_ops)

lemma try_sub_Inr_iff [simp]: "try_sub a b = Inr c \<longleftrightarrow> unat a = unat b + unat c"
  by (simp add: try_sub_def word_ops)

lemma try_add_one_Inr_iff: "try_add_one a = Inr c \<longleftrightarrow> unat c = Suc (unat a)"
  by (simp add: try_add_one_def word_ops)

lemma try_add_assign_Inr_iff [simp]: "try_add_assign a b = Inr c \<longleftrightarrow> unat c = unat a + unat b"
  by (simp add: try_add_assign_def word_ops)

lemma try_sub_assign_Inr_iff [simp]: "try_sub_assign a b = Inr c \<longleftrightarrow> unat a = unat b + unat c"
  by (simp add: try_sub_assign_def word_ops)

lemma try_add_one_Inr: "try_add_one a = Inr c \<longleftrightarrow> a < max_value \<and> c = a + 1"
proof -
  have "unat (1::'a word) = 1" by simp
  moreover have "a < max_value \<longleftrightarrow> unat a + 1 < 2 ^ LENGTH('a)"
    by (auto simp: word_less_nat_alt unat_max_value)
  ultimately show ?thesis
    by (auto simp: try_add_one_def checked_add_def)
qed

lemma try_add_one_less: "try_add_one a = Inr c \<Longrightarrow> a < c"
  by (simp add: try_add_one_Inr_iff word_less_nat_alt)

lemma round_less_simps [simp]:
  "\<not> r < Fast"
  "Fast \<le> r"
  "Fast < MultiLeader m" "Fast < SingleLeader m" "Fast < Validator m"
  "MultiLeader m < MultiLeader n \<longleftrightarrow> m < n"
  "MultiLeader m < SingleLeader n" "MultiLeader m < Validator n"
  "\<not> SingleLeader m < MultiLeader n"
  "SingleLeader m < SingleLeader n \<longleftrightarrow> m < n"
  "SingleLeader m < Validator n"
  "\<not> Validator m < MultiLeader n" "\<not> Validator m < SingleLeader n"
  "Validator m < Validator n \<longleftrightarrow> m < n"
  by (auto simp: less_round_def less_eq_round_def)

lemma round_le_simps [simp]:
  "r \<le> Fast \<longleftrightarrow> r = Fast"
  "MultiLeader m \<le> MultiLeader n \<longleftrightarrow> m \<le> n"
  "MultiLeader m \<le> SingleLeader n" "MultiLeader m \<le> Validator n"
  "\<not> SingleLeader m \<le> MultiLeader n"
  "SingleLeader m \<le> SingleLeader n \<longleftrightarrow> m \<le> n"
  "SingleLeader m \<le> Validator n"
  "\<not> Validator m \<le> MultiLeader n" "\<not> Validator m \<le> SingleLeader n"
  "Validator m \<le> Validator n \<longleftrightarrow> m \<le> n"
  by (auto simp: less_eq_round_def) (cases r; simp)

lemma is_fast_iff [simp]: "is_fast r \<longleftrightarrow> r = Fast"
  by (cases r) auto

text \<open>Rounds embed into the natural numbers in order, so induction over rounds is available.\<close>

definition round_rank :: "round \<Rightarrow> nat" where
  "round_rank r = round_variant r * 2 ^ 32 + unat (round_number r)"

lemma round_rank_less_iff: "round_rank r < round_rank s \<longleftrightarrow> r < s"
proof -
  have b: "unat (round_number t) < 2 ^ 32" for t :: round
    using unat_bound [of "round_number t"] by simp
  show ?thesis
    using b [of r] b [of s]
    by (cases r; cases s) (auto simp: round_rank_def word_less_nat_alt)
qed

lemma wf_round_less: "wf {(r, s). (r::round) < s}"
  by (rule wf_subset [OF wf_measure [of round_rank]]) (auto simp: round_rank_less_iff)

end
