(* ===== verification/Std_Maps.thy ===== *)
theory Std_Maps
  imports Main
begin

section \<open>Ordered maps\<close>

text \<open>
  The part of \<open>BTreeMap\<close> the sources use. A map is the list of its entries in increasing key
  order, which is also the order of its iterators. \<open>ordered_map\<close> is the interface the clients rely
  on (what a lookup returns after an insertion or a removal, and that iteration is sorted); the
  sorted list is its implementation.
\<close>

type_synonym ('k, 'v) btree_map = "('k \<times> 'v) list"

definition bt_empty :: "('k, 'v) btree_map" where
  "bt_empty = []"

definition bt_get :: "('k, 'v) btree_map \<Rightarrow> 'k \<Rightarrow> 'v option" where
  "bt_get m k = map_of m k"

definition bt_contains :: "('k, 'v) btree_map \<Rightarrow> 'k \<Rightarrow> bool" where
  "bt_contains m k \<longleftrightarrow> bt_get m k \<noteq> None"

fun bt_insert :: "'k::linorder \<Rightarrow> 'v \<Rightarrow> ('k, 'v) btree_map \<Rightarrow> ('k, 'v) btree_map" where
  "bt_insert k v [] = [(k, v)]"
| "bt_insert k v ((k', v') # m) =
     (if k < k' then (k, v) # (k', v') # m
      else if k = k' then (k, v) # m
      else (k', v') # bt_insert k v m)"

fun bt_remove :: "'k::linorder \<Rightarrow> ('k, 'v) btree_map \<Rightarrow> ('k, 'v) btree_map" where
  "bt_remove k [] = []"
| "bt_remove k ((k', v') # m) = (if k = k' then m else (k', v') # bt_remove k m)"

definition bt_keys :: "('k, 'v) btree_map \<Rightarrow> 'k list" where
  "bt_keys m = map fst m"

definition bt_values :: "('k, 'v) btree_map \<Rightarrow> 'v list" where
  "bt_values m = map snd m"

text \<open>\<open>collect\<close> and \<open>extend\<close> insert the entries one after the other.\<close>

definition bt_extend :: "('k::linorder, 'v) btree_map \<Rightarrow> ('k \<times> 'v) list \<Rightarrow> ('k, 'v) btree_map" where
  "bt_extend m kvs = foldl (\<lambda>acc kv. bt_insert (fst kv) (snd kv) acc) m kvs"

definition bt_collect :: "('k::linorder \<times> 'v) list \<Rightarrow> ('k, 'v) btree_map" where
  "bt_collect kvs = bt_extend bt_empty kvs"

definition bt_wf :: "('k::linorder, 'v) btree_map \<Rightarrow> bool" where
  "bt_wf m \<longleftrightarrow> sorted_wrt (<) (map fst m)"

subsection \<open>The interface\<close>

locale ordered_map =
  fixes empty :: "'m"
    and get :: "'m \<Rightarrow> 'k::linorder \<Rightarrow> 'v option"
    and insert :: "'k \<Rightarrow> 'v \<Rightarrow> 'm \<Rightarrow> 'm"
    and remove :: "'k \<Rightarrow> 'm \<Rightarrow> 'm"
    and entries :: "'m \<Rightarrow> ('k \<times> 'v) list"
    and invar :: "'m \<Rightarrow> bool"
  assumes empty_invar: "invar empty"
    and empty_get: "get empty k = None"
    and insert_invar: "invar m \<Longrightarrow> invar (insert k v m)"
    and insert_get: "invar m \<Longrightarrow> get (insert k v m) j = (if j = k then Some v else get m j)"
    and remove_invar: "invar m \<Longrightarrow> invar (remove k m)"
    and remove_get: "invar m \<Longrightarrow> get (remove k m) j = (if j = k then None else get m j)"
    and entries_sorted: "invar m \<Longrightarrow> sorted_wrt (<) (map fst (entries m))"
    and entries_get: "invar m \<Longrightarrow> get m k = Some v \<longleftrightarrow> (k, v) \<in> set (entries m)"
begin

definition extend :: "'m \<Rightarrow> ('k \<times> 'v) list \<Rightarrow> 'm" where
  "extend m kvs = foldl (\<lambda>acc kv. insert (fst kv) (snd kv) acc) m kvs"

lemma extend_Nil: "extend m [] = m"
  by (simp add: extend_def)

lemma extend_Cons: "extend m (kv # kvs) = extend (insert (fst kv) (snd kv) m) kvs"
  by (simp add: extend_def)

lemma extend_invar: "invar m \<Longrightarrow> invar (extend m kvs)"
  by (induction kvs arbitrary: m) (auto simp: extend_Nil extend_Cons insert_invar)

lemma extend_get:
  "invar m \<Longrightarrow> get (extend m kvs) k = (case map_of (rev kvs) k of Some v \<Rightarrow> Some v | None \<Rightarrow> get m k)"
proof (induction kvs arbitrary: m)
  case Nil
  then show ?case by (simp add: extend_Nil)
next
  case (Cons kv kvs)
  then show ?case
    by (auto simp: extend_Cons insert_invar insert_get map_add_def split: option.splits)
qed

lemma entries_unique:
  "invar m \<Longrightarrow> invar m' \<Longrightarrow> (\<And>k. get m k = get m' k) \<Longrightarrow> set (entries m) = set (entries m')"
  using entries_get by (metis subsetI subset_antisym surj_pair)

lemma entries_distinct: "invar m \<Longrightarrow> distinct (map fst (entries m))"
  using entries_sorted [of m] strict_sorted_iff [of "map fst (entries m)"] by simp

end

subsection \<open>Sorted lists implement it\<close>

lemma bt_wf_Nil [simp]: "bt_wf []"
  by (simp add: bt_wf_def)

lemma bt_wf_Cons [simp]: "bt_wf ((k, v) # m) \<longleftrightarrow> (\<forall>j \<in> fst ` set m. k < j) \<and> bt_wf m"
  by (auto simp: bt_wf_def)

lemma bt_wf_distinct: "bt_wf m \<Longrightarrow> distinct (map fst m)"
  by (simp add: bt_wf_def strict_sorted_iff)

lemma bt_get_Nil [simp]: "bt_get [] k = None"
  by (simp add: bt_get_def)

lemma bt_get_Cons [simp]: "bt_get ((k', v) # m) k = (if k = k' then Some v else bt_get m k)"
  by (simp add: bt_get_def)

lemma bt_get_None_iff: "bt_get m k = None \<longleftrightarrow> k \<notin> fst ` set m"
  by (simp add: bt_get_def map_of_eq_None_iff)

lemma bt_get_Some_iff: "bt_wf m \<Longrightarrow> bt_get m k = Some v \<longleftrightarrow> (k, v) \<in> set m"
  by (simp add: bt_get_def bt_wf_distinct)

lemma set_bt_insert: "fst ` set (bt_insert k v m) = insert k (fst ` set m)"
  by (induction k v m rule: bt_insert.induct) auto

lemma bt_wf_insert [simp]: "bt_wf m \<Longrightarrow> bt_wf (bt_insert k v m)"
  by (induction k v m rule: bt_insert.induct) (auto simp: set_bt_insert)

lemma bt_get_insert [simp]: "bt_get (bt_insert k v m) j = (if j = k then Some v else bt_get m j)"
  by (induction k v m rule: bt_insert.induct) auto

lemma set_bt_remove: "set (bt_remove k m) \<subseteq> set m"
  by (induction k m rule: bt_remove.induct) auto

lemma bt_wf_remove [simp]: "bt_wf m \<Longrightarrow> bt_wf (bt_remove k m)"
  by (induction k m rule: bt_remove.induct) (use set_bt_remove in \<open>auto dest: subsetD\<close>)

lemma bt_get_remove [simp]:
  "bt_wf m \<Longrightarrow> bt_get (bt_remove k m) j = (if j = k then None else bt_get m j)"
  by (induction k m rule: bt_remove.induct) (auto simp: bt_get_None_iff image_iff, force)

interpretation btree: ordered_map bt_empty bt_get bt_insert bt_remove "\<lambda>m. m" bt_wf
  rewrites "ordered_map.extend bt_insert = bt_extend"
proof -
  show om: "ordered_map bt_empty bt_get bt_insert bt_remove (\<lambda>m. m)
     (bt_wf :: ('a::linorder, 'b) btree_map \<Rightarrow> bool)"
    by unfold_locales (auto simp: bt_empty_def bt_get_Some_iff bt_wf_def [symmetric])
  show "ordered_map.extend bt_insert = (bt_extend :: ('a, 'b) btree_map \<Rightarrow> _)"
    by (intro ext) (simp add: ordered_map.extend_def [OF om] bt_extend_def)
qed

lemma bt_wf_extend [simp]: "bt_wf m \<Longrightarrow> bt_wf (bt_extend m kvs)"
  by (rule btree.extend_invar)

lemma bt_wf_collect [simp]: "bt_wf (bt_collect kvs)"
  by (simp add: bt_collect_def bt_empty_def)

lemma bt_get_collect: "bt_get (bt_collect kvs) k = map_of (rev kvs) k"
  by (simp add: bt_collect_def bt_empty_def btree.extend_get split: option.splits)

lemma bt_wf_ext: "bt_wf m \<Longrightarrow> bt_wf m' \<Longrightarrow> (\<And>k. bt_get m k = bt_get m' k) \<Longrightarrow> m = m'"
  by (rule map_sorted_distinct_set_unique [where f = fst])
    (auto simp: btree.entries_unique [of m m'] bt_wf_def strict_sorted_iff
      distinct_map)

lemma bt_insert_length:
  "length (bt_insert k v m) \<le> Suc (length m)"
  by (induction k v m rule: bt_insert.induct) auto

end
