(* ===== verification/Ownership.thy ===== *)
theory Ownership
  imports Base_Types Std_Maps
begin

section \<open>Chain ownership and consensus rounds (linera-base/src/ownership.rs)\<close>

text \<open>
  Who may propose blocks, how long a round lasts, and which round follows which. The lemmas show
  that the sequence of rounds is strictly increasing and without gaps (no round lies between a round
  and its successor among the rounds a configuration uses) and that it ends only after the last
  validator round. \<open>Owner::from(public_key)\<close> is a hash: the function is an argument \<open>owner_of\<close>.
\<close>

record timeout_config =
  fast_round_duration :: "time_delta option"
  base_timeout :: time_delta
  timeout_increment :: time_delta
  fallback_duration :: time_delta

definition timeout_config_default :: timeout_config where
  "timeout_config_default =
     \<lparr>fast_round_duration = None,
      base_timeout = time_delta_from_secs 10,
      timeout_increment = time_delta_from_secs 1,
      fallback_duration = time_delta_from_secs (60 * 60 * 24)\<rparr>"

record chain_ownership =
  super_owners :: "(owner, public_key) btree_map"
  owners :: "(owner, public_key \<times> u64) btree_map"
  multi_leader_rounds :: u32
  ownership_timeout_config :: timeout_config

definition chain_ownership_default :: chain_ownership where
  "chain_ownership_default =
     \<lparr>super_owners = bt_empty, owners = bt_empty, multi_leader_rounds = 0,
      ownership_timeout_config = timeout_config_default\<rparr>"

definition single_super :: "(public_key \<Rightarrow> owner) \<Rightarrow> public_key \<Rightarrow> chain_ownership" where
  "single_super owner_of public_key =
     \<lparr>super_owners = bt_collect [(owner_of public_key, public_key)],
      owners = bt_empty,
      multi_leader_rounds = 2,
      ownership_timeout_config = timeout_config_default\<rparr>"

definition single_owner :: "(public_key \<Rightarrow> owner) \<Rightarrow> public_key \<Rightarrow> chain_ownership" where
  "single_owner owner_of public_key =
     \<lparr>super_owners = bt_empty,
      owners = bt_collect [(owner_of public_key, (public_key, 100))],
      multi_leader_rounds = 2,
      ownership_timeout_config = timeout_config_default\<rparr>"

definition multiple_owners ::
  "(public_key \<Rightarrow> owner) \<Rightarrow> (public_key \<times> u64) list \<Rightarrow> u32 \<Rightarrow> timeout_config \<Rightarrow> chain_ownership" where
  "multiple_owners owner_of keys_and_weights rounds config =
     \<lparr>super_owners = bt_empty,
      owners = bt_collect (map (\<lambda>(public_key, weight).
        (owner_of public_key, (public_key, weight))) keys_and_weights),
      multi_leader_rounds = rounds,
      ownership_timeout_config = config\<rparr>"

definition with_regular_owner ::
  "(public_key \<Rightarrow> owner) \<Rightarrow> chain_ownership \<Rightarrow> public_key \<Rightarrow> u64 \<Rightarrow> chain_ownership" where
  "with_regular_owner owner_of self public_key weight =
     self\<lparr>owners := bt_insert (owner_of public_key) (public_key, weight) (owners self)\<rparr>"

definition ownership_is_active :: "chain_ownership \<Rightarrow> bool" where
  "ownership_is_active self \<longleftrightarrow>
     super_owners self \<noteq> [] \<or> owners self \<noteq> [] \<or>
     fallback_duration (ownership_timeout_config self) = 0"

definition ownership_verify_owner :: "chain_ownership \<Rightarrow> owner \<Rightarrow> public_key option" where
  "ownership_verify_owner self own =
     (case bt_get (super_owners self) own of
        Some public_key \<Rightarrow> Some public_key
      | None \<Rightarrow> map_option fst (bt_get (owners self) own))"

fun round_timeout :: "chain_ownership \<Rightarrow> round \<Rightarrow> time_delta option" where
  "round_timeout self Fast = fast_round_duration (ownership_timeout_config self)"
| "round_timeout self (MultiLeader r) =
     (if saturating_add r 1 = multi_leader_rounds self
      then Some (base_timeout (ownership_timeout_config self)) else None)"
| "round_timeout self (SingleLeader r) =
     (let increment = saturating_mul (timeout_increment (ownership_timeout_config self)) (ucast r)
      in Some (saturating_add (base_timeout (ownership_timeout_config self)) increment))"
| "round_timeout self (Validator r) =
     (let increment = saturating_mul (timeout_increment (ownership_timeout_config self)) (ucast r)
      in Some (saturating_add (base_timeout (ownership_timeout_config self)) increment))"

definition first_round :: "chain_ownership \<Rightarrow> round" where
  "first_round self =
     (if super_owners self \<noteq> [] then Fast
      else if owners self = [] then Validator 0
      else if multi_leader_rounds self > 0 then MultiLeader 0
      else SingleLeader 0)"

definition all_owners :: "chain_ownership \<Rightarrow> owner list" where
  "all_owners self = bt_keys (super_owners self) @ bt_keys (owners self)"

definition all_public_keys :: "chain_ownership \<Rightarrow> public_key list" where
  "all_public_keys self = bt_values (super_owners self) @ map fst (bt_values (owners self))"

fun next_round :: "chain_ownership \<Rightarrow> round \<Rightarrow> round option" where
  "next_round self Fast =
     Some (if multi_leader_rounds self = 0 then SingleLeader 0 else MultiLeader 0)"
| "next_round self (MultiLeader r) =
     Some (case checked_add r 1 of
             None \<Rightarrow> SingleLeader 0
           | Some r' \<Rightarrow> if r' < multi_leader_rounds self then MultiLeader r' else SingleLeader 0)"
| "next_round self (SingleLeader r) =
     Some (case checked_add r 1 of None \<Rightarrow> Validator 0 | Some r' \<Rightarrow> SingleLeader r')"
| "next_round self (Validator r) = map_option Validator (checked_add r 1)"

subsection \<open>The sequence of rounds\<close>

text \<open>The rounds a configuration uses: multi-leader rounds are numbered below
  \<open>multi_leader_rounds\<close>.\<close>

fun round_in_use :: "chain_ownership \<Rightarrow> round \<Rightarrow> bool" where
  "round_in_use self (MultiLeader r) \<longleftrightarrow> r < multi_leader_rounds self"
| "round_in_use self r \<longleftrightarrow> True"

lemma checked_add_one_less: "checked_add r 1 = Some r' \<Longrightarrow> r < r'"
  by (simp add: checked_add_Some_iff word_less_nat_alt)

lemma checked_add_one_gap: "checked_add r 1 = Some r' \<Longrightarrow> r < s \<Longrightarrow> r' \<le> s"
  by (simp add: checked_add_Some_iff word_less_nat_alt word_le_nat_alt)

lemma checked_add_one_max: "checked_add r 1 = None \<Longrightarrow> s \<le> r"
  using unat_bound [of s] unfolding checked_add_None_iff word_le_nat_alt unat_1 by linarith

lemma next_round_less: "next_round self r = Some s \<Longrightarrow> r < s"
  by (cases r) (auto simp: checked_add_one_less split: option.splits)

lemma next_round_in_use: "next_round self r = Some s \<Longrightarrow> round_in_use self s"
  by (cases r) (auto simp: word_neq_0_conv split: option.splits if_splits)

lemma next_round_least:
  assumes "next_round self r = Some s" and "r < t" and "round_in_use self t"
  shows "s \<le> t"
  using assms
  by (cases r; cases t)
    (auto split: option.splits if_splits
      dest: checked_add_one_gap checked_add_one_max leD order.strict_trans2)

lemma next_round_None_iff: "next_round self r = None \<longleftrightarrow> r = Validator max_value"
proof (cases r)
  case (Validator n)
  have "checked_add n 1 = None \<longleftrightarrow> n = max_value"
    using unat_bound [of n]
    by (auto simp: checked_add_None_iff word_unat_eq_iff unat_max_value)
  with Validator show ?thesis by simp
qed auto

text \<open>C14: The round that follows a round is its immediate successor among the rounds the
  configuration uses: it is later, it is in use, and every round in use that is later than the given
  one is at least the successor. There is no successor exactly after the last validator round.\<close>

theorem next_round_is_successor:
  "(case next_round self r of
      Some s \<Rightarrow> r < s \<and> round_in_use self s \<and> (\<forall>t. round_in_use self t \<and> r < t \<longrightarrow> s \<le> t)
    | None \<Rightarrow> r = Validator max_value)"
  by (auto split: option.split
      simp: next_round_None_iff next_round_less next_round_in_use next_round_least)

theorem next_round_is_successor_witness:
  "next_round (single_super id 7) (MultiLeader 1) = Some (SingleLeader 0)
   \<and> MultiLeader 1 < SingleLeader 0
   \<and> round_in_use (single_super id 7) (SingleLeader 4) \<and> SingleLeader 0 \<le> SingleLeader 4"
  using next_round_is_successor [where self = "single_super id 7" and r = "MultiLeader 1"]
  by (simp add: single_super_def checked_add_def)

end
