(* ===== verification/Policy.thy ===== *)
theory Policy
  imports Base_Types
begin

section \<open>Prices and limits (linera-execution/src/policy.rs)\<close>

text \<open>
  The resource control policy and its price functions. The lemmas say that a total price is the
  exact weighted sum of the resources or an overflow error, and that \<open>remaining_fuel\<close> is the
  largest amount of fuel a balance pays for.
\<close>

record resource_control_policy =
  price_block :: amount
  price_fuel_unit :: amount
  price_read_operation :: amount
  price_write_operation :: amount
  price_byte_read :: amount
  price_byte_written :: amount
  price_byte_stored :: amount
  price_operation :: amount
  price_operation_byte :: amount
  price_message :: amount
  price_message_byte :: amount
  maximum_fuel_per_block :: u64
  maximum_executed_block_size :: u64
  maximum_bytecode_size :: u64
  maximum_blob_size :: u64
  maximum_block_proposal_size :: u64
  maximum_bytes_read_per_block :: u64
  maximum_bytes_written_per_block :: u64

definition policy_default :: resource_control_policy where
  "policy_default =
     \<lparr>price_block = 0, price_fuel_unit = 0, price_read_operation = 0, price_write_operation = 0,
      price_byte_read = 0, price_byte_written = 0, price_byte_stored = 0, price_operation = 0,
      price_operation_byte = 0, price_message = 0, price_message_byte = 0,
      maximum_fuel_per_block = max_value, maximum_executed_block_size = max_value,
      maximum_bytecode_size = max_value, maximum_blob_size = max_value,
      maximum_block_proposal_size = max_value, maximum_bytes_read_per_block = max_value,
      maximum_bytes_written_per_block = max_value\<rparr>"

definition block_price :: "resource_control_policy \<Rightarrow> amount" where
  "block_price self = price_block self"

definition operation_bytes_price :: "resource_control_policy \<Rightarrow> u64 \<Rightarrow> (arithmetic_error, amount) res" where
  "operation_bytes_price self sz = try_mul (price_operation_byte self) (ucast sz)"

definition message_bytes_price :: "resource_control_policy \<Rightarrow> u64 \<Rightarrow> (arithmetic_error, amount) res" where
  "message_bytes_price self sz = try_mul (price_message_byte self) (ucast sz)"

definition read_operations_price :: "resource_control_policy \<Rightarrow> u32 \<Rightarrow> (arithmetic_error, amount) res" where
  "read_operations_price self count = try_mul (price_read_operation self) (ucast count)"

definition write_operations_price :: "resource_control_policy \<Rightarrow> u32 \<Rightarrow> (arithmetic_error, amount) res" where
  "write_operations_price self count = try_mul (price_write_operation self) (ucast count)"

definition bytes_read_price :: "resource_control_policy \<Rightarrow> u64 \<Rightarrow> (arithmetic_error, amount) res" where
  "bytes_read_price self count = try_mul (price_byte_read self) (ucast count)"

definition bytes_written_price :: "resource_control_policy \<Rightarrow> u64 \<Rightarrow> (arithmetic_error, amount) res" where
  "bytes_written_price self count = try_mul (price_byte_written self) (ucast count)"

definition bytes_stored_price :: "resource_control_policy \<Rightarrow> u64 \<Rightarrow> (arithmetic_error, amount) res" where
  "bytes_stored_price self count = try_mul (price_byte_stored self) (ucast count)"

definition fuel_price :: "resource_control_policy \<Rightarrow> u64 \<Rightarrow> (arithmetic_error, amount) res" where
  "fuel_price self fuel = try_mul (price_fuel_unit self) (ucast fuel)"

definition total_price :: "resource_control_policy \<Rightarrow> resources \<Rightarrow> (arithmetic_error, amount) res" where
  "total_price self r =
     and_then (fuel_price self (r_fuel r)) (\<lambda>p1. and_then (try_add_assign 0 p1) (\<lambda>a1.
     and_then (read_operations_price self (r_read_operations r)) (\<lambda>p2. and_then (try_add_assign a1 p2) (\<lambda>a2.
     and_then (write_operations_price self (r_write_operations r)) (\<lambda>p3. and_then (try_add_assign a2 p3) (\<lambda>a3.
     and_then (bytes_read_price self (ucast (r_bytes_to_read r))) (\<lambda>p4. and_then (try_add_assign a3 p4) (\<lambda>a4.
     and_then (bytes_written_price self (ucast (r_bytes_to_write r))) (\<lambda>p5. and_then (try_add_assign a4 p5) (\<lambda>a5.
     and_then (try_mul (price_message self) (ucast (r_messages r))) (\<lambda>p6. and_then (try_add_assign a5 p6) (\<lambda>a6.
     and_then (message_bytes_price self (ucast (r_message_size r))) (\<lambda>p7. and_then (try_add_assign a6 p7) (\<lambda>a7.
     and_then (bytes_stored_price self (ucast (r_storage_size_delta r))) (\<lambda>p8. and_then (try_add_assign a7 p8) (\<lambda>a8.
     Inr a8))))))))))))))))"

definition remaining_fuel :: "resource_control_policy \<Rightarrow> amount \<Rightarrow> u64" where
  "remaining_fuel self balance =
     (case try_from_nat (unat (amount_saturating_div balance (price_fuel_unit self))) of
        Some fuel \<Rightarrow> fuel
      | None \<Rightarrow> max_value)"

definition policy_only_fuel :: resource_control_policy where
  "policy_only_fuel = policy_default\<lparr>price_fuel_unit := amount_from_micros 1\<rparr>"

definition policy_fuel_and_block :: resource_control_policy where
  "policy_fuel_and_block = policy_default
     \<lparr>price_block := amount_from_millis 1, price_fuel_unit := amount_from_micros 1\<rparr>"

definition policy_all_categories :: resource_control_policy where
  "policy_all_categories = policy_default
     \<lparr>price_block := amount_from_millis 1,
      price_fuel_unit := amount_from_nanos 1,
      price_byte_read := amount_from_attos 100,
      price_byte_written := amount_from_attos 1000,
      price_operation := amount_from_attos 10,
      price_operation_byte := amount_from_attos 1,
      price_message := amount_from_attos 10,
      price_message_byte := amount_from_attos 1\<rparr>"

definition policy_devnet :: resource_control_policy where
  "policy_devnet =
     \<lparr>price_block = amount_from_millis 1, price_fuel_unit = amount_from_nanos 10,
      price_read_operation = amount_from_micros 10, price_write_operation = amount_from_micros 20,
      price_byte_read = amount_from_nanos 10, price_byte_written = amount_from_nanos 100,
      price_byte_stored = amount_from_nanos 10, price_operation = amount_from_micros 10,
      price_operation_byte = amount_from_nanos 10, price_message = amount_from_micros 10,
      price_message_byte = amount_from_nanos 100,
      maximum_fuel_per_block = 100000000, maximum_executed_block_size = 1000000,
      maximum_bytecode_size = 10000000, maximum_blob_size = 1000000,
      maximum_block_proposal_size = 13000000, maximum_bytes_read_per_block = 100000000,
      maximum_bytes_written_per_block = 10000000\<rparr>"

subsection \<open>Prices are exact\<close>

lemmas price_defs = operation_bytes_price_def message_bytes_price_def read_operations_price_def
  write_operations_price_def bytes_read_price_def bytes_written_price_def bytes_stored_price_def
  fuel_price_def

lemma try_mul_ucast_Inr_iff [simp]:
  "LENGTH('b) \<le> LENGTH('a) \<Longrightarrow>
   (try_mul (p :: 'a::len word) (ucast (n :: 'b::len word)) = Inr a) = (unat a = unat p * unat n)"
  by (simp add: try_mul_def checked_mul_Some_iff unat_ucast_widen)

text \<open>The reference: the weighted sum of a resource vector over the natural numbers.\<close>

definition exact_price :: "resource_control_policy \<Rightarrow> resources \<Rightarrow> nat" where
  "exact_price self r =
     unat (price_fuel_unit self) * unat (r_fuel r)
     + unat (price_read_operation self) * unat (r_read_operations r)
     + unat (price_write_operation self) * unat (r_write_operations r)
     + unat (price_byte_read self) * unat (r_bytes_to_read r)
     + unat (price_byte_written self) * unat (r_bytes_to_write r)
     + unat (price_message self) * unat (r_messages r)
     + unat (price_message_byte self) * unat (r_message_size r)
     + unat (price_byte_stored self) * unat (r_storage_size_delta r)"

lemma unat_ex_less: "n < 2 ^ LENGTH('a) \<Longrightarrow> \<exists>w :: 'a::len word. unat w = n"
  by (rule exI [of _ "word_of_nat n"]) (simp add: unat_of_nat take_bit_nat_eq_self)

text \<open>The result of a checked computation whose exact value is \<open>n\<close>.\<close>

definition fit_amount :: "nat \<Rightarrow> (arithmetic_error, amount) res" where
  "fit_amount n = (if n < 2 ^ 128 then Inr (word_of_nat n) else Inl Overflow)"

lemma unat_word_of_nat_128: "n < 2 ^ 128 \<Longrightarrow> unat (word_of_nat n :: amount) = n"
  by (simp add: unat_of_nat take_bit_nat_eq_self)

lemma fit_amount_step:
  assumes "LENGTH('b) \<le> 128"
  shows "and_then (fit_amount n) (\<lambda>acc. and_then (try_mul p (ucast (c :: 'b::len word))) (\<lambda>q.
           and_then (try_add_assign acc q) f))
         = and_then (fit_amount (n + unat p * unat c)) f"
proof (cases "n < 2 ^ 128 \<and> unat p * unat c < 2 ^ 128")
  case True
  then obtain q :: amount where q: "unat p * unat c = unat q"
    using unat_ex_less [of "unat p * unat c", where 'a = 128] by (auto dest: sym)
  then have "try_mul p (ucast c) = Inr q"
    using assms by simp
  with True show ?thesis
    unfolding q by (auto simp: fit_amount_def try_add_assign_def checked_add_def unat_word_of_nat_128)
next
  case False
  then show ?thesis
    using assms
    by (auto simp: fit_amount_def try_mul_def checked_mul_def unat_ucast_widen)
qed

lemma fit_amount_0: "f 0 = and_then (fit_amount 0) f"
  by (simp add: fit_amount_def)

lemma and_then_Inr_id: "and_then r Inr = r"
  by (cases r) auto

text \<open>C12: The total price of a resource vector is its exact weighted sum; the only error is an
  overflow, and it is reported exactly when the sum does not fit an amount.\<close>

theorem total_price_exact:
  "total_price self r =
     (if exact_price self r < 2 ^ 128 then Inr (word_of_nat (exact_price self r)) else Inl Overflow)"
proof -
  have "total_price self r = and_then (fit_amount (exact_price self r)) Inr"
    unfolding total_price_def price_defs fit_amount_0 [where f = "\<lambda>a. and_then _ (\<lambda>q. and_then (try_add_assign a q) _)"]
    by (simp add: fit_amount_step exact_price_def unat_ucast_widen)
  then show ?thesis
    by (simp add: and_then_Inr_id fit_amount_def)
qed

text \<open>C13: \<open>remaining_fuel\<close> is exact: a balance pays for an amount of fuel (its price does not
  overflow and is at most the balance) if and only if that amount is at most the remaining fuel.\<close>

theorem remaining_fuel_exact:
  "(\<exists>price. fuel_price self fuel = Inr price \<and> price \<le> balance) \<longleftrightarrow> fuel \<le> remaining_fuel self balance"
proof -
  define u b f where "u = unat (price_fuel_unit self)" and "b = unat balance" and "f = unat fuel"
  have pays: "(\<exists>price. fuel_price self fuel = Inr price \<and> price \<le> balance) \<longleftrightarrow> u * f \<le> b"
  proof
    assume "u * f \<le> b"
    then obtain price :: amount where "unat price = u * f"
      using unat_ex_less [of "u * f", where 'a = 128] unat_bound [of balance] by (auto simp: b_def)
    with \<open>u * f \<le> b\<close> show "\<exists>price. fuel_price self fuel = Inr price \<and> price \<le> balance"
      by (auto simp: fuel_price_def word_le_nat_alt u_def f_def b_def)
  qed (auto simp: fuel_price_def word_le_nat_alt u_def f_def b_def)
  have bounds: "f < 2 ^ 64" "b < 2 ^ 128"
    using unat_bound [of fuel] unat_bound [of balance] by (auto simp: f_def b_def)
  show ?thesis
  proof (cases "u = 0")
    case True
    then show ?thesis
      by (simp add: pays remaining_fuel_def amount_saturating_div_def u_def unat_max_value
          try_from_nat_def unat_eq_zero)
  next
    case False
    then have "unat (amount_saturating_div balance (price_fuel_unit self)) = b div u"
      by (auto simp: amount_saturating_div_def u_def b_def unat_div)
    then have "fuel \<le> remaining_fuel self balance \<longleftrightarrow> f \<le> b div u"
      using bounds
      by (auto simp: remaining_fuel_def try_from_nat_def word_le_nat_alt f_def unat_of_nat
          take_bit_nat_eq_self unat_max_value)
    then show ?thesis
      using False by (simp add: pays less_eq_div_iff_mult_less_eq mult.commute)
  qed
qed

end
