(* ===== verification/Committee.thy ===== *)
theory Committee
  imports Policy Std_Maps
begin

section \<open>Committees and quorums (linera-execution/src/committee.rs)\<close>

text \<open>
  A committee: validators with voting rights, and the thresholds computed from them. The interface
  \<open>quorum_system\<close> states what the consensus relies on: two quorums overlap in more weight than the
  faulty validators may have, and the honest validators alone reach a quorum. Committees whose total
  voting power is below \<open>2 ^ 63\<close> implement it. The sums in \<open>Committee::new\<close> are machine sums and wrap
  around in release builds.
\<close>

type_synonym epoch = u32
type_synonym validator_name = public_key

record validator_state =
  network_address :: string
  votes :: u64

record committee =
  validators :: "(validator_name, validator_state) btree_map"
  total_votes :: u64
  quorum_threshold :: u64
  validity_threshold :: u64
  committee_policy :: resource_control_policy

definition epoch_try_add_one :: "epoch \<Rightarrow> (arithmetic_error, epoch) res" where
  "epoch_try_add_one self = ok_or (checked_add self 1) Overflow"

definition epoch_try_add_assign_one :: "epoch \<Rightarrow> (arithmetic_error, epoch) res" where
  "epoch_try_add_assign_one self = ok_or (checked_add self 1) Overflow"

definition committee_new ::
  "(validator_name, validator_state) btree_map \<Rightarrow> resource_control_policy \<Rightarrow> committee" where
  "committee_new vs policy =
     (let total = foldl (\<lambda>sum state. sum + votes state) 0 (bt_values vs)
      in \<lparr>validators = vs,
          total_votes = total,
          quorum_threshold = 2 * total div 3 + 1,
          validity_threshold = (total + 2) div 3,
          committee_policy = policy\<rparr>)"

definition weight :: "committee \<Rightarrow> validator_name \<Rightarrow> u64" where
  "weight self author =
     (case bt_get (validators self) author of Some state \<Rightarrow> votes state | None \<Rightarrow> 0)"

definition keys_and_weights :: "committee \<Rightarrow> (public_key \<times> u64) list" where
  "keys_and_weights self = map (\<lambda>(name, validator). (name, votes validator)) (validators self)"

definition committee_network_address :: "committee \<Rightarrow> validator_name \<Rightarrow> string option" where
  "committee_network_address self author =
     map_option network_address (bt_get (validators self) author)"

definition validator_addresses :: "committee \<Rightarrow> (validator_name \<times> string) list" where
  "validator_addresses self =
     map (\<lambda>(name, validator). (name, network_address validator)) (validators self)"

text \<open>The two serialised forms of a committee.\<close>

record committee_full =
  full_validators :: "(validator_name, validator_state) btree_map"
  full_total_votes :: u64
  full_quorum_threshold :: u64
  full_validity_threshold :: u64
  full_policy :: resource_control_policy

record committee_minimal =
  minimal_validators :: "(validator_name, validator_state) btree_map"
  minimal_policy :: resource_control_policy

datatype committee_error =
    InvalidTotalVotes u64 u64
  | InvalidQuorumThreshold u64 u64
  | InvalidValidityThreshold u64 u64

definition committee_try_from_full :: "committee_full \<Rightarrow> (committee_error, committee) res" where
  "committee_try_from_full full =
     (let c = committee_new (full_validators full) (full_policy full) in
      if full_total_votes full \<noteq> total_votes c
      then Inl (InvalidTotalVotes (full_total_votes full) (total_votes c))
      else if full_quorum_threshold full \<noteq> quorum_threshold c
      then Inl (InvalidQuorumThreshold (full_quorum_threshold full) (quorum_threshold c))
      else if full_validity_threshold full \<noteq> validity_threshold c
      then Inl (InvalidValidityThreshold (full_validity_threshold full) (validity_threshold c))
      else Inr c)"

definition committee_full_from :: "committee \<Rightarrow> committee_full" where
  "committee_full_from c =
     \<lparr>full_validators = validators c, full_total_votes = total_votes c,
      full_quorum_threshold = quorum_threshold c,
      full_validity_threshold = validity_threshold c, full_policy = committee_policy c\<rparr>"

definition committee_from_minimal :: "committee_minimal \<Rightarrow> committee" where
  "committee_from_minimal cm = committee_new (minimal_validators cm) (minimal_policy cm)"

definition committee_minimal_from :: "committee \<Rightarrow> committee_minimal" where
  "committee_minimal_from c =
     \<lparr>minimal_validators = validators c, minimal_policy = committee_policy c\<rparr>"

subsection \<open>Quorum systems\<close>

locale quorum_system =
  fixes invar :: "'c \<Rightarrow> bool"
    and members :: "'c \<Rightarrow> 'v set"
    and power :: "'c \<Rightarrow> 'v \<Rightarrow> nat"
    and quorum :: "'c \<Rightarrow> nat"
    and validity :: "'c \<Rightarrow> nat"
  assumes finite_members: "invar c \<Longrightarrow> finite (members c)"
    and overlap: "invar c \<Longrightarrow> sum (power c) (members c) + validity c \<le> 2 * quorum c"
    and available: "invar c \<Longrightarrow> quorum c + validity c = Suc (sum (power c) (members c))"
begin

lemma quorums_overlap:
  assumes "invar c" and "S \<subseteq> members c" and "T \<subseteq> members c"
    and "quorum c \<le> sum (power c) S" and "quorum c \<le> sum (power c) T"
  shows "validity c \<le> sum (power c) (S \<inter> T)"
proof -
  have fin: "finite S" "finite T"
    using assms finite_subset [OF _ finite_members] by blast+
  then have "sum (power c) (S \<union> T) + sum (power c) (S \<inter> T) = sum (power c) S + sum (power c) T"
    by (rule sum.union_inter)
  moreover have "sum (power c) (S \<union> T) \<le> sum (power c) (members c)"
    using assms finite_members by (intro sum_mono2) auto
  ultimately show ?thesis
    using assms overlap [of c] by linarith
qed

lemma honest_in_both:
  assumes "invar c" and "S \<subseteq> members c" and "T \<subseteq> members c"
    and "quorum c \<le> sum (power c) S" and "quorum c \<le> sum (power c) T"
    and "finite F" and "sum (power c) F < validity c"
  shows "\<exists>v. v \<in> S \<and> v \<in> T \<and> v \<notin> F"
proof (rule ccontr)
  assume "\<not> ?thesis"
  then have "S \<inter> T \<subseteq> F" by blast
  then have "sum (power c) (S \<inter> T) \<le> sum (power c) F"
    using assms(6) by (intro sum_mono2) auto
  with quorums_overlap [OF assms(1-5)] assms(7) show False by linarith
qed

lemma honest_in_one:
  assumes "invar c" and "S \<subseteq> members c" and "quorum c \<le> sum (power c) S"
    and "finite F" and "sum (power c) F < validity c"
  shows "\<exists>v. v \<in> S \<and> v \<notin> F"
  using honest_in_both [OF assms(1,2,2,3,3,4,5)] by blast

lemma honest_quorum:
  assumes "invar c" and "F \<subseteq> members c" and "sum (power c) F < validity c"
  shows "quorum c \<le> sum (power c) (members c - F)"
proof -
  have "sum (power c) (members c - F) + sum (power c) F = sum (power c) (members c)"
    using assms finite_members by (metis sum.subset_diff)
  with assms available [of c] show ?thesis by linarith
qed

end

subsection \<open>Committees implement a quorum system\<close>

definition committee_members :: "committee \<Rightarrow> validator_name set" where
  "committee_members c = fst ` set (validators c)"

definition committee_power :: "committee \<Rightarrow> validator_name \<Rightarrow> nat" where
  "committee_power c v = unat (weight c v)"

definition exact_votes :: "(validator_name, validator_state) btree_map \<Rightarrow> nat" where
  "exact_votes vs = sum_list (map (unat \<circ> votes \<circ> snd) vs)"

definition committee_wf :: "committee \<Rightarrow> bool" where
  "committee_wf c \<longleftrightarrow>
     bt_wf (validators c) \<and>
     exact_votes (validators c) < 2 ^ 63 \<and>
     c = committee_new (validators c) (committee_policy c)"

lemma committee_new_fields [simp]:
  "validators (committee_new vs p) = vs" "committee_policy (committee_new vs p) = p"
  by (simp_all add: committee_new_def Let_def)

lemma foldl_votes:
  assumes "unat acc + exact_votes vs < 2 ^ 64"
  shows "unat (foldl (\<lambda>sum state. sum + votes state) acc (map snd vs)) = unat acc + exact_votes vs"
  using assms
proof (induction vs arbitrary: acc)
  case (Cons kv vs)
  then have "unat (acc + votes (snd kv)) = unat acc + unat (votes (snd kv))"
    by (intro unat_add_exact) (simp add: exact_votes_def)
  with Cons show ?case by (simp add: exact_votes_def)
qed (simp add: exact_votes_def)

lemma sum_power_members:
  assumes "bt_wf (validators c)"
  shows "sum (committee_power c) (committee_members c) = exact_votes (validators c)"
proof -
  have d: "distinct (map fst (validators c))"
    using assms by (rule bt_wf_distinct)
  have "sum (committee_power c) (committee_members c)
      = sum_list (map (committee_power c) (map fst (validators c)))"
    using sum_list_distinct_conv_sum_set [OF d, of "committee_power c"]
    by (simp add: committee_members_def)
  also have "\<dots> = exact_votes (validators c)"
    unfolding exact_votes_def map_map
    using assms
    by (intro arg_cong [where f = sum_list] map_cong)
      (auto simp: committee_power_def weight_def bt_get_Some_iff [symmetric])
  finally show ?thesis .
qed

lemma committee_new_thresholds:
  assumes "exact_votes vs < 2 ^ 63"
  shows "unat (total_votes (committee_new vs p)) = exact_votes vs"
    and "unat (quorum_threshold (committee_new vs p)) = 2 * exact_votes vs div 3 + 1"
    and "unat (validity_threshold (committee_new vs p)) = (exact_votes vs + 2) div 3"
proof -
  define t :: u64 where "t = foldl (\<lambda>sum state. sum + votes state) 0 (bt_values vs)"
  have t: "unat t = exact_votes vs"
    using assms foldl_votes [of 0 vs] by (simp add: t_def bt_values_def)
  then show "unat (total_votes (committee_new vs p)) = exact_votes vs"
    by (simp add: committee_new_def Let_def t_def)
  have "unat (2 * t) = 2 * unat t"
    using assms t unat_mult_exact [of 2 t] by simp
  then have "unat (2 * t div 3 + 1) = 2 * exact_votes vs div 3 + 1"
    using assms t unat_add_exact [of "2 * t div 3" 1] by (simp add: unat_div)
  then show "unat (quorum_threshold (committee_new vs p)) = 2 * exact_votes vs div 3 + 1"
    by (simp add: committee_new_def Let_def t_def)
  have "unat (t + 2) = unat t + 2"
    using assms t unat_add_exact [of t 2] by simp
  then have "unat ((t + 2) div 3) = (exact_votes vs + 2) div 3"
    by (simp add: unat_div t)
  then show "unat (validity_threshold (committee_new vs p)) = (exact_votes vs + 2) div 3"
    by (simp add: committee_new_def Let_def t_def)
qed

lemma committee_new_wrapped:
  assumes "2 ^ 63 \<le> exact_votes vs" and "exact_votes vs < 2 ^ 64"
  shows "unat (quorum_threshold (committee_new vs p)) = (2 * exact_votes vs - 2 ^ 64) div 3 + 1"
proof -
  define t :: u64 where "t = foldl (\<lambda>sum state. sum + votes state) 0 (bt_values vs)"
  have t: "unat t = exact_votes vs"
    using assms foldl_votes [of 0 vs] by (simp add: t_def bt_values_def)
  have "unat (2 * t) = 2 * unat t mod 2 ^ 64"
    by (simp add: unat_word_ariths)
  also have "\<dots> = 2 * exact_votes vs - 2 ^ 64"
    using assms t by (simp add: le_mod_geq)
  finally have d: "unat (2 * t div 3) = (2 * exact_votes vs - 2 ^ 64) div 3"
    by (simp add: unat_div)
  then have "unat (2 * t div 3 + 1) = (2 * exact_votes vs - 2 ^ 64) div 3 + 1"
    using assms by (subst unat_add_exact) auto
  then show ?thesis
    by (simp add: committee_new_def Let_def t_def)
qed

lemma committee_thresholds:
  assumes "committee_wf c"
  shows "unat (total_votes c) = exact_votes (validators c)"
    and "unat (quorum_threshold c) = 2 * exact_votes (validators c) div 3 + 1"
    and "unat (validity_threshold c) = (exact_votes (validators c) + 2) div 3"
  using assms committee_new_thresholds [of "validators c" "committee_policy c"]
  by (auto simp: committee_wf_def)

interpretation cq: quorum_system committee_wf committee_members committee_power
  "\<lambda>c. unat (quorum_threshold c)" "\<lambda>c. unat (validity_threshold c)"
proof
  fix c assume wf: "committee_wf c"
  show "finite (committee_members c)"
    by (simp add: committee_members_def)
  have s: "sum (committee_power c) (committee_members c) = exact_votes (validators c)"
    using wf by (simp add: sum_power_members committee_wf_def)
  show "sum (committee_power c) (committee_members c) + unat (validity_threshold c)
      \<le> 2 * unat (quorum_threshold c)"
    unfolding s committee_thresholds [OF wf] by presburger
  show "unat (quorum_threshold c) + unat (validity_threshold c)
      = Suc (sum (committee_power c) (committee_members c))"
    unfolding s committee_thresholds [OF wf] by presburger
qed

lemma committee_new_wf: "bt_wf vs \<Longrightarrow> exact_votes vs < 2 ^ 63 \<Longrightarrow> committee_wf (committee_new vs p)"
  by (simp add: committee_wf_def committee_new_def Let_def)

lemma weight_outside: "v \<notin> committee_members c \<Longrightarrow> weight c v = 0"
  by (auto simp: weight_def committee_members_def split: option.splits)
    (metis bt_get_None_iff option.distinct(1))

subsection \<open>Properties\<close>

text \<open>C8: Quorum intersection for committees built by \<open>Committee::new\<close> with total voting power
  below \<open>2 ^ 63\<close>: whenever the faulty validators have less than the validity threshold, two sets of
  validators that reach the quorum threshold share a non-faulty member, and the non-faulty validators
  on their own reach the quorum threshold.\<close>

theorem committee_quorum_intersection:
  assumes "c = committee_new vs p" and "bt_wf vs" and "exact_votes vs < 2 ^ 63"
    and "F \<subseteq> committee_members c"
    and "sum (committee_power c) F < unat (validity_threshold c)"
  shows "unat (quorum_threshold c) \<le> sum (committee_power c) (committee_members c - F)
    \<and> (S \<subseteq> committee_members c \<and> T \<subseteq> committee_members c
       \<and> unat (quorum_threshold c) \<le> sum (committee_power c) S
       \<and> unat (quorum_threshold c) \<le> sum (committee_power c) T
       \<longrightarrow> (\<exists>v. v \<in> S \<and> v \<in> T \<and> v \<notin> F))"
proof -
  have wf: "committee_wf c"
    using assms by (simp add: committee_new_wf)
  moreover have "finite F"
    using assms(4) cq.finite_members [OF wf] by (rule finite_subset)
  ultimately show ?thesis
    using assms cq.honest_quorum cq.honest_in_both by blast
qed

definition four_validators :: "(validator_name, validator_state) btree_map" where
  "four_validators = map (\<lambda>k. (k, \<lparr>network_address = [], votes = 1\<rparr>)) [1, 2, 3, 4]"

lemmas four_validators_eval = four_validators_def committee_new_def bt_values_def
  committee_members_def committee_power_def weight_def bt_get_def

theorem committee_quorum_intersection_witness:
  "(let c = committee_new four_validators policy_default in
     bt_wf four_validators \<and> exact_votes four_validators < 2 ^ 63
     \<and> sum (committee_power c) {4} < unat (validity_threshold c)
     \<and> unat (quorum_threshold c) \<le> sum (committee_power c) {1, 2, 3}
     \<and> unat (quorum_threshold c) \<le> sum (committee_power c) {2, 3, 4}
     \<and> (\<exists>v :: validator_name. v \<in> {1, 2, 3} \<and> v \<in> {2, 3, 4} \<and> v \<notin> {4}))"
  using committee_quorum_intersection
    [where c = "committee_new four_validators policy_default" and vs = four_validators
      and p = policy_default and F = "{4}" and S = "{1, 2, 3}" and T = "{2, 3, 4}"]
  by (simp add: four_validators_eval exact_votes_def Let_def)

definition overflow_validators :: "(validator_name, validator_state) btree_map" where
  "overflow_validators =
     [(1, \<lparr>network_address = [], votes = 2 ^ 62\<rparr>), (2, \<lparr>network_address = [], votes = 2 ^ 62\<rparr>)]"



text \<open>C17: The full serialised form of a committee is accepted exactly when its three sums are the
  ones \<open>Committee::new\<close> computes, and then it decodes to that committee; the minimal form always
  does.\<close>

theorem committee_decoding:
  "(committee_try_from_full f = Inr c \<longleftrightarrow>
      c = committee_new (full_validators f) (full_policy f) \<and> f = committee_full_from c)
   \<and> committee_from_minimal (committee_minimal_from (committee_new vs p)) = committee_new vs p"
  by (cases f)
    (auto simp: committee_try_from_full_def committee_full_from_def committee_from_minimal_def
      committee_minimal_from_def Let_def split: if_splits)

end
