(* ===== verification/Execution_Types.thy ===== *)
theory Execution_Types
  imports Ownership Committee
begin

section \<open>Operations, messages and execution outcomes (linera-execution/src/lib.rs, system.rs)\<close>

text \<open>
  The data exchanged between the execution layer and the chain: system operations and messages,
  message kinds, raw outgoing messages with their grants, and execution outcomes. The bytes of user
  operations and messages are opaque.
\<close>

datatype channel_subscription =
  ChannelSubscription (subscription_chain_id: chain_id) (subscription_name: channel_name)

datatype system_channel = AdminChannel

datatype recipient = Burn | RecipientAccount account

definition recipient_chain :: "chain_id \<Rightarrow> recipient" where
  "recipient_chain cid = RecipientAccount (account_chain cid)"

record open_chain_config =
  occ_ownership :: chain_ownership
  occ_admin_id :: chain_id
  occ_epoch :: epoch
  occ_committees :: "(epoch, committee) btree_map"
  occ_balance :: amount
  occ_application_permissions :: application_permissions

datatype admin_operation =
    AdminCreateCommittee epoch committee
  | AdminRemoveCommittee epoch

datatype system_operation =
    OpTransfer "owner option" recipient amount
  | OpClaim owner chain_id recipient amount
  | OpOpenChain open_chain_config
  | OpCloseChain
  | OpChangeOwnership "public_key list" "(public_key \<times> u64) list" u32 timeout_config
  | OpChangeApplicationPermissions application_permissions
  | OpSubscribe chain_id system_channel
  | OpUnsubscribe chain_id system_channel
  | OpPublishBytecode bytecode_id
  | OpPublishDataBlob crypto_hash
  | OpReadBlob blob_id
  | OpCreateApplication bytecode_id bytes bytes "application_id list"
  | OpRequestApplication chain_id application_id
  | OpAdmin admin_operation

datatype system_message =
    Credit "account_owner option" amount "account_owner option"
  | Withdraw account_owner amount recipient
  | OpenChain open_chain_config
  | CreateCommittee epoch committee
  | RemoveCommittee epoch
  | Subscribe chain_id channel_subscription
  | Unsubscribe chain_id channel_subscription
  | ApplicationCreated
  | RegisterApplications "user_application_description list"
  | RequestApplication application_id

datatype operation = SystemOp system_operation | UserOp application_id bytes

datatype message = SystemMsg system_message | UserMsg application_id bytes

datatype message_kind = Simple | Protected | Tracked | Bouncing

fun operation_application_id :: "operation \<Rightarrow> generic_application_id" where
  "operation_application_id (SystemOp op) = SystemApp"
| "operation_application_id (UserOp app bs) = UserApp app"

fun message_application_id :: "message \<Rightarrow> generic_application_id" where
  "message_application_id (SystemMsg m) = SystemApp"
| "message_application_id (UserMsg app bs) = UserApp app"

fun message_goes_to_inbox :: "message \<Rightarrow> bool" where
  "message_goes_to_inbox (SystemMsg (Subscribe cid s)) = False"
| "message_goes_to_inbox (SystemMsg (Unsubscribe cid s)) = False"
| "message_goes_to_inbox m = True"

fun matches_subscribe :: "message \<Rightarrow> (chain_id \<times> channel_subscription) option" where
  "matches_subscribe (SystemMsg (Subscribe cid s)) = Some (cid, s)"
| "matches_subscribe m = None"

fun matches_unsubscribe :: "message \<Rightarrow> (chain_id \<times> channel_subscription) option" where
  "matches_unsubscribe (SystemMsg (Unsubscribe cid s)) = Some (cid, s)"
| "matches_unsubscribe m = None"

fun matches_open_chain :: "message \<Rightarrow> open_chain_config option" where
  "matches_open_chain (SystemMsg (OpenChain config)) = Some config"
| "matches_open_chain m = None"

subsection \<open>Outcomes\<close>

record ('m, 'g) raw_outgoing_message =
  rom_destination :: destination
  rom_authenticated :: bool
  rom_grant :: 'g
  rom_kind :: message_kind
  rom_message :: 'm

record ('m, 'g) raw_execution_outcome =
  reo_authenticated_signer :: "owner option"
  reo_refund_grant_to :: "account option"
  reo_messages :: "('m, 'g) raw_outgoing_message list"
  reo_events :: "(stream_name \<times> bytes \<times> bytes) list"
  reo_subscribe :: "(channel_name \<times> chain_id) list"
  reo_unsubscribe :: "(channel_name \<times> chain_id) list"

record 'm send_message_request =
  smr_destination :: destination
  smr_authenticated :: bool
  smr_is_tracked :: bool
  smr_grant :: resources
  smr_message :: 'm

definition raw_outgoing_from_request ::
  "'m send_message_request \<Rightarrow> ('m, resources) raw_outgoing_message" where
  "raw_outgoing_from_request request =
     \<lparr>rom_destination = smr_destination request,
      rom_authenticated = smr_authenticated request,
      rom_grant = smr_grant request,
      rom_kind = (if smr_is_tracked request then Tracked else Simple),
      rom_message = smr_message request\<rparr>"

datatype execution_outcome =
    SystemOutcome "(system_message, amount) raw_execution_outcome"
  | UserOutcome application_id "(bytes, amount) raw_execution_outcome"

fun outcome_application_id :: "execution_outcome \<Rightarrow> generic_application_id" where
  "outcome_application_id (SystemOutcome out) = SystemApp"
| "outcome_application_id (UserOutcome app out) = UserApp app"

fun message_count :: "execution_outcome \<Rightarrow> nat" where
  "message_count (SystemOutcome out) = length (reo_messages out)"
| "message_count (UserOutcome app out) = length (reo_messages out)"

definition outcome_default :: "('m, 'g) raw_execution_outcome" where
  "outcome_default =
     \<lparr>reo_authenticated_signer = None, reo_refund_grant_to = None, reo_messages = [],
      reo_events = [], reo_subscribe = [], reo_unsubscribe = []\<rparr>"

definition with_authenticated_signer ::
  "('m, 'g) raw_execution_outcome \<Rightarrow> owner option \<Rightarrow> ('m, 'g) raw_execution_outcome" where
  "with_authenticated_signer self signer = self\<lparr>reo_authenticated_signer := signer\<rparr>"

definition with_refund_grant_to ::
  "('m, 'g) raw_execution_outcome \<Rightarrow> account option \<Rightarrow> ('m, 'g) raw_execution_outcome" where
  "with_refund_grant_to self acc = self\<lparr>reo_refund_grant_to := acc\<rparr>"

definition with_message ::
  "('m, 'g) raw_execution_outcome \<Rightarrow> ('m, 'g) raw_outgoing_message \<Rightarrow> ('m, 'g) raw_execution_outcome" where
  "with_message self m = self\<lparr>reo_messages := reo_messages self @ [m]\<rparr>"

definition outgoing_into_priced ::
  "resource_control_policy \<Rightarrow> ('m, resources) raw_outgoing_message \<Rightarrow>
   (arithmetic_error, ('m, amount) raw_outgoing_message) res" where
  "outgoing_into_priced policy self =
     and_then (total_price policy (rom_grant self)) (\<lambda>g.
       Inr \<lparr>rom_destination = rom_destination self, rom_authenticated = rom_authenticated self,
            rom_grant = g, rom_kind = rom_kind self, rom_message = rom_message self\<rparr>)"

text \<open>\<open>collect::<Result<_, _>>()\<close>: the first error, or all the values.\<close>

fun collect_results :: "('a \<Rightarrow> ('e, 'b) res) \<Rightarrow> 'a list \<Rightarrow> ('e, 'b list) res" where
  "collect_results f [] = Inr []"
| "collect_results f (x # xs) =
     and_then (f x) (\<lambda>y. and_then (collect_results f xs) (\<lambda>ys. Inr (y # ys)))"

definition outcome_into_priced ::
  "resource_control_policy \<Rightarrow> ('m, resources) raw_execution_outcome \<Rightarrow>
   (arithmetic_error, ('m, amount) raw_execution_outcome) res" where
  "outcome_into_priced policy self =
     and_then (collect_results (outgoing_into_priced policy) (reo_messages self)) (\<lambda>msgs.
       Inr \<lparr>reo_authenticated_signer = reo_authenticated_signer self,
            reo_refund_grant_to = reo_refund_grant_to self,
            reo_messages = msgs,
            reo_events = reo_events self,
            reo_subscribe = reo_subscribe self,
            reo_unsubscribe = reo_unsubscribe self\<rparr>)"

subsection \<open>Contexts\<close>

record operation_context =
  oc_chain_id :: chain_id
  oc_authenticated_signer :: "owner option"
  oc_authenticated_caller_id :: "application_id option"
  oc_height :: block_height
  oc_index :: "u32 option"

record message_context =
  mc_chain_id :: chain_id
  mc_is_bouncing :: bool
  mc_authenticated_signer :: "owner option"
  mc_refund_grant_to :: "account option"
  mc_height :: block_height
  mc_certificate_hash :: crypto_hash
  mc_message_id :: message_id

definition oc_refund_grant_to :: "operation_context \<Rightarrow> account option" where
  "oc_refund_grant_to self =
     Some (Account (oc_chain_id self) (map_option AccountUser (oc_authenticated_signer self)))"

definition next_message_id :: "operation_context \<Rightarrow> u32 \<Rightarrow> message_id" where
  "next_message_id self next_message_index =
     MessageId (oc_chain_id self) (oc_height self) next_message_index"

subsection \<open>Errors\<close>

text \<open>Storage errors (\<open>ViewError\<close>) other than missing blobs are opaque. The errors of the Wasm
  runtimes, of HTTP, JSON and I/O are reported by user code only and are one constructor.
  \<open>SysPanicked\<close> stands for a panic, a failed \<open>expect\<close> or \<open>assert!\<close>, and is no value of the code's type.\<close>

datatype system_execution_error =
    SysArithmeticError arithmetic_error
  | SysViewError
  | InvalidNewChainAdminId chain_id
  | InvalidCommittees
  | InvalidEpoch chain_id epoch
  | IncorrectTransferAmount
  | UnauthenticatedTransferOwner
  | InsufficientFunding amount
  | InsufficientFundingForFees amount
  | IncorrectClaimAmount
  | UnauthenticatedClaimOwner
  | AdminOperationOnNonAdminChain
  | InvalidCommitteeCreation
  | InvalidCommitteeRemoval
  | InvalidAdminSubscription chain_id system_channel
  | SelfSubscription chain_id system_channel
  | AlreadySubscribedToChannel chain_id system_channel
  | InvalidUnsubscription chain_id system_channel
  | AmountOverflow
  | AmountUnderflow
  | BalanceOverflow
  | BalanceUnderflow
  | CannotRewindEpoch
  | TicksOutOfOrder
  | UnknownApplicationId application_id
  | SysInactiveChain
  | SysBlobsNotFound "blob_id list"
  | SysOracleResponseMismatch
  | MissingOracleResponse
  | SysPanicked

datatype execution_error =
    ExViewError
  | ExArithmeticError arithmetic_error
  | ExSystemError system_execution_error
  | UserError string
  | RuntimeError
  | ExcessiveRead
  | ExcessiveWrite
  | MaximumFuelExceeded
  | ExecutedBlockTooLarge
  | UnauthorizedApplication application_id
  | UnexpectedOracleResponse
  | ExOracleResponseMismatch
  | ExBlobsNotFound "blob_id list"

fun execution_error_from_system :: "system_execution_error \<Rightarrow> execution_error" where
  "execution_error_from_system (SysBlobsNotFound ids) = ExBlobsNotFound ids"
| "execution_error_from_system err = ExSystemError err"

lemma collect_results_Inr_iff:
  "collect_results f xs = Inr ys \<longleftrightarrow> list_all2 (\<lambda>x y. f x = Inr y) xs ys"
  by (induction xs arbitrary: ys) (auto simp: list_all2_Cons1)

end
