(* ===== verification/Chain_Types.thy ===== *)
theory Chain_Types
  imports Execution_Types
begin

section \<open>Blocks, bundles and votes (linera-chain/src/data_types.rs, block.rs, lib.rs)\<close>

text \<open>
  The data of the chain layer: blocks and their execution outcomes, cross-chain message bundles with
  their origins and targets, proposals and votes. \<open>usize\<close> lengths are natural numbers; the 32-bit
  message and transaction indices are words and wrap as in the code. A hash-carrying value
  (\<open>Hashed<T>\<close>) is a record of the value and its hash. The sets of blob identifiers are sets.
\<close>

datatype message_action = Accept | Reject

datatype channel_full_name =
  ChannelFullName (channel_application_id: generic_application_id) (channel_name_of: channel_name)

datatype medium = Direct | Channel channel_full_name

datatype origin = Origin (origin_sender: chain_id) (origin_medium: medium)

datatype target = Target (target_recipient: chain_id) (target_medium: medium)

definition origin_chain :: "chain_id \<Rightarrow> origin" where
  "origin_chain sender = Origin sender Direct"

definition origin_channel :: "chain_id \<Rightarrow> channel_full_name \<Rightarrow> origin" where
  "origin_channel sender name = Origin sender (Channel name)"

definition target_chain :: "chain_id \<Rightarrow> target" where
  "target_chain recipient = Target recipient Direct"

definition target_channel :: "chain_id \<Rightarrow> channel_full_name \<Rightarrow> target" where
  "target_channel recipient name = Target recipient (Channel name)"

record posted_message =
  pm_authenticated_signer :: "owner option"
  pm_grant :: amount
  pm_refund_grant_to :: "account option"
  pm_kind :: message_kind
  pm_index :: u32
  pm_message :: message

record outgoing_message =
  om_destination :: destination
  om_authenticated_signer :: "owner option"
  om_grant :: amount
  om_refund_grant_to :: "account option"
  om_kind :: message_kind
  om_message :: message

record message_bundle =
  mb_height :: block_height
  mb_timestamp :: timestamp
  mb_certificate_hash :: crypto_hash
  mb_transaction_index :: u32
  mb_messages :: "posted_message list"

record incoming_bundle =
  ib_origin :: origin
  ib_bundle :: message_bundle
  ib_action :: message_action

record block =
  block_chain_id :: chain_id
  block_epoch :: epoch
  incoming_bundles :: "incoming_bundle list"
  operations :: "operation list"
  block_height_of :: block_height
  block_timestamp :: timestamp
  block_authenticated_signer :: "owner option"
  previous_block_hash :: "crypto_hash option"

record event_record =
  er_stream_id :: stream_id
  er_key :: bytes
  er_value :: bytes

record block_execution_outcome =
  beo_messages :: "outgoing_message list list"
  state_hash :: crypto_hash
  oracle_responses :: "oracle_response list list"
  beo_events :: "event_record list list"

record executed_block =
  eb_block :: block
  eb_outcome :: block_execution_outcome

datatype transaction = ReceiveMessages incoming_bundle | ExecuteOperation operation

datatype chain_and_height = ChainAndHeight (cah_chain_id: chain_id) (cah_height: block_height)

definition to_message_id :: "chain_and_height \<Rightarrow> u32 \<Rightarrow> message_id" where
  "to_message_id self index = MessageId (cah_chain_id self) (cah_height self) index"

subsection \<open>Block operations\<close>

definition operation_published_blob_ids :: "operation \<Rightarrow> blob_id set" where
  "operation_published_blob_ids op =
     (case op of
        SystemOp (OpPublishDataBlob hash) \<Rightarrow> {BlobId BlobData hash}
      | SystemOp (OpPublishBytecode bid) \<Rightarrow>
          {BlobId BlobContractBytecode (contract_blob_hash bid),
           BlobId BlobServiceBytecode (service_blob_hash bid)}
      | _ \<Rightarrow> {})"

definition published_blob_ids :: "block \<Rightarrow> blob_id set" where
  "published_blob_ids self =
     foldl (\<lambda>blob_ids op. blob_ids \<union> operation_published_blob_ids op) {} (operations self)"

definition has_only_rejected_messages :: "block \<Rightarrow> bool" where
  "has_only_rejected_messages self \<longleftrightarrow>
     operations self = [] \<and> list_all (\<lambda>ib. ib_action ib = Reject) (incoming_bundles self)"

definition incoming_messages :: "block \<Rightarrow> posted_message list" where
  "incoming_messages self = concat (map (mb_messages \<circ> ib_bundle) (incoming_bundles self))"

definition block_message_count :: "block \<Rightarrow> nat" where
  "block_message_count self = sum_list (map (length \<circ> mb_messages \<circ> ib_bundle) (incoming_bundles self))"

text \<open>\<open>(0u32..).zip(xs)\<close>: the index wraps around at 32 bits.\<close>

fun zip_from :: "u32 \<Rightarrow> 'a list \<Rightarrow> (u32 \<times> 'a) list" where
  "zip_from i [] = []"
| "zip_from i (x # xs) = (i, x) # zip_from (i + 1) xs"

definition transactions :: "block \<Rightarrow> (u32 \<times> transaction) list" where
  "transactions self =
     zip_from 0 (map ReceiveMessages (incoming_bundles self) @ map ExecuteOperation (operations self))"

definition starts_with_open_chain_message ::
  "block \<Rightarrow> (incoming_bundle \<times> posted_message \<times> open_chain_config) option" where
  "starts_with_open_chain_message self =
     (case incoming_bundles self of
        [] \<Rightarrow> None
      | in_bundle # _ \<Rightarrow>
          if ib_action in_bundle \<noteq> Accept then None
          else (case mb_messages (ib_bundle in_bundle) of
                  [] \<Rightarrow> None
                | posted # _ \<Rightarrow>
                    map_option (\<lambda>config. (in_bundle, posted, config))
                      (matches_open_chain (pm_message posted))))"

definition messages_and_ids :: "incoming_bundle \<Rightarrow> (message_id \<times> posted_message) list" where
  "messages_and_ids self =
     (let chain_and_height = ChainAndHeight (origin_sender (ib_origin self)) (mb_height (ib_bundle self))
      in map (\<lambda>posted. (to_message_id chain_and_height (pm_index posted), posted))
           (mb_messages (ib_bundle self)))"

definition bundle_opens_chain :: "incoming_bundle \<Rightarrow> bool" where
  "bundle_opens_chain ib =
     (case mb_messages (ib_bundle ib) of
        [] \<Rightarrow> False
      | posted # _ \<Rightarrow> matches_open_chain (pm_message posted) \<noteq> None)"

text \<open>\<open>position\<close> and \<open>bundles[0..=index].rotate_right(1)\<close>.\<close>

fun position :: "('a \<Rightarrow> bool) \<Rightarrow> 'a list \<Rightarrow> nat option" where
  "position p [] = None"
| "position p (x # xs) = (if p x then Some 0 else map_option Suc (position p xs))"

definition put_openchain_at_front :: "incoming_bundle list \<Rightarrow> incoming_bundle list \<times> bool" where
  "put_openchain_at_front bundles =
     (case position bundle_opens_chain bundles of
        None \<Rightarrow> (bundles, False)
      | Some index \<Rightarrow> (bundles ! index # take index bundles @ drop (Suc index) bundles, True))"

subsection \<open>Messages\<close>

definition has_destination :: "outgoing_message \<Rightarrow> medium \<Rightarrow> chain_id \<Rightarrow> bool" where
  "has_destination self medium recipient =
     (case (om_destination self, medium) of
        (Recipient cid, Channel _) \<Rightarrow> False
      | (Subscribers _, Direct) \<Rightarrow> False
      | (Recipient cid, Direct) \<Rightarrow> cid = recipient
      | (Subscribers dest_name, Channel (ChannelFullName application_id name)) \<Rightarrow>
          application_id = message_application_id (om_message self) \<and> name = dest_name)"

definition into_posted :: "outgoing_message \<Rightarrow> u32 \<Rightarrow> posted_message" where
  "into_posted self index =
     \<lparr>pm_authenticated_signer = om_authenticated_signer self, pm_grant = om_grant self,
      pm_refund_grant_to = om_refund_grant_to self, pm_kind = om_kind self, pm_index = index,
      pm_message = om_message self\<rparr>"

definition pm_is_skippable :: "posted_message \<Rightarrow> bool" where
  "pm_is_skippable self =
     (case pm_kind self of
        Protected \<Rightarrow> False | Tracked \<Rightarrow> False
      | Simple \<Rightarrow> pm_grant self = 0 | Bouncing \<Rightarrow> pm_grant self = 0)"

definition pm_is_protected :: "posted_message \<Rightarrow> bool" where
  "pm_is_protected self \<longleftrightarrow> pm_kind self = Protected"

definition pm_is_tracked :: "posted_message \<Rightarrow> bool" where
  "pm_is_tracked self \<longleftrightarrow> pm_kind self = Tracked"

definition pm_is_bouncing :: "posted_message \<Rightarrow> bool" where
  "pm_is_bouncing self \<longleftrightarrow> pm_kind self = Bouncing"

definition mb_is_skippable :: "message_bundle \<Rightarrow> bool" where
  "mb_is_skippable self = list_all pm_is_skippable (mb_messages self)"

fun is_tracked_loop :: "bool \<Rightarrow> posted_message list \<Rightarrow> bool" where
  "is_tracked_loop tracked [] = tracked"
| "is_tracked_loop tracked (m # ms) =
     (case pm_kind m of
        Simple \<Rightarrow> is_tracked_loop tracked ms
      | Bouncing \<Rightarrow> is_tracked_loop tracked ms
      | Protected \<Rightarrow> False
      | Tracked \<Rightarrow> is_tracked_loop True ms)"

definition mb_is_tracked :: "message_bundle \<Rightarrow> bool" where
  "mb_is_tracked self = is_tracked_loop False (mb_messages self)"

definition mb_is_protected :: "message_bundle \<Rightarrow> bool" where
  "mb_is_protected self = list_ex pm_is_protected (mb_messages self)"

definition mb_goes_to_inbox :: "message_bundle \<Rightarrow> bool" where
  "mb_goes_to_inbox self = list_ex (\<lambda>m. message_goes_to_inbox (pm_message m)) (mb_messages self)"

subsection \<open>Executed blocks\<close>

text \<open>\<open>message_bundles_for\<close>: the closure keeps the running message index; \<open>filter_map\<close> drops the
  transactions without a message for the recipient.\<close>

definition posted_for :: "medium \<Rightarrow> chain_id \<Rightarrow> u32 \<Rightarrow> outgoing_message list \<Rightarrow> posted_message list" where
  "posted_for medium recipient index txn_messages =
     map (\<lambda>(idx, m). into_posted m idx)
       (filter (\<lambda>(_, m). has_destination m medium recipient) (zip_from index txn_messages))"

fun message_bundles_loop ::
  "block \<Rightarrow> medium \<Rightarrow> chain_id \<Rightarrow> crypto_hash \<Rightarrow> u32 \<Rightarrow> (u32 \<times> outgoing_message list) list
   \<Rightarrow> (epoch \<times> message_bundle) list" where
  "message_bundles_loop b medium recipient hash index [] = []"
| "message_bundles_loop b medium recipient hash index ((transaction_index, txn_messages) # rest) =
     (let msgs = posted_for medium recipient index txn_messages;
          tail = message_bundles_loop b medium recipient hash
                   (index + word_of_nat (length txn_messages)) rest
      in if msgs = [] then tail
         else (block_epoch b,
               \<lparr>mb_height = block_height_of b, mb_timestamp = block_timestamp b,
                mb_certificate_hash = hash, mb_transaction_index = transaction_index,
                mb_messages = msgs\<rparr>) # tail)"

definition message_bundles_for ::
  "executed_block \<Rightarrow> medium \<Rightarrow> chain_id \<Rightarrow> crypto_hash \<Rightarrow> (epoch \<times> message_bundle) list" where
  "message_bundles_for self medium recipient certificate_hash =
     message_bundles_loop (eb_block self) medium recipient certificate_hash 0
       (zip_from 0 (beo_messages (eb_outcome self)))"

definition eb_message_id :: "executed_block \<Rightarrow> u32 \<Rightarrow> message_id" where
  "eb_message_id self index =
     MessageId (block_chain_id (eb_block self)) (block_height_of (eb_block self)) index"

text \<open>\<open>get\<close> on a slice.\<close>

definition get_at :: "'a list \<Rightarrow> nat \<Rightarrow> 'a option" where
  "get_at xs i = (if i < length xs then Some (xs ! i) else None)"

definition message_id_for_operation :: "executed_block \<Rightarrow> nat \<Rightarrow> u32 \<Rightarrow> message_id option" where
  "message_id_for_operation self operation_index message_index =
     (let transaction_index = length (incoming_bundles (eb_block self)) + operation_index;
          msgs = beo_messages (eb_outcome self)
      in case get_at msgs transaction_index of
           None \<Rightarrow> None
         | Some txn \<Rightarrow>
             (case (try_from_nat (length txn) :: u32 option) of
                None \<Rightarrow> None
              | Some len \<Rightarrow>
                  if message_index \<ge> len then None
                  else (case (try_from_nat (sum_list (map length (take transaction_index msgs))) :: u32 option) of
                          None \<Rightarrow> None
                        | Some first_message_index \<Rightarrow>
                            map_option (eb_message_id self)
                              (checked_add first_message_index message_index))))"

fun message_by_index :: "outgoing_message list list \<Rightarrow> nat \<Rightarrow> outgoing_message option" where
  "message_by_index [] index = None"
| "message_by_index (msgs # rest) index =
     (case get_at msgs index of
        Some m \<Rightarrow> Some m
      | None \<Rightarrow> message_by_index rest (index - length msgs))"

definition message_by_id :: "executed_block \<Rightarrow> message_id \<Rightarrow> outgoing_message option" where
  "message_by_id self mid =
     (if block_chain_id (eb_block self) \<noteq> mid_chain_id mid \<or>
         block_height_of (eb_block self) \<noteq> mid_height mid
      then None
      else message_by_index (beo_messages (eb_outcome self)) (unat (mid_index mid)))"

definition oracle_blob_ids :: "block_execution_outcome \<Rightarrow> blob_id set" where
  "oracle_blob_ids self =
     set (List.map_filter (\<lambda>r. case r of OracleBlob bid \<Rightarrow> Some bid | _ \<Rightarrow> None)
       (concat (oracle_responses self)))"

definition has_oracle_responses :: "block_execution_outcome \<Rightarrow> bool" where
  "has_oracle_responses self = list_ex (\<lambda>responses. responses \<noteq> []) (oracle_responses self)"

definition required_blob_ids :: "executed_block \<Rightarrow> blob_id set" where
  "required_blob_ids self = oracle_blob_ids (eb_outcome self) \<union> published_blob_ids (eb_block self)"

definition requires_blob :: "executed_block \<Rightarrow> blob_id \<Rightarrow> bool" where
  "requires_blob self bid \<longleftrightarrow>
     bid \<in> oracle_blob_ids (eb_outcome self) \<or> bid \<in> published_blob_ids (eb_block self)"

subsection \<open>Message indices\<close>

lemma zip_from_append:
  "zip_from i (xs @ ys) = zip_from i xs @ zip_from (i + word_of_nat (length xs)) ys"
  by (induction i xs rule: zip_from.induct) (simp_all add: add.assoc)

lemma length_zip_from [simp]: "length (zip_from i xs) = length xs"
  by (induction i xs rule: zip_from.induct) simp_all

lemma map_snd_zip_from [simp]: "map snd (zip_from i xs) = xs"
  by (induction i xs rule: zip_from.induct) simp_all

lemma zip_from_nth: "k < length xs \<Longrightarrow> zip_from i xs ! k = (i + word_of_nat k, xs ! k)"
proof (induction i xs arbitrary: k rule: zip_from.induct)
  case (2 i x xs)
  then show ?case by (cases k) (simp_all add: add.assoc)
qed simp

lemma posted_for_append:
  "posted_for medium recipient i (xs @ ys) =
     posted_for medium recipient i xs @ posted_for medium recipient (i + word_of_nat (length xs)) ys"
  by (simp add: posted_for_def zip_from_append)

lemma message_by_index_concat: "message_by_index msgs i = get_at (concat msgs) i"
proof (induction msgs i rule: message_by_index.induct)
  case (2 msgs rest i)
  then show ?case
    by (cases "i < length msgs") (auto simp: get_at_def nth_append)
qed (simp add: get_at_def)

lemma concat_message_bundles:
  "concat (map (mb_messages \<circ> snd) (message_bundles_loop b medium recipient hash i txns))
   = posted_for medium recipient i (concat (map snd txns))"
proof (induction b medium recipient hash i txns rule: message_bundles_loop.induct)
  case (2 b medium recipient hash i t ms rest)
  then show ?case by (simp add: Let_def posted_for_append)
qed (simp add: posted_for_def)

lemma message_bundles_nonempty:
  "(e, mb) \<in> set (message_bundles_loop b medium recipient hash i txns) \<Longrightarrow>
   e = block_epoch b \<and> mb_messages mb \<noteq> [] \<and> mb_height mb = block_height_of b \<and>
   mb_certificate_hash mb = hash \<and> mb_timestamp mb = block_timestamp b"
  by (induction b medium recipient hash i txns rule: message_bundles_loop.induct)
    (auto simp: Let_def split: if_splits)

lemma posted_for_in_range:
  assumes "pm \<in> set (posted_for medium recipient 0 xs)" and "length xs \<le> 2 ^ 32"
  shows "\<exists>m. get_at xs (unat (pm_index pm)) = Some m \<and> has_destination m medium recipient
    \<and> pm = into_posted m (pm_index pm)"
proof -
  obtain j m where jm: "(j, m) \<in> set (zip_from 0 xs)" "has_destination m medium recipient"
    "pm = into_posted m j"
    using assms(1) by (auto simp: posted_for_def)
  then obtain k where k: "k < length xs" "j = word_of_nat k" "m = xs ! k"
    by (auto simp: in_set_conv_nth zip_from_nth)
  then have "unat j = k"
    using assms(2) by (simp add: unat_of_nat take_bit_nat_eq_self)
  with jm k show ?thesis
    by (auto simp: get_at_def into_posted_def)
qed

text \<open>C10: Sending a block's messages loses, duplicates and reorders nothing: the bundles for a
  recipient are non-empty, carry the block's height and hash, and together are exactly the block's
  outgoing messages for that recipient, in order and with block-wide indices. Whenever a block has
  at most \<open>2 ^ 32\<close> messages, \<open>message_by_id\<close> finds each of them again under the identifier it was
  posted with.\<close>

theorem message_bundles_complete:
  "concat (map (mb_messages \<circ> snd) (message_bundles_for eb medium recipient hash))
     = posted_for medium recipient 0 (concat (beo_messages (eb_outcome eb)))
   \<and> ((e, mb) \<in> set (message_bundles_for eb medium recipient hash) \<longrightarrow>
        mb_messages mb \<noteq> [] \<and> mb_height mb = block_height_of (eb_block eb) \<and>
        mb_certificate_hash mb = hash)
   \<and> ((e, mb) \<in> set (message_bundles_for eb medium recipient hash) \<and> pm \<in> set (mb_messages mb)
        \<and> length (concat (beo_messages (eb_outcome eb))) \<le> 2 ^ 32 \<longrightarrow>
        (\<exists>m. message_by_id eb (eb_message_id eb (pm_index pm)) = Some m
           \<and> has_destination m medium recipient \<and> pm = into_posted m (pm_index pm)))"
proof -
  have c: "concat (map (mb_messages \<circ> snd) (message_bundles_for eb medium recipient hash))
     = posted_for medium recipient 0 (concat (beo_messages (eb_outcome eb)))"
    by (simp add: message_bundles_for_def concat_message_bundles)
  have "pm \<in> set (posted_for medium recipient 0 (concat (beo_messages (eb_outcome eb))))"
    if "(e, mb) \<in> set (message_bundles_for eb medium recipient hash)" "pm \<in> set (mb_messages mb)"
    using that by (force simp flip: c)
  then show ?thesis
    using c message_bundles_nonempty [of e mb] posted_for_in_range
    by (fastforce simp: message_by_id_def eb_message_id_def message_by_index_concat
        message_bundles_for_def)
qed

definition example_outgoing :: "chain_id \<Rightarrow> outgoing_message" where
  "example_outgoing cid =
     \<lparr>om_destination = Recipient cid, om_authenticated_signer = None, om_grant = 0,
      om_refund_grant_to = None, om_kind = Simple, om_message = SystemMsg ApplicationCreated\<rparr>"

definition example_executed_block :: executed_block where
  "example_executed_block =
     \<lparr>eb_block = \<lparr>block_chain_id = 1, block_epoch = 0, incoming_bundles = [],
        operations = [SystemOp OpCloseChain, SystemOp OpCloseChain], block_height_of = 5,
        block_timestamp = 9, block_authenticated_signer = None, previous_block_hash = None\<rparr>,
      eb_outcome = \<lparr>beo_messages = [[example_outgoing 7], [example_outgoing 8, example_outgoing 7]],
        state_hash = 0, oracle_responses = [[], []], beo_events = [[], []]\<rparr>\<rparr>"

lemmas example_eval = example_executed_block_def example_outgoing_def message_bundles_for_def
  posted_for_def has_destination_def into_posted_def

theorem message_bundles_complete_witness:
  "\<exists>m. message_by_id example_executed_block (eb_message_id example_executed_block 2) = Some m
     \<and> has_destination m Direct 7"
proof -
  let ?pm = "into_posted (example_outgoing 7) 2"
  let ?mb = "\<lparr>mb_height = 5, mb_timestamp = 9, mb_certificate_hash = 3, mb_transaction_index = 1,
        mb_messages = [?pm]\<rparr>"
  have "(0, ?mb) \<in> set (message_bundles_for example_executed_block Direct 7 3)"
    by (simp add: example_eval)
  moreover have "length (concat (beo_messages (eb_outcome example_executed_block))) \<le> 2 ^ 32"
    by (simp add: example_executed_block_def)
  moreover have "?pm \<in> set (mb_messages ?mb)" and "pm_index ?pm = 2"
    by (simp_all add: into_posted_def)
  ultimately show ?thesis
    using message_bundles_complete [where eb = example_executed_block and medium = Direct
        and recipient = 7 and hash = 3 and e = 0 and mb = ?mb and pm = ?pm] by metis
qed

lemma get_at_simps [simp]:
  "get_at [] i = None" "get_at (x # xs) 0 = Some x" "get_at (x # xs) (Suc i) = get_at xs i"
  by (auto simp: get_at_def)

lemma get_at_append: "get_at (xs @ ys) i = (if i < length xs then Some (xs ! i) else get_at ys (i - length xs))"
  by (auto simp: get_at_def nth_append)

lemma get_at_concat:
  assumes "get_at msgs t = Some txn" and "i < length txn"
  shows "get_at (concat msgs) (sum_list (map length (take t msgs)) + i) = Some (txn ! i)"
  using assms
proof (induction msgs arbitrary: t)
  case (Cons m msgs)
  then show ?case
    by (cases t) (auto simp: get_at_append)
qed simp

text \<open>C11: The identifier \<open>message_id_for_operation\<close> returns for an operation is found by
  \<open>message_by_id\<close>, and it is the requested message of the requested operation.\<close>

theorem message_id_for_operation_found:
  "message_id_for_operation eb op_index msg_index = Some mid \<Longrightarrow>
   message_by_id eb mid =
     Some (beo_messages (eb_outcome eb) ! (length (incoming_bundles (eb_block eb)) + op_index)
             ! unat msg_index)"
  using get_at_concat [of "beo_messages (eb_outcome eb)"
      "length (incoming_bundles (eb_block eb)) + op_index" _ "unat msg_index"]
  by (auto simp: message_id_for_operation_def message_by_id_def eb_message_id_def Let_def
      message_by_index_concat try_from_nat_Some_iff checked_add_Some_iff not_le word_less_nat_alt
      split: option.splits if_splits) (auto simp: get_at_def split: if_splits)

theorem message_id_for_operation_found_witness:
  "message_id_for_operation example_executed_block 1 1 = Some (MessageId 1 5 2)
   \<and> message_by_id example_executed_block (MessageId 1 5 2) = Some (example_outgoing 7)"
proof -
  have 1: "message_id_for_operation example_executed_block 1 1 = Some (MessageId 1 5 2)"
    by (simp add: example_executed_block_def message_id_for_operation_def get_at_def Let_def
        try_from_nat_def checked_add_def eb_message_id_def word_le_nat_alt)
  moreover have "beo_messages (eb_outcome example_executed_block)
      ! (length (incoming_bundles (eb_block example_executed_block)) + 1) ! unat (1 :: u32)
      = example_outgoing 7"
    by (simp add: example_executed_block_def)
  ultimately show ?thesis
    using message_id_for_operation_found [OF 1] by simp
qed

end
