(* ===== verification/Certificates.thy ===== *)
theory Certificates
  imports Chain_Types
begin

section \<open>Votes and certificates (linera-chain/src/certificate/, data_types.rs, block.rs)\<close>

text \<open>
  Certified values, votes, certificates and the aggregation of signatures. The trait
  \<open>CertificateValue\<close> is a record of its constant and methods, with one instance for each implementing
  type. Signature verification is a parameter \<open>sig_scheme\<close>: the check of one signature, and the batched
  check. What the development relies on is \<open>batch_verification\<close>: a batch verifies exactly when each of
  its signatures does.
\<close>

datatype chain_execution_context =
    ContextQuery | ContextDescribeApplication | ContextIncomingBundle u32 | ContextOperation u32
  | ContextBlock

datatype chain_error =
    CryptoError
  | ChainArithmeticError arithmetic_error
  | ChainViewError
  | ExecutionError execution_error chain_execution_context
  | InactiveChain chain_id
  | MissingCrossChainUpdate chain_id origin block_height
  | UnexpectedMessage chain_id origin message_bundle message_bundle
  | IncorrectMessageOrder chain_id origin message_bundle block_height u32
  | CannotRejectMessage chain_id origin posted_message
  | CannotSkipMessage chain_id origin message_bundle
  | IncorrectBundleTimestamp chain_id timestamp timestamp
  | InvalidSigner
  | UnexpectedBlockHeight block_height block_height
  | UnexpectedPreviousBlockHash
  | InvalidBlockHeight
  | InvalidBlockTimestamp
  | PreviousBlockMustBeConfirmedFirst
  | InsufficientRound round
  | InsufficientRoundStrict round
  | WrongRound round
  | HasLockedBlock block_height round
  | MissingEarlierBlocks block_height
  | CertificateValidatorReuse
  | CertificateRequiresQuorum
  | CertificateSignatureVerificationFailed string
  | InternalError string
  | BlockProposalTooLarge
  | BcsError
  | InsufficientBalance
  | OwnerWeightError
  | ClosedChain
  | AuthorizedApplications "application_id list"
  | MissingMandatoryApplications "application_id list"
  | GrantUseOnBroadcast
  | MissingOracleResponseList
  | CertificateValueHashMismatch crypto_hash crypto_hash
  | ChainBlobsNotFound "blob_id list"

subsection \<open>Certified values\<close>

record 'v hashed =
  hashed_value :: 'v
  hashed_hash :: crypto_hash

definition hashed_new :: "('v \<Rightarrow> crypto_hash) \<Rightarrow> 'v \<Rightarrow> 'v hashed" where
  "hashed_new hash v = \<lparr>hashed_value = v, hashed_hash = hash v\<rparr>"

datatype certificate_kind = TimeoutKind | ValidatedKind | ConfirmedKind

text \<open>\<open>ValidatedBlock\<close> and \<open>ConfirmedBlock\<close> wrap a hashed executed block.\<close>

datatype validated_block = ValidatedBlock (validated_inner: "executed_block hashed")

datatype confirmed_block = ConfirmedBlock (confirmed_inner: "executed_block hashed")

record timeout_value =
  timeout_chain_id :: chain_id
  timeout_height :: block_height
  timeout_epoch :: epoch

definition validated_executed_block :: "validated_block \<Rightarrow> executed_block" where
  "validated_executed_block self = hashed_value (validated_inner self)"

definition confirmed_executed_block :: "confirmed_block \<Rightarrow> executed_block" where
  "confirmed_executed_block self = hashed_value (confirmed_inner self)"

definition timeout_new :: "chain_id \<Rightarrow> block_height \<Rightarrow> epoch \<Rightarrow> timeout_value" where
  "timeout_new cid height epoch =
     \<lparr>timeout_chain_id = cid, timeout_height = height, timeout_epoch = epoch\<rparr>"

definition confirmed_with_hash_checked ::
  "(confirmed_block \<Rightarrow> crypto_hash) \<Rightarrow> confirmed_block \<Rightarrow> crypto_hash
   \<Rightarrow> (chain_error, confirmed_block hashed) res" where
  "confirmed_with_hash_checked hash self expected =
     (let hv = hashed_new hash self in
      if hashed_hash hv = expected then Inr hv
      else Inl (CertificateValueHashMismatch expected (hashed_hash hv)))"

record 'v certificate_value =
  cv_kind :: certificate_kind
  cv_chain_id :: "'v \<Rightarrow> chain_id"
  cv_epoch :: "'v \<Rightarrow> epoch"
  cv_height :: "'v \<Rightarrow> block_height"
  cv_required_blob_ids :: "'v \<Rightarrow> blob_id set"

definition timeout_cv :: "timeout_value certificate_value" where
  "timeout_cv =
     \<lparr>cv_kind = TimeoutKind, cv_chain_id = timeout_chain_id, cv_epoch = timeout_epoch,
      cv_height = timeout_height, cv_required_blob_ids = (\<lambda>_. {})\<rparr>"

definition validated_cv :: "validated_block certificate_value" where
  "validated_cv =
     \<lparr>cv_kind = ValidatedKind,
      cv_chain_id = (\<lambda>v. block_chain_id (eb_block (validated_executed_block v))),
      cv_epoch = (\<lambda>v. block_epoch (eb_block (validated_executed_block v))),
      cv_height = (\<lambda>v. block_height_of (eb_block (validated_executed_block v))),
      cv_required_blob_ids = (\<lambda>v. required_blob_ids (validated_executed_block v))\<rparr>"

definition confirmed_cv :: "confirmed_block certificate_value" where
  "confirmed_cv =
     \<lparr>cv_kind = ConfirmedKind,
      cv_chain_id = (\<lambda>v. block_chain_id (eb_block (confirmed_executed_block v))),
      cv_epoch = (\<lambda>v. block_epoch (eb_block (confirmed_executed_block v))),
      cv_height = (\<lambda>v. block_height_of (eb_block (confirmed_executed_block v))),
      cv_required_blob_ids = (\<lambda>v. required_blob_ids (confirmed_executed_block v))\<rparr>"

subsection \<open>Votes\<close>

record lite_value =
  lv_value_hash :: crypto_hash
  lv_chain_id :: chain_id
  lv_kind :: certificate_kind

definition lite_value_new :: "'v certificate_value \<Rightarrow> 'v hashed \<Rightarrow> lite_value" where
  "lite_value_new cv value =
     \<lparr>lv_value_hash = hashed_hash value, lv_chain_id = cv_chain_id cv (hashed_value value),
      lv_kind = cv_kind cv\<rparr>"

datatype vote_value = VoteValue crypto_hash round certificate_kind

record sig_scheme =
  sig_verify :: "vote_value \<Rightarrow> public_key \<Rightarrow> signature \<Rightarrow> bool"
  sig_verify_batch :: "vote_value \<Rightarrow> (public_key \<times> signature) list \<Rightarrow> bool"
  sig_sign :: "vote_value \<Rightarrow> public_key \<Rightarrow> signature"

definition batch_verification :: "sig_scheme \<Rightarrow> bool" where
  "batch_verification ss \<longleftrightarrow>
     (\<forall>v sigs. sig_verify_batch ss v sigs = list_all (\<lambda>(k, s). sig_verify ss v k s) sigs)"

record 'v vote =
  vote_value_of :: "'v hashed"
  vote_round :: round
  vote_validator :: validator_name
  vote_signature :: signature

record lite_vote =
  lvote_value :: lite_value
  lvote_round :: round
  lvote_validator :: validator_name
  lvote_signature :: signature

text \<open>A key pair is named by its public key; \<open>sig_sign\<close> is \<open>Signature::new\<close> with that key pair.\<close>

definition vote_new ::
  "sig_scheme \<Rightarrow> 'v certificate_value \<Rightarrow> 'v hashed \<Rightarrow> round \<Rightarrow> public_key \<Rightarrow> 'v vote" where
  "vote_new ss cv value r key_pair =
     \<lparr>vote_value_of = value, vote_round = r, vote_validator = key_pair,
      vote_signature = sig_sign ss (VoteValue (hashed_hash value) r (cv_kind cv)) key_pair\<rparr>"

definition vote_lite :: "'v certificate_value \<Rightarrow> 'v vote \<Rightarrow> lite_vote" where
  "vote_lite cv self =
     \<lparr>lvote_value = lite_value_new cv (vote_value_of self), lvote_round = vote_round self,
      lvote_validator = vote_validator self, lvote_signature = vote_signature self\<rparr>"

definition lite_vote_with_value :: "lite_vote \<Rightarrow> 'v hashed \<Rightarrow> 'v vote option" where
  "lite_vote_with_value self value =
     (if lv_value_hash (lvote_value self) \<noteq> hashed_hash value then None
      else Some \<lparr>vote_value_of = value, vote_round = lvote_round self,
                 vote_validator = lvote_validator self, vote_signature = lvote_signature self\<rparr>)"

definition lite_vote_new :: "sig_scheme \<Rightarrow> lite_value \<Rightarrow> round \<Rightarrow> public_key \<Rightarrow> lite_vote" where
  "lite_vote_new ss value r key_pair =
     \<lparr>lvote_value = value, lvote_round = r, lvote_validator = key_pair,
      lvote_signature = sig_sign ss (VoteValue (lv_value_hash value) r (lv_kind value)) key_pair\<rparr>"

definition lite_vote_check :: "sig_scheme \<Rightarrow> lite_vote \<Rightarrow> (chain_error, unit) res" where
  "lite_vote_check ss self =
     ensure (sig_verify ss
       (VoteValue (lv_value_hash (lvote_value self)) (lvote_round self) (lv_kind (lvote_value self)))
       (lvote_validator self) (lvote_signature self)) CryptoError"

subsection \<open>Checking signatures\<close>

type_synonym signatures = "(validator_name \<times> signature) list"

fun is_strictly_ordered :: "signatures \<Rightarrow> bool" where
  "is_strictly_ordered (x # y # rest) \<longleftrightarrow> fst x < fst y \<and> is_strictly_ordered (y # rest)"
| "is_strictly_ordered _ \<longleftrightarrow> True"

fun check_weights ::
  "committee \<Rightarrow> validator_name set \<Rightarrow> u64 \<Rightarrow> signatures \<Rightarrow> (chain_error, u64) res" where
  "check_weights c used w [] = Inr w"
| "check_weights c used w ((validator, _) # rest) =
     and_then (ensure (validator \<notin> used) CertificateValidatorReuse) (\<lambda>_.
     and_then (ensure (weight c validator > 0) InvalidSigner) (\<lambda>_.
       check_weights c (insert validator used) (w + weight c validator) rest))"

definition check_signatures ::
  "sig_scheme \<Rightarrow> crypto_hash \<Rightarrow> certificate_kind \<Rightarrow> round \<Rightarrow> signatures \<Rightarrow> committee
   \<Rightarrow> (chain_error, unit) res" where
  "check_signatures ss value_hash kind r sigs c =
     and_then (check_weights c {} 0 sigs) (\<lambda>w.
     and_then (ensure (w \<ge> quorum_threshold c) CertificateRequiresQuorum) (\<lambda>_.
       ensure (sig_verify_batch ss (VoteValue value_hash r kind) sigs) CryptoError))"

subsection \<open>Certificates\<close>

record 'v generic_certificate =
  gc_value :: "'v hashed"
  gc_round :: round
  gc_signatures :: signatures

record lite_certificate =
  lc_value :: lite_value
  lc_round :: round
  lc_signatures :: signatures

definition gc_new :: "'v hashed \<Rightarrow> round \<Rightarrow> signatures \<Rightarrow> 'v generic_certificate" where
  "gc_new value r sigs = \<lparr>gc_value = value, gc_round = r, gc_signatures = sort_key fst sigs\<rparr>"

definition gc_hash :: "'v generic_certificate \<Rightarrow> crypto_hash" where
  "gc_hash self = hashed_hash (gc_value self)"

text \<open>The insertion point \<open>binary_search_by\<close> finds in a list sorted by name.\<close>

definition search_position :: "validator_name \<Rightarrow> signatures \<Rightarrow> nat" where
  "search_position name sigs = length (takeWhile (\<lambda>(n, _). n < name) sigs)"

definition gc_add_signature ::
  "'v generic_certificate \<Rightarrow> validator_name \<times> signature \<Rightarrow> 'v generic_certificate" where
  "gc_add_signature self sig =
     (let sigs = gc_signatures self; index = search_position (fst sig) sigs
      in self\<lparr>gc_signatures := take index sigs @ [sig] @ drop index sigs\<rparr>)"

definition gc_is_signed_by :: "'v generic_certificate \<Rightarrow> validator_name \<Rightarrow> bool" where
  "gc_is_signed_by self name =
     (case get_at (gc_signatures self) (search_position name (gc_signatures self)) of
        Some (n, _) \<Rightarrow> n = name
      | None \<Rightarrow> False)"

definition gc_check ::
  "sig_scheme \<Rightarrow> 'v certificate_value \<Rightarrow> 'v generic_certificate \<Rightarrow> committee \<Rightarrow> (chain_error, unit) res" where
  "gc_check ss cv self c =
     check_signatures ss (gc_hash self) (cv_kind cv) (gc_round self) (gc_signatures self) c"

definition gc_lite_certificate :: "'v certificate_value \<Rightarrow> 'v generic_certificate \<Rightarrow> lite_certificate" where
  "gc_lite_certificate cv self =
     \<lparr>lc_value = lite_value_new cv (gc_value self), lc_round = gc_round self,
      lc_signatures = gc_signatures self\<rparr>"

definition lc_new :: "lite_value \<Rightarrow> round \<Rightarrow> signatures \<Rightarrow> lite_certificate" where
  "lc_new value r sigs = \<lparr>lc_value = value, lc_round = r, lc_signatures = sort_key fst sigs\<rparr>"

fun try_from_votes_loop ::
  "lite_value \<Rightarrow> round \<Rightarrow> signatures \<Rightarrow> lite_vote list \<Rightarrow> signatures option" where
  "try_from_votes_loop value r sigs [] = Some sigs"
| "try_from_votes_loop value r sigs (v # vs) =
     (if lv_value_hash (lvote_value v) \<noteq> lv_value_hash value \<or> lvote_round v \<noteq> r then None
      else try_from_votes_loop value r (sigs @ [(lvote_validator v, lvote_signature v)]) vs)"

definition lc_try_from_votes :: "lite_vote list \<Rightarrow> lite_certificate option" where
  "lc_try_from_votes vs =
     (case vs of
        [] \<Rightarrow> None
      | v # rest \<Rightarrow>
          map_option (lc_new (lvote_value v) (lvote_round v))
            (try_from_votes_loop (lvote_value v) (lvote_round v)
               [(lvote_validator v, lvote_signature v)] rest))"

definition lc_check :: "sig_scheme \<Rightarrow> lite_certificate \<Rightarrow> committee \<Rightarrow> (chain_error, lite_value) res" where
  "lc_check ss self c =
     and_then (check_signatures ss (lv_value_hash (lc_value self)) (lv_kind (lc_value self))
       (lc_round self) (lc_signatures self) c) (\<lambda>_. Inr (lc_value self))"

definition lc_with_value ::
  "'v certificate_value \<Rightarrow> lite_certificate \<Rightarrow> 'v hashed \<Rightarrow> 'v generic_certificate option" where
  "lc_with_value cv self value =
     (if lv_chain_id (lc_value self) \<noteq> cv_chain_id cv (hashed_value value) \<or>
         cv_kind cv \<noteq> lv_kind (lc_value self) \<or>
         lv_value_hash (lc_value self) \<noteq> hashed_hash value
      then None
      else Some (gc_new value (lc_round self) (lc_signatures self)))"

text \<open>Decoding of a serialised certificate: the signatures must be strictly sorted by validator.\<close>

definition gc_deserialize ::
  "('v \<Rightarrow> crypto_hash) \<Rightarrow> 'v \<Rightarrow> round \<Rightarrow> signatures \<Rightarrow> 'v generic_certificate option" where
  "gc_deserialize hash value r sigs =
     (if \<not> is_strictly_ordered sigs then None else Some (gc_new (hashed_new hash value) r sigs))"

definition outgoing_message_count :: "confirmed_block generic_certificate \<Rightarrow> nat" where
  "outgoing_message_count self =
     sum_list (map length (beo_messages (eb_outcome (confirmed_executed_block (hashed_value (gc_value self))))))"

subsection \<open>Aggregating signatures\<close>

record 'v signature_aggregator =
  sa_committee :: committee
  sa_weight :: u64
  sa_used_validators :: "validator_name set"
  sa_partial :: "'v generic_certificate"

definition sa_new :: "'v hashed \<Rightarrow> round \<Rightarrow> committee \<Rightarrow> 'v signature_aggregator" where
  "sa_new value r c =
     \<lparr>sa_committee = c, sa_weight = 0, sa_used_validators = {}, sa_partial = gc_new value r []\<rparr>"

text \<open>\<open>append\<close> updates the aggregator also on some error paths, so it returns the aggregator and the
  result.\<close>

definition sa_append ::
  "sig_scheme \<Rightarrow> 'v certificate_value \<Rightarrow> 'v signature_aggregator \<Rightarrow> validator_name \<Rightarrow> signature
   \<Rightarrow> 'v signature_aggregator \<times> (chain_error, 'v generic_certificate option) res" where
  "sa_append ss cv self validator sig =
     (let value = VoteValue (gc_hash (sa_partial self)) (gc_round (sa_partial self)) (cv_kind cv) in
      if \<not> sig_verify ss value validator sig then (self, Inl CryptoError)
      else if validator \<in> sa_used_validators self then (self, Inl CertificateValidatorReuse)
      else
        let self = self\<lparr>sa_used_validators := insert validator (sa_used_validators self)\<rparr>;
            voting_rights = weight (sa_committee self) validator
        in if \<not> voting_rights > 0 then (self, Inl InvalidSigner)
        else
          let self = self\<lparr>sa_weight := sa_weight self + voting_rights,
                          sa_partial := gc_add_signature (sa_partial self) (validator, sig)\<rparr>
          in if sa_weight self \<ge> quorum_threshold (sa_committee self)
             then (self\<lparr>sa_weight := 0\<rparr>, Inr (Some (sa_partial self)))
             else (self, Inr None))"

subsection \<open>What a checked certificate means\<close>

abbreviation signers :: "signatures \<Rightarrow> validator_name list" where
  "signers sigs \<equiv> map fst sigs"

lemma check_weights_Inr_iff:
  "check_weights c used w sigs = Inr w' \<longleftrightarrow>
     distinct (signers sigs) \<and> set (signers sigs) \<inter> used = {} \<and>
     (\<forall>v \<in> set (signers sigs). 0 < weight c v) \<and> w' = w + sum_list (map (weight c) (signers sigs))"
  by (induction c used w sigs rule: check_weights.induct) (auto simp: add.assoc)

lemma check_signatures_Inr_iff:
  "check_signatures ss h k r sigs c = Inr u \<longleftrightarrow>
     distinct (signers sigs) \<and> (\<forall>v \<in> set (signers sigs). 0 < weight c v) \<and>
     quorum_threshold c \<le> sum_list (map (weight c) (signers sigs)) \<and>
     sig_verify_batch ss (VoteValue h r k) sigs"
  by (auto simp: check_signatures_def check_weights_Inr_iff)

lemma positive_weight_member: "0 < weight c v \<Longrightarrow> v \<in> committee_members c"
  using weight_outside by force

text \<open>The machine sum of the weights of distinct members is exact.\<close>

lemma unat_sum_weights:
  assumes "committee_wf c" and "distinct vs" and "set vs \<subseteq> committee_members c"
  shows "unat (sum_list (map (weight c) vs)) = sum (committee_power c) (set vs)"
    and "sum (committee_power c) (set vs) < 2 ^ 63"
proof -
  have bound: "sum (committee_power c) S < 2 ^ 63" if "S \<subseteq> committee_members c" for S
  proof -
    have "sum (committee_power c) S \<le> sum (committee_power c) (committee_members c)"
      using that cq.finite_members [OF assms(1)] by (intro sum_mono2) auto
    also have "\<dots> < 2 ^ 63"
      using assms(1) by (simp add: sum_power_members committee_wf_def)
    finally show ?thesis .
  qed
  show "sum (committee_power c) (set vs) < 2 ^ 63"
    using bound assms(3) by blast
  show "unat (sum_list (map (weight c) vs)) = sum (committee_power c) (set vs)"
    using assms(2,3)
  proof (induction vs)
    case (Cons v vs)
    then have "unat (sum_list (map (weight c) vs)) = sum (committee_power c) (set vs)" by simp
    moreover have "sum (committee_power c) (insert v (set vs)) < 2 ^ 63"
      using bound [of "insert v (set vs)"] Cons.prems by auto
    ultimately show ?case
      using Cons.prems unat_add_exact [of "weight c v" "sum_list (map (weight c) vs)"]
      by (simp add: committee_power_def)
  qed simp
qed

lemma check_signatures_quorum:
  assumes "committee_wf c" and "check_signatures ss h k r sigs c = Inr u"
  shows "set (signers sigs) \<subseteq> committee_members c"
    and "unat (quorum_threshold c) \<le> sum (committee_power c) (set (signers sigs))"
proof -
  show mem: "set (signers sigs) \<subseteq> committee_members c"
    using assms(2) positive_weight_member by (auto simp: check_signatures_Inr_iff)
  show "unat (quorum_threshold c) \<le> sum (committee_power c) (set (signers sigs))"
    using assms mem unat_sum_weights(1) [of c "signers sigs"]
    by (auto simp: check_signatures_Inr_iff word_le_nat_alt)
qed

text \<open>C7: Any two valid certificates of a committee have a common signer outside every set of
  validators whose voting power is below the validity threshold, whatever their values, kinds and
  rounds.\<close>

theorem certificates_share_honest_signer:
  assumes "committee_wf c" and "F \<subseteq> committee_members c"
    and "sum (committee_power c) F < unat (validity_threshold c)"
    and "check_signatures ss ha ka ra sigsa c = Inr ()"
    and "check_signatures ss hb kb rb sigsb c = Inr ()"
  shows "\<exists>v. v \<in> set (signers sigsa) \<and> v \<in> set (signers sigsb) \<and> v \<notin> F"
  using assms check_signatures_quorum [OF assms(1,4)] check_signatures_quorum [OF assms(1,5)]
  by (intro cq.honest_in_both) (auto intro: finite_subset cq.finite_members)

definition toy_scheme :: sig_scheme where
  "toy_scheme =
     \<lparr>sig_verify = (\<lambda>v k s. s = ucast k),
      sig_verify_batch = (\<lambda>v sigs. list_all (\<lambda>(k, s). s = ucast k) sigs),
      sig_sign = (\<lambda>v k. ucast k)\<rparr>"

definition four_committee :: committee where
  "four_committee = committee_new four_validators policy_default"

lemma four_committee_wf: "committee_wf four_committee"
  unfolding four_committee_def
  by (rule committee_new_wf) (simp_all add: four_validators_def exact_votes_def)

lemmas four_committee_eval = four_committee_def four_validators_eval Let_def

theorem certificates_share_honest_signer_witness:
  "\<exists>v. v \<in> set (signers [(1, 1), (2, 2), (3, 3)]) \<and> v \<in> set (signers [(2, 2), (3, 3), (4, 4)])
     \<and> v \<notin> {3 :: validator_name}"
proof (rule certificates_share_honest_signer
    [where c = four_committee and ss = toy_scheme and F = "{3}" and ha = 5 and hb = 6
      and ka = ConfirmedKind and kb = ConfirmedKind and ra = Fast and rb = Fast])
  show "committee_wf four_committee" by (rule four_committee_wf)
qed (simp_all add: four_committee_eval check_signatures_def toy_scheme_def word_less_nat_alt
    word_le_nat_alt)

subsection \<open>Aggregation produces one valid certificate\<close>

fun sa_run ::
  "sig_scheme \<Rightarrow> 'v certificate_value \<Rightarrow> 'v signature_aggregator \<Rightarrow> signatures
   \<Rightarrow> 'v signature_aggregator \<times> (chain_error, 'v generic_certificate option) res list" where
  "sa_run ss cv agg [] = (agg, [])"
| "sa_run ss cv agg ((validator, sig) # rest) =
     (let (agg1, result) = sa_append ss cv agg validator sig; (agg2, results) = sa_run ss cv agg1 rest
      in (agg2, result # results))"

fun emits :: "('e, 'v option) res \<Rightarrow> bool" where
  "emits (Inr (Some cert)) = True"
| "emits _ = False"

lemma emits_iff: "emits r \<longleftrightarrow> (\<exists>cert. r = Inr (Some cert))"
  by (cases r rule: emits.cases) auto

definition sa_vote_value :: "'v certificate_value \<Rightarrow> 'v signature_aggregator \<Rightarrow> vote_value" where
  "sa_vote_value cv agg =
     VoteValue (gc_hash (sa_partial agg)) (gc_round (sa_partial agg)) (cv_kind cv)"

definition sa_signers :: "'v signature_aggregator \<Rightarrow> validator_name set" where
  "sa_signers agg = set (signers (gc_signatures (sa_partial agg)))"

definition sa_power :: "'v signature_aggregator \<Rightarrow> nat" where
  "sa_power agg = sum (committee_power (sa_committee agg)) (sa_signers agg)"

text \<open>The invariant of an aggregator; the flag says whether it has produced its certificate.\<close>

definition sa_inv :: "sig_scheme \<Rightarrow> 'v certificate_value \<Rightarrow> bool \<Rightarrow> 'v signature_aggregator \<Rightarrow> bool" where
  "sa_inv ss cv emitted agg \<longleftrightarrow>
     committee_wf (sa_committee agg) \<and>
     sorted_wrt (<) (signers (gc_signatures (sa_partial agg))) \<and>
     list_all (\<lambda>(k, s). sig_verify ss (sa_vote_value cv agg) k s) (gc_signatures (sa_partial agg)) \<and>
     (\<forall>v \<in> sa_signers agg. 0 < weight (sa_committee agg) v) \<and>
     sa_signers agg \<subseteq> sa_used_validators agg \<and>
     (\<forall>v \<in> sa_used_validators agg - sa_signers agg. weight (sa_committee agg) v = 0) \<and>
     unat (sa_weight agg) < unat (quorum_threshold (sa_committee agg)) \<and>
     (if emitted
      then unat (sa_weight agg) + unat (quorum_threshold (sa_committee agg)) \<le> sa_power agg
      else unat (sa_weight agg) = sa_power agg)"

lemma add_signature_split:
  "gc_signatures (gc_add_signature cert sig) =
     takeWhile (\<lambda>(n, _). n < fst sig) (gc_signatures cert) @ [sig] @
     dropWhile (\<lambda>(n, _). n < fst sig) (gc_signatures cert)"
  by (simp add: gc_add_signature_def search_position_def Let_def
      takeWhile_eq_take [symmetric] dropWhile_eq_drop [symmetric])

lemma add_signature_set:
  "set (gc_signatures (gc_add_signature cert sig)) = insert sig (set (gc_signatures cert))"
proof -
  have "set (gc_signatures cert) =
    set (takeWhile (\<lambda>(n, _). n < fst sig) (gc_signatures cert)) \<union>
    set (dropWhile (\<lambda>(n, _). n < fst sig) (gc_signatures cert))"
    by (metis set_append takeWhile_dropWhile_id)
  then show ?thesis by (auto simp: add_signature_split)
qed

lemma sorted_dropWhile_greater:
  assumes "sorted_wrt (<) (map fst xs)" and "name \<notin> fst ` set xs"
    and "x \<in> set (dropWhile (\<lambda>(n, _). n < name) xs)"
  shows "(name :: 'a::linorder) < fst x"
  using assms by (induction xs) (force split: if_splits)+

lemma add_signature_sorted:
  assumes "sorted_wrt (<) (signers (gc_signatures cert))"
    and "fst sig \<notin> set (signers (gc_signatures cert))"
  shows "sorted_wrt (<) (signers (gc_signatures (gc_add_signature cert sig)))"
proof -
  let ?P = "\<lambda>(n, _). n < fst sig" and ?s = "gc_signatures cert"
  have "sorted_wrt (<) (map fst (takeWhile ?P ?s @ dropWhile ?P ?s))"
    using assms(1) by simp
  then have parts: "sorted_wrt (<) (map fst (takeWhile ?P ?s))"
    "sorted_wrt (<) (map fst (dropWhile ?P ?s))"
    by (simp_all only: map_append sorted_wrt_append)
  moreover have "fst x < fst sig" if "x \<in> set (takeWhile ?P ?s)" for x
    using set_takeWhileD [OF that] by (auto split: prod.splits)
  moreover have "fst sig < fst y" if "y \<in> set (dropWhile ?P ?s)" for y
    using sorted_dropWhile_greater [OF assms(1) _ that] assms(2) by simp
  ultimately show ?thesis
    by (fastforce simp: add_signature_split sorted_wrt_append)
qed

lemma gc_add_signature_fields [simp]:
  "gc_value (gc_add_signature cert sig) = gc_value cert"
  "gc_round (gc_add_signature cert sig) = gc_round cert"
  "gc_hash (gc_add_signature cert sig) = gc_hash cert"
  by (simp_all add: gc_add_signature_def gc_hash_def Let_def)

lemma sa_inv_check:
  assumes "batch_verification ss" and "committee_wf c"
    and "sorted_wrt (<) (signers (gc_signatures cert))"
    and "list_all (\<lambda>(k, s). sig_verify ss (VoteValue (gc_hash cert) (gc_round cert) (cv_kind cv)) k s)
      (gc_signatures cert)"
    and "\<forall>v \<in> set (signers (gc_signatures cert)). 0 < weight c v"
    and "unat (quorum_threshold c) \<le> sum (committee_power c) (set (signers (gc_signatures cert)))"
  shows "gc_check ss cv cert c = Inr ()"
proof -
  have d: "distinct (signers (gc_signatures cert))"
    using assms(3) by (simp add: strict_sorted_iff)
  moreover have "set (signers (gc_signatures cert)) \<subseteq> committee_members c"
    using assms(5) positive_weight_member by auto
  ultimately show ?thesis
    using assms unat_sum_weights(1) [OF assms(2) d]
    by (simp add: gc_check_def check_signatures_Inr_iff word_le_nat_alt batch_verification_def)
qed

lemma sa_power_bound:
  assumes "sa_inv ss cv e agg" and "S \<subseteq> committee_members (sa_committee agg)"
  shows "sum (committee_power (sa_committee agg)) S < 2 ^ 63"
    and "sum (committee_power (sa_committee agg)) S < 2 * unat (quorum_threshold (sa_committee agg))"
proof -
  let ?c = "sa_committee agg"
  have wf: "committee_wf ?c" and q: "0 < unat (quorum_threshold ?c)"
    using assms(1) by (auto simp: sa_inv_def)
  have le: "sum (committee_power ?c) S \<le> sum (committee_power ?c) (committee_members ?c)"
    using assms(2) cq.finite_members [OF wf] by (intro sum_mono2) auto
  moreover have "sum (committee_power ?c) (committee_members ?c) < 2 ^ 63"
    using wf by (simp add: sum_power_members committee_wf_def)
  ultimately show "sum (committee_power ?c) S < 2 ^ 63" by simp
  show "sum (committee_power ?c) S < 2 * unat (quorum_threshold ?c)"
    using le q cq.overlap [OF wf] cq.available [OF wf] by linarith
qed

lemma sa_append_accepted:
  assumes batch: "batch_verification ss" and inv: "sa_inv ss cv e agg"
    and ok: "sig_verify ss (sa_vote_value cv agg) v sig" "v \<notin> sa_used_validators agg"
      "0 < weight (sa_committee agg) v"
    and app: "sa_append ss cv agg v sig = (agg', res)"
  shows "sa_inv ss cv (e \<or> emits res) agg' \<and> (emits res \<longrightarrow> \<not> e) \<and>
    sa_signers agg' = insert v (sa_signers agg) \<and>
    (\<forall>cert. res = Inr (Some cert) \<longrightarrow> gc_check ss cv cert (sa_committee agg) = Inr ())"
proof -
  let ?c = "sa_committee agg" and ?q = "unat (quorum_threshold (sa_committee agg))"
  let ?p = "gc_add_signature (sa_partial agg) (v, sig)"
  have wf: "committee_wf ?c"
    using inv by (simp add: sa_inv_def)
  have new: "v \<notin> sa_signers agg"
    using inv ok(2) by (auto simp: sa_inv_def)
  have signers: "fst ` set (gc_signatures ?p) = insert v (sa_signers agg)"
    by (simp add: add_signature_set sa_signers_def)
  have mem: "insert v (sa_signers agg) \<subseteq> committee_members ?c"
    using inv ok(3) positive_weight_member by (auto simp: sa_inv_def)
  have power: "sum (committee_power ?c) (insert v (sa_signers agg)) = unat (weight ?c v) + sa_power agg"
    using new by (simp add: sa_power_def committee_power_def sa_signers_def)
  note bounds = sa_power_bound [OF inv mem, unfolded power]
  have le: "unat (sa_weight agg) \<le> sa_power agg"
    using inv by (auto simp: sa_inv_def split: if_splits)
  have w: "unat (sa_weight agg + weight ?c v) = unat (sa_weight agg) + unat (weight ?c v)"
    using le bounds(1) by (intro unat_add_exact) simp
  have sorted: "sorted_wrt (<) (signers (gc_signatures ?p))"
    using inv new by (intro add_signature_sorted) (auto simp: sa_inv_def sa_signers_def)
  have verified: "list_all (\<lambda>(k, s). sig_verify ss (sa_vote_value cv agg) k s) (gc_signatures ?p)"
    using inv ok(1) by (auto simp: list_all_iff add_signature_set sa_inv_def)
  have positive: "\<forall>u \<in> insert v (sa_signers agg). 0 < weight ?c u"
    using inv ok(3) by (auto simp: sa_inv_def)
  have used: "insert v (sa_signers agg) \<subseteq> insert v (sa_used_validators agg)"
    "\<forall>u \<in> insert v (sa_used_validators agg) - insert v (sa_signers agg). weight ?c u = 0"
    using inv by (auto simp: sa_inv_def)
  show ?thesis
  proof (cases "quorum_threshold ?c \<le> sa_weight agg + weight ?c v")
    case True
    then have full: "?q \<le> unat (sa_weight agg) + unat (weight ?c v)"
      by (simp add: word_le_nat_alt w)
    then have "\<not> e"
      using inv bounds(2) by (auto simp: sa_inv_def)
    with full inv have quorum: "?q \<le> unat (weight ?c v) + sa_power agg"
      by (simp add: sa_inv_def)
    have "gc_check ss cv ?p ?c = Inr ()"
    proof (rule sa_inv_check [OF batch wf sorted])
      show "unat (quorum_threshold ?c) \<le> sum (committee_power ?c) (set (signers (gc_signatures ?p)))"
        unfolding set_map signers power by (rule quorum)
    qed (use verified positive signers in \<open>auto simp: sa_vote_value_def\<close>)
    moreover have agg': "agg' = agg\<lparr>sa_used_validators := insert v (sa_used_validators agg),
        sa_weight := 0, sa_partial := ?p\<rparr>" and res: "res = Inr (Some ?p)"
      using app True ok by (auto simp: sa_append_def Let_def sa_vote_value_def)
    moreover have signers': "sa_signers agg' = insert v (sa_signers agg)"
      by (simp add: agg' sa_signers_def signers [unfolded sa_signers_def])
    moreover have "sa_power agg' = unat (weight ?c v) + sa_power agg"
      using power by (simp add: sa_power_def [of agg'] signers') (simp add: agg')
    ultimately show ?thesis
      using \<open>\<not> e\<close> inv wf sorted verified positive used quorum
      by (simp add: sa_inv_def sa_vote_value_def)
  next
    case False
    then have low: "unat (sa_weight agg) + unat (weight ?c v) < ?q"
      by (simp add: word_le_nat_alt w)
    moreover have agg': "agg' = agg\<lparr>sa_used_validators := insert v (sa_used_validators agg),
        sa_weight := sa_weight agg + weight ?c v, sa_partial := ?p\<rparr>" and res: "res = Inr None"
      using app False ok by (auto simp: sa_append_def Let_def sa_vote_value_def)
    moreover have signers': "sa_signers agg' = insert v (sa_signers agg)"
      by (simp add: agg' sa_signers_def signers [unfolded sa_signers_def])
    moreover have "sa_power agg' = unat (weight ?c v) + sa_power agg"
      using power by (simp add: sa_power_def [of agg'] signers') (simp add: agg')
    ultimately show ?thesis
      using inv wf sorted verified positive used
      by (simp add: sa_inv_def sa_vote_value_def w split: if_splits)
  qed
qed

lemma sa_append_inv:
  assumes batch: "batch_verification ss" and inv: "sa_inv ss cv e agg"
    and app: "sa_append ss cv agg v sig = (agg', res)"
  shows "sa_inv ss cv (e \<or> emits res) agg'" and "emits res \<Longrightarrow> \<not> e"
    and "sa_signers agg' = sa_signers agg \<union>
      (if sig_verify ss (sa_vote_value cv agg) v sig \<and> 0 < weight (sa_committee agg) v then {v} else {})"
    and "res = Inr (Some cert) \<Longrightarrow> gc_check ss cv cert (sa_committee agg) = Inr ()"
proof -
  have "sa_inv ss cv (e \<or> emits res) agg' \<and> (emits res \<longrightarrow> \<not> e) \<and>
    sa_signers agg' = sa_signers agg \<union>
      (if sig_verify ss (sa_vote_value cv agg) v sig \<and> 0 < weight (sa_committee agg) v then {v} else {}) \<and>
    (\<forall>cert. res = Inr (Some cert) \<longrightarrow> gc_check ss cv cert (sa_committee agg) = Inr ())"
  proof (cases "sig_verify ss (sa_vote_value cv agg) v sig \<and> v \<notin> sa_used_validators agg
      \<and> 0 < weight (sa_committee agg) v")
    case True
    then show ?thesis
      using sa_append_accepted [OF batch inv _ _ _ app] by auto
  next
    case rejected: False
    show ?thesis
    proof (cases "sig_verify ss (sa_vote_value cv agg) v sig \<and> v \<notin> sa_used_validators agg")
      case True
      with rejected app have "agg' = agg\<lparr>sa_used_validators := insert v (sa_used_validators agg)\<rparr>"
        "res = Inl InvalidSigner" and zero: "weight (sa_committee agg) v = 0"
        by (auto simp: sa_append_def Let_def sa_vote_value_def simp flip: word_neq_0_conv)
      moreover from this have "sa_signers agg' = sa_signers agg" "sa_power agg' = sa_power agg"
        by (simp_all add: sa_signers_def sa_power_def)
      ultimately show ?thesis
        using inv True by (auto simp: sa_inv_def sa_vote_value_def)
    next
      case False
      with app have "agg' = agg" and "\<exists>err. res = Inl err"
        by (auto simp: sa_append_def Let_def sa_vote_value_def split: if_splits)
      moreover have "v \<in> sa_signers agg"
        if "sig_verify ss (sa_vote_value cv agg) v sig" "0 < weight (sa_committee agg) v"
        using False that inv by (fastforce simp: sa_inv_def)
      ultimately show ?thesis
        using inv by auto
    qed
  qed
  then show "sa_inv ss cv (e \<or> emits res) agg'" and "emits res \<Longrightarrow> \<not> e"
    and "sa_signers agg' = sa_signers agg \<union>
      (if sig_verify ss (sa_vote_value cv agg) v sig \<and> 0 < weight (sa_committee agg) v then {v} else {})"
    and "res = Inr (Some cert) \<Longrightarrow> gc_check ss cv cert (sa_committee agg) = Inr ()"
    by blast+
qed

lemma sa_append_fields:
  assumes "sa_append ss cv agg v sig = (agg', res)"
  shows "sa_committee agg' = sa_committee agg"
    and "gc_value (sa_partial agg') = gc_value (sa_partial agg)"
    and "gc_round (sa_partial agg') = gc_round (sa_partial agg)"
    and "sa_vote_value cv agg' = sa_vote_value cv agg"
    and "res = Inr (Some cert) \<Longrightarrow>
      gc_value cert = gc_value (sa_partial agg) \<and> gc_round cert = gc_round (sa_partial agg)"
  using assms by (auto simp: sa_append_def Let_def sa_vote_value_def gc_hash_def split: if_splits)

lemma sa_run_inv:
  assumes "batch_verification ss" and "sa_inv ss cv e agg" and "sa_run ss cv agg sigs = (agg', results)"
  shows "sa_inv ss cv (e \<or> list_ex emits results) agg'
    \<and> length (filter emits results) \<le> (if e then 0 else 1)
    \<and> sa_committee agg' = sa_committee agg
    \<and> sa_signers agg' = sa_signers agg \<union> {v. 0 < weight (sa_committee agg) v \<and>
        (\<exists>s. (v, s) \<in> set sigs \<and> sig_verify ss (sa_vote_value cv agg) v s)}
    \<and> (\<forall>cert. Inr (Some cert) \<in> set results \<longrightarrow> gc_check ss cv cert (sa_committee agg) = Inr () \<and>
        gc_value cert = gc_value (sa_partial agg) \<and> gc_round cert = gc_round (sa_partial agg))"
  using assms
proof (induction ss cv agg sigs arbitrary: e agg' results rule: sa_run.induct)
  case (1 ss cv agg)
  then show ?case by auto
next
  case (2 ss cv agg v sig rest)
  obtain agg1 res where app: "sa_append ss cv agg v sig = (agg1, res)" by fastforce
  obtain agg2 results2 where run: "sa_run ss cv agg1 rest = (agg2, results2)" by fastforce
  have out: "agg' = agg2" "results = res # results2"
    using "2.prems"(3) app run by auto
  note step = sa_append_inv [OF "2.prems"(1,2) app] and fields = sa_append_fields [OF app]
  note IH = "2.IH" [OF app [symmetric] refl "2.prems"(1) step(1) run]
  have "length (filter emits results) \<le> (if e then 0 else 1)"
    using IH step(2) by (auto simp: out)
  moreover have "sa_signers agg' = sa_signers agg \<union> {w. 0 < weight (sa_committee agg) w \<and>
      (\<exists>s. (w, s) \<in> set ((v, sig) # rest) \<and> sig_verify ss (sa_vote_value cv agg) w s)}"
    using IH step(3) by (auto simp: out fields)
  ultimately show ?case
    using IH step(4) fields by (auto simp: out disj_assoc)
qed

lemma sa_new_inv:
  assumes "committee_wf c" shows "sa_inv ss cv False (sa_new value r c)"
  using assms committee_thresholds(2) [OF assms]
  by (simp add: sa_inv_def sa_new_def sa_signers_def sa_power_def gc_new_def)

text \<open>C6: Aggregating any sequence of signatures over a value yields at most one certificate, the
  certificate passes \<open>check\<close> and is for that value and round, and it is produced exactly when the
  committee members with a valid signature in the sequence reach the quorum threshold.\<close>

theorem aggregator_correct:
  assumes "batch_verification ss" and "committee_wf c"
    and "sa_run ss cv (sa_new value r c) sigs = (agg', results)"
  shows "length (filter emits results) \<le> 1
    \<and> (Inr (Some cert) \<in> set results \<longrightarrow>
         gc_check ss cv cert c = Inr () \<and> gc_value cert = value \<and> gc_round cert = r)
    \<and> ((\<exists>cert. Inr (Some cert) \<in> set results) \<longleftrightarrow>
         unat (quorum_threshold c) \<le> sum (committee_power c)
           {v. 0 < weight c v \<and> (\<exists>s. (v, s) \<in> set sigs \<and>
              sig_verify ss (VoteValue (hashed_hash value) r (cv_kind cv)) v s)})"
proof -
  note run = sa_run_inv [OF assms(1) sa_new_inv [OF assms(2)] assms(3)]
  have eq: "sa_vote_value cv (sa_new value r c) = VoteValue (hashed_hash value) r (cv_kind cv)"
    "sa_signers (sa_new value r c) = {}" "sa_committee (sa_new value r c) = c"
    "gc_value (sa_partial (sa_new value r c)) = value" "gc_round (sa_partial (sa_new value r c)) = r"
    by (simp_all add: sa_new_def sa_vote_value_def gc_new_def gc_hash_def sa_signers_def)
  have em: "list_ex emits results \<longleftrightarrow> (\<exists>cert. Inr (Some cert) \<in> set results)"
    by (auto simp: list_ex_iff emits_iff)
  have inv: "sa_inv ss cv (list_ex emits results) agg'" and c: "sa_committee agg' = c"
    using run by (simp_all add: eq)
  then have "list_ex emits results \<longleftrightarrow> unat (quorum_threshold c) \<le> sa_power agg'"
    by (cases "list_ex emits results") (simp_all add: sa_inv_def)
  moreover have "length (filter emits results) \<le> 1"
    and "Inr (Some cert) \<in> set results \<longrightarrow>
      gc_check ss cv cert c = Inr () \<and> gc_value cert = value \<and> gc_round cert = r"
    and "sa_signers agg' = {v. 0 < weight c v \<and> (\<exists>s. (v, s) \<in> set sigs \<and>
      sig_verify ss (VoteValue (hashed_hash value) r (cv_kind cv)) v s)}"
    using run by (simp_all add: eq)
  ultimately show ?thesis
    unfolding em sa_power_def c by simp
qed

lemma weight_four_committee: "weight four_committee v = (if v \<in> {1, 2, 3, 4} then 1 else 0)"
  by (simp add: four_committee_def four_validators_def weight_def bt_get_def)

theorem aggregator_correct_witness:
  "batch_verification toy_scheme \<and> committee_wf four_committee
   \<and> (\<exists>cert. Inr (Some cert) \<in> set (snd (sa_run toy_scheme timeout_cv
        (sa_new (hashed_new (\<lambda>_. 5) (timeout_new 1 0 0)) Fast four_committee) [(3, 3), (1, 1), (3, 3), (2, 2), (4, 4)])))"
proof -
  let ?sigs = "[(3, 3), (1, 1), (3, 3), (2, 2), (4, 4)] :: signatures"
  let ?tv = "hashed_new (\<lambda>_. 5) (timeout_new 1 0 0)"
  obtain agg' results where run:
    "sa_run toy_scheme timeout_cv (sa_new ?tv Fast four_committee) ?sigs = (agg', results)"
    by fastforce
  have batch: "batch_verification toy_scheme"
    by (simp add: batch_verification_def toy_scheme_def)
  have "{v. 0 < weight four_committee v \<and> (\<exists>s. (v, s) \<in> set ?sigs \<and>
      sig_verify toy_scheme (VoteValue (hashed_hash ?tv) Fast (cv_kind timeout_cv)) v s)} = {1, 2, 3, 4}"
    by (auto simp: weight_four_committee toy_scheme_def)
  moreover have "unat (quorum_threshold four_committee) \<le> sum (committee_power four_committee) {1, 2, 3, 4}"
    by (simp add: four_committee_eval)
  ultimately have "\<exists>cert. Inr (Some cert) \<in> set results"
    using aggregator_correct [OF batch four_committee_wf run] by metis
  then show ?thesis
    unfolding run snd_conv using batch four_committee_wf by blast
qed

end
