(* ===== verification/Manager.thy ===== *)
theory Manager
  imports Certificates
begin

section \<open>The chain manager (linera-chain/src/manager.rs)\<close>

text \<open>
  The certification state of a chain's next block and its operations: checking proposals and
  validated blocks, voting, timeouts, and the current round.
  \<^item> The hash functions of the certified values are the record \<open>hashers\<close>.
  \<^item> The pseudo-random leader election (\<open>WeightedAliasIndex\<close> sampled with \<open>ChaCha8Rng\<close>) is the record
    \<open>leader_election\<close>: whether a weight vector is accepted, and the index sampled for a seed. A
    distribution is represented by its weights.
  \<^item> A key pair is represented by its public key.
\<close>

record hashers =
  hash_executed :: "executed_block \<Rightarrow> crypto_hash"
  hash_validated :: "validated_block \<Rightarrow> crypto_hash"
  hash_confirmed :: "confirmed_block \<Rightarrow> crypto_hash"
  hash_timeout :: "timeout_value \<Rightarrow> crypto_hash"

record leader_election =
  weights_ok :: "u64 list \<Rightarrow> bool"
  sample_index :: "u64 list \<Rightarrow> u64 \<Rightarrow> nat"

definition validated_block_new :: "hashers \<Rightarrow> executed_block \<Rightarrow> validated_block" where
  "validated_block_new h eb = ValidatedBlock (hashed_new (hash_executed h) eb)"

definition confirmed_block_new :: "hashers \<Rightarrow> executed_block \<Rightarrow> confirmed_block" where
  "confirmed_block_new h eb = ConfirmedBlock (hashed_new (hash_executed h) eb)"

record proposal_content =
  pc_block :: block
  pc_round :: round
  pc_outcome :: "block_execution_outcome option"

record block_proposal =
  bp_content :: proposal_content
  bp_owner :: owner
  bp_signature :: signature
  bp_blobs :: "blob list"
  bp_validated_block_certificate :: "lite_certificate option"

text \<open>\<open>BlockProposal::new_initial\<close> and \<open>new_retry\<close>; the proposer's key pair is its owner name and the
  function that signs with it.\<close>

definition proposal_new_initial ::
  "(proposal_content \<Rightarrow> signature) \<Rightarrow> owner \<Rightarrow> round \<Rightarrow> block \<Rightarrow> blob list \<Rightarrow> block_proposal" where
  "proposal_new_initial sign own r b blobs =
     (let content = \<lparr>pc_block = b, pc_round = r, pc_outcome = None\<rparr>
      in \<lparr>bp_content = content, bp_owner = own, bp_signature = sign content, bp_blobs = blobs,
          bp_validated_block_certificate = None\<rparr>)"

definition proposal_new_retry ::
  "(proposal_content \<Rightarrow> signature) \<Rightarrow> owner \<Rightarrow> round \<Rightarrow> validated_block generic_certificate \<Rightarrow> blob list
   \<Rightarrow> block_proposal" where
  "proposal_new_retry sign own r cert blobs =
     (let lite_cert = gc_lite_certificate validated_cv cert;
          eb = validated_executed_block (hashed_value (gc_value cert));
          content = \<lparr>pc_block = eb_block eb, pc_round = r, pc_outcome = Some (eb_outcome eb)\<rparr>
      in \<lparr>bp_content = content, bp_owner = own, bp_signature = sign content, bp_blobs = blobs,
          bp_validated_block_certificate = Some lite_cert\<rparr>)"

datatype manager_outcome = OutcomeAccept | OutcomeSkip

record chain_manager =
  mgr_ownership :: chain_ownership
  mgr_seed :: u64
  mgr_distribution :: "u64 list option"
  mgr_fallback_distribution :: "u64 list option"
  mgr_proposed :: "block_proposal option"
  mgr_locked :: "validated_block generic_certificate option"
  mgr_locked_blobs :: "(blob_id \<times> blob) list"
  mgr_timeout :: "timeout_value generic_certificate option"
  mgr_confirmed_vote :: "confirmed_block vote option"
  mgr_validated_vote :: "validated_block vote option"
  mgr_timeout_vote :: "timeout_value vote option"
  mgr_fallback_vote :: "timeout_value vote option"
  mgr_round_timeout :: "timestamp option"
  mgr_current_round :: round
  mgr_fallback_owners :: "(owner, public_key \<times> u64) btree_map"

subsection \<open>Creation\<close>

definition alias_new :: "leader_election \<Rightarrow> u64 list \<Rightarrow> (chain_error, u64 list option) res" where
  "alias_new le weights =
     (if weights = [] then Inr None
      else if weights_ok le weights then Inr (Some weights) else Inl OwnerWeightError)"

definition manager_new ::
  "leader_election \<Rightarrow> (public_key \<Rightarrow> owner) \<Rightarrow> chain_ownership \<Rightarrow> u64 \<Rightarrow> timestamp \<Rightarrow> (public_key \<times> u64) list
   \<Rightarrow> (chain_error, chain_manager) res" where
  "manager_new le owner_of ownership seed local_time fallback =
     and_then (alias_new le (map snd (bt_values (owners ownership)))) (\<lambda>distribution.
     let fallback_owners = bt_collect (map (\<lambda>(pub_key, w). (owner_of pub_key, (pub_key, w))) fallback)
     in and_then (alias_new le (map snd (bt_values fallback_owners))) (\<lambda>fallback_distribution.
     let current_round = first_round ownership;
         round_timeout = map_option (timestamp_saturating_add local_time)
           (round_timeout ownership current_round)
     in Inr \<lparr>mgr_ownership = ownership, mgr_seed = seed, mgr_distribution = distribution,
             mgr_fallback_distribution = fallback_distribution, mgr_proposed = None,
             mgr_locked = None, mgr_locked_blobs = [], mgr_timeout = None,
             mgr_confirmed_vote = None, mgr_validated_vote = None, mgr_timeout_vote = None,
             mgr_fallback_vote = None, mgr_round_timeout = round_timeout,
             mgr_current_round = current_round, mgr_fallback_owners = fallback_owners\<rparr>))"

definition manager_reset ::
  "leader_election \<Rightarrow> (public_key \<Rightarrow> owner) \<Rightarrow> chain_manager \<Rightarrow> chain_ownership \<Rightarrow> block_height \<Rightarrow> timestamp
   \<Rightarrow> (public_key \<times> u64) list \<Rightarrow> (chain_error, chain_manager) res" where
  "manager_reset le owner_of self ownership height local_time fallback =
     manager_new le owner_of ownership height local_time fallback"

subsection \<open>Checks\<close>

definition is_super :: "chain_manager \<Rightarrow> owner \<Rightarrow> bool" where
  "is_super self own = bt_contains (super_owners (mgr_ownership self)) own"

definition expected_round :: "chain_manager \<Rightarrow> block_proposal \<Rightarrow> (chain_error, round) res" where
  "expected_round self proposal =
     (case bp_validated_block_certificate proposal of
        None \<Rightarrow> Inr (mgr_current_round self)
      | Some cert \<Rightarrow>
          and_then (ok_or (next_round (mgr_ownership self) (lc_round cert)) (ChainArithmeticError Overflow))
            (\<lambda>r. Inr (max r (mgr_current_round self))))"

definition check_proposed_block ::
  "chain_manager \<Rightarrow> block_proposal \<Rightarrow> (chain_error, manager_outcome) res" where
  "check_proposed_block self proposal =
     (let new_round = pc_round (bp_content proposal);
          new_block = pc_block (bp_content proposal);
          own = bp_owner proposal
      in and_then (ensure (block_height_of new_block < max_value) InvalidBlockHeight) (\<lambda>_.
         and_then (expected_round self proposal) (\<lambda>expected.
         and_then
           (if is_super self own \<or> (new_round \<le> SingleLeader 0 \<and> \<not> is_fast expected)
            then ensure (expected \<le> new_round) (InsufficientRound expected)
            else ensure (expected = new_round) (WrongRound expected)) (\<lambda>_.
         let check_locked = (case mgr_locked self of
               None \<Rightarrow> Inr OutcomeAccept
             | Some locked \<Rightarrow>
                 and_then (ensure
                   (case bp_validated_block_certificate proposal of
                      None \<Rightarrow> False
                    | Some cert \<Rightarrow> gc_round locked \<le> lc_round cert)
                   (HasLockedBlock
                     (block_height_of (eb_block (validated_executed_block (hashed_value (gc_value locked)))))
                     (gc_round locked))) (\<lambda>_. Inr OutcomeAccept))
         in case mgr_proposed self of
              None \<Rightarrow> check_locked
            | Some old_proposal \<Rightarrow>
                if bp_content old_proposal = bp_content proposal then Inr OutcomeSkip
                else
                  and_then (ensure (new_round > pc_round (bp_content old_proposal))
                    (InsufficientRoundStrict (pc_round (bp_content old_proposal)))) (\<lambda>_.
                  and_then
                    (if is_fast (pc_round (bp_content old_proposal)) \<and>
                        bp_validated_block_certificate proposal = None
                     then ensure (pc_block (bp_content old_proposal) = new_block)
                            (HasLockedBlock (block_height_of new_block) Fast)
                     else Inr ()) (\<lambda>_.
                  check_locked))))))"

definition check_validated_block ::
  "chain_manager \<Rightarrow> validated_block generic_certificate \<Rightarrow> (chain_error, manager_outcome) res" where
  "check_validated_block self certificate =
     (let new_block = eb_block (validated_executed_block (hashed_value (gc_value certificate)));
          new_round = gc_round certificate;
          already_confirmed = (case mgr_confirmed_vote self of
              None \<Rightarrow> False
            | Some v \<Rightarrow> eb_block (confirmed_executed_block (hashed_value (vote_value_of v))) = new_block
                \<and> vote_round v = new_round)
      in if already_confirmed then Inr OutcomeSkip
         else
           and_then (case mgr_validated_vote self of
               None \<Rightarrow> Inr ()
             | Some v \<Rightarrow> ensure (new_round \<ge> vote_round v) (InsufficientRound (vote_round v))) (\<lambda>_.
           case mgr_locked self of
             None \<Rightarrow> Inr OutcomeAccept
           | Some locked \<Rightarrow>
               if gc_hash locked = gc_hash certificate \<and> gc_round locked = gc_round certificate
               then Inr OutcomeSkip
               else and_then (ensure (new_round > gc_round locked)
                      (InsufficientRoundStrict (gc_round locked))) (\<lambda>_. Inr OutcomeAccept)))"

subsection \<open>Rounds\<close>

definition update_current_round :: "chain_manager \<Rightarrow> timestamp \<Rightarrow> chain_manager" where
  "update_current_round self local_time =
     (let rounds =
            (case mgr_timeout self of
               None \<Rightarrow> []
             | Some cert \<Rightarrow> [case next_round (mgr_ownership self) (gc_round cert) of
                              Some r \<Rightarrow> r | None \<Rightarrow> Validator max_value])
            @ (case mgr_locked self of None \<Rightarrow> [] | Some cert \<Rightarrow> [gc_round cert])
            @ (case mgr_proposed self of None \<Rightarrow> [] | Some proposal \<Rightarrow> [pc_round (bp_content proposal)]);
          current_round = max (foldl max Fast rounds) (first_round (mgr_ownership self))
      in if current_round \<le> mgr_current_round self then self
         else self\<lparr>mgr_round_timeout := map_option (timestamp_saturating_add local_time)
                     (round_timeout (mgr_ownership self) current_round),
                   mgr_current_round := current_round\<rparr>)"

definition handle_timeout_certificate ::
  "chain_manager \<Rightarrow> timeout_value generic_certificate \<Rightarrow> timestamp \<Rightarrow> chain_manager" where
  "handle_timeout_certificate self certificate local_time =
     (case mgr_timeout self of
        Some known_certificate \<Rightarrow>
          if gc_round known_certificate \<ge> gc_round certificate then self
          else update_current_round (self\<lparr>mgr_timeout := Some certificate\<rparr>) local_time
      | None \<Rightarrow> update_current_round (self\<lparr>mgr_timeout := Some certificate\<rparr>) local_time)"

subsection \<open>Votes\<close>

definition vote_timeout ::
  "sig_scheme \<Rightarrow> hashers \<Rightarrow> chain_manager \<Rightarrow> chain_id \<Rightarrow> block_height \<Rightarrow> epoch \<Rightarrow> public_key option \<Rightarrow> timestamp
   \<Rightarrow> chain_manager \<times> bool" where
  "vote_timeout ss h self cid height epoch key_pair local_time =
     (case key_pair of
        None \<Rightarrow> (self, False)
      | Some key \<Rightarrow>
          (case mgr_round_timeout self of
             None \<Rightarrow> (self, False)
           | Some deadline \<Rightarrow>
               if local_time < deadline \<or> owners (mgr_ownership self) = [] then (self, False)
               else if (case mgr_timeout_vote self of
                          Some v \<Rightarrow> vote_round v = mgr_current_round self | None \<Rightarrow> False)
               then (self, False)
               else (self\<lparr>mgr_timeout_vote := Some (vote_new ss timeout_cv
                       (hashed_new (hash_timeout h) (timeout_new cid height epoch))
                       (mgr_current_round self) key)\<rparr>, True)))"

definition vote_fallback ::
  "sig_scheme \<Rightarrow> hashers \<Rightarrow> chain_manager \<Rightarrow> chain_id \<Rightarrow> block_height \<Rightarrow> epoch \<Rightarrow> public_key option
   \<Rightarrow> chain_manager \<times> bool" where
  "vote_fallback ss h self cid height epoch key_pair =
     (case key_pair of
        None \<Rightarrow> (self, False)
      | Some key \<Rightarrow>
          if mgr_fallback_vote self \<noteq> None \<or> mgr_current_round self \<ge> Validator 0 then (self, False)
          else (self\<lparr>mgr_fallback_vote := Some (vote_new ss timeout_cv
                  (hashed_new (hash_timeout h) (timeout_new cid height epoch))
                  (SingleLeader max_value) key)\<rparr>, True))"

text \<open>The part of \<open>create_vote\<close> that adopts a more recent validated block certificate as the lock.\<close>

definition adopt_certificate ::
  "hashers \<Rightarrow> chain_manager \<Rightarrow> block_proposal \<Rightarrow> executed_block \<Rightarrow> (blob_id \<times> blob) list \<Rightarrow> chain_manager" where
  "adopt_certificate h self proposal eb blobs =
     (case bp_validated_block_certificate proposal of
        None \<Rightarrow> self
      | Some lite_cert \<Rightarrow>
          if (case mgr_locked self of None \<Rightarrow> True | Some locked \<Rightarrow> gc_round locked < lc_round lite_cert)
          then (case lc_with_value validated_cv lite_cert
                       (hashed_new (hash_validated h) (validated_block_new h eb)) of
                  Some certificate \<Rightarrow> self\<lparr>mgr_locked := Some certificate, mgr_locked_blobs := blobs\<rparr>
                | None \<Rightarrow> self)
          else self)"

definition create_vote ::
  "sig_scheme \<Rightarrow> hashers \<Rightarrow> chain_manager \<Rightarrow> block_proposal \<Rightarrow> executed_block \<Rightarrow> public_key option \<Rightarrow> timestamp
   \<Rightarrow> (blob_id \<times> blob) list \<Rightarrow> chain_manager \<times> (validated_block vote + confirmed_block vote) option" where
  "create_vote ss h self proposal eb key_pair local_time blobs =
     (let r = pc_round (bp_content proposal);
          self1 = adopt_certificate h self proposal eb blobs;
          self2 = update_current_round (self1\<lparr>mgr_proposed := Some proposal\<rparr>) local_time
      in case key_pair of
           None \<Rightarrow> (self2, None)
         | Some key \<Rightarrow>
             if is_fast r
             then let v = vote_new ss confirmed_cv
                        (hashed_new (hash_confirmed h) (confirmed_block_new h eb)) r key
                  in (self2\<lparr>mgr_validated_vote := None, mgr_confirmed_vote := Some v\<rparr>, Some (Inr v))
             else let v = vote_new ss validated_cv
                        (hashed_new (hash_validated h) (validated_block_new h eb)) r key
                  in (self2\<lparr>mgr_confirmed_vote := None, mgr_validated_vote := Some v\<rparr>, Some (Inl v)))"

definition create_final_vote ::
  "sig_scheme \<Rightarrow> hashers \<Rightarrow> chain_manager \<Rightarrow> validated_block generic_certificate \<Rightarrow> public_key option
   \<Rightarrow> timestamp \<Rightarrow> (blob_id \<times> blob) list \<Rightarrow> chain_manager" where
  "create_final_vote ss h self validated key_pair local_time blobs =
     (let r = gc_round validated in
      if key_pair \<noteq> None \<and> r < mgr_current_round self then self
      else
        let confirmed = confirmed_block_new h (validated_executed_block (hashed_value (gc_value validated)));
            self1 = update_current_round
              (self\<lparr>mgr_locked := Some validated, mgr_locked_blobs := blobs\<rparr>) local_time
        in case key_pair of
             None \<Rightarrow> self1
           | Some key \<Rightarrow>
               self1\<lparr>mgr_confirmed_vote :=
                       Some (vote_new ss confirmed_cv (hashed_new (hash_confirmed h) confirmed) r key),
                     mgr_validated_vote := None\<rparr>)"

subsection \<open>Leaders\<close>

definition leader_seed :: "u32 \<Rightarrow> u64 \<Rightarrow> u64" where
  "leader_seed r seed = word_rotl 32 (ucast r) + seed"

definition round_leader_index :: "leader_election \<Rightarrow> chain_manager \<Rightarrow> u32 \<Rightarrow> nat option" where
  "round_leader_index le self r =
     map_option (\<lambda>d. sample_index le d (leader_seed r (mgr_seed self))) (mgr_distribution self)"

definition fallback_round_leader_index :: "leader_election \<Rightarrow> chain_manager \<Rightarrow> u32 \<Rightarrow> nat option" where
  "fallback_round_leader_index le self r =
     map_option (\<lambda>d. sample_index le d (leader_seed r (mgr_seed self))) (mgr_fallback_distribution self)"

definition leader_entry ::
  "(owner, public_key \<times> u64) btree_map \<Rightarrow> nat option \<Rightarrow> (owner \<times> public_key \<times> u64) option" where
  "leader_entry m index = (case index of None \<Rightarrow> None | Some i \<Rightarrow> get_at m i)"

definition verify_owner :: "leader_election \<Rightarrow> chain_manager \<Rightarrow> block_proposal \<Rightarrow> public_key option" where
  "verify_owner le self proposal =
     (case bt_get (super_owners (mgr_ownership self)) (bp_owner proposal) of
        Some public_key \<Rightarrow> Some public_key
      | None \<Rightarrow>
          (case pc_round (bp_content proposal) of
             Fast \<Rightarrow> None
           | MultiLeader _ \<Rightarrow> map_option fst (bt_get (owners (mgr_ownership self)) (bp_owner proposal))
           | SingleLeader r \<Rightarrow>
               (case leader_entry (owners (mgr_ownership self)) (round_leader_index le self r) of
                  None \<Rightarrow> None
                | Some (leader, (public_key, _)) \<Rightarrow>
                    if leader = bp_owner proposal then Some public_key else None)
           | Validator r \<Rightarrow>
               (case leader_entry (mgr_fallback_owners self) (fallback_round_leader_index le self r) of
                  None \<Rightarrow> None
                | Some (leader, (public_key, _)) \<Rightarrow>
                    if leader = bp_owner proposal then Some public_key else None)))"

definition round_leader :: "leader_election \<Rightarrow> chain_manager \<Rightarrow> round \<Rightarrow> owner option" where
  "round_leader le self r =
     (case r of
        SingleLeader n \<Rightarrow>
          map_option fst (leader_entry (owners (mgr_ownership self)) (round_leader_index le self n))
      | Validator n \<Rightarrow>
          map_option fst (leader_entry (mgr_fallback_owners self) (fallback_round_leader_index le self n))
      | _ \<Rightarrow> None)"

subsection \<open>Chain manager information\<close>

record chain_manager_info =
  info_ownership :: chain_ownership
  info_requested_proposed :: "block_proposal option"
  info_requested_locked :: "validated_block generic_certificate option"
  info_timeout :: "timeout_value generic_certificate option"
  info_pending :: "lite_vote option"
  info_timeout_vote :: "lite_vote option"
  info_fallback_vote :: "lite_vote option"
  info_requested_confirmed :: "confirmed_block hashed option"
  info_requested_validated :: "validated_block hashed option"
  info_current_round :: round
  info_leader :: "owner option"
  info_round_timeout :: "timestamp option"

definition manager_info_from :: "leader_election \<Rightarrow> chain_manager \<Rightarrow> chain_manager_info" where
  "manager_info_from le manager =
     \<lparr>info_ownership = mgr_ownership manager, info_requested_proposed = None,
      info_requested_locked = None, info_timeout = mgr_timeout manager,
      info_pending =
        (case mgr_confirmed_vote manager of
           Some v \<Rightarrow> Some (vote_lite confirmed_cv v)
         | None \<Rightarrow> map_option (vote_lite validated_cv) (mgr_validated_vote manager)),
      info_timeout_vote = map_option (vote_lite timeout_cv) (mgr_timeout_vote manager),
      info_fallback_vote = map_option (vote_lite timeout_cv) (mgr_fallback_vote manager),
      info_requested_confirmed = None, info_requested_validated = None,
      info_current_round = mgr_current_round manager,
      info_leader = round_leader le manager (mgr_current_round manager),
      info_round_timeout = mgr_round_timeout manager\<rparr>"

definition info_add_values :: "chain_manager_info \<Rightarrow> chain_manager \<Rightarrow> chain_manager_info" where
  "info_add_values self manager =
     self\<lparr>info_requested_proposed := mgr_proposed manager,
          info_requested_locked := mgr_locked manager,
          info_requested_confirmed := map_option vote_value_of (mgr_confirmed_vote manager),
          info_requested_validated := map_option vote_value_of (mgr_validated_vote manager)\<rparr>"

definition can_propose :: "chain_manager_info \<Rightarrow> owner \<Rightarrow> round \<Rightarrow> bool" where
  "can_propose self identity r =
     (case r of
        Fast \<Rightarrow> bt_contains (super_owners (info_ownership self)) identity
      | MultiLeader _ \<Rightarrow> True
      | SingleLeader _ \<Rightarrow> info_leader self = Some identity
      | Validator _ \<Rightarrow> info_leader self = Some identity)"

definition already_handled_proposal :: "chain_manager_info \<Rightarrow> round \<Rightarrow> block \<Rightarrow> bool" where
  "already_handled_proposal self r b =
     (case info_requested_proposed self of
        None \<Rightarrow> False
      | Some proposal \<Rightarrow> pc_round (bp_content proposal) = r \<and> pc_block (bp_content proposal) = b)"

definition has_locked_block_in_current_round :: "chain_manager_info \<Rightarrow> bool" where
  "has_locked_block_in_current_round self =
     (case info_requested_locked self of
        None \<Rightarrow> False
      | Some certificate \<Rightarrow> gc_round certificate = info_current_round self)"

subsection \<open>Lemmas\<close>

text \<open>The round the manager's certificates and proposal ask for.\<close>

definition evidence_rounds :: "chain_manager \<Rightarrow> round list" where
  "evidence_rounds self =
     (case mgr_timeout self of
        None \<Rightarrow> []
      | Some cert \<Rightarrow> [case next_round (mgr_ownership self) (gc_round cert) of
                       Some r \<Rightarrow> r | None \<Rightarrow> Validator max_value])
     @ (case mgr_locked self of None \<Rightarrow> [] | Some cert \<Rightarrow> [gc_round cert])
     @ (case mgr_proposed self of None \<Rightarrow> [] | Some proposal \<Rightarrow> [pc_round (bp_content proposal)])"

lemma foldl_max_ge: "a \<le> foldl max (a :: 'a::linorder) xs"
  by (induction xs arbitrary: a) (auto intro: order_trans [OF max.cobounded1])

lemma foldl_max_mem: "x \<in> set xs \<Longrightarrow> x \<le> foldl max (a :: 'a::linorder) xs"
proof (induction xs arbitrary: a)
  case (Cons y xs)
  then show ?case
    using foldl_max_ge [of "max a y" xs] by auto
qed simp

lemma update_current_round_eq:
  "update_current_round self t =
     (let r = max (foldl max Fast (evidence_rounds self)) (first_round (mgr_ownership self))
      in if r \<le> mgr_current_round self then self
         else self\<lparr>mgr_round_timeout := map_option (timestamp_saturating_add t)
                     (round_timeout (mgr_ownership self) r), mgr_current_round := r\<rparr>)"
  by (simp add: update_current_round_def evidence_rounds_def)

lemma update_current_round_fields [simp]:
  "mgr_ownership (update_current_round self t) = mgr_ownership self"
  "mgr_proposed (update_current_round self t) = mgr_proposed self"
  "mgr_locked (update_current_round self t) = mgr_locked self"
  "mgr_timeout (update_current_round self t) = mgr_timeout self"
  "mgr_confirmed_vote (update_current_round self t) = mgr_confirmed_vote self"
  "mgr_validated_vote (update_current_round self t) = mgr_validated_vote self"
  "mgr_timeout_vote (update_current_round self t) = mgr_timeout_vote self"
  "mgr_fallback_vote (update_current_round self t) = mgr_fallback_vote self"
  "mgr_locked_blobs (update_current_round self t) = mgr_locked_blobs self"
  by (simp_all add: update_current_round_eq Let_def)

lemma update_current_round_mono: "mgr_current_round self \<le> mgr_current_round (update_current_round self t)"
  by (auto simp: update_current_round_eq Let_def le_max_iff_disj)

lemma update_current_round_evidence:
  "r \<in> set (evidence_rounds self) \<Longrightarrow> r \<le> mgr_current_round (update_current_round self t)"
  using foldl_max_mem [of r "evidence_rounds self" Fast]
  by (auto simp: update_current_round_eq Let_def le_max_iff_disj intro: order_trans)

lemma update_current_round_proposed:
  "mgr_proposed self = Some p \<Longrightarrow> pc_round (bp_content p) \<le> mgr_current_round (update_current_round self t)"
  by (rule update_current_round_evidence) (simp add: evidence_rounds_def)

lemma update_current_round_locked:
  "mgr_locked self = Some cert \<Longrightarrow> gc_round cert \<le> mgr_current_round (update_current_round self t)"
  by (rule update_current_round_evidence) (simp add: evidence_rounds_def)

text \<open>What an accepted proposal satisfies.\<close>

lemma expected_round_Inr:
  assumes "expected_round self p = Inr r"
  shows "mgr_current_round self \<le> r"
    and "bp_validated_block_certificate p = Some cert \<Longrightarrow> lc_round cert < r"
  using assms
  by (auto simp: expected_round_def less_max_iff_disj split: option.splits dest: next_round_less)

lemma check_proposed_block_Accept:
  assumes "check_proposed_block self p = Inr OutcomeAccept"
  shows "mgr_current_round self \<le> pc_round (bp_content p)"
    and "bp_validated_block_certificate p = Some cert \<Longrightarrow> lc_round cert < pc_round (bp_content p)"
    and "mgr_proposed self = Some old \<Longrightarrow> pc_round (bp_content old) < pc_round (bp_content p)"
    and "mgr_locked self = Some locked \<Longrightarrow>
      \<exists>cert. bp_validated_block_certificate p = Some cert \<and> gc_round locked \<le> lc_round cert"
    and "mgr_proposed self = Some old \<Longrightarrow> pc_round (bp_content old) = Fast \<Longrightarrow>
      bp_validated_block_certificate p = None \<Longrightarrow> pc_block (bp_content old) = pc_block (bp_content p)"
proof -
  obtain r where r: "expected_round self p = Inr r" "r \<le> pc_round (bp_content p)"
    using assms by (auto simp: check_proposed_block_def Let_def split: if_splits)
  then show "mgr_current_round self \<le> pc_round (bp_content p)"
    and "bp_validated_block_certificate p = Some cert \<Longrightarrow> lc_round cert < pc_round (bp_content p)"
    using expected_round_Inr [OF r(1)] by auto
  show "mgr_proposed self = Some old \<Longrightarrow> pc_round (bp_content old) < pc_round (bp_content p)"
    using assms by (auto simp: check_proposed_block_def Let_def split: if_splits)
  show "mgr_locked self = Some locked \<Longrightarrow>
      \<exists>cert. bp_validated_block_certificate p = Some cert \<and> gc_round locked \<le> lc_round cert"
    using assms by (auto simp: check_proposed_block_def Let_def split: if_splits option.splits)
  show "mgr_proposed self = Some old \<Longrightarrow> pc_round (bp_content old) = Fast \<Longrightarrow>
      bp_validated_block_certificate p = None \<Longrightarrow> pc_block (bp_content old) = pc_block (bp_content p)"
    using assms by (auto simp: check_proposed_block_def Let_def split: if_splits)
qed

lemma check_validated_block_Accept:
  assumes "check_validated_block self cert = Inr OutcomeAccept" and "mgr_locked self = Some locked"
  shows "gc_round locked < gc_round cert"
  using assms by (auto simp: check_validated_block_def Let_def split: if_splits option.splits)

text \<open>Adopting a certificate never lowers the round of the locked block.\<close>

lemma adopt_certificate_fields [simp]:
  "mgr_ownership (adopt_certificate h self p eb blobs) = mgr_ownership self"
  "mgr_proposed (adopt_certificate h self p eb blobs) = mgr_proposed self"
  "mgr_timeout (adopt_certificate h self p eb blobs) = mgr_timeout self"
  "mgr_current_round (adopt_certificate h self p eb blobs) = mgr_current_round self"
  "mgr_confirmed_vote (adopt_certificate h self p eb blobs) = mgr_confirmed_vote self"
  "mgr_validated_vote (adopt_certificate h self p eb blobs) = mgr_validated_vote self"
  by (simp_all add: adopt_certificate_def split: option.splits)

lemma adopt_certificate_locked:
  assumes "mgr_locked self = Some locked"
  shows "\<exists>locked'. mgr_locked (adopt_certificate h self p eb blobs) = Some locked' \<and>
    gc_round locked \<le> gc_round locked'"
  using assms
  by (auto simp: adopt_certificate_def lc_with_value_def gc_new_def split: option.splits if_splits)

end
