(* ===== verification/Consensus.thy ===== *)
theory Consensus
  imports Manager
begin

section \<open>Agreement of the validators on a chain's next block\<close>

text \<open>
  The protocol the chain managers run for one block height: the honest validators of a committee
  handle block proposals, validated-block certificates and timeouts in any order; the others may sign
  anything. A state holds the manager of every honest validator and the votes that have been stored in
  some manager so far. Signatures cannot be forged: in a certificate the network delivers, an honest
  signer has cast the vote it signs for (\<open>genuine\<close>). Hash functions do not collide on the executed
  blocks that honest validators voted for (\<open>collision_free\<close>).

  A proposal is handled as in \<open>validate_block\<close> and \<open>vote_for_block_proposal\<close> of the chain worker; the
  checks there that do not depend on the manager (owner signature, block chaining, blobs, execution) are
  the parameter \<open>pr_valid\<close>. A validated-block certificate is handled as in \<open>process_validated_block\<close>.
  Timeout certificates are not constrained, so that the results do not depend on clocks.

  \<open>round_agreement\<close> is the interface between the voting rules and the agreement argument.
\<close>

subsection \<open>The agreement argument\<close>

locale round_agreement =
  fixes ok :: "'s \<Rightarrow> bool"
    and vcert :: "'s \<Rightarrow> round \<Rightarrow> 'b \<Rightarrow> bool"
    and ccert :: "'s \<Rightarrow> round \<Rightarrow> 'b \<Rightarrow> bool"
  assumes vcert_unique: "ok s \<Longrightarrow> vcert s r A \<Longrightarrow> vcert s r B \<Longrightarrow> A = B"
    and ccert_validated: "ok s \<Longrightarrow> ccert s r A \<Longrightarrow> r \<noteq> Fast \<Longrightarrow> vcert s r A"
    and ccert_locks: "ok s \<Longrightarrow> ccert s q B \<Longrightarrow> q \<noteq> Fast \<Longrightarrow> vcert s r A \<Longrightarrow> q < r \<Longrightarrow>
      \<exists>c. q \<le> c \<and> c < r \<and> vcert s c A"
    and fast_unique: "ok s \<Longrightarrow> ccert s Fast A \<Longrightarrow> ccert s Fast B \<Longrightarrow> A = B"
begin

lemma locked_value:
  assumes "ok s" and "ccert s q B" and "q \<noteq> Fast" and "vcert s r A" and "q \<le> r"
  shows "A = B"
  using assms(4,5)
proof (induction r rule: wf_induct_rule [OF wf_round_less])
  case (1 r)
  show ?case
  proof (cases "q = r")
    case True
    then show ?thesis
      using 1 assms vcert_unique ccert_validated by blast
  next
    case False
    with 1 have "q < r" by simp
    then obtain c where "q \<le> c" "c < r" "vcert s c A"
      using 1 assms ccert_locks [of s q B r A] by blast
    then show ?thesis using 1 by blast
  qed
qed

lemma agreement:
  assumes "ok s" and "ccert s q B" and "ccert s r A" and "q = Fast \<longleftrightarrow> r = Fast"
  shows "A = B"
proof (cases "q = Fast")
  case True
  then show ?thesis using assms fast_unique by blast
next
  case False
  then show ?thesis
    using assms ccert_validated locked_value [of s q B r A] locked_value [of s r A q B]
    by (metis linear)
qed

end

subsection \<open>States and steps\<close>

text \<open>A vote for a block: who, on what kind of value, in which round, for which executed block.\<close>

type_synonym ballot = "validator_name \<times> certificate_kind \<times> round \<times> executed_block"

record protocol =
  pr_scheme :: sig_scheme
  pr_hashers :: hashers
  pr_election :: leader_election
  pr_committee :: committee
  pr_honest :: "validator_name set"
  pr_valid :: "block_proposal \<Rightarrow> public_key \<Rightarrow> executed_block \<Rightarrow> bool"

record net =
  net_managers :: "validator_name \<Rightarrow> chain_manager"
  net_ballots :: "ballot set"

definition block_hash :: "hashers \<Rightarrow> certificate_kind \<Rightarrow> executed_block \<Rightarrow> crypto_hash" where
  "block_hash h kind eb =
     (case kind of
        ConfirmedKind \<Rightarrow> hash_confirmed h (confirmed_block_new h eb)
      | _ \<Rightarrow> hash_validated h (validated_block_new h eb))"

text \<open>The block votes a manager stores, which it hands to every client that asks.\<close>

definition stored_ballots :: "validator_name \<Rightarrow> chain_manager \<Rightarrow> ballot set" where
  "stored_ballots v m =
     (case mgr_validated_vote m of
        None \<Rightarrow> {}
      | Some w \<Rightarrow> {(v, ValidatedKind, vote_round w, validated_executed_block (hashed_value (vote_value_of w)))})
     \<union> (case mgr_confirmed_vote m of
        None \<Rightarrow> {}
      | Some w \<Rightarrow> {(v, ConfirmedKind, vote_round w, confirmed_executed_block (hashed_value (vote_value_of w)))})"

definition genuine :: "protocol \<Rightarrow> net \<Rightarrow> crypto_hash \<Rightarrow> certificate_kind \<Rightarrow> round \<Rightarrow> signatures \<Rightarrow> bool" where
  "genuine P n hash kind r sigs \<longleftrightarrow>
     (\<forall>v \<in> set (signers sigs) \<inter> pr_honest P.
        \<exists>eb. (v, kind, r, eb) \<in> net_ballots n \<and> block_hash (pr_hashers P) kind eb = hash)"

text \<open>The handling of a proposal up to the vote (\<open>validate_block\<close>): the validated-block certificate,
  if any, is checked and must certify the executed block of the proposal.\<close>

definition proposal_checks :: "protocol \<Rightarrow> net \<Rightarrow> chain_manager \<Rightarrow> block_proposal \<Rightarrow> executed_block \<Rightarrow> bool" where
  "proposal_checks P n m p eb \<longleftrightarrow>
     (\<exists>pk. verify_owner (pr_election P) m p = Some pk \<and> pr_valid P p pk eb) \<and>
     eb_block eb = pc_block (bp_content p) \<and>
     (case bp_validated_block_certificate p of
        None \<Rightarrow> pc_outcome (bp_content p) = None
      | Some lc \<Rightarrow>
          pc_outcome (bp_content p) = Some (eb_outcome eb) \<and>
          lc_check (pr_scheme P) lc (pr_committee P) = Inr (lc_value lc) \<and>
          genuine P n (lv_value_hash (lc_value lc)) (lv_kind (lc_value lc)) (lc_round lc) (lc_signatures lc) \<and>
          lc_with_value validated_cv lc
            (hashed_new (hash_validated (pr_hashers P)) (validated_block_new (pr_hashers P) eb)) \<noteq> None) \<and>
     check_proposed_block m p = Inr OutcomeAccept"

text \<open>A delivered validated-block certificate: its value carries the right hash (certificates are
  rehashed when they are decoded), and it passes the check.\<close>

definition certificate_checks ::
  "protocol \<Rightarrow> net \<Rightarrow> chain_manager \<Rightarrow> validated_block generic_certificate \<Rightarrow> bool" where
  "certificate_checks P n m cert \<longleftrightarrow>
     gc_hash cert = block_hash (pr_hashers P) ValidatedKind (validated_executed_block (hashed_value (gc_value cert))) \<and>
     gc_check (pr_scheme P) validated_cv cert (pr_committee P) = Inr () \<and>
     genuine P n (gc_hash cert) ValidatedKind (gc_round cert) (gc_signatures cert) \<and>
     check_validated_block m cert = Inr OutcomeAccept"

definition net_update :: "net \<Rightarrow> validator_name \<Rightarrow> chain_manager \<Rightarrow> net" where
  "net_update n v m =
     n\<lparr>net_managers := (net_managers n)(v := m),
       net_ballots := net_ballots n \<union> stored_ballots v m\<rparr>"

inductive step :: "protocol \<Rightarrow> net \<Rightarrow> net \<Rightarrow> bool" for P where
  propose: "v \<in> pr_honest P \<Longrightarrow> proposal_checks P n (net_managers n v) p eb \<Longrightarrow>
    step P n (net_update n v
      (fst (create_vote (pr_scheme P) (pr_hashers P) (net_managers n v) p eb (Some v) t blobs)))"
| validated: "v \<in> pr_honest P \<Longrightarrow> certificate_checks P n (net_managers n v) cert \<Longrightarrow>
    step P n (net_update n v
      (create_final_vote (pr_scheme P) (pr_hashers P) (net_managers n v) cert (Some v) t blobs))"
| timeout: "v \<in> pr_honest P \<Longrightarrow>
    step P n (net_update n v (handle_timeout_certificate (net_managers n v) tc t))"
| timeout_vote: "v \<in> pr_honest P \<Longrightarrow>
    step P n (net_update n v
      (fst (vote_timeout (pr_scheme P) (pr_hashers P) (net_managers n v) cid ht ep (Some v) t)))"
| fallback_vote: "v \<in> pr_honest P \<Longrightarrow>
    step P n (net_update n v
      (fst (vote_fallback (pr_scheme P) (pr_hashers P) (net_managers n v) cid ht ep (Some v))))"

definition initial_net :: "protocol \<Rightarrow> chain_ownership \<Rightarrow> net \<Rightarrow> bool" where
  "initial_net P own n \<longleftrightarrow>
     net_ballots n = {} \<and>
     (\<forall>v \<in> pr_honest P. \<exists>owner_of seed t fallback.
        manager_new (pr_election P) owner_of own seed t fallback = Inr (net_managers n v))"

inductive reachable :: "protocol \<Rightarrow> chain_ownership \<Rightarrow> net \<Rightarrow> bool" for P own where
  init: "initial_net P own n \<Longrightarrow> reachable P own n"
| step: "reachable P own n \<Longrightarrow> step P n n' \<Longrightarrow> reachable P own n'"

definition net_blocks :: "net \<Rightarrow> executed_block set" where
  "net_blocks n = {eb. \<exists>v kind r. (v, kind, r, eb) \<in> net_ballots n}"

definition collision_free :: "protocol \<Rightarrow> net \<Rightarrow> bool" where
  "collision_free P n \<longleftrightarrow>
     (\<forall>kind. inj_on (block_hash (pr_hashers P) kind) (net_blocks n))"

text \<open>Less than a third of the voting power is faulty: its weight is below the validity threshold.\<close>

definition protocol_ok :: "protocol \<Rightarrow> bool" where
  "protocol_ok P \<longleftrightarrow>
     committee_wf (pr_committee P) \<and>
     sum (committee_power (pr_committee P)) (committee_members (pr_committee P) - pr_honest P)
       < unat (validity_threshold (pr_committee P))"

text \<open>A certificate for a block exists: it passes the check, and its honest signers voted for it.\<close>

definition certified :: "protocol \<Rightarrow> net \<Rightarrow> certificate_kind \<Rightarrow> round \<Rightarrow> executed_block \<Rightarrow> bool" where
  "certified P n kind r eb \<longleftrightarrow>
     eb \<in> net_blocks n \<and>
     (\<exists>sigs. check_signatures (pr_scheme P) (block_hash (pr_hashers P) kind eb) kind r sigs (pr_committee P) = Inr ()
       \<and> genuine P n (block_hash (pr_hashers P) kind eb) kind r sigs)"

subsection \<open>Invariants\<close>

text \<open>What the manager \<open>m\<close> of an honest validator remembers of the ballots it has cast.\<close>

definition proposed_round :: "chain_manager \<Rightarrow> round option" where
  "proposed_round m = map_option (\<lambda>p. pc_round (bp_content p)) (mgr_proposed m)"

definition locked_round :: "chain_manager \<Rightarrow> round option" where
  "locked_round m = map_option gc_round (mgr_locked m)"

definition voter_inv :: "protocol \<Rightarrow> net \<Rightarrow> validator_name \<Rightarrow> bool" where
  "voter_inv P n v \<longleftrightarrow> (let m = net_managers n v; B = net_ballots n in
     stored_ballots v m \<subseteq> B \<and>
     (\<forall>r. proposed_round m = Some r \<longrightarrow> r \<le> mgr_current_round m) \<and>
     (\<forall>r A. (v, ValidatedKind, r, A) \<in> B \<longrightarrow> r \<noteq> Fast \<and> (\<exists>q. proposed_round m = Some q \<and> r \<le> q)) \<and>
     (\<forall>A. (v, ConfirmedKind, Fast, A) \<in> B \<longrightarrow> proposed_round m \<noteq> None) \<and>
     (\<forall>r A A'. (v, ValidatedKind, r, A) \<in> B \<longrightarrow> (v, ValidatedKind, r, A') \<in> B \<longrightarrow> A = A') \<and>
     (\<forall>A A'. (v, ConfirmedKind, Fast, A) \<in> B \<longrightarrow> (v, ConfirmedKind, Fast, A') \<in> B \<longrightarrow> A = A') \<and>
     (\<forall>s A. (v, ConfirmedKind, s, A) \<in> B \<longrightarrow> s \<noteq> Fast \<longrightarrow>
        (\<exists>q. locked_round m = Some q \<and> s \<le> q) \<and> certified P n ValidatedKind s A) \<and>
     (\<forall>r A s A'. (v, ValidatedKind, r, A) \<in> B \<longrightarrow> (v, ConfirmedKind, s, A') \<in> B \<longrightarrow> s \<noteq> Fast \<longrightarrow>
        s < r \<longrightarrow> (\<exists>c. s \<le> c \<and> c < r \<and> certified P n ValidatedKind c A)))"

lemma stored_ballots_cases:
  "(u, kind, r, A) \<in> stored_ballots v m \<Longrightarrow> u = v \<and> kind \<noteq> TimeoutKind"
  by (auto simp: stored_ballots_def split: option.splits)

lemma certified_mono:
  "certified P n kind r A \<Longrightarrow> net_ballots n \<subseteq> net_ballots n' \<Longrightarrow> certified P n' kind r A"
  unfolding certified_def genuine_def net_blocks_def by blast

text \<open>How one ballot is added: the shape every voting step has.\<close>

lemma stored_ballots_same:
  "mgr_validated_vote m' = mgr_validated_vote m \<Longrightarrow> mgr_confirmed_vote m' = mgr_confirmed_vote m \<Longrightarrow>
   stored_ballots v m' = stored_ballots v m"
  by (simp add: stored_ballots_def)

lemma create_vote_result:
  assumes "m' = fst (create_vote ss h m p eb (Some v) t blobs)"
  shows "stored_ballots v m' =
      {(v, if pc_round (bp_content p) = Fast then ConfirmedKind else ValidatedKind, pc_round (bp_content p), eb)}"
    and "proposed_round m' = Some (pc_round (bp_content p))"
    and "mgr_current_round m \<le> mgr_current_round m'"
    and "pc_round (bp_content p) \<le> mgr_current_round m'"
    and "locked_round m = Some q \<Longrightarrow> \<exists>q'. locked_round m' = Some q' \<and> q \<le> q'"
proof -
  let ?m1 = "adopt_certificate h m p eb blobs\<lparr>mgr_proposed := Some p\<rparr>"
  have rounds: "mgr_current_round m' = mgr_current_round (update_current_round ?m1 t)"
    "mgr_proposed m' = Some p" "mgr_locked m' = mgr_locked (adopt_certificate h m p eb blobs)"
    by (simp_all add: assms create_vote_def Let_def)
  show "stored_ballots v m' =
      {(v, if pc_round (bp_content p) = Fast then ConfirmedKind else ValidatedKind, pc_round (bp_content p), eb)}"
    by (simp add: assms create_vote_def Let_def stored_ballots_def vote_new_def hashed_new_def
        validated_block_new_def confirmed_block_new_def validated_executed_block_def
        confirmed_executed_block_def)
  show "proposed_round m' = Some (pc_round (bp_content p))"
    by (simp add: proposed_round_def rounds)
  show "mgr_current_round m \<le> mgr_current_round m'"
    using update_current_round_mono [of ?m1 t] by (simp add: rounds)
  show "pc_round (bp_content p) \<le> mgr_current_round m'"
    using update_current_round_proposed [of ?m1 p t] by (simp add: rounds)
  show "\<exists>q'. locked_round m' = Some q' \<and> q \<le> q'" if "locked_round m = Some q"
    using that adopt_certificate_locked [of m _ h p eb blobs]
    by (fastforce simp: locked_round_def rounds)
qed

lemma create_final_vote_result:
  assumes "m' = create_final_vote ss h m cert (Some v) t blobs"
    and "check_validated_block m cert = Inr OutcomeAccept"
  shows "proposed_round m' = proposed_round m"
    and "mgr_current_round m \<le> mgr_current_round m'"
    and "gc_round cert < mgr_current_round m \<Longrightarrow> m' = m"
    and "\<not> gc_round cert < mgr_current_round m \<Longrightarrow> stored_ballots v m' =
      {(v, ConfirmedKind, gc_round cert, validated_executed_block (hashed_value (gc_value cert)))}"
    and "\<not> gc_round cert < mgr_current_round m \<Longrightarrow> locked_round m' = Some (gc_round cert)"
    and "locked_round m = Some q \<Longrightarrow> \<exists>q'. locked_round m' = Some q' \<and> q \<le> q'"
proof -
  let ?m1 = "m\<lparr>mgr_locked := Some cert, mgr_locked_blobs := blobs\<rparr>"
  show "mgr_current_round m \<le> mgr_current_round m'"
    using update_current_round_mono [of ?m1 t] by (simp add: assms(1) create_final_vote_def Let_def)
  show "\<exists>q'. locked_round m' = Some q' \<and> q \<le> q'" if "locked_round m = Some q"
    using that check_validated_block_Accept [OF assms(2)]
    by (auto simp: assms(1) create_final_vote_def Let_def locked_round_def)
qed (simp_all add: assms(1) create_final_vote_def Let_def stored_ballots_def vote_new_def hashed_new_def
    confirmed_block_new_def confirmed_executed_block_def proposed_round_def locked_round_def)

lemma handle_timeout_result:
  assumes "m' = handle_timeout_certificate m tc t"
  shows "stored_ballots v m' = stored_ballots v m" "proposed_round m' = proposed_round m"
    "locked_round m' = locked_round m" "mgr_current_round m \<le> mgr_current_round m'"
  using update_current_round_mono [of "m\<lparr>mgr_timeout := Some tc\<rparr>" t]
  by (auto simp: assms handle_timeout_certificate_def stored_ballots_def proposed_round_def
      locked_round_def split: option.splits)

lemma vote_timeout_result:
  assumes "m' = fst (vote_timeout ss h m cid ht ep key t)"
  shows "stored_ballots v m' = stored_ballots v m" "proposed_round m' = proposed_round m"
    "locked_round m' = locked_round m" "mgr_current_round m' = mgr_current_round m"
  by (auto simp: assms vote_timeout_def stored_ballots_def proposed_round_def locked_round_def
      split: option.splits)

lemma vote_fallback_result:
  assumes "m' = fst (vote_fallback ss h m cid ht ep key)"
  shows "stored_ballots v m' = stored_ballots v m" "proposed_round m' = proposed_round m"
    "locked_round m' = locked_round m" "mgr_current_round m' = mgr_current_round m"
  by (auto simp: assms vote_fallback_def stored_ballots_def proposed_round_def locked_round_def
      split: option.splits)

definition net_inv :: "protocol \<Rightarrow> net \<Rightarrow> bool" where
  "net_inv P n \<longleftrightarrow> (\<forall>v \<in> pr_honest P. voter_inv P n v)"

lemma net_update_fields [simp]:
  "net_managers (net_update n v m) u = (if u = v then m else net_managers n u)"
  "net_ballots (net_update n v m) = net_ballots n \<union> stored_ballots v m"
  by (simp_all add: net_update_def)

lemma certified_update:
  "certified P n kind r A \<Longrightarrow> certified P (net_update n v m) kind r A"
  by (rule certified_mono) auto

lemma voter_invD:
  assumes "voter_inv P n v"
  shows "stored_ballots v (net_managers n v) \<subseteq> net_ballots n"
    and "proposed_round (net_managers n v) = Some r \<Longrightarrow> r \<le> mgr_current_round (net_managers n v)"
    and "(v, ValidatedKind, r, A) \<in> net_ballots n \<Longrightarrow> r \<noteq> Fast"
    and "(v, ValidatedKind, r, A) \<in> net_ballots n \<Longrightarrow> \<exists>q. proposed_round (net_managers n v) = Some q \<and> r \<le> q"
    and "(v, ConfirmedKind, Fast, A) \<in> net_ballots n \<Longrightarrow> proposed_round (net_managers n v) \<noteq> None"
    and "(v, ValidatedKind, r, A) \<in> net_ballots n \<Longrightarrow> (v, ValidatedKind, r, A') \<in> net_ballots n \<Longrightarrow> A = A'"
    and "(v, ConfirmedKind, Fast, A) \<in> net_ballots n \<Longrightarrow> (v, ConfirmedKind, Fast, A') \<in> net_ballots n \<Longrightarrow> A = A'"
    and "(v, ConfirmedKind, s, A) \<in> net_ballots n \<Longrightarrow> s \<noteq> Fast \<Longrightarrow>
      \<exists>q. locked_round (net_managers n v) = Some q \<and> s \<le> q"
    and "(v, ConfirmedKind, s, A) \<in> net_ballots n \<Longrightarrow> s \<noteq> Fast \<Longrightarrow> certified P n ValidatedKind s A"
    and "(v, ValidatedKind, r, A) \<in> net_ballots n \<Longrightarrow> (v, ConfirmedKind, s, A') \<in> net_ballots n \<Longrightarrow>
      s \<noteq> Fast \<Longrightarrow> s < r \<Longrightarrow> \<exists>c. s \<le> c \<and> c < r \<and> certified P n ValidatedKind c A"
  using assms unfolding voter_inv_def Let_def by blast+

text \<open>A step that casts no vote of \<open>v\<close> and keeps its proposal and lock keeps the invariant.\<close>

lemma voter_inv_frame:
  assumes inv: "voter_inv P n v"
    and own: "\<And>kind r A. (v, kind, r, A) \<in> net_ballots n' \<longleftrightarrow> (v, kind, r, A) \<in> net_ballots n"
    and mono: "net_ballots n \<subseteq> net_ballots n'"
    and stored: "stored_ballots v (net_managers n' v) = stored_ballots v (net_managers n v)"
    and rounds: "proposed_round (net_managers n' v) = proposed_round (net_managers n v)"
      "locked_round (net_managers n' v) = locked_round (net_managers n v)"
      "mgr_current_round (net_managers n v) \<le> mgr_current_round (net_managers n' v)"
  shows "voter_inv P n' v"
proof -
  note I = voter_invD [OF inv]
  note old = certified_mono [OF _ mono]
  show ?thesis
    unfolding voter_inv_def Let_def own stored rounds(1,2)
  proof (intro conjI allI impI)
    show "stored_ballots v (net_managers n v) \<subseteq> net_ballots n'"
      using I(1) mono by (rule order_trans)
    show "r \<le> mgr_current_round (net_managers n' v)" if "proposed_round (net_managers n v) = Some r" for r
      using I(2) [OF that] rounds(3) by (rule order_trans)
    show "certified P n' ValidatedKind s A" if "(v, ConfirmedKind, s, A) \<in> net_ballots n" "s \<noteq> Fast" for s A
      using I(9) [OF that] by (rule old)
    show "\<exists>c. s \<le> c \<and> c < r \<and> certified P n' ValidatedKind c A"
      if "(v, ValidatedKind, r, A) \<in> net_ballots n" "(v, ConfirmedKind, s, A') \<in> net_ballots n"
        "s \<noteq> Fast" "s < r" for r A s A'
      using I(10) [OF that] old by blast
  qed (use I(3-8) in blast)+
qed

lemma voter_inv_other:
  assumes "voter_inv P n u" and "u \<noteq> v"
  shows "voter_inv P (net_update n v m) u"
  using assms stored_ballots_cases by (intro voter_inv_frame [OF assms(1)]) fastforce+

lemma voter_inv_quiet:
  assumes "voter_inv P n v"
    and "stored_ballots v m = stored_ballots v (net_managers n v)"
    and "proposed_round m = proposed_round (net_managers n v)"
    and "locked_round m = locked_round (net_managers n v)"
    and "mgr_current_round (net_managers n v) \<le> mgr_current_round m"
  shows "voter_inv P (net_update n v m) v"
proof -
  have "stored_ballots v (net_managers n v) \<subseteq> net_ballots n"
    using assms(1) by (auto simp: voter_inv_def Let_def)
  then show ?thesis
    using assms by (intro voter_inv_frame [OF assms(1)]) auto
qed

lemma certified_by_proposal:
  assumes "proposal_checks P n m p eb" and "bp_validated_block_certificate p = Some lc"
    and "eb \<in> net_blocks n'" and "net_ballots n \<subseteq> net_ballots n'"
  shows "certified P n' ValidatedKind (lc_round lc) eb"
proof -
  have "lv_value_hash (lc_value lc) = block_hash (pr_hashers P) ValidatedKind eb"
    and "lv_kind (lc_value lc) = ValidatedKind"
    and "check_signatures (pr_scheme P) (lv_value_hash (lc_value lc)) (lv_kind (lc_value lc)) (lc_round lc)
      (lc_signatures lc) (pr_committee P) = Inr ()"
    and "genuine P n (lv_value_hash (lc_value lc)) (lv_kind (lc_value lc)) (lc_round lc) (lc_signatures lc)"
    using assms(1,2)
    by (auto simp: proposal_checks_def lc_with_value_def lc_check_def block_hash_def hashed_new_def
        validated_cv_def split: if_splits)
  then show ?thesis
    using assms(3,4) unfolding certified_def genuine_def by force
qed

lemma voter_inv_propose:
  assumes inv: "voter_inv P n v" and checks: "proposal_checks P n (net_managers n v) p eb"
    and m': "m' = fst (create_vote ss h (net_managers n v) p eb (Some v) t blobs)"
  shows "voter_inv P (net_update n v m') v"
proof -
  let ?m = "net_managers n v" and ?r = "pc_round (bp_content p)" and ?n = "net_update n v m'"
  note res = create_vote_result [OF m']
  have accept: "check_proposed_block ?m p = Inr OutcomeAccept"
    using checks by (simp add: proposal_checks_def)
  note acc = check_proposed_block_Accept [OF accept]
  have above: "q < ?r" if "proposed_round ?m = Some q" for q
    using that acc(3) by (auto simp: proposed_round_def)
  have locked: "\<exists>c. q \<le> c \<and> c < ?r \<and> certified P ?n ValidatedKind c eb" if lr: "locked_round ?m = Some q" for q
  proof -
    obtain lc where lc: "bp_validated_block_certificate p = Some lc" "q \<le> lc_round lc"
      using lr acc(4) by (auto simp: locked_round_def)
    moreover have "certified P ?n ValidatedKind (lc_round lc) eb"
      using certified_by_proposal [OF checks lc(1), of ?n] res(1)
      by (auto simp: net_blocks_def)
    ultimately show ?thesis using acc(2) by blast
  qed
  have old: "certified P n kind c A \<Longrightarrow> certified P ?n kind c A" for kind c A
    by (rule certified_update)
  let ?k = "if ?r = Fast then ConfirmedKind else ValidatedKind"
  have B: "net_ballots ?n = insert (v, ?k, ?r, eb) (net_ballots n)"
    using res(1) by simp
  have V: "(v, ValidatedKind, r, A) \<in> net_ballots ?n \<longleftrightarrow>
      (v, ValidatedKind, r, A) \<in> net_ballots n \<or> (?r \<noteq> Fast \<and> r = ?r \<and> A = eb)" for r A
    unfolding B by auto
  have C: "(v, ConfirmedKind, r, A) \<in> net_ballots ?n \<longleftrightarrow>
      (v, ConfirmedKind, r, A) \<in> net_ballots n \<or> (?r = Fast \<and> r = ?r \<and> A = eb)" for r A
    unfolding B by auto
  note I = voter_invD [OF inv]
  have fresh: "r < ?r" if "(v, ValidatedKind, r, A) \<in> net_ballots n" for r A
    using I(4) [OF that] above by (auto intro: le_less_trans)
  show ?thesis
    unfolding voter_inv_def Let_def
  proof (intro conjI allI impI)
    show "stored_ballots v (net_managers ?n v) \<subseteq> net_ballots ?n" by simp
    show "r \<le> mgr_current_round (net_managers ?n v)" if "proposed_round (net_managers ?n v) = Some r" for r
      using that res(2,4) by simp
    show "r \<noteq> Fast" if "(v, ValidatedKind, r, A) \<in> net_ballots ?n" for r A
      using that I(3) unfolding V by auto
    show "\<exists>q. proposed_round (net_managers ?n v) = Some q \<and> r \<le> q"
      if "(v, ValidatedKind, r, A) \<in> net_ballots ?n" for r A
      using that fresh res(2) unfolding V by (auto intro: less_imp_le)
    show "proposed_round (net_managers ?n v) \<noteq> None"
      using res(2) by simp
    show "A = A'" if "(v, ValidatedKind, r, A) \<in> net_ballots ?n" "(v, ValidatedKind, r, A') \<in> net_ballots ?n" for r A A'
      using that I(6) fresh unfolding V by (metis less_irrefl)
    show "A = A'" if "(v, ConfirmedKind, Fast, A) \<in> net_ballots ?n" "(v, ConfirmedKind, Fast, A') \<in> net_ballots ?n" for A A'
      using that I(5,7) above unfolding C by (metis not_None_eq round_less_simps(1))
    show "\<exists>q. locked_round (net_managers ?n v) = Some q \<and> s \<le> q"
      if "(v, ConfirmedKind, s, A) \<in> net_ballots ?n" "s \<noteq> Fast" for s A
      using that I(8) [of s A] res(5) unfolding C by (auto intro: order_trans)
    show "certified P ?n ValidatedKind s A"
      if "(v, ConfirmedKind, s, A) \<in> net_ballots ?n" "s \<noteq> Fast" for s A
      using that I(9) [of s A] old unfolding C by auto
    show "\<exists>c. s \<le> c \<and> c < r \<and> certified P ?n ValidatedKind c A"
      if "(v, ValidatedKind, r, A) \<in> net_ballots ?n" "(v, ConfirmedKind, s, A') \<in> net_ballots ?n"
        and nf: "s \<noteq> Fast" and "s < r" for r A s A'
    proof (cases "(v, ValidatedKind, r, A) \<in> net_ballots n")
      case True
      then show ?thesis
        using that I(10) [of r A s A'] old unfolding C by blast
    next
      case False
      then have new: "r = ?r" "A = eb" and conf: "(v, ConfirmedKind, s, A') \<in> net_ballots n"
        using that unfolding V C by auto
      obtain q where "locked_round ?m = Some q" "s \<le> q"
        using I(8) [OF conf nf] by blast
      then show ?thesis
        using locked new by (meson order_trans)
    qed
  qed
qed

text \<open>No block is validated in the fast round.\<close>

lemma not_certified_fast:
  assumes ok: "protocol_ok P" and inv: "net_inv P n"
    and "check_signatures ss hash ValidatedKind r sigs (pr_committee P) = Inr ()"
    and gen: "genuine P n hash ValidatedKind r sigs"
  shows "r \<noteq> Fast"
proof -
  have wf: "committee_wf (pr_committee P)"
    using ok by (simp add: protocol_ok_def)
  obtain v where v: "v \<in> set (signers sigs)" "v \<notin> committee_members (pr_committee P) - pr_honest P"
    using cq.honest_in_one [OF wf check_signatures_quorum [OF wf assms(3)],
        of "committee_members (pr_committee P) - pr_honest P"] ok cq.finite_members [OF wf]
    by (auto simp: protocol_ok_def)
  moreover have "v \<in> committee_members (pr_committee P)"
    using v(1) check_signatures_quorum(1) [OF wf assms(3)] by blast
  ultimately obtain eb where "v \<in> pr_honest P" "(v, ValidatedKind, r, eb) \<in> net_ballots n"
    using gen by (fastforce simp: genuine_def)
  then show ?thesis
    using inv voter_invD(3) [of P n v r eb] by (simp add: net_inv_def)
qed

lemma voter_inv_validated:
  assumes ok: "protocol_ok P" and net: "net_inv P n" and inv: "voter_inv P n v"
    and checks: "certificate_checks P n (net_managers n v) cert"
    and m': "m' = create_final_vote ss h (net_managers n v) cert (Some v) t blobs"
  shows "voter_inv P (net_update n v m') v"
proof -
  let ?m = "net_managers n v" and ?r = "gc_round cert" and ?n = "net_update n v m'"
  let ?eb = "validated_executed_block (hashed_value (gc_value cert))"
  have accept: "check_validated_block ?m cert = Inr OutcomeAccept"
    using checks by (simp add: certificate_checks_def)
  note res = create_final_vote_result [OF m' accept] and I = voter_invD [OF inv]
  show ?thesis
  proof (cases "?r < mgr_current_round ?m")
    case True
    then have "m' = ?m" by (rule res(3))
    then show ?thesis by (simp add: voter_inv_quiet inv)
  next
    case vote: False
    have sig: "check_signatures (pr_scheme P) (gc_hash cert) ValidatedKind ?r (gc_signatures cert) (pr_committee P) = Inr ()"
      and gen: "genuine P n (gc_hash cert) ValidatedKind ?r (gc_signatures cert)"
      and hash: "gc_hash cert = block_hash (pr_hashers P) ValidatedKind ?eb"
      using checks by (auto simp: certificate_checks_def gc_check_def validated_cv_def)
    have nf: "?r \<noteq> Fast"
      using not_certified_fast [OF ok net sig gen] .
    have B: "net_ballots ?n = insert (v, ConfirmedKind, ?r, ?eb) (net_ballots n)"
      using res(4) [OF vote] by simp
    have cert: "certified P ?n ValidatedKind ?r ?eb"
      using sig gen hash B unfolding certified_def genuine_def net_blocks_def by auto
    have V: "(v, ValidatedKind, r, A) \<in> net_ballots ?n \<longleftrightarrow> (v, ValidatedKind, r, A) \<in> net_ballots n" for r A
      unfolding B by auto
    have C: "(v, ConfirmedKind, r, A) \<in> net_ballots ?n \<longleftrightarrow>
        (v, ConfirmedKind, r, A) \<in> net_ballots n \<or> r = ?r \<and> A = ?eb" for r A
      unfolding B by auto
    have old: "certified P n kind c A \<Longrightarrow> certified P ?n kind c A" for kind c A
      by (rule certified_update)
    have below: "r \<le> ?r" if "(v, ValidatedKind, r, A) \<in> net_ballots n" for r A
      using I(4) [OF that] I(2) vote by (auto simp: not_less intro: order_trans)
    show ?thesis
      unfolding voter_inv_def Let_def
    proof (intro conjI allI impI)
      show "stored_ballots v (net_managers ?n v) \<subseteq> net_ballots ?n" by simp
      show "r \<le> mgr_current_round (net_managers ?n v)" if "proposed_round (net_managers ?n v) = Some r" for r
        using that I(2) res(1,2) by (auto intro: order_trans)
      show "r \<noteq> Fast" if "(v, ValidatedKind, r, A) \<in> net_ballots ?n" for r A
        using that I(3) unfolding V by blast
      show "\<exists>q. proposed_round (net_managers ?n v) = Some q \<and> r \<le> q"
        if "(v, ValidatedKind, r, A) \<in> net_ballots ?n" for r A
        using that I(4) res(1) unfolding V by simp
      show "proposed_round (net_managers ?n v) \<noteq> None" if "(v, ConfirmedKind, Fast, A) \<in> net_ballots ?n" for A
        using that I(5) nf res(1) unfolding C by auto
      show "A = A'" if "(v, ValidatedKind, r, A) \<in> net_ballots ?n" "(v, ValidatedKind, r, A') \<in> net_ballots ?n" for r A A'
        using that I(6) unfolding V by blast
      show "A = A'" if "(v, ConfirmedKind, Fast, A) \<in> net_ballots ?n" "(v, ConfirmedKind, Fast, A') \<in> net_ballots ?n" for A A'
        using that I(7) [of A A'] nf unfolding C by auto
      show "\<exists>q. locked_round (net_managers ?n v) = Some q \<and> s \<le> q"
        if "(v, ConfirmedKind, s, A) \<in> net_ballots ?n" "s \<noteq> Fast" for s A
        using that I(8) [of s A] res(5,6) vote unfolding C by (auto intro: order_trans)
      show "certified P ?n ValidatedKind s A"
        if "(v, ConfirmedKind, s, A) \<in> net_ballots ?n" "s \<noteq> Fast" for s A
        using that I(9) [of s A] old cert unfolding C by auto
      show "\<exists>c. s \<le> c \<and> c < r \<and> certified P ?n ValidatedKind c A"
        if "(v, ValidatedKind, r, A) \<in> net_ballots ?n" "(v, ConfirmedKind, s, A') \<in> net_ballots ?n"
          "s \<noteq> Fast" "s < r" for r A s A'
        using that I(10) [of r A s A'] below [of r A] old unfolding V C by (auto simp: not_less [symmetric])
    qed
  qed
qed

lemma net_inv_step:
  assumes ok: "protocol_ok P" and inv: "net_inv P n" and "step P n n'"
  shows "net_inv P n'"
  using assms(3)
proof cases
  case (propose v p eb t blobs)
  then show ?thesis
    using inv voter_inv_propose [OF _ propose(3) refl] voter_inv_other
    unfolding net_inv_def by metis
next
  case (validated v cert t blobs)
  then show ?thesis
    using inv voter_inv_validated [OF ok inv _ validated(3) refl] voter_inv_other
    unfolding net_inv_def by metis
next
  case (timeout v tc t)
  then show ?thesis
    using inv voter_inv_quiet handle_timeout_result [OF refl] voter_inv_other
    unfolding net_inv_def by metis
next
  case (timeout_vote v cid ht ep t)
  then show ?thesis
    using inv voter_inv_quiet vote_timeout_result [OF refl] voter_inv_other
    unfolding net_inv_def by (metis order_refl)
next
  case (fallback_vote v cid ht ep)
  then show ?thesis
    using inv voter_inv_quiet vote_fallback_result [OF refl] voter_inv_other
    unfolding net_inv_def by (metis order_refl)
qed

lemma manager_new_fields:
  assumes "manager_new le owner_of own seed t fallback = Inr m"
  shows "mgr_proposed m = None" "mgr_locked m = None" "mgr_confirmed_vote m = None"
    "mgr_validated_vote m = None" "mgr_ownership m = own" "mgr_current_round m = first_round own" "mgr_timeout m = None"
  using assms by (auto simp: manager_new_def Let_def)

lemma net_inv_initial:
  assumes "initial_net P own n" shows "net_inv P n"
  unfolding net_inv_def
proof
  fix v assume "v \<in> pr_honest P"
  then obtain owner_of seed t fallback where
    "manager_new (pr_election P) owner_of own seed t fallback = Inr (net_managers n v)"
    using assms by (auto simp: initial_net_def)
  note m = manager_new_fields [OF this]
  show "voter_inv P n v"
    using assms by (simp add: voter_inv_def Let_def initial_net_def stored_ballots_def proposed_round_def m)
qed

lemma net_inv_reachable: "reachable P own n \<Longrightarrow> protocol_ok P \<Longrightarrow> net_inv P n"
  by (induction rule: reachable.induct) (auto intro: net_inv_initial net_inv_step)

subsection \<open>Agreement\<close>

definition run_ok :: "protocol \<times> net \<Rightarrow> bool" where
  "run_ok s \<longleftrightarrow> (case s of (P, n) \<Rightarrow>
     protocol_ok P \<and> collision_free P n \<and> (\<exists>own. reachable P own n))"

lemma common_honest_voter:
  assumes "protocol_ok P" and "certified P n k1 r1 A" and "certified P n k2 r2 B" and "collision_free P n"
  shows "\<exists>v \<in> pr_honest P. (v, k1, r1, A) \<in> net_ballots n \<and> (v, k2, r2, B) \<in> net_ballots n"
proof -
  let ?c = "pr_committee P" and ?F = "committee_members (pr_committee P) - pr_honest P"
  let ?h = "block_hash (pr_hashers P)"
  obtain sa sb where sa: "check_signatures (pr_scheme P) (?h k1 A) k1 r1 sa ?c = Inr ()"
      "genuine P n (?h k1 A) k1 r1 sa"
    and sb: "check_signatures (pr_scheme P) (?h k2 B) k2 r2 sb ?c = Inr ()"
      "genuine P n (?h k2 B) k2 r2 sb"
    and blocks: "A \<in> net_blocks n" "B \<in> net_blocks n"
    using assms(2,3) by (auto simp: certified_def)
  have wf: "committee_wf ?c" and faulty: "sum (committee_power ?c) ?F < unat (validity_threshold ?c)"
    using assms(1) by (auto simp: protocol_ok_def)
  obtain v where v: "v \<in> set (signers sa)" "v \<in> set (signers sb)" "v \<notin> ?F"
    using cq.honest_in_both [OF wf check_signatures_quorum(1) [OF wf sa(1)]
        check_signatures_quorum(1) [OF wf sb(1)] check_signatures_quorum(2) [OF wf sa(1)]
        check_signatures_quorum(2) [OF wf sb(1)] _ faulty] cq.finite_members [OF wf] by blast
  then have honest: "v \<in> pr_honest P"
    using check_signatures_quorum(1) [OF wf sa(1)] by blast
  have same: "(v, k, r, C) \<in> net_ballots n"
    if g: "genuine P n (?h k C) k r sigs" and vs: "v \<in> set (signers sigs)" and C: "C \<in> net_blocks n" for k r C sigs
  proof -
    obtain eb where eb: "(v, k, r, eb) \<in> net_ballots n" "?h k eb = ?h k C"
      using g vs honest by (force simp: genuine_def)
    then have "eb \<in> net_blocks n" by (auto simp: net_blocks_def)
    then have "eb = C"
      using assms(4) eb(2) C by (auto simp: collision_free_def dest: inj_onD)
    then show ?thesis using eb(1) by simp
  qed
  then show ?thesis
    using honest v sa(2) sb(2) blocks by blast
qed

lemma certified_voter:
  assumes "protocol_ok P" and "certified P n k r A" and "collision_free P n"
  shows "\<exists>v \<in> pr_honest P. (v, k, r, A) \<in> net_ballots n"
  using common_honest_voter [OF assms(1,2,2,3)] by blast

lemma run_okD:
  assumes "run_ok (P, n)"
  shows "protocol_ok P" "collision_free P n" "v \<in> pr_honest P \<Longrightarrow> voter_inv P n v"
  using assms net_inv_reachable by (auto simp: run_ok_def net_inv_def)

interpretation ra: round_agreement run_ok
  "\<lambda>s. certified (fst s) (snd s) ValidatedKind" "\<lambda>s. certified (fst s) (snd s) ConfirmedKind"
proof
  fix s :: "protocol \<times> net" and q r :: round and A B :: executed_block
  obtain P n where s: "s = (P, n)" by fastforce
  assume "run_ok s"
  then have ok: "protocol_ok P" "collision_free P n" and inv: "\<And>v. v \<in> pr_honest P \<Longrightarrow> voter_inv P n v"
    using run_okD [of P n] by (auto simp: s)
  note D = voter_invD [OF inv]
  note both = common_honest_voter [OF ok(1) _ _ ok(2)]
  show "A = B" if "certified (fst s) (snd s) ValidatedKind r A" "certified (fst s) (snd s) ValidatedKind r B"
    using both [of ValidatedKind r A ValidatedKind r B] that by (auto simp: s dest: D(6))
  show "certified (fst s) (snd s) ValidatedKind r A"
    if "certified (fst s) (snd s) ConfirmedKind r A" "r \<noteq> Fast"
    using certified_voter [OF ok(1) _ ok(2), of ConfirmedKind r A] that by (auto simp: s intro: D(9))
  show "\<exists>c. q \<le> c \<and> c < r \<and> certified (fst s) (snd s) ValidatedKind c A"
    if "certified (fst s) (snd s) ConfirmedKind q B" "q \<noteq> Fast"
      "certified (fst s) (snd s) ValidatedKind r A" "q < r"
    using both [of ConfirmedKind q B ValidatedKind r A] that by (auto simp: s dest: D(10))
  show "A = B" if "certified (fst s) (snd s) ConfirmedKind Fast A" "certified (fst s) (snd s) ConfirmedKind Fast B"
    using both [of ConfirmedKind Fast A ConfirmedKind Fast B] that by (auto simp: s dest: D(7))
qed

text \<open>C1: Agreement. In every reachable state of the protocol, with less than a third of the voting
  power faulty, two confirmed-block certificates for the same height are for the same executed block,
  provided both are from the fast round or both are from later rounds.\<close>

theorem confirmed_blocks_agree:
  assumes "protocol_ok P" and "reachable P own n" and "collision_free P n"
    and "certified P n ConfirmedKind q B" and "certified P n ConfirmedKind r A"
    and "q = Fast \<longleftrightarrow> r = Fast"
  shows "A = B"
  using ra.agreement [of "(P, n)" q B r A] assms by (auto simp: run_ok_def)

subsection \<open>Chains without super owners\<close>

lemma manager_ownership_kept [simp]:
  "mgr_ownership (fst (create_vote ss h m p eb key t blobs)) = mgr_ownership m"
  "mgr_ownership (create_final_vote ss h m cert key t blobs) = mgr_ownership m"
  "mgr_ownership (handle_timeout_certificate m tc t) = mgr_ownership m"
  "mgr_ownership (fst (vote_timeout ss h m cid ht ep key t)) = mgr_ownership m"
  "mgr_ownership (fst (vote_fallback ss h m cid ht ep key)) = mgr_ownership m"
  by (simp_all add: create_vote_def create_final_vote_def handle_timeout_certificate_def
      vote_timeout_def vote_fallback_def Let_def split: option.splits)

lemma ownership_reachable:
  assumes "reachable P own n" and "v \<in> pr_honest P"
  shows "mgr_ownership (net_managers n v) = own"
  using assms
proof (induction rule: reachable.induct)
  case (init n)
  then show ?case
    by (auto simp: initial_net_def dest!: bspec dest: manager_new_fields(5))
next
  case (step n n')
  then show ?case by (auto elim!: step.cases)
qed

lemma verify_owner_fast:
  "verify_owner le m p = Some pk \<Longrightarrow> pc_round (bp_content p) = Fast \<Longrightarrow> super_owners (mgr_ownership m) \<noteq> []"
  by (auto simp: verify_owner_def split: option.splits)

lemma no_fast_votes_step:
  assumes ok: "protocol_ok P" and reach: "reachable P own n" and none: "super_owners own = []"
    and st: "step P n n'" and nofast: "\<And>v A. (v, ConfirmedKind, Fast, A) \<notin> net_ballots n"
  shows "(v, ConfirmedKind, Fast, A) \<notin> net_ballots n'"
proof -
  have inv: "net_inv P n" and own: "\<And>u. u \<in> pr_honest P \<Longrightarrow> mgr_ownership (net_managers n u) = own"
    using net_inv_reachable ownership_reachable reach ok by auto
  have quiet: "(v, ConfirmedKind, Fast, A) \<notin> stored_ballots u m"
    if "u \<in> pr_honest P" "stored_ballots u m = stored_ballots u (net_managers n u)" for u m
    using that inv nofast voter_invD(1) by (fastforce simp: net_inv_def)
  show ?thesis
    using st
  proof cases
    case (propose u p eb t blobs)
    then have "pc_round (bp_content p) \<noteq> Fast"
      using verify_owner_fast none own by (fastforce simp: proposal_checks_def)
    then show ?thesis
      using nofast propose(1) create_vote_result(1) [OF refl, of u] by auto
  next
    case (validated u cert t blobs)
    let ?m' = "create_final_vote (pr_scheme P) (pr_hashers P) (net_managers n u) cert (Some u) t blobs"
    have acc: "check_validated_block (net_managers n u) cert = Inr OutcomeAccept"
      and "gc_round cert \<noteq> Fast"
      using validated(3) not_certified_fast [OF ok inv]
      by (auto simp: certificate_checks_def gc_check_def validated_cv_def)
    then have "(v, ConfirmedKind, Fast, A) \<notin> stored_ballots u ?m'"
      using create_final_vote_result(3,4) [OF refl acc]
        quiet [OF validated(2)] by (cases "gc_round cert < mgr_current_round (net_managers n u)") auto
    then show ?thesis
      using nofast validated(1) by simp
  next
    case (timeout u tc t)
    then show ?thesis using nofast quiet handle_timeout_result(1) [OF refl] by simp
  next
    case (timeout_vote u cid ht ep t)
    then show ?thesis using nofast quiet vote_timeout_result(1) [OF refl] by simp
  next
    case (fallback_vote u cid ht ep)
    then show ?thesis using nofast quiet vote_fallback_result(1) [OF refl] by simp
  qed
qed

lemma no_fast_votes:
  assumes "reachable P own n" and "protocol_ok P" and "super_owners own = []"
  shows "(v, ConfirmedKind, Fast, A) \<notin> net_ballots n"
  using assms
proof (induction arbitrary: v A rule: reachable.induct)
  case (init n)
  then show ?case by (simp add: initial_net_def)
next
  case (step n n')
  then show ?case using no_fast_votes_step [OF step.prems(1) step.hyps(1) step.prems(2) step.hyps(2)] by blast
qed

text \<open>C2: On a chain without super owners, any two confirmed-block certificates for the same height
  are for the same executed block, whatever their rounds.\<close>

theorem confirmed_blocks_agree_without_super_owners:
  assumes "protocol_ok P" and "reachable P own n" and "collision_free P n"
    and "super_owners own = []"
    and "certified P n ConfirmedKind q B" and "certified P n ConfirmedKind r A"
  shows "A = B"
proof -
  have "q \<noteq> Fast" and "r \<noteq> Fast"
    using certified_voter [OF assms(1) _ assms(3)] no_fast_votes [OF assms(2,1,4)] assms(5,6) by blast+
  then show ?thesis
    using ra.agreement [of "(P, n)" q B r A] assms by (auto simp: run_ok_def)
qed

subsection \<open>The current round\<close>

text \<open>The round the manager should be in, component by component.\<close>

definition succ_round :: "chain_ownership \<Rightarrow> round \<Rightarrow> round" where
  "succ_round own r = (case next_round own r of Some q \<Rightarrow> q | None \<Rightarrow> Validator max_value)"

definition round_or_fast :: "round option \<Rightarrow> round" where
  "round_or_fast r = (case r of None \<Rightarrow> Fast | Some q \<Rightarrow> q)"

definition timeout_evidence :: "chain_manager \<Rightarrow> round" where
  "timeout_evidence m =
     round_or_fast (map_option (\<lambda>cert. succ_round (mgr_ownership m) (gc_round cert)) (mgr_timeout m))"

definition round_evidence :: "chain_manager \<Rightarrow> round" where
  "round_evidence m =
     max (max (timeout_evidence m) (max (round_or_fast (locked_round m)) (round_or_fast (proposed_round m))))
       (first_round (mgr_ownership m))"

lemma evidence_rounds_max:
  "max (foldl max Fast (evidence_rounds m)) (first_round (mgr_ownership m)) = round_evidence m"
  by (cases "mgr_timeout m"; cases "mgr_locked m"; cases "mgr_proposed m")
    (simp_all add: evidence_rounds_def round_evidence_def timeout_evidence_def locked_round_def
      proposed_round_def round_or_fast_def succ_round_def max.assoc max_absorb2)

lemma update_current_round_max:
  "mgr_current_round (update_current_round m t) = max (mgr_current_round m) (round_evidence m)"
  unfolding update_current_round_eq Let_def evidence_rounds_max by (auto simp: max_def)

lemma round_le_last: "q \<le> Validator max_value"
  by (cases q) auto

lemma next_round_mono:
  assumes "r \<le> s"
  shows "succ_round own r \<le> succ_round own s"
proof (cases "next_round own s")
  case None
  then show ?thesis by (simp add: succ_round_def round_le_last)
next
  case (Some q)
  have "r \<noteq> Validator max_value"
  proof
    assume "r = Validator max_value"
    then have "s = Validator max_value"
      using assms round_le_last by (simp add: antisym)
    with Some next_round_None_iff [of own s] show False by simp
  qed
  then obtain q' where q': "next_round own r = Some q'"
    using next_round_None_iff [of own r] by auto
  have "r < q" using Some assms next_round_less by (meson le_less_trans)
  then have "q' \<le> q"
    using next_round_least [OF q'] next_round_in_use [OF Some] by blast
  then show ?thesis by (simp add: succ_round_def Some q')
qed

lemma round_evidence_mono:
  assumes "mgr_ownership m' = mgr_ownership m"
    and "timeout_evidence m \<le> timeout_evidence m'"
    and "round_or_fast (locked_round m) \<le> round_or_fast (locked_round m')"
    and "round_or_fast (proposed_round m) \<le> round_or_fast (proposed_round m')"
  shows "round_evidence m \<le> round_evidence m'"
  unfolding round_evidence_def assms(1) by (intro max.mono assms(2-4) order_refl)

lemma round_or_fast_mono:
  "(\<And>q. a = Some q \<Longrightarrow> \<exists>q'. b = Some q' \<and> q \<le> q') \<Longrightarrow> round_or_fast a \<le> round_or_fast b"
  by (cases a) (auto simp: round_or_fast_def split: option.splits)

lemma round_evidence_cong:
  "mgr_ownership m' = mgr_ownership m \<Longrightarrow> mgr_timeout m' = mgr_timeout m \<Longrightarrow>
   mgr_locked m' = mgr_locked m \<Longrightarrow> mgr_proposed m' = mgr_proposed m \<Longrightarrow> round_evidence m' = round_evidence m"
  by (simp add: round_evidence_def timeout_evidence_def locked_round_def proposed_round_def)

definition round_exact :: "chain_manager \<Rightarrow> bool" where
  "round_exact m \<longleftrightarrow> mgr_current_round m = round_evidence m"

lemma round_exact_update:
  assumes "round_exact m" and "mgr_current_round m1 = mgr_current_round m"
    and "round_evidence m \<le> round_evidence m1"
  shows "round_exact (update_current_round m1 t)"
  using assms round_evidence_cong [of "update_current_round m1 t" m1]
  by (simp add: round_exact_def update_current_round_max)

lemma round_exact_create_vote:
  assumes "round_exact m" and "check_proposed_block m p = Inr OutcomeAccept"
  shows "round_exact (fst (create_vote ss h m p eb (Some v) t blobs))"
proof -
  let ?m1 = "adopt_certificate h m p eb blobs\<lparr>mgr_proposed := Some p\<rparr>"
  have "round_evidence m \<le> round_evidence ?m1"
  proof (rule round_evidence_mono)
    show "timeout_evidence m \<le> timeout_evidence ?m1" by (simp add: timeout_evidence_def)
    show "round_or_fast (locked_round m) \<le> round_or_fast (locked_round ?m1)"
      using adopt_certificate_locked [of m _ h p eb blobs]
      by (intro round_or_fast_mono) (fastforce simp: locked_round_def)
    show "round_or_fast (proposed_round m) \<le> round_or_fast (proposed_round ?m1)"
      using check_proposed_block_Accept(3) [OF assms(2)]
      by (intro round_or_fast_mono) (auto simp: proposed_round_def intro: less_imp_le)
  qed simp
  then have "round_exact (update_current_round ?m1 t)"
    using assms(1) by (intro round_exact_update) simp_all
  moreover have "round_evidence (fst (create_vote ss h m p eb (Some v) t blobs))
      = round_evidence (update_current_round ?m1 t)"
    by (rule round_evidence_cong) (simp_all add: create_vote_def Let_def)
  ultimately show ?thesis
    by (simp add: round_exact_def) (simp add: create_vote_def Let_def)
qed

lemma round_exact_final_vote:
  assumes "round_exact m" and "check_validated_block m cert = Inr OutcomeAccept"
  shows "round_exact (create_final_vote ss h m cert (Some v) t blobs)"
proof -
  let ?m1 = "m\<lparr>mgr_locked := Some cert, mgr_locked_blobs := blobs\<rparr>"
  have "round_evidence m \<le> round_evidence ?m1"
  proof (rule round_evidence_mono)
    show "round_or_fast (locked_round m) \<le> round_or_fast (locked_round ?m1)"
      using check_validated_block_Accept [OF assms(2)]
      by (intro round_or_fast_mono) (auto simp: locked_round_def intro: less_imp_le)
  qed (simp_all add: timeout_evidence_def proposed_round_def)
  then have "round_exact (update_current_round ?m1 t)"
    using assms(1) by (intro round_exact_update) simp_all
  moreover have "round_evidence (create_final_vote ss h m cert (Some v) t blobs)
      = round_evidence (update_current_round ?m1 t)" if "\<not> gc_round cert < mgr_current_round m"
    using that by (intro round_evidence_cong) (simp_all add: create_final_vote_def Let_def)
  ultimately show ?thesis
    using assms(1)
    by (cases "gc_round cert < mgr_current_round m") (simp_all add: round_exact_def create_final_vote_def Let_def)
qed

lemma round_exact_timeout:
  assumes "round_exact m" shows "round_exact (handle_timeout_certificate m tc t)"
proof (cases "\<exists>known. mgr_timeout m = Some known \<and> gc_round tc \<le> gc_round known")
  case True
  then show ?thesis using assms by (auto simp: handle_timeout_certificate_def)
next
  case False
  let ?m1 = "m\<lparr>mgr_timeout := Some tc\<rparr>"
  have "timeout_evidence m \<le> timeout_evidence ?m1"
    using False unfolding timeout_evidence_def
    by (intro round_or_fast_mono) (auto simp: not_le intro: next_round_mono less_imp_le)
  then have "round_evidence m \<le> round_evidence ?m1"
    by (intro round_evidence_mono) (simp_all add: locked_round_def proposed_round_def)
  then have "round_exact (update_current_round ?m1 t)"
    using assms by (intro round_exact_update) simp_all
  then show ?thesis
    using False by (auto simp: handle_timeout_certificate_def split: option.splits)
qed

lemma vote_timeout_fields:
  "mgr_timeout (fst (vote_timeout ss h m cid ht ep key t)) = mgr_timeout m"
  "mgr_locked (fst (vote_timeout ss h m cid ht ep key t)) = mgr_locked m"
  "mgr_proposed (fst (vote_timeout ss h m cid ht ep key t)) = mgr_proposed m"
  "mgr_current_round (fst (vote_timeout ss h m cid ht ep key t)) = mgr_current_round m"
  "mgr_timeout (fst (vote_fallback ss h m cid ht ep key)) = mgr_timeout m"
  "mgr_locked (fst (vote_fallback ss h m cid ht ep key)) = mgr_locked m"
  "mgr_proposed (fst (vote_fallback ss h m cid ht ep key)) = mgr_proposed m"
  "mgr_current_round (fst (vote_fallback ss h m cid ht ep key)) = mgr_current_round m"
  by (simp_all add: vote_timeout_def vote_fallback_def split: option.split)

lemma round_exact_votes:
  assumes "round_exact m"
  shows "round_exact (fst (vote_timeout ss h m cid ht ep key t))"
    and "round_exact (fst (vote_fallback ss h m cid ht ep key))"
  using assms round_evidence_cong [of "fst (vote_timeout ss h m cid ht ep key t)" m]
    round_evidence_cong [of "fst (vote_fallback ss h m cid ht ep key)" m]
  by (simp_all add: round_exact_def vote_timeout_fields)

text \<open>C5: In every reachable state the current round of an honest validator is exactly the latest of
  the chain's first round, the round after its latest timeout certificate, the round of its locked block
  and the round of its recorded proposal.\<close>

theorem current_round_exact:
  assumes "reachable P own n" and "v \<in> pr_honest P"
  shows "mgr_current_round (net_managers n v) = round_evidence (net_managers n v)"
  using assms
proof (induction rule: reachable.induct)
  case (init n)
  then obtain owner_of seed t fallback where
    "manager_new (pr_election P) owner_of own seed t fallback = Inr (net_managers n v)"
    by (auto simp: initial_net_def)
  note m = manager_new_fields [OF this]
  show ?case
    by (simp add: m round_evidence_def timeout_evidence_def locked_round_def proposed_round_def round_or_fast_def)
next
  case (step n n')
  then have exact: "round_exact (net_managers n v)"
    by (simp add: round_exact_def)
  have "round_exact (net_managers n' v)"
    using step.hyps(2)
  proof cases
    case (propose u p eb t blobs)
    then show ?thesis
      using exact round_exact_create_vote by (auto simp: proposal_checks_def)
  next
    case (validated u cert t blobs)
    then show ?thesis
      using exact round_exact_final_vote by (auto simp: certificate_checks_def)
  next
    case (timeout u tc t)
    then show ?thesis using exact round_exact_timeout by auto
  next
    case (timeout_vote u cid ht ep t)
    then show ?thesis using exact round_exact_votes(1) by auto
  next
    case (fallback_vote u cid ht ep)
    then show ?thesis using exact round_exact_votes(2) by auto
  qed
  then show ?case by (simp add: round_exact_def)
qed

end
