(* ===== verification/Consensus_Runs.thy ===== *)
theory Consensus_Runs
  imports Consensus
begin

section \<open>Concrete runs of the consensus\<close>

text \<open>
  Runs of four honest validators with concrete parameters: a run that ends with two conflicting
  confirmed certificates (one from the fast round), and runs that satisfy the hypotheses of the
  agreement theorems. A phase lets a list of validators take the same kind of step.
\<close>

definition phase ::
  "(validator_name \<Rightarrow> chain_manager \<Rightarrow> chain_manager) \<Rightarrow> validator_name list \<Rightarrow> net \<Rightarrow> net" where
  "phase f vs n = foldl (\<lambda>n v. net_update n v (f v (net_managers n v))) n vs"

lemma phase_managers:
  "distinct vs \<Longrightarrow>
   net_managers (phase f vs n) u = (if u \<in> set vs then f u (net_managers n u) else net_managers n u)"
  by (induction vs arbitrary: n) (auto simp: phase_def)

lemma phase_ballots:
  "distinct vs \<Longrightarrow>
   net_ballots (phase f vs n) = net_ballots n \<union> (\<Union>u \<in> set vs. stored_ballots u (f u (net_managers n u)))"
proof (induction vs arbitrary: n)
  case (Cons v vs)
  let ?n = "net_update n v (f v (net_managers n v))"
  have "(\<Union>u \<in> set vs. stored_ballots u (f u (net_managers ?n u)))
      = (\<Union>u \<in> set vs. stored_ballots u (f u (net_managers n u)))"
    using Cons.prems by (intro SUP_cong) auto
  then show ?case
    using Cons.IH [of ?n] Cons.prems by (auto simp: phase_def)
qed (simp add: phase_def)

lemma phase_reachable:
  assumes "reachable P own n" and "distinct vs"
    and "\<And>v n'. v \<in> set vs \<Longrightarrow> net_managers n' v = net_managers n v \<Longrightarrow> net_ballots n \<subseteq> net_ballots n' \<Longrightarrow>
      step P n' (net_update n' v (f v (net_managers n' v)))"
  shows "reachable P own (phase f vs n)"
  using assms
proof (induction vs arbitrary: n)
  case (Cons v vs)
  let ?n = "net_update n v (f v (net_managers n v))"
  have "step P n ?n" using Cons.prems(3) [of v n] by simp
  then have "reachable P own ?n" using Cons.prems(1) reachable.step by blast
  moreover have "step P n' (net_update n' u (f u (net_managers n' u)))"
    if "u \<in> set vs" "net_managers n' u = net_managers ?n u" "net_ballots ?n \<subseteq> net_ballots n'" for u n'
    using that Cons.prems(2,3) by auto
  ultimately show ?case
    using Cons.IH [of ?n] Cons.prems(2) by (simp add: phase_def)
qed (simp add: phase_def)

subsection \<open>The parameters\<close>

definition demo_hashers :: hashers where
  "demo_hashers =
     \<lparr>hash_executed = (\<lambda>eb. state_hash (eb_outcome eb)),
      hash_validated = (\<lambda>vb. state_hash (eb_outcome (validated_executed_block vb))),
      hash_confirmed = (\<lambda>cb. state_hash (eb_outcome (confirmed_executed_block cb))),
      hash_timeout = (\<lambda>_. 0)\<rparr>"

definition demo_election :: leader_election where
  "demo_election = \<lparr>weights_ok = (\<lambda>_. True), sample_index = (\<lambda>_ _. 0)\<rparr>"

text \<open>Blocks at the same height that differ in their timestamp; the outcome depends on the block.\<close>

definition demo_block :: "timestamp \<Rightarrow> block" where
  "demo_block t =
     \<lparr>block_chain_id = 1, block_epoch = 0, incoming_bundles = [], operations = [SystemOp OpCloseChain],
      block_height_of = 0, block_timestamp = t, block_authenticated_signer = None,
      previous_block_hash = None\<rparr>"

definition demo_outcome :: "block \<Rightarrow> block_execution_outcome" where
  "demo_outcome b =
     \<lparr>beo_messages = [[]], state_hash = ucast (block_timestamp b), oracle_responses = [[]], beo_events = [[]]\<rparr>"

definition demo_executed :: "timestamp \<Rightarrow> executed_block" where
  "demo_executed t = \<lparr>eb_block = demo_block t, eb_outcome = demo_outcome (demo_block t)\<rparr>"

definition demo_protocol :: protocol where
  "demo_protocol =
     \<lparr>pr_scheme = toy_scheme, pr_hashers = demo_hashers, pr_election = demo_election,
      pr_committee = four_committee, pr_honest = {1, 2, 3, 4},
      pr_valid = (\<lambda>p pk eb. bp_signature p = ucast pk \<and> eb_outcome eb = demo_outcome (eb_block eb))\<rparr>"

definition demo_proposal :: "owner \<Rightarrow> round \<Rightarrow> timestamp \<Rightarrow> block_proposal" where
  "demo_proposal own r t = proposal_new_initial (\<lambda>_. ucast own) own r (demo_block t) []"

definition demo_sigs :: signatures where
  "demo_sigs = [(1, 1), (2, 2), (3, 3)]"

definition demo_certificate :: "round \<Rightarrow> timestamp \<Rightarrow> validated_block generic_certificate" where
  "demo_certificate r t =
     gc_new (hashed_new (hash_validated demo_hashers) (validated_block_new demo_hashers (demo_executed t))) r demo_sigs"

definition demo_vote :: "owner \<Rightarrow> round \<Rightarrow> timestamp \<Rightarrow> validator_name \<Rightarrow> chain_manager \<Rightarrow> chain_manager" where
  "demo_vote own r t v m =
     fst (create_vote toy_scheme demo_hashers m (demo_proposal own r t) (demo_executed t) (Some v) 0 [])"

definition demo_final_vote :: "round \<Rightarrow> timestamp \<Rightarrow> validator_name \<Rightarrow> chain_manager \<Rightarrow> chain_manager" where
  "demo_final_vote r t v m =
     create_final_vote toy_scheme demo_hashers m (demo_certificate r t) (Some v) 0 []"

definition demo_manager :: "chain_ownership \<Rightarrow> chain_manager" where
  "demo_manager own =
     (case manager_new demo_election id own 0 0 [] of Inr m \<Rightarrow> m)"

definition demo_initial :: "chain_ownership \<Rightarrow> net" where
  "demo_initial own = \<lparr>net_managers = (\<lambda>_. demo_manager own), net_ballots = {}\<rparr>"

lemma manager_new_demo: "manager_new demo_election id own 0 0 [] = Inr (demo_manager own)"
  by (simp add: demo_manager_def manager_new_def alias_new_def demo_election_def bt_values_def
      bt_collect_def bt_extend_def bt_empty_def Let_def)

lemma demo_manager_fields:
  "mgr_ownership (demo_manager own) = own" "mgr_proposed (demo_manager own) = None"
  "mgr_locked (demo_manager own) = None" "mgr_timeout (demo_manager own) = None"
  "mgr_current_round (demo_manager own) = first_round own"
  "mgr_confirmed_vote (demo_manager own) = None" "mgr_validated_vote (demo_manager own) = None"
  by (simp_all add: demo_manager_def manager_new_def alias_new_def demo_election_def bt_values_def
      bt_collect_def bt_extend_def bt_empty_def Let_def)

lemma demo_initial_reachable: "reachable demo_protocol own (demo_initial own)"
  using manager_new_demo [of own]
  by (intro reachable.init) (auto simp: initial_net_def demo_initial_def demo_protocol_def)

lemma demo_protocol_ok: "protocol_ok demo_protocol"
  using four_committee_wf
  by (simp add: protocol_ok_def demo_protocol_def four_committee_eval)

lemma demo_block_hash: "block_hash demo_hashers kind (demo_executed t) = ucast t"
  by (cases kind)
    (simp_all add: block_hash_def demo_hashers_def validated_block_new_def confirmed_block_new_def
      hashed_new_def validated_executed_block_def confirmed_executed_block_def demo_executed_def
      demo_outcome_def demo_block_def)

lemma demo_sigs_check: "check_signatures toy_scheme h k r demo_sigs four_committee = Inr ()"
  by (simp add: check_signatures_def demo_sigs_def toy_scheme_def four_committee_eval word_less_nat_alt
      word_le_nat_alt)

subsection \<open>Steps of the runs\<close>

lemma demo_proposal_rounds:
  "pc_round (bp_content (demo_proposal own r t)) = r"
  "pc_block (bp_content (demo_proposal own r t)) = demo_block t"
  by (simp_all add: demo_proposal_def proposal_new_initial_def Let_def)

lemma demo_vote_fields:
  "mgr_ownership (demo_vote own r t v m) = mgr_ownership m"
  "mgr_locked (demo_vote own r t v m) = mgr_locked m"
  "mgr_timeout (demo_vote own r t v m) = mgr_timeout m"
  "mgr_proposed (demo_vote own r t v m) = Some (demo_proposal own r t)"
  "mgr_validated_vote m = None \<Longrightarrow> r = Fast \<Longrightarrow> mgr_validated_vote (demo_vote own r t v m) = None"
  by (simp_all add: demo_vote_def create_vote_def Let_def demo_proposal_def proposal_new_initial_def
      adopt_certificate_def)

lemma demo_vote_round:
  assumes "mgr_current_round m \<le> r" "first_round (mgr_ownership m) \<le> r" "mgr_locked m = None" "mgr_timeout m = None"
  shows "mgr_current_round (demo_vote own r t v m) = r"
  using assms
  by (auto simp: demo_vote_def create_vote_def Let_def demo_proposal_def proposal_new_initial_def
      adopt_certificate_def update_current_round_eq evidence_rounds_def max_def)

lemma demo_vote_ballots:
  "stored_ballots v (demo_vote own r t v m) =
     {(v, if r = Fast then ConfirmedKind else ValidatedKind, r, demo_executed t)}"
  using create_vote_result(1) [OF refl, of v toy_scheme demo_hashers m "demo_proposal own r t" "demo_executed t" 0 "[]"]
  by (simp add: demo_vote_def demo_proposal_def proposal_new_initial_def Let_def)

lemma demo_proposal_step:
  assumes "v \<in> {1, 2, 3, 4}"
    and "verify_owner demo_election m (demo_proposal own r t) = Some own"
    and "is_super m own \<or> r \<le> SingleLeader 0 \<and> mgr_current_round m \<noteq> Fast"
    and "mgr_locked m = None" and "mgr_current_round m \<le> r"
    and "case mgr_proposed m of None \<Rightarrow> True
      | Some p \<Rightarrow> pc_round (bp_content p) < r \<and> (pc_round (bp_content p) = Fast \<longrightarrow> pc_block (bp_content p) = demo_block t)"
    and "net_managers n v = m"
  shows "step demo_protocol n (net_update n v (demo_vote own r t v m))"
proof -
  have "proposal_checks demo_protocol n m (demo_proposal own r t) (demo_executed t)"
    using assms(2-6)
    by (auto simp: proposal_checks_def demo_proposal_def proposal_new_initial_def Let_def demo_protocol_def
        demo_executed_def check_proposed_block_def expected_round_def demo_block_def split: option.splits)
  then show ?thesis
    using step.propose [of v demo_protocol n "demo_proposal own r t" "demo_executed t" 0 "[]"] assms(1,7)
    by (simp add: demo_vote_def demo_protocol_def)
qed

lemma demo_final_vote_step:
  assumes "v \<in> {1, 2, 3, 4}"
    and "\<forall>u \<in> {1, 2, 3}. (u, ValidatedKind, r, demo_executed t) \<in> net_ballots n"
    and "case mgr_locked m of None \<Rightarrow> True | Some cert \<Rightarrow> gc_round cert < r"
    and "case mgr_validated_vote m of None \<Rightarrow> True | Some w \<Rightarrow> vote_round w \<le> r"
    and "mgr_confirmed_vote m = None"
    and "net_managers n v = m"
  shows "step demo_protocol n (net_update n v (demo_final_vote r t v m))"
proof -
  have "genuine demo_protocol n (ucast t) ValidatedKind r (gc_signatures (demo_certificate r t))"
    using assms(2) demo_block_hash [of ValidatedKind t]
    by (auto simp: genuine_def demo_protocol_def demo_certificate_def gc_new_def demo_sigs_def)
  moreover have "gc_hash (demo_certificate r t) = ucast t"
    using demo_block_hash [of ValidatedKind t]
    by (simp add: gc_hash_def demo_certificate_def gc_new_def hashed_new_def block_hash_def)
  ultimately have "certificate_checks demo_protocol n m (demo_certificate r t)"
    using assms(3-5) demo_sigs_check demo_block_hash [of ValidatedKind t]
    by (auto simp: certificate_checks_def demo_protocol_def gc_check_def demo_certificate_def gc_new_def
        demo_sigs_def validated_block_new_def hashed_new_def validated_executed_block_def
        check_validated_block_def Let_def split: option.splits)
  then show ?thesis
    using step.validated [of v demo_protocol n "demo_certificate r t" 0 "[]"] assms(1,6)
    by (simp add: demo_final_vote_def demo_protocol_def)
qed

lemma demo_final_vote_ballots:
  "\<not> r < mgr_current_round m \<Longrightarrow>
   stored_ballots v (demo_final_vote r t v m) = {(v, ConfirmedKind, r, demo_executed t)}"
  by (simp add: demo_final_vote_def create_final_vote_def Let_def demo_certificate_def gc_new_def
      stored_ballots_def vote_new_def hashed_new_def validated_block_new_def confirmed_block_new_def
      validated_executed_block_def confirmed_executed_block_def)

text \<open>Three of the four validators voting for a block certify it.\<close>

lemma demo_certified:
  assumes "\<forall>u \<in> {1, 2, 3}. (u, kind, r, demo_executed t) \<in> net_ballots n"
  shows "certified demo_protocol n kind r (demo_executed t)"
proof -
  have "genuine demo_protocol n (block_hash demo_hashers kind (demo_executed t)) kind r demo_sigs"
    using assms by (auto simp: genuine_def demo_protocol_def demo_sigs_def)
  moreover have "demo_executed t \<in> net_blocks n"
    using assms by (auto simp: net_blocks_def)
  ultimately show ?thesis
    using demo_sigs_check by (auto simp: certified_def demo_protocol_def)
qed

lemma demo_collision_free:
  assumes "net_blocks n \<subseteq> range demo_executed"
  shows "collision_free demo_protocol n"
proof -
  have "s = t" if "(ucast (s :: 64 word) :: 256 word) = ucast t" for s t
    using arg_cong [OF that, of unat] by (simp add: unat_ucast_widen word_unat_eq_iff)
  then have "inj_on (block_hash demo_hashers kind) (range demo_executed)" for kind
    by (auto simp: inj_on_def demo_block_hash)
  then show ?thesis
    using assms by (auto simp: collision_free_def demo_protocol_def intro: inj_on_subset)
qed

subsection \<open>A fast block and a conflicting block\<close>

text \<open>
  The super owner 7 proposes block 10 in the fast round, proposes it again in multi-leader round 0, and
  then proposes block 20 in multi-leader round 1. Validators 1, 2 and 3 vote each time, and confirm
  block 20.
\<close>

definition conflict_own :: chain_ownership where
  "conflict_own = single_super id 7"

definition conflict_phase1 :: net where
  "conflict_phase1 = phase (demo_vote 7 Fast 10) [1, 2, 3] (demo_initial conflict_own)"

definition conflict_phase2 :: net where
  "conflict_phase2 = phase (demo_vote 7 (MultiLeader 0) 10) [1, 2, 3] conflict_phase1"

definition conflict_phase3 :: net where
  "conflict_phase3 = phase (demo_vote 7 (MultiLeader 1) 20) [1, 2, 3] conflict_phase2"

definition conflict_net :: net where
  "conflict_net = phase (demo_final_vote (MultiLeader 1) 20) [1, 2, 3] conflict_phase3"

lemma conflict_super: "bt_get (super_owners conflict_own) 7 = Some 7"
  and conflict_first: "first_round conflict_own = Fast"
  by (simp_all add: conflict_own_def single_super_def bt_collect_def bt_extend_def bt_empty_def first_round_def)

lemma conflict_checks:
  "mgr_ownership m = conflict_own \<Longrightarrow> is_super m 7"
  "mgr_ownership m = conflict_own \<Longrightarrow> verify_owner le m (demo_proposal 7 r t) = Some 7"
  by (simp_all add: is_super_def bt_contains_def verify_owner_def conflict_super demo_proposal_def
      proposal_new_initial_def Let_def)

lemma conflict_managers:
  assumes "v \<in> {1, 2, 3}"
  shows "net_managers conflict_phase1 v = demo_vote 7 Fast 10 v (demo_manager conflict_own)"
    and "net_managers conflict_phase2 v = demo_vote 7 (MultiLeader 0) 10 v (net_managers conflict_phase1 v)"
    and "net_managers conflict_phase3 v = demo_vote 7 (MultiLeader 1) 20 v (net_managers conflict_phase2 v)"
  using assms
  by (auto simp: conflict_phase1_def conflict_phase2_def conflict_phase3_def phase_managers demo_initial_def)

text \<open>What a validator that voted in a phase looks like.\<close>

definition voted :: "chain_ownership \<Rightarrow> owner \<Rightarrow> round \<Rightarrow> timestamp \<Rightarrow> chain_manager \<Rightarrow> bool" where
  "voted own o7 r t m \<longleftrightarrow>
     mgr_ownership m = own \<and> mgr_locked m = None \<and> mgr_timeout m = None \<and>
     mgr_proposed m = Some (demo_proposal o7 r t) \<and> mgr_current_round m = r"

lemma demo_vote_voted:
  assumes "mgr_ownership m = own" "mgr_locked m = None" "mgr_timeout m = None"
    "mgr_current_round m \<le> r" "first_round own \<le> r"
  shows "voted own o7 r t (demo_vote o7 r t v m)"
  using assms by (simp add: voted_def demo_vote_fields demo_vote_round)

lemma conflict_voted:
  assumes "v \<in> {1, 2, 3}"
  shows "voted conflict_own 7 Fast 10 (net_managers conflict_phase1 v)"
    and "voted conflict_own 7 (MultiLeader 0) 10 (net_managers conflict_phase2 v)"
    and "voted conflict_own 7 (MultiLeader 1) 20 (net_managers conflict_phase3 v)"
proof -
  note m = conflict_managers [OF assms]
  show 1: "voted conflict_own 7 Fast 10 (net_managers conflict_phase1 v)"
    unfolding m(1) by (rule demo_vote_voted) (simp_all add: demo_manager_fields conflict_first)
  show 2: "voted conflict_own 7 (MultiLeader 0) 10 (net_managers conflict_phase2 v)"
    unfolding m(2) by (rule demo_vote_voted) (use 1 in \<open>simp_all add: voted_def conflict_first\<close>)
  show "voted conflict_own 7 (MultiLeader 1) 20 (net_managers conflict_phase3 v)"
    unfolding m(3) by (rule demo_vote_voted) (use 2 in \<open>simp_all add: voted_def conflict_first\<close>)
qed

lemma conflict_phase_reachable:
  assumes "reachable demo_protocol own n"
    and "\<And>v n'. v \<in> {1, 2, 3} \<Longrightarrow> net_managers n' v = net_managers n v \<Longrightarrow> net_ballots n \<subseteq> net_ballots n' \<Longrightarrow>
      step demo_protocol n' (net_update n' v (f v (net_managers n' v)))"
  shows "reachable demo_protocol own (phase f [1, 2, 3] n)"
  using assms by (intro phase_reachable) auto

lemma conflict_reachable3: "reachable demo_protocol conflict_own conflict_phase3"
proof -
  have 1: "reachable demo_protocol conflict_own conflict_phase1"
    unfolding conflict_phase1_def
    by (rule conflict_phase_reachable [OF demo_initial_reachable], rule demo_proposal_step)
      (auto simp: demo_initial_def demo_manager_fields conflict_checks conflict_first)
  have 2: "reachable demo_protocol conflict_own conflict_phase2"
    unfolding conflict_phase2_def
    by (rule conflict_phase_reachable [OF 1], rule demo_proposal_step)
      (use conflict_voted(1) in \<open>auto simp: voted_def conflict_checks demo_proposal_rounds\<close>)
  show ?thesis
    unfolding conflict_phase3_def
    by (rule conflict_phase_reachable [OF 2], rule demo_proposal_step)
      (use conflict_voted(2) in \<open>auto simp: voted_def conflict_checks demo_proposal_rounds\<close>)
qed

lemma conflict_ballots:
  "net_ballots conflict_phase3 =
     (\<Union>v \<in> {1, 2, 3}. {(v, ConfirmedKind, Fast, demo_executed 10),
        (v, ValidatedKind, MultiLeader 0, demo_executed 10), (v, ValidatedKind, MultiLeader 1, demo_executed 20)})"
  by (auto simp: conflict_phase1_def conflict_phase2_def conflict_phase3_def phase_ballots demo_vote_ballots
      demo_initial_def)

lemma demo_vote_votes:
  "r \<noteq> Fast \<Longrightarrow> mgr_confirmed_vote (demo_vote own r t v m) = None"
  "r \<noteq> Fast \<Longrightarrow> \<exists>w. mgr_validated_vote (demo_vote own r t v m) = Some w \<and> vote_round w = r"
  by (simp_all add: demo_vote_def create_vote_def Let_def vote_new_def demo_proposal_def
      proposal_new_initial_def)

lemma conflict_votes3:
  assumes "v \<in> {1, 2, 3}"
  shows "mgr_locked (net_managers conflict_phase3 v) = None"
    and "mgr_confirmed_vote (net_managers conflict_phase3 v) = None"
    and "case mgr_validated_vote (net_managers conflict_phase3 v) of None \<Rightarrow> True | Some w \<Rightarrow> vote_round w \<le> MultiLeader 1"
    and "mgr_current_round (net_managers conflict_phase3 v) = MultiLeader 1"
  using conflict_voted(3) [OF assms] demo_vote_votes [of "MultiLeader 1" 7 20 v "net_managers conflict_phase2 v"]
  by (auto simp: voted_def conflict_managers(3) [OF assms])

lemma conflict_reachable: "reachable demo_protocol conflict_own conflict_net"
  unfolding conflict_net_def
  by (rule conflict_phase_reachable [OF conflict_reachable3], rule demo_final_vote_step)
    (use conflict_votes3 conflict_ballots in auto)

lemma conflict_net_ballots:
  "net_ballots conflict_net = net_ballots conflict_phase3 \<union>
     (\<Union>v \<in> {1, 2, 3}. {(v, ConfirmedKind, MultiLeader 1, demo_executed 20)})"
  by (simp add: conflict_net_def phase_ballots demo_final_vote_ballots conflict_votes3)

lemma conflict_collision_free: "collision_free demo_protocol conflict_net"
  by (rule demo_collision_free) (auto simp: net_blocks_def conflict_net_ballots conflict_ballots)

text \<open>C4: The lock on a fast block is lost when the block is proposed again. With four validators that
  all follow the protocol, a super owner obtains a confirmed certificate for one block in the fast round
  and a confirmed certificate for a different block in a multi-leader round.\<close>

theorem fast_block_conflict:
  "\<exists>P own n A C. protocol_ok P \<and> pr_honest P = committee_members (pr_committee P)
     \<and> reachable P own n \<and> collision_free P n
     \<and> certified P n ConfirmedKind Fast A \<and> certified P n ConfirmedKind (MultiLeader 1) C
     \<and> eb_block A \<noteq> eb_block C"
proof -
  have "pr_honest demo_protocol = committee_members (pr_committee demo_protocol)"
    by (auto simp: demo_protocol_def four_committee_eval)
  moreover have "certified demo_protocol conflict_net ConfirmedKind Fast (demo_executed 10)"
    by (rule demo_certified) (simp add: conflict_net_ballots conflict_ballots)
  moreover have "certified demo_protocol conflict_net ConfirmedKind (MultiLeader 1) (demo_executed 20)"
    by (rule demo_certified) (simp add: conflict_net_ballots)
  moreover have "eb_block (demo_executed 10) \<noteq> eb_block (demo_executed 20)"
    by (simp add: demo_executed_def demo_block_def)
  ultimately show ?thesis
    using demo_protocol_ok conflict_reachable conflict_collision_free by blast
qed

subsection \<open>A block confirmed in two rounds\<close>

text \<open>
  On a chain with the regular owner 7, block 10 is proposed, validated and confirmed in multi-leader
  round 0, and then proposed again with its certificate, validated and confirmed in round 1.
\<close>

definition demo_retry :: "owner \<Rightarrow> round \<Rightarrow> round \<Rightarrow> timestamp \<Rightarrow> block_proposal" where
  "demo_retry own r c t = proposal_new_retry (\<lambda>_. ucast own) own r (demo_certificate c t) []"

definition demo_retry_vote :: "owner \<Rightarrow> round \<Rightarrow> round \<Rightarrow> timestamp \<Rightarrow> validator_name \<Rightarrow> chain_manager \<Rightarrow> chain_manager" where
  "demo_retry_vote own r c t v m =
     fst (create_vote toy_scheme demo_hashers m (demo_retry own r c t) (demo_executed t) (Some v) 0 [])"

lemma demo_certificate_fields:
  "gc_round (demo_certificate r t) = r" "gc_signatures (demo_certificate r t) = demo_sigs"
  "gc_hash (demo_certificate r t) = ucast t" "hashed_hash (gc_value (demo_certificate r t)) = ucast t"
  "validated_executed_block (hashed_value (gc_value (demo_certificate r t))) = demo_executed t"
  using demo_block_hash [of ValidatedKind t]
  by (simp_all add: demo_certificate_def gc_new_def demo_sigs_def gc_hash_def hashed_new_def block_hash_def
      validated_block_new_def validated_executed_block_def)

lemma demo_retry_fields:
  "bp_owner (demo_retry own r c t) = own" "bp_signature (demo_retry own r c t) = ucast own"
  "pc_round (bp_content (demo_retry own r c t)) = r"
  "pc_block (bp_content (demo_retry own r c t)) = demo_block t"
  "pc_outcome (bp_content (demo_retry own r c t)) = Some (demo_outcome (demo_block t))"
  "bp_validated_block_certificate (demo_retry own r c t)
     = Some \<lparr>lc_value = \<lparr>lv_value_hash = ucast t, lv_chain_id = 1, lv_kind = ValidatedKind\<rparr>,
             lc_round = c, lc_signatures = demo_sigs\<rparr>"
  by (simp_all add: demo_retry_def proposal_new_retry_def Let_def demo_certificate_fields
      demo_executed_def demo_block_def gc_lite_certificate_def lite_value_new_def validated_cv_def)

lemma demo_retry_step:
  assumes "v \<in> {1, 2, 3, 4}"
    and "\<forall>u \<in> {1, 2, 3}. (u, ValidatedKind, c, demo_executed t) \<in> net_ballots n"
    and "verify_owner demo_election m (demo_retry own r c t) = Some own"
    and "next_round (mgr_ownership m) c = Some q" "q \<le> r" "mgr_current_round m \<le> r" "r \<le> SingleLeader 0" "q \<noteq> Fast"
    and "case mgr_locked m of None \<Rightarrow> True | Some cert \<Rightarrow> gc_round cert \<le> c"
    and "case mgr_proposed m of None \<Rightarrow> True | Some p \<Rightarrow> pc_round (bp_content p) < r"
    and "net_managers n v = m"
  shows "step demo_protocol n (net_update n v (demo_retry_vote own r c t v m))"
proof -
  have "genuine demo_protocol n (ucast t) ValidatedKind c demo_sigs"
    using assms(2) demo_block_hash [of ValidatedKind t]
    by (auto simp: genuine_def demo_protocol_def demo_sigs_def)
  moreover have "check_proposed_block m (demo_retry own r c t) = Inr OutcomeAccept"
    using assms(4-10)
    by (auto simp: check_proposed_block_def expected_round_def demo_retry_fields demo_block_def max_def
        Let_def split: option.splits)
  moreover have "hash_validated demo_hashers (validated_block_new demo_hashers (demo_executed t)) = ucast t"
    using demo_block_hash [of ValidatedKind t] by (simp add: block_hash_def)
  ultimately have "proposal_checks demo_protocol n m (demo_retry own r c t) (demo_executed t)"
    using assms(3) demo_sigs_check
    by (simp add: proposal_checks_def demo_retry_fields demo_protocol_def lc_check_def lc_with_value_def
        validated_cv_def hashed_new_def demo_executed_def validated_block_new_def
        validated_executed_block_def demo_block_def)
  then show ?thesis
    using step.propose [of v demo_protocol n "demo_retry own r c t" "demo_executed t" 0 "[]"] assms(1,11)
    by (simp add: demo_retry_vote_def demo_protocol_def)
qed

definition agree_own :: chain_ownership where
  "agree_own = single_owner id 7"

definition agree_phase1 :: net where
  "agree_phase1 = phase (demo_vote 7 (MultiLeader 0) 10) [1, 2, 3] (demo_initial agree_own)"

definition agree_phase2 :: net where
  "agree_phase2 = phase (demo_final_vote (MultiLeader 0) 10) [1, 2, 3] agree_phase1"

definition agree_phase3 :: net where
  "agree_phase3 = phase (demo_retry_vote 7 (MultiLeader 1) (MultiLeader 0) 10) [1, 2, 3] agree_phase2"

definition agree_net :: net where
  "agree_net = phase (demo_final_vote (MultiLeader 1) 10) [1, 2, 3] agree_phase3"

lemma agree_owner: "bt_get (owners agree_own) 7 = Some (7, 100)" "super_owners agree_own = []"
  "first_round agree_own = MultiLeader 0" "multi_leader_rounds agree_own = 2"
  by (simp_all add: agree_own_def single_owner_def bt_collect_def bt_extend_def bt_empty_def first_round_def
      word_less_nat_alt)

lemma agree_verify:
  assumes "mgr_ownership m = agree_own"
  shows "verify_owner le m (demo_proposal 7 (MultiLeader k) t) = Some 7"
    and "verify_owner le m (demo_retry 7 (MultiLeader k) c t) = Some 7"
  by (simp_all add: assms verify_owner_def agree_owner demo_proposal_def proposal_new_initial_def Let_def
      demo_retry_fields)

lemma demo_final_vote_fields:
  assumes "mgr_current_round m = r"
  shows "mgr_ownership (demo_final_vote r t v m) = mgr_ownership m"
    and "mgr_locked (demo_final_vote r t v m) = Some (demo_certificate r t)"
    and "mgr_proposed (demo_final_vote r t v m) = mgr_proposed m"
    and "mgr_timeout (demo_final_vote r t v m) = mgr_timeout m"
  using assms
  by (simp_all add: demo_final_vote_def create_final_vote_def Let_def demo_certificate_fields)

lemma demo_final_vote_round:
  assumes "mgr_current_round m = r" "first_round (mgr_ownership m) \<le> r" "mgr_timeout m = None"
    "mgr_proposed m = Some p" "pc_round (bp_content p) \<le> r"
  shows "mgr_current_round (demo_final_vote r t v m) = r"
  using assms
  by (auto simp: demo_final_vote_def create_final_vote_def Let_def demo_certificate_fields
      update_current_round_eq evidence_rounds_def max_def)

lemma demo_retry_vote_fields:
  assumes "mgr_locked m = Some (demo_certificate c t)" "mgr_current_round m \<le> r"
    "first_round (mgr_ownership m) \<le> r" "mgr_timeout m = None" "c \<le> r" "r \<noteq> Fast"
  shows "mgr_ownership (demo_retry_vote own r c t v m) = mgr_ownership m"
    and "mgr_locked (demo_retry_vote own r c t v m) = mgr_locked m"
    and "mgr_confirmed_vote (demo_retry_vote own r c t v m) = None"
    and "\<exists>w. mgr_validated_vote (demo_retry_vote own r c t v m) = Some w \<and> vote_round w = r"
    and "mgr_current_round (demo_retry_vote own r c t v m) = r"
    and "stored_ballots v (demo_retry_vote own r c t v m) = {(v, ValidatedKind, r, demo_executed t)}"
  using assms
    create_vote_result(1) [OF refl, of v toy_scheme demo_hashers m "demo_retry own r c t" "demo_executed t" 0 "[]"]
  by (auto simp: demo_retry_vote_def create_vote_def Let_def demo_retry_fields adopt_certificate_def
      demo_certificate_fields vote_new_def update_current_round_eq evidence_rounds_def max_def)

lemma agree_managers:
  assumes "v \<in> {1, 2, 3}"
  shows "net_managers agree_phase1 v = demo_vote 7 (MultiLeader 0) 10 v (demo_manager agree_own)"
    and "net_managers agree_phase2 v = demo_final_vote (MultiLeader 0) 10 v (net_managers agree_phase1 v)"
    and "net_managers agree_phase3 v
      = demo_retry_vote 7 (MultiLeader 1) (MultiLeader 0) 10 v (net_managers agree_phase2 v)"
  using assms
  by (auto simp: agree_phase1_def agree_phase2_def agree_phase3_def phase_managers demo_initial_def)

lemma agree_state1:
  assumes "v \<in> {1, 2, 3}"
  shows "voted agree_own 7 (MultiLeader 0) 10 (net_managers agree_phase1 v)"
    and "mgr_confirmed_vote (net_managers agree_phase1 v) = None"
    and "case mgr_validated_vote (net_managers agree_phase1 v) of None \<Rightarrow> True | Some w \<Rightarrow> vote_round w \<le> MultiLeader 0"
  using demo_vote_votes [of "MultiLeader 0" 7 10 v "demo_manager agree_own"]
  unfolding agree_managers(1) [OF assms]
  by (auto intro!: demo_vote_voted simp: demo_manager_fields agree_owner)

lemma agree_state2:
  assumes "v \<in> {1, 2, 3}"
  shows "mgr_ownership (net_managers agree_phase2 v) = agree_own"
    and "mgr_locked (net_managers agree_phase2 v) = Some (demo_certificate (MultiLeader 0) 10)"
    and "mgr_proposed (net_managers agree_phase2 v) = Some (demo_proposal 7 (MultiLeader 0) 10)"
    and "mgr_timeout (net_managers agree_phase2 v) = None"
    and "mgr_current_round (net_managers agree_phase2 v) = MultiLeader 0"
  using agree_state1(1) [OF assms] unfolding agree_managers(2) [OF assms] voted_def
  by (auto simp: demo_final_vote_fields demo_proposal_rounds agree_owner intro!: demo_final_vote_round)

lemma agree_state3:
  assumes "v \<in> {1, 2, 3}"
  shows "mgr_locked (net_managers agree_phase3 v) = Some (demo_certificate (MultiLeader 0) 10)"
    and "mgr_confirmed_vote (net_managers agree_phase3 v) = None"
    and "case mgr_validated_vote (net_managers agree_phase3 v) of None \<Rightarrow> True | Some w \<Rightarrow> vote_round w \<le> MultiLeader 1"
    and "mgr_current_round (net_managers agree_phase3 v) = MultiLeader 1"
    and "stored_ballots v (net_managers agree_phase3 v) = {(v, ValidatedKind, MultiLeader 1, demo_executed 10)}"
  using demo_retry_vote_fields 
    [where m = "net_managers agree_phase2 v" and c = "MultiLeader 0" and t = 10 and r = "MultiLeader 1"
      and own = 7 and v = v]
  unfolding agree_managers(3) [OF assms]
  by (auto simp: agree_state2 [OF assms] agree_owner)

lemma agree_ballots:
  "net_ballots agree_phase1 = (\<Union>v \<in> {1, 2, 3}. {(v, ValidatedKind, MultiLeader 0, demo_executed 10)})"
  "net_ballots agree_phase2 = net_ballots agree_phase1 \<union>
     (\<Union>v \<in> {1, 2, 3}. {(v, ConfirmedKind, MultiLeader 0, demo_executed 10)})"
  "net_ballots agree_phase3 = net_ballots agree_phase2 \<union>
     (\<Union>v \<in> {1, 2, 3}. {(v, ValidatedKind, MultiLeader 1, demo_executed 10)})"
  "net_ballots agree_net = net_ballots agree_phase3 \<union>
     (\<Union>v \<in> {1, 2, 3}. {(v, ConfirmedKind, MultiLeader 1, demo_executed 10)})"
proof -
  show "net_ballots agree_phase1 = (\<Union>v \<in> {1, 2, 3}. {(v, ValidatedKind, MultiLeader 0, demo_executed 10)})"
    by (simp add: agree_phase1_def phase_ballots demo_vote_ballots demo_initial_def)
  show "net_ballots agree_phase2 = net_ballots agree_phase1 \<union>
     (\<Union>v \<in> {1, 2, 3}. {(v, ConfirmedKind, MultiLeader 0, demo_executed 10)})"
    using agree_state1(1) by (simp add: agree_phase2_def phase_ballots demo_final_vote_ballots voted_def)
  show "net_ballots agree_phase3 = net_ballots agree_phase2 \<union>
     (\<Union>v \<in> {1, 2, 3}. {(v, ValidatedKind, MultiLeader 1, demo_executed 10)})"
    using agree_state3(5) agree_managers(3) by (simp add: agree_phase3_def phase_ballots)
  show "net_ballots agree_net = net_ballots agree_phase3 \<union>
     (\<Union>v \<in> {1, 2, 3}. {(v, ConfirmedKind, MultiLeader 1, demo_executed 10)})"
    using agree_state3(4) by (simp add: agree_net_def phase_ballots demo_final_vote_ballots)
qed

lemma agree_reachable: "reachable demo_protocol agree_own agree_net"
proof -
  have 1: "reachable demo_protocol agree_own agree_phase1"
    unfolding agree_phase1_def
    by (rule conflict_phase_reachable [OF demo_initial_reachable], rule demo_proposal_step)
      (auto simp: demo_initial_def demo_manager_fields agree_verify agree_owner)
  have 2: "reachable demo_protocol agree_own agree_phase2"
    unfolding agree_phase2_def
    by (rule conflict_phase_reachable [OF 1], rule demo_final_vote_step)
      (use agree_state1 in \<open>auto simp: voted_def agree_ballots split: option.splits\<close>)
  have 3: "reachable demo_protocol agree_own agree_phase3"
    unfolding agree_phase3_def
    by (rule conflict_phase_reachable [OF 2], rule demo_retry_step [where q = "MultiLeader 1"])
      (auto simp: agree_state2 agree_ballots agree_verify agree_owner demo_certificate_fields demo_proposal_rounds
        checked_add_def word_less_nat_alt)
  show ?thesis
    unfolding agree_net_def
    by (rule conflict_phase_reachable [OF 3], rule demo_final_vote_step)
      (use agree_state3 in \<open>auto simp: agree_ballots demo_certificate_fields split: option.splits\<close>)
qed

lemma agree_certified:
  "certified demo_protocol agree_net ConfirmedKind (MultiLeader 0) (demo_executed 10)"
  "certified demo_protocol agree_net ConfirmedKind (MultiLeader 1) (demo_executed 10)"
  by (rule demo_certified, simp add: agree_ballots)+

lemma agree_collision_free: "collision_free demo_protocol agree_net"
  by (rule demo_collision_free) (auto simp: net_blocks_def agree_ballots)

theorem confirmed_blocks_agree_witness:
  "demo_executed 10 = demo_executed 10 \<and> protocol_ok demo_protocol
   \<and> reachable demo_protocol agree_own agree_net
   \<and> certified demo_protocol agree_net ConfirmedKind (MultiLeader 0) (demo_executed 10)
   \<and> certified demo_protocol agree_net ConfirmedKind (MultiLeader 1) (demo_executed 10)"
  using confirmed_blocks_agree [OF demo_protocol_ok agree_reachable agree_collision_free agree_certified]
    demo_protocol_ok agree_reachable agree_certified by simp

theorem confirmed_blocks_agree_without_super_owners_witness:
  "demo_executed 10 = demo_executed 10 \<and> super_owners agree_own = []
   \<and> certified demo_protocol agree_net ConfirmedKind (MultiLeader 0) (demo_executed 10)
   \<and> certified demo_protocol agree_net ConfirmedKind (MultiLeader 1) (demo_executed 10)"
  using confirmed_blocks_agree_without_super_owners
      [OF demo_protocol_ok agree_reachable agree_collision_free agree_owner(2) agree_certified]
    agree_owner(2) agree_certified by simp

theorem current_round_exact_witness:
  "reachable demo_protocol conflict_own conflict_net
   \<and> mgr_current_round (net_managers conflict_net 1) = round_evidence (net_managers conflict_net 1)"
  using current_round_exact [OF conflict_reachable, of 1] conflict_reachable
  by (simp add: demo_protocol_def)

end
