(* ===== verification/Proposers.thy ===== *)
theory Proposers
  imports Consensus_Runs
begin

section \<open>Who may propose a block (linera-chain/src/manager.rs)\<close>

text \<open>
  The authority to propose: \<open>verify_owner\<close> of the chain manager, by which a validator finds the key a
  proposal must be signed with, and \<open>can_propose\<close> of the chain manager information, by which a client
  decides whether to make a proposal. A manager is followed through any number of the manager's
  operations (\<open>manager_run\<close>); its owners and its leaders are fixed when it is created.
\<close>

inductive manager_run :: "chain_manager \<Rightarrow> chain_manager \<Rightarrow> bool" where
  created: "manager_run m m"
| voted: "manager_run m m' \<Longrightarrow> manager_run m (fst (create_vote ss h m' p eb key t blobs))"
| final_voted: "manager_run m m' \<Longrightarrow> manager_run m (create_final_vote ss h m' cert key t blobs)"
| timed_out: "manager_run m m' \<Longrightarrow> manager_run m (handle_timeout_certificate m' tc t)"
| timeout_voted: "manager_run m m' \<Longrightarrow> manager_run m (fst (vote_timeout ss h m' cid ht ep key t))"
| fallback_voted: "manager_run m m' \<Longrightarrow> manager_run m (fst (vote_fallback ss h m' cid ht ep key))"

text \<open>The part of a manager that decides who may propose.\<close>

definition electorate :: "chain_manager \<Rightarrow>
  chain_ownership \<times> u64 \<times> u64 list option \<times> u64 list option \<times> (owner, public_key \<times> u64) btree_map" where
  "electorate m =
     (mgr_ownership m, mgr_seed m, mgr_distribution m, mgr_fallback_distribution m, mgr_fallback_owners m)"

lemma electorate_update_round [simp]: "electorate (update_current_round m t) = electorate m"
  by (simp add: electorate_def update_current_round_def Let_def)

lemma electorate_adopt [simp]: "electorate (adopt_certificate h m p eb blobs) = electorate m"
  by (simp add: electorate_def adopt_certificate_def split: option.split)

lemma electorate_updates [simp]:
  "electorate (m\<lparr>mgr_proposed := a\<rparr>) = electorate m"
  "electorate (m\<lparr>mgr_locked := b, mgr_locked_blobs := c\<rparr>) = electorate m"
  "electorate (m\<lparr>mgr_timeout := d\<rparr>) = electorate m"
  "electorate (m\<lparr>mgr_validated_vote := e, mgr_confirmed_vote := f\<rparr>) = electorate m"
  "electorate (m\<lparr>mgr_confirmed_vote := f, mgr_validated_vote := e\<rparr>) = electorate m"
  "electorate (m\<lparr>mgr_timeout_vote := g\<rparr>) = electorate m"
  "electorate (m\<lparr>mgr_fallback_vote := g\<rparr>) = electorate m"
  by (simp_all add: electorate_def)

lemma electorate_operations [simp]:
  "electorate (fst (create_vote ss h m p eb key t blobs)) = electorate m"
  "electorate (create_final_vote ss h m cert key t blobs) = electorate m"
  "electorate (handle_timeout_certificate m tc t) = electorate m"
  "electorate (fst (vote_timeout ss h m cid ht ep key t)) = electorate m"
  "electorate (fst (vote_fallback ss h m cid ht ep key)) = electorate m"
  by (simp_all add: create_vote_def create_final_vote_def handle_timeout_certificate_def
      vote_timeout_def vote_fallback_def Let_def split: option.split)

lemma electorate_run: "manager_run m m' \<Longrightarrow> electorate m' = electorate m"
  by (induction rule: manager_run.induct) simp_all

lemma electorate_decides:
  assumes "electorate m = electorate m'"
  shows "verify_owner le m p = verify_owner le m' p" and "round_leader le m q = round_leader le m' q"
    and "is_super m own = is_super m' own"
proof -
  have parts: "mgr_ownership m = mgr_ownership m'" "mgr_fallback_owners m = mgr_fallback_owners m'"
    using assms by (simp_all add: electorate_def)
  have index: "round_leader_index le m = round_leader_index le m'"
    "fallback_round_leader_index le m = fallback_round_leader_index le m'"
    using assms
    by (simp_all add: electorate_def fun_eq_iff round_leader_index_def fallback_round_leader_index_def)
  show "verify_owner le m p = verify_owner le m' p" and "round_leader le m q = round_leader le m' q"
    and "is_super m own = is_super m' own"
    unfolding verify_owner_def round_leader_def is_super_def parts index by (rule refl)+
qed

text \<open>Owners are filed under the owner their key belongs to.\<close>

definition keyed :: "(public_key \<Rightarrow> owner) \<Rightarrow> chain_ownership \<Rightarrow> bool" where
  "keyed owner_of own \<longleftrightarrow>
     (\<forall>(a, pk) \<in> set (super_owners own). owner_of pk = a) \<and>
     (\<forall>(a, pk, w) \<in> set (owners own). owner_of pk = a)"

definition fallback_map ::
  "(public_key \<Rightarrow> owner) \<Rightarrow> (public_key \<times> u64) list \<Rightarrow> (owner, public_key \<times> u64) btree_map" where
  "fallback_map owner_of fallback = bt_collect (map (\<lambda>(pub_key, w). (owner_of pub_key, (pub_key, w))) fallback)"

lemma fallback_map_keyed:
  assumes "(a, pk, w) \<in> set (fallback_map owner_of fallback)"
  shows "owner_of pk = a"
proof -
  have "bt_get (fallback_map owner_of fallback) a = Some (pk, w)"
    using assms by (simp add: fallback_map_def bt_get_Some_iff)
  then have "(a, pk, w) \<in> set (rev (map (\<lambda>(pub_key, w). (owner_of pub_key, (pub_key, w))) fallback))"
    unfolding fallback_map_def bt_get_collect by (rule map_of_SomeD)
  then show ?thesis by auto
qed

lemma manager_new_electorate:
  assumes "manager_new le owner_of own seed t fallback = Inr m"
  shows "electorate m =
    (own, seed, (if owners own = [] then None else Some (map snd (bt_values (owners own)))),
     (if fallback_map owner_of fallback = [] then None
      else Some (map snd (bt_values (fallback_map owner_of fallback)))), fallback_map owner_of fallback)"
  using assms
  by (auto simp: manager_new_def alias_new_def electorate_def fallback_map_def bt_values_def Let_def
      split: if_splits)

lemma leader_entry_in: "leader_entry xs i = Some x \<Longrightarrow> x \<in> set xs"
  by (auto simp: leader_entry_def get_at_def split: option.splits if_splits)

lemma verify_owner_keyed:
  assumes "verify_owner le m p = Some pk" and "keyed owner_of (mgr_ownership m)"
    and "mgr_fallback_owners m = fallback_map owner_of fallback"
    and "bt_wf (super_owners (mgr_ownership m))" and "bt_wf (owners (mgr_ownership m))"
  shows "owner_of pk = bp_owner p"
  using assms fallback_map_keyed [of _ _ _ owner_of fallback]
  by (fastforce simp: verify_owner_def keyed_def bt_get_Some_iff dest!: leader_entry_in
      split: option.splits round.splits if_splits prod.splits)

text \<open>A leader round whose owners are not empty has a leader, and only the leader is admitted beside the
  super owners.\<close>

lemma verify_owner_leader:
  assumes "round_leader le m q = Some leader" and "pc_round (bp_content p) = q" and "\<not> is_super m (bp_owner p)"
  shows "verify_owner le m p \<noteq> None \<longleftrightarrow> bp_owner p = leader"
  using assms
  by (auto simp: verify_owner_def is_super_def bt_contains_def round_leader_def split: option.splits round.splits)

lemma leader_entry_exists:
  "i < length xs \<Longrightarrow> \<exists>x. leader_entry xs (Some i) = Some x"
  by (simp add: leader_entry_def get_at_def del: split_paired_Ex)

lemma round_leader_exists:
  assumes "electorate m = (own, seed, (if owners own = [] then None else Some (map snd (bt_values (owners own)))),
     (if fb = [] then None else Some (map snd (bt_values fb))), fb)"
    and range: "\<And>ws s. ws \<noteq> [] \<Longrightarrow> sample_index le ws s < length ws"
    and q: "(\<exists>n. q = SingleLeader n) \<and> owners own \<noteq> [] \<or> (\<exists>n. q = Validator n) \<and> fb \<noteq> []"
  shows "\<exists>leader. round_leader le m q = Some leader"
proof -
  have index: "\<exists>x. leader_entry xs (Some (sample_index le (map snd (bt_values xs)) s)) = Some x"
    if "xs \<noteq> []" for xs :: "(owner, public_key \<times> u64) btree_map" and s
    using that range [of "map snd (bt_values xs)" s]
    by (intro leader_entry_exists) (simp add: bt_values_def)
  show ?thesis
    using q assms(1) index
    by (fastforce simp: electorate_def round_leader_def round_leader_index_def fallback_round_leader_index_def)
qed


text \<open>Two managers of the chain of owner 7 and of a fallback committee of validator 9, created at different
  times; the first one has voted.\<close>

definition fallback_manager :: "timestamp \<Rightarrow> chain_manager" where
  "fallback_manager t =
     (case manager_new demo_election id agree_own 0 t [(9, 1)] of Inr m \<Rightarrow> m)"

lemma fallback_manager_new:
  "manager_new demo_election id agree_own 0 t [(9, 1)] = Inr (fallback_manager t)"
  by (simp add: fallback_manager_def manager_new_def alias_new_def demo_election_def Let_def)


lemma verify_owner_admits:
  "verify_owner le m p \<noteq> None \<longleftrightarrow>
     is_super m (bp_owner p) \<or>
     (case pc_round (bp_content p) of
        Fast \<Rightarrow> False
      | MultiLeader _ \<Rightarrow> bt_contains (owners (mgr_ownership m)) (bp_owner p)
      | r \<Rightarrow> round_leader le m r = Some (bp_owner p))"
  by (auto simp: verify_owner_def is_super_def bt_contains_def round_leader_def
      split: option.splits round.splits)



end
