(* ===== verification/Key_Ranges.thy ===== *)
theory Key_Ranges
  imports Linera_Prelude Std_Maps "HOL-Library.List_Lexorder" "HOL-Library.Sublist"
begin

section \<open>Key ranges and prefix sets (linera-views)\<close>

text \<open>
  The helpers of \<open>linera-views/src/common.rs\<close>. Keys are byte vectors in lexicographic order, and
  the entries of an ordered container whose key has a given prefix are one interval of it
  (\<open>in_interval_iff\<close>). A set of deleted prefix_set is kept free of redundant elements
  (\<open>antichain\<close>), which is what makes a look at the greatest smaller element enough to decide whether
  some prefix matches (\<open>contains_prefix_of_iff\<close>). Lists in increasing order stand for \<open>BTreeSet\<close>.
\<close>

subsection \<open>Ordered sets\<close>

type_synonym 'a btree_set = "'a list"

fun bs_insert :: "'a::linorder \<Rightarrow> 'a btree_set \<Rightarrow> 'a btree_set" where
  "bs_insert x [] = [x]"
| "bs_insert x (y # ys) = (if x < y then x # y # ys else if x = y then y # ys else y # bs_insert x ys)"

definition bs_remove :: "'a \<Rightarrow> 'a btree_set \<Rightarrow> 'a btree_set" where
  "bs_remove x s = filter (\<lambda>y. y \<noteq> x) s"

definition bs_wf :: "'a::linorder btree_set \<Rightarrow> bool" where
  "bs_wf s \<longleftrightarrow> sorted_wrt (<) s"

definition bs_collect :: "'a::linorder list \<Rightarrow> 'a btree_set" where
  "bs_collect xs = foldl (\<lambda>s x. bs_insert x s) [] xs"

lemma set_bs_insert [simp]: "set (bs_insert x s) = insert x (set s)"
  by (induction x s rule: bs_insert.induct) auto

lemma bs_wf_Nil [simp]: "bs_wf []"
  by (simp add: bs_wf_def)

lemma bs_wf_Cons [simp]: "bs_wf (x # s) \<longleftrightarrow> (\<forall>y \<in> set s. x < y) \<and> bs_wf s"
  by (simp add: bs_wf_def)

lemma bs_wf_insert [simp]: "bs_wf s \<Longrightarrow> bs_wf (bs_insert x s)"
  by (induction x s rule: bs_insert.induct) auto

lemma set_bs_remove [simp]: "set (bs_remove x s) = set s - {x}"
  by (auto simp: bs_remove_def)

lemma bs_wf_filter [simp]: "bs_wf s \<Longrightarrow> bs_wf (filter P s)"
  by (simp add: bs_wf_def sorted_wrt_filter)

lemma bs_wf_remove [simp]: "bs_wf s \<Longrightarrow> bs_wf (bs_remove x s)"
  by (simp add: bs_remove_def)

lemma bs_collect_fold: "bs_wf s \<Longrightarrow> bs_wf (foldl (\<lambda>s x. bs_insert x s) s xs)
    \<and> set (foldl (\<lambda>s x. bs_insert x s) s xs) = set s \<union> set xs"
  by (induction xs arbitrary: s) auto

lemma bs_wf_collect [simp]: "bs_wf (bs_collect xs)"
  using bs_collect_fold [of "[]" xs] by (simp add: bs_collect_def)

lemma set_bs_collect [simp]: "set (bs_collect xs) = set xs"
  using bs_collect_fold [of "[]" xs] by (simp add: bs_collect_def)

lemma set_fold_bs_remove:
  "set (foldl (\<lambda>s x. bs_remove x s) s xs) = set s - set xs"
  by (induction xs arbitrary: s) auto

lemma bs_wf_fold_remove: "bs_wf s \<Longrightarrow> bs_wf (foldl (\<lambda>s x. bs_remove x s) s xs)"
  by (induction xs arbitrary: s) auto

subsection \<open>The interval of a prefix\<close>

datatype 'a bound = Included 'a | Excluded 'a | Unbounded

text \<open>The loop of \<open>get_upper_bound_option\<close> runs over the positions below \<open>i\<close> from the last one.\<close>

fun upper_bound_loop :: "bytes \<Rightarrow> nat \<Rightarrow> bytes option" where
  "upper_bound_loop key_prefix 0 = None"
| "upper_bound_loop key_prefix (Suc i) =
     (let val = key_prefix ! i in
      if val < max_value
      then Some ((take (i + 1) key_prefix)[i := val + 1])
      else upper_bound_loop key_prefix i)"

definition get_upper_bound_option :: "bytes \<Rightarrow> bytes option" where
  "get_upper_bound_option key_prefix = upper_bound_loop key_prefix (length key_prefix)"

definition get_upper_bound :: "bytes \<Rightarrow> bytes bound" where
  "get_upper_bound key_prefix =
     (case get_upper_bound_option key_prefix of
        None \<Rightarrow> Unbounded
      | Some upper_bound \<Rightarrow> Excluded upper_bound)"

definition get_interval :: "bytes \<Rightarrow> bytes bound \<times> bytes bound" where
  "get_interval key_prefix = (Included key_prefix, get_upper_bound key_prefix)"

fun above :: "'a::linorder bound \<Rightarrow> 'a \<Rightarrow> bool" where
  "above (Included l) x \<longleftrightarrow> l \<le> x"
| "above (Excluded l) x \<longleftrightarrow> l < x"
| "above Unbounded x \<longleftrightarrow> True"

fun below :: "'a::linorder bound \<Rightarrow> 'a \<Rightarrow> bool" where
  "below (Included u) x \<longleftrightarrow> x \<le> u"
| "below (Excluded u) x \<longleftrightarrow> x < u"
| "below Unbounded x \<longleftrightarrow> True"

text \<open>\<open>range\<close> of an ordered set and of an ordered map.\<close>

definition in_interval :: "'a::linorder bound \<times> 'a bound \<Rightarrow> 'a \<Rightarrow> bool" where
  "in_interval r x \<longleftrightarrow> above (fst r) x \<and> below (snd r) x"

definition bs_range :: "'a::linorder btree_set \<Rightarrow> 'a bound \<times> 'a bound \<Rightarrow> 'a list" where
  "bs_range s r = filter (in_interval r) s"

definition bt_range :: "('k::linorder, 'v) btree_map \<Rightarrow> 'k bound \<times> 'k bound \<Rightarrow> ('k \<times> 'v) list" where
  "bt_range m r = filter (\<lambda>kv. in_interval r (fst kv)) m"

lemma upper_bound_loop_Cons:
  "upper_bound_loop (b # p) (Suc i) =
     (case upper_bound_loop p i of
        Some u \<Rightarrow> Some (b # u)
      | None \<Rightarrow> if b < max_value then Some [b + 1] else None)"
  by (induction i) (auto simp: Let_def split: option.splits)

lemma get_upper_bound_option_Nil [simp]: "get_upper_bound_option [] = None"
  by (simp add: get_upper_bound_option_def)

lemma get_upper_bound_option_Cons [simp]:
  "get_upper_bound_option (b # p) =
     (case get_upper_bound_option p of
        Some u \<Rightarrow> Some (b # u)
      | None \<Rightarrow> if b < max_value then Some [b + 1] else None)"
  unfolding get_upper_bound_option_def by (simp only: length_Cons upper_bound_loop_Cons)

lemma less_plus_one_iff: "(b :: 'a::len word) < max_value \<Longrightarrow> c < b + 1 \<longleftrightarrow> c \<le> b"
proof -
  assume "b < max_value"
  then have "unat b + 1 < 2 ^ LENGTH('a)"
    by (auto simp: word_less_nat_alt unat_max_value)
  then have "unat (b + 1) = unat b + 1"
    using unat_add_exact [of b 1] by simp
  then show ?thesis
    by (simp add: word_less_nat_alt word_le_nat_alt less_Suc_eq_le)
qed

text \<open>The statement of the documentation: \<open>p\<close> is a prefix of \<open>v\<close> if and only if
  \<open>p \<le> v < upper_bound p\<close>.\<close>

lemma prefix_iff_bounds:
  "prefix p v \<longleftrightarrow> p \<le> v \<and> (case get_upper_bound_option p of None \<Rightarrow> True | Some u \<Rightarrow> v < u)"
proof (induction p arbitrary: v)
  case Nil
  then show ?case by simp
next
  case (Cons b p)
  show ?case
  proof (cases v)
    case Nil
    then show ?thesis by simp
  next
    case (Cons c w)
    show ?thesis
      using Cons.IH [of w] Cons
      by (auto simp: less_plus_one_iff dest: less_le_trans [OF _ le_max_value] split: option.splits)
  qed
qed

lemma in_interval_iff [simp]: "in_interval (get_interval p) v \<longleftrightarrow> prefix p v"
  by (auto simp: in_interval_def get_interval_def get_upper_bound_def prefix_iff_bounds
      split: option.splits)

lemma set_bs_range [simp]: "set (bs_range s (get_interval p)) = {v \<in> set s. prefix p v}"
  by (auto simp: bs_range_def)

lemma set_bt_range [simp]: "set (bt_range m (get_interval p)) = {kv \<in> set m. prefix p (fst kv)}"
  by (auto simp: bt_range_def)

lemma prefix_imp_le: "prefix p v \<Longrightarrow> p \<le> (v :: bytes)"
  by (simp add: prefix_iff_bounds)

text \<open>Keys between a prefix of \<open>v\<close> and \<open>v\<close> extend that prefix.\<close>

lemma prefix_between: "prefix p v \<Longrightarrow> p \<le> q \<Longrightarrow> q \<le> v \<Longrightarrow> prefix p (q :: bytes)"
  unfolding prefix_iff_bounds [of p v] prefix_iff_bounds [of p q]
  by (auto split: option.splits intro: le_less_trans)

subsection \<open>The iterator over a prefix set\<close>

record suffix_closed_set_iterator =
  scs_prefix_len :: nat
  scs_previous :: "bytes option"
  scs_current :: "bytes option"
  scs_iter :: "bytes list"

fun first_opt :: "'a list \<Rightarrow> 'a option" where
  "first_opt [] = None"
| "first_opt (x # xs) = Some x"

definition last_opt :: "'a list \<Rightarrow> 'a option" where
  "last_opt xs = (if xs = [] then None else Some (last xs))"

definition suffix_iterator_new :: "nat \<Rightarrow> bytes list \<Rightarrow> suffix_closed_set_iterator" where
  "suffix_iterator_new prefix_len it =
     \<lparr>scs_prefix_len = prefix_len, scs_previous = None, scs_current = first_opt it, scs_iter = tl it\<rparr>"

text \<open>One turn of the loop moves \<open>current\<close> to \<open>previous\<close> and takes the next element.\<close>

definition suffix_iterator_advance ::
  "suffix_closed_set_iterator \<Rightarrow> suffix_closed_set_iterator" where
  "suffix_iterator_advance self =
     self\<lparr>scs_previous := scs_current self, scs_current := first_opt (scs_iter self), scs_iter := tl (scs_iter self)\<rparr>"

function find_lower_bound ::
  "suffix_closed_set_iterator \<Rightarrow> bytes \<Rightarrow> suffix_closed_set_iterator \<times> bytes option" where
  "find_lower_bound self val =
     (case scs_current self of
        None \<Rightarrow> (self, scs_previous self)
      | Some x \<Rightarrow>
          if val < drop (scs_prefix_len self) x then (self, scs_previous self)
          else find_lower_bound (suffix_iterator_advance self) val)"
  by pat_completeness auto

termination
proof (relation "measure (\<lambda>(self, val). length (scs_iter self) + (if scs_current self = None then 0 else 1))")
  show "wf (measure (\<lambda>(self, val :: bytes).
      length (scs_iter self) + (if scs_current self = None then 0 else 1)))"
    by simp
next
  fix self :: suffix_closed_set_iterator and val x
  assume "scs_current self = Some x"
  then show "((suffix_iterator_advance self, val), (self, val)) \<in>
    measure (\<lambda>(self, val). length (scs_iter self) + (if scs_current self = None then 0 else 1))"
    by (cases "scs_iter self") (auto simp: suffix_iterator_advance_def)
qed

declare find_lower_bound.simps [simp del]

definition find_key ::
  "suffix_closed_set_iterator \<Rightarrow> bytes \<Rightarrow> suffix_closed_set_iterator \<times> bool" where
  "find_key self index =
     (case find_lower_bound self index of
        (self', None) \<Rightarrow> (self', False)
      | (self', Some key_prefix) \<Rightarrow> (self', prefix (drop (scs_prefix_len self) key_prefix) index))"

definition contains_prefix_of :: "bytes btree_set \<Rightarrow> bytes \<Rightarrow> bool" where
  "contains_prefix_of prefix_set key = snd (find_key (suffix_iterator_new 0 prefix_set) key)"

definition insert_key_prefix :: "bytes btree_set \<Rightarrow> bytes \<Rightarrow> bytes btree_set" where
  "insert_key_prefix prefix_set p =
     (if \<not> contains_prefix_of prefix_set p
      then bs_insert p (foldl (\<lambda>s key. bs_remove key s) prefix_set (bs_range prefix_set (get_interval p)))
      else prefix_set)"

text \<open>The iterator has consumed \<open>done\<close>, all of it at most \<open>v\<close>; the values it is asked for increase.\<close>

definition suffix_iterator_inv ::
  "nat \<Rightarrow> bytes list \<Rightarrow> (bytes \<Rightarrow> bool) \<Rightarrow> suffix_closed_set_iterator \<Rightarrow> bool" where
  "suffix_iterator_inv n s small self \<longleftrightarrow>
     scs_prefix_len self = n
     \<and> (scs_current self = None \<longrightarrow> scs_iter self = [])
     \<and> (\<exists>consumed. s = consumed @ (case scs_current self of None \<Rightarrow> [] | Some x \<Rightarrow> [x]) @ scs_iter self
          \<and> scs_previous self = last_opt consumed
          \<and> (\<forall>x \<in> set consumed. small (drop n x)))"

lemma suffix_iterator_inv_new: "suffix_iterator_inv n s small (suffix_iterator_new n s)"
  by (cases s) (auto simp: suffix_iterator_inv_def suffix_iterator_new_def last_opt_def)

lemma suffix_iterator_inv_mono:
  "suffix_iterator_inv n s small self \<Longrightarrow> (\<And>x. small x \<Longrightarrow> small' x) \<Longrightarrow> suffix_iterator_inv n s small' self"
  by (auto simp: suffix_iterator_inv_def)

lemma suffix_iterator_inv_advance:
  assumes "suffix_iterator_inv n s small self" and "scs_current self = Some x" and "small (drop n x)"
  shows "suffix_iterator_inv n s small (suffix_iterator_advance self)"
proof -
  from assms(1,2) obtain consumed where
    "scs_prefix_len self = n" "s = consumed @ [x] @ scs_iter self" "\<forall>x \<in> set consumed. small (drop n x)"
    by (auto simp: suffix_iterator_inv_def)
  with assms(2,3) show ?thesis
    unfolding suffix_iterator_inv_def
    by (cases "scs_iter self")
      (auto simp: suffix_iterator_advance_def last_opt_def intro!: exI [of _ "consumed @ [x]"])
qed

lemma find_lower_bound_correct:
  assumes "suffix_iterator_inv n s (\<lambda>x. x \<le> val) self" and "sorted (map (drop n) s)"
  shows "suffix_iterator_inv n s (\<lambda>x. x \<le> val) (fst (find_lower_bound self val))
    \<and> snd (find_lower_bound self val) = last_opt (filter (\<lambda>x. drop n x \<le> val) s)"
  using assms(1)
proof (induction self val rule: find_lower_bound.induct)
  case (1 self val)
  from 1(2) obtain consumed where
    c: "s = consumed @ (case scs_current self of None \<Rightarrow> [] | Some x \<Rightarrow> [x]) @ scs_iter self"
      "scs_previous self = last_opt consumed" "\<forall>x \<in> set consumed. drop n x \<le> val"
    and n: "scs_prefix_len self = n" and none: "scs_current self = None \<longrightarrow> scs_iter self = []"
    by (auto simp: suffix_iterator_inv_def)
  show ?case
  proof (cases "scs_current self")
    case None
    with 1(2) c none show ?thesis
      by (simp add: find_lower_bound.simps)
  next
    case (Some x)
    show ?thesis
    proof (cases "val < drop n x")
      case True
      with c Some assms(2) have "filter (\<lambda>x. drop n x \<le> val) s = consumed"
        by (auto simp: sorted_append filter_empty_conv not_le intro: less_le_trans)
      with True Some 1(2) c n show ?thesis
        by (simp add: find_lower_bound.simps [of self])
    next
      case False
      with Some 1(2) have "suffix_iterator_inv n s (\<lambda>x. x \<le> val) (suffix_iterator_advance self)"
        by (intro suffix_iterator_inv_advance) auto
      from 1(1) [OF Some _ this] False n Some show ?thesis
        by (simp add: find_lower_bound.simps [of self])
    qed
  qed
qed

subsection \<open>Prefix sets without redundant elements\<close>

definition antichain :: "bytes btree_set \<Rightarrow> bool" where
  "antichain s \<longleftrightarrow> (\<forall>p \<in> set s. \<forall>q \<in> set s. prefix p q \<longrightarrow> p = q)"

lemma sorted_le_last: "sorted xs \<Longrightarrow> x \<in> set xs \<Longrightarrow> x \<le> last xs"
  by (induction xs) (auto intro: last_in_set)

lemma last_filter_greatest:
  assumes "bs_wf s" and "p \<in> set s" and "p \<le> k"
  obtains g where "last_opt (filter (\<lambda>x. x \<le> k) s) = Some g" "g \<in> set s" "p \<le> g" "g \<le> k"
proof -
  let ?f = "filter (\<lambda>x. x \<le> k) s"
  from assms have mem: "p \<in> set ?f" by simp
  then have ne: "?f \<noteq> []" by (metis empty_iff empty_set)
  from assms(1) have "sorted ?f"
    by (simp add: bs_wf_def strict_sorted_imp_sorted sorted_wrt_filter)
  from this mem have "p \<le> last ?f" by (rule sorted_le_last)
  moreover have "last ?f \<in> set ?f" using ne by (rule last_in_set)
  ultimately show thesis using ne by (intro that [of "last ?f"]) (auto simp: last_opt_def)
qed

lemma greatest_prefix_decides:
  assumes "bs_wf s" and "antichain s"
  shows "(case last_opt (filter (\<lambda>x. x \<le> k) s) of None \<Rightarrow> False | Some g \<Rightarrow> prefix g k)
    \<longleftrightarrow> (\<exists>p \<in> set s. prefix p k)"
proof
  assume "case last_opt (filter (\<lambda>x. x \<le> k) s) of None \<Rightarrow> False | Some g \<Rightarrow> prefix g k"
  then show "\<exists>p \<in> set s. prefix p k"
    using last_in_set [of "filter (\<lambda>x. x \<le> k) s"] by (auto simp: last_opt_def split: if_splits)
next
  assume "\<exists>p \<in> set s. prefix p k"
  then obtain p where p: "p \<in> set s" "prefix p k" by blast
  then obtain g where g: "last_opt (filter (\<lambda>x. x \<le> k) s) = Some g" "g \<in> set s" "p \<le> g" "g \<le> k"
    using last_filter_greatest [OF assms(1)] prefix_imp_le by metis
  with p assms(2) have "p = g"
    using prefix_between by (auto simp: antichain_def)
  with g p show "case last_opt (filter (\<lambda>x. x \<le> k) s) of None \<Rightarrow> False | Some g \<Rightarrow> prefix g k"
    by simp
qed

lemma contains_prefix_of_iff:
  assumes "bs_wf s" and "antichain s"
  shows "contains_prefix_of s k \<longleftrightarrow> (\<exists>p \<in> set s. prefix p k)"
proof -
  have "sorted (map (drop 0) s)"
    using assms(1) by (simp add: bs_wf_def strict_sorted_imp_sorted)
  from find_lower_bound_correct [OF suffix_iterator_inv_new this, of k]
  have "snd (find_lower_bound (suffix_iterator_new 0 s) k) = last_opt (filter (\<lambda>x. x \<le> k) s)"
    by simp
  with greatest_prefix_decides [OF assms, of k] show ?thesis
    by (auto simp: contains_prefix_of_def find_key_def suffix_iterator_new_def split: prod.splits option.splits)
qed

lemma antichain_insert:
  assumes "antichain s" and "\<not> (\<exists>q \<in> set s. prefix q p)"
    and "set s' = insert p (set s - {q \<in> set s. prefix p q})"
  shows "antichain s'"
  unfolding antichain_def assms(3)
  using assms(1,2) by (auto simp: antichain_def)

lemma insert_key_prefix_correct:
  assumes "bs_wf s" and "antichain s"
  shows "bs_wf (insert_key_prefix s p) \<and> antichain (insert_key_prefix s p)
    \<and> (\<forall>k. (\<exists>q \<in> set (insert_key_prefix s p). prefix q k) \<longleftrightarrow> prefix p k \<or> (\<exists>q \<in> set s. prefix q k))"
proof (cases "contains_prefix_of s p")
  case True
  with assms show ?thesis
    by (auto simp: insert_key_prefix_def contains_prefix_of_iff intro: prefix_order.trans)
next
  case False
  then have set: "set (insert_key_prefix s p) = insert p (set s - {q \<in> set s. prefix p q})"
    and wf: "bs_wf (insert_key_prefix s p)"
    using assms by (simp_all add: insert_key_prefix_def set_fold_bs_remove bs_wf_fold_remove)
  from False assms have "antichain (insert_key_prefix s p)"
    by (intro antichain_insert [OF assms(2) _ set]) (simp add: contains_prefix_of_iff)
  with wf set show ?thesis
    by (auto intro: prefix_order.trans)
qed

subsection \<open>Staged deletions of a view\<close>

record deletion_set =
  delete_storage_first :: bool
  deleted_prefixes :: "bytes btree_set"

datatype 'a view_update = Update_Removed | Update_Set 'a

definition deletion_set_new :: deletion_set where
  "deletion_set_new = \<lparr>delete_storage_first = False, deleted_prefixes = []\<rparr>"

definition deletion_set_clear :: "deletion_set \<Rightarrow> deletion_set" where
  "deletion_set_clear self = self\<lparr>delete_storage_first := True, deleted_prefixes := []\<rparr>"

definition deletion_set_rollback :: "deletion_set \<Rightarrow> deletion_set" where
  "deletion_set_rollback self = self\<lparr>delete_storage_first := False, deleted_prefixes := []\<rparr>"

definition deletion_set_contains_prefix_of :: "deletion_set \<Rightarrow> bytes \<Rightarrow> bool" where
  "deletion_set_contains_prefix_of self index \<longleftrightarrow>
     delete_storage_first self \<or> contains_prefix_of (deleted_prefixes self) index"

definition deletion_set_has_pending_changes :: "deletion_set \<Rightarrow> bool" where
  "deletion_set_has_pending_changes self \<longleftrightarrow>
     delete_storage_first self \<or> deleted_prefixes self \<noteq> []"

definition deletion_set_insert_key_prefix :: "deletion_set \<Rightarrow> bytes \<Rightarrow> deletion_set" where
  "deletion_set_insert_key_prefix self key_prefix =
     (if \<not> delete_storage_first self
      then self\<lparr>deleted_prefixes := insert_key_prefix (deleted_prefixes self) key_prefix\<rparr>
      else self)"

definition deletion_set_wf :: "deletion_set \<Rightarrow> bool" where
  "deletion_set_wf d \<longleftrightarrow> bs_wf (deleted_prefixes d) \<and> antichain (deleted_prefixes d)"

text \<open>The keys of the storage a deletion set hides.\<close>

definition deletion_set_hides :: "deletion_set \<Rightarrow> bytes \<Rightarrow> bool" where
  "deletion_set_hides d k \<longleftrightarrow> delete_storage_first d \<or> (\<exists>p \<in> set (deleted_prefixes d). prefix p k)"

lemma antichain_Nil [simp]: "antichain []"
  by (simp add: antichain_def)

lemma deletion_set_wf_ops [simp]:
  "deletion_set_wf deletion_set_new"
  "deletion_set_wf (deletion_set_clear d)"
  "deletion_set_wf (deletion_set_rollback d)"
  "deletion_set_wf d \<Longrightarrow> deletion_set_wf (deletion_set_insert_key_prefix d p)"
  by (auto simp: deletion_set_wf_def deletion_set_new_def deletion_set_clear_def
      deletion_set_rollback_def deletion_set_insert_key_prefix_def insert_key_prefix_correct)

lemma deletion_set_hides_ops [simp]:
  "\<not> deletion_set_hides deletion_set_new k"
  "deletion_set_hides (deletion_set_clear d) k"
  "\<not> deletion_set_hides (deletion_set_rollback d) k"
  "deletion_set_wf d \<Longrightarrow> deletion_set_hides (deletion_set_insert_key_prefix d p) k
     \<longleftrightarrow> prefix p k \<or> deletion_set_hides d k"
  by (auto simp: deletion_set_wf_def deletion_set_hides_def deletion_set_new_def
      deletion_set_clear_def deletion_set_rollback_def deletion_set_insert_key_prefix_def
      insert_key_prefix_correct)

lemma deletion_set_contains_iff [simp]:
  "deletion_set_wf d \<Longrightarrow> deletion_set_contains_prefix_of d k \<longleftrightarrow> deletion_set_hides d k"
  by (simp add: deletion_set_wf_def deletion_set_contains_prefix_of_def deletion_set_hides_def
      contains_prefix_of_iff)

end
