(* ===== verification/Write_Batch.thy ===== *)
theory Write_Batch
  imports Key_Ranges "HOL-Library.Multiset"
begin

section \<open>Batches of write operations (linera-views)\<close>

text \<open>
  \<open>linera-views/src/batch.rs\<close>: ordered batches, their simplification into an unordered batch, the
  expansion of prefix deletions for databases that do not support them, and the iterators that split
  a batch. The content of a database is a map from keys to values; \<open>apply_batch\<close> is what the
  documentation of \<open>WriteOperation\<close> says a batch does to it. The queries a conversion sends to the
  database are an argument (\<open>DeletePrefixExpander\<close>), and so are the sizes of the BCS encodings.
\<close>

subsection \<open>Batches and their meaning\<close>

datatype write_operation = Delete bytes | DeletePrefix bytes | Put bytes bytes

type_synonym key_values = "bytes \<rightharpoonup> bytes"

record batch =
  operations :: "write_operation list"

record simple_unordered_batch =
  deletions :: "bytes list"
  insertions :: "(bytes \<times> bytes) list"

record unordered_batch =
  key_prefix_deletions :: "bytes list"
  simple_part :: simple_unordered_batch

fun apply_operation :: "key_values \<Rightarrow> write_operation \<Rightarrow> key_values" where
  "apply_operation m (Delete key) = m(key := None)"
| "apply_operation m (DeletePrefix key_prefix) = (\<lambda>k. if prefix key_prefix k then None else m k)"
| "apply_operation m (Put key val) = m(key \<mapsto> val)"

definition apply_operations :: "write_operation list \<Rightarrow> key_values \<Rightarrow> key_values" where
  "apply_operations ops m = foldl apply_operation m ops"

definition apply_batch :: "batch \<Rightarrow> key_values \<Rightarrow> key_values" where
  "apply_batch b m = apply_operations (operations b) m"

definition simple_operations :: "simple_unordered_batch \<Rightarrow> write_operation list" where
  "simple_operations sb = map Delete (deletions sb) @ map (\<lambda>(key, val). Put key val) (insertions sb)"

definition apply_simple :: "simple_unordered_batch \<Rightarrow> key_values \<Rightarrow> key_values" where
  "apply_simple sb m = apply_operations (simple_operations sb) m"

text \<open>Key-prefix deletions happen before the insertions and the deletions.\<close>

definition unordered_operations :: "unordered_batch \<Rightarrow> write_operation list" where
  "unordered_operations ub =
     map DeletePrefix (key_prefix_deletions ub) @ simple_operations (simple_part ub)"

definition apply_unordered :: "unordered_batch \<Rightarrow> key_values \<Rightarrow> key_values" where
  "apply_unordered ub m = apply_operations (unordered_operations ub) m"

subsection \<open>Building and measuring batches\<close>

definition batch_new :: batch where
  "batch_new = \<lparr>operations = []\<rparr>"

fun write_operation_size :: "write_operation \<Rightarrow> nat" where
  "write_operation_size (Delete key) = length key"
| "write_operation_size (Put key val) = length key + length val"
| "write_operation_size (DeletePrefix key_prefix) = length key_prefix"

definition batch_size :: "batch \<Rightarrow> nat" where
  "batch_size self = sum_list (map write_operation_size (operations self))"

definition batch_is_empty :: "batch \<Rightarrow> bool" where
  "batch_is_empty self \<longleftrightarrow> operations self = []"

definition num_operations :: "batch \<Rightarrow> nat" where
  "num_operations self = length (operations self)"

definition put_key_value_bytes :: "batch \<Rightarrow> bytes \<Rightarrow> bytes \<Rightarrow> batch" where
  "put_key_value_bytes self key val = self\<lparr>operations := operations self @ [Put key val]\<rparr>"

definition delete_key :: "batch \<Rightarrow> bytes \<Rightarrow> batch" where
  "delete_key self key = self\<lparr>operations := operations self @ [Delete key]\<rparr>"

definition delete_key_prefix :: "batch \<Rightarrow> bytes \<Rightarrow> batch" where
  "delete_key_prefix self key_prefix =
     self\<lparr>operations := operations self @ [DeletePrefix key_prefix]\<rparr>"

fun value_too_large :: "nat \<Rightarrow> write_operation \<Rightarrow> bool" where
  "value_too_large max_value_size (Put key val) \<longleftrightarrow> max_value_size < length val"
| "value_too_large max_value_size op \<longleftrightarrow> False"

definition check_value_size :: "batch \<Rightarrow> nat \<Rightarrow> bool" where
  "check_value_size self max_value_size \<longleftrightarrow>
     list_all (\<lambda>op. \<not> value_too_large max_value_size op) (operations self)"

subsection \<open>Simplification\<close>

definition is_prefix_matched :: "bytes btree_set \<Rightarrow> bytes \<Rightarrow> bool" where
  "is_prefix_matched key_prefix_set key =
     (case last_opt (bs_range key_prefix_set (Unbounded, Included key)) of
        Some val \<Rightarrow>
          if length key < length val then False else val = take (length val) key
      | None \<Rightarrow> False)"

fun simplify_step ::
  "(bytes, bytes option) btree_map \<times> bytes btree_set \<Rightarrow> write_operation
   \<Rightarrow> (bytes, bytes option) btree_map \<times> bytes btree_set" where
  "simplify_step (delete_and_insert_map, delete_prefix_set) (Delete key) =
     (if is_prefix_matched delete_prefix_set key
      then (bt_remove key delete_and_insert_map, delete_prefix_set)
      else (bt_insert key None delete_and_insert_map, delete_prefix_set))"
| "simplify_step (delete_and_insert_map, delete_prefix_set) (Put key val) =
     (bt_insert key (Some val) delete_and_insert_map, delete_prefix_set)"
| "simplify_step (delete_and_insert_map, delete_prefix_set) (DeletePrefix key_prefix) =
     (let keys = map fst (bt_range delete_and_insert_map (get_interval key_prefix));
          delete_and_insert_map = foldl (\<lambda>m key. bt_remove key m) delete_and_insert_map keys
      in if is_prefix_matched delete_prefix_set key_prefix
         then (delete_and_insert_map, delete_prefix_set)
         else
           let key_prefixes = bs_range delete_prefix_set (get_interval key_prefix);
               delete_prefix_set = foldl (\<lambda>s p. bs_remove p s) delete_prefix_set key_prefixes
           in (delete_and_insert_map, bs_insert key_prefix delete_prefix_set))"

definition split_updates ::
  "(bytes, bytes option) btree_map \<Rightarrow> simple_unordered_batch" where
  "split_updates m =
     \<lparr>deletions = List.map_filter (\<lambda>(key, val). case val of None \<Rightarrow> Some key | Some _ \<Rightarrow> None) m,
      insertions = List.map_filter (\<lambda>(key, val). map_option (Pair key) val) m\<rparr>"

definition simplify :: "batch \<Rightarrow> unordered_batch" where
  "simplify self =
     (let (delete_and_insert_map, delete_prefix_set) = foldl simplify_step ([], []) (operations self)
      in \<lparr>key_prefix_deletions = delete_prefix_set,
          simple_part = split_updates delete_and_insert_map\<rparr>)"

subsection \<open>Expansion of prefix deletions\<close>

text \<open>\<open>expand_delete_prefix\<close> of the database returns the remainders of the keys with that prefix.\<close>

type_synonym 'e prefix_expander = "bytes \<Rightarrow> ('e, bytes list) res"

fun expand_loop ::
  "'e prefix_expander \<Rightarrow> (bytes \<Rightarrow> bool) \<Rightarrow> bytes list \<Rightarrow> bytes list \<Rightarrow> ('e, bytes list) res" where
  "expand_loop db inserted [] dels = Inr dels"
| "expand_loop db inserted (key_prefix # rest) dels =
     and_then (db key_prefix) (\<lambda>short_keys.
       expand_loop db inserted rest
         (dels @ filter (\<lambda>key. \<not> inserted key) (map ((@) key_prefix) short_keys)))"

definition expand_delete_prefixes ::
  "'e prefix_expander \<Rightarrow> unordered_batch \<Rightarrow> ('e, simple_unordered_batch) res" where
  "expand_delete_prefixes db self =
     (let insert_set = set (map fst (insertions (simple_part self)))
      in and_then (expand_loop db (\<lambda>key. key \<in> insert_set) (key_prefix_deletions self)
             (deletions (simple_part self)))
           (\<lambda>dels. Inr \<lparr>deletions = dels, insertions = insertions (simple_part self)\<rparr>))"

text \<open>Only the prefixes that match an inserted key are expanded; the loop keeps the others.\<close>

fun expand_colliding_loop ::
  "'e prefix_expander \<Rightarrow> bytes btree_set \<Rightarrow> bytes list \<Rightarrow> bytes list \<Rightarrow> bytes list
   \<Rightarrow> ('e, bytes list \<times> bytes list) res" where
  "expand_colliding_loop db inserted_keys [] kept dels = Inr (kept, dels)"
| "expand_colliding_loop db inserted_keys (key_prefix # rest) kept dels =
     (if bs_range inserted_keys (get_interval key_prefix) \<noteq> []
      then and_then (db key_prefix) (\<lambda>short_keys.
             expand_colliding_loop db inserted_keys rest kept
               (dels @ filter (\<lambda>key. key \<notin> set inserted_keys) (map ((@) key_prefix) short_keys)))
      else expand_colliding_loop db inserted_keys rest (kept @ [key_prefix]) dels)"

definition expand_colliding_prefix_deletions ::
  "'e prefix_expander \<Rightarrow> unordered_batch \<Rightarrow> ('e, unordered_batch) res" where
  "expand_colliding_prefix_deletions db self =
     (if key_prefix_deletions self = [] then Inr self
      else
        let inserted_keys = bs_collect (map fst (insertions (simple_part self)))
        in and_then (expand_colliding_loop db inserted_keys (key_prefix_deletions self) []
               (deletions (simple_part self)))
             (\<lambda>(kept, dels).
               Inr (self\<lparr>key_prefix_deletions := kept,
                 simple_part := (simple_part self)\<lparr>deletions := dels\<rparr>\<rparr>)))"

definition simple_from_batch :: "'e prefix_expander \<Rightarrow> batch \<Rightarrow> ('e, simple_unordered_batch) res" where
  "simple_from_batch store b = expand_delete_prefixes store (simplify b)"

definition unordered_from_batch :: "'e prefix_expander \<Rightarrow> batch \<Rightarrow> ('e, unordered_batch) res" where
  "unordered_from_batch store b = expand_colliding_prefix_deletions store (simplify b)"

subsection \<open>What operations that do not interfere do, in any order\<close>

definition deletes :: "write_operation set \<Rightarrow> bytes \<Rightarrow> bool" where
  "deletes S k \<longleftrightarrow> Delete k \<in> S \<or> (\<exists>p. DeletePrefix p \<in> S \<and> prefix p k)"

definition independent :: "write_operation set \<Rightarrow> bool" where
  "independent S \<longleftrightarrow> (\<forall>k v. Put k v \<in> S \<longrightarrow> \<not> deletes S k \<and> (\<forall>v'. Put k v' \<in> S \<longrightarrow> v' = v))"

lemma apply_operations_Nil [simp]: "apply_operations [] m = m"
  by (simp add: apply_operations_def)

lemma apply_operations_append [simp]:
  "apply_operations (ops @ ops') m = apply_operations ops' (apply_operations ops m)"
  by (simp add: apply_operations_def)

lemma apply_operations_single [simp]: "apply_operations [op] m = apply_operation m op"
  by (simp add: apply_operations_def)

lemma independent_mono: "independent S \<Longrightarrow> T \<subseteq> S \<Longrightarrow> independent T"
  unfolding independent_def deletes_def by blast

lemma independent_put:
  "independent (set ops) \<Longrightarrow> Put k v \<in> set ops \<Longrightarrow> apply_operations ops m k = Some v"
proof (induction ops rule: rev_induct)
  case Nil
  then show ?case by simp
next
  case (snoc op ops)
  have IH: "Put k v \<in> set ops \<Longrightarrow> apply_operations ops m k = Some v"
    using snoc.IH snoc.prems(1) by (auto intro: independent_mono)
  show ?case
    using snoc.prems IH by (cases op) (auto simp: independent_def deletes_def)
qed

lemma apply_no_put:
  "(\<And>v. Put k v \<notin> set ops)
   \<Longrightarrow> apply_operations ops m k = (if deletes (set ops) k then None else m k)"
proof (induction ops rule: rev_induct)
  case Nil
  then show ?case by (simp add: deletes_def)
next
  case (snoc op ops)
  then have "apply_operations ops m k = (if deletes (set ops) k then None else m k)"
    by simp
  with snoc.prems show ?case
    by (cases op) (auto simp: deletes_def)
qed

lemma independent_order:
  assumes "independent (set ops)" and "set ops' = set ops"
  shows "apply_operations ops' m = apply_operations ops m"
proof
  fix k
  show "apply_operations ops' m k = apply_operations ops m k"
    by (cases "\<exists>v. Put k v \<in> set ops") (use assms in \<open>auto simp: independent_put apply_no_put\<close>)
qed

lemma apply_prefix_deletions:
  "apply_operations (map DeletePrefix ps) m k = (if \<exists>p \<in> set ps. prefix p k then None else m k)"
  by (subst apply_no_put) (auto simp: deletes_def)

subsection \<open>Simplification preserves the meaning\<close>

lemma is_prefix_matched_iff:
  assumes "bs_wf s" and "antichain s"
  shows "is_prefix_matched s k \<longleftrightarrow> (\<exists>p \<in> set s. prefix p k)"
proof -
  have "bs_range s (Unbounded, Included k) = filter (\<lambda>x. x \<le> k) s"
    by (auto simp: bs_range_def in_interval_def intro: filter_cong)
  moreover have "prefix p k \<longleftrightarrow> \<not> length k < length p \<and> p = take (length p) k" for p
    by (auto simp: prefix_def min_def) (metis append_take_drop_id)
  ultimately show ?thesis
    using greatest_prefix_decides [OF assms, of k]
    by (auto simp: is_prefix_matched_def split: option.splits)
qed

definition updates_meaning ::
  "(bytes, bytes option) btree_map \<times> bytes btree_set \<Rightarrow> key_values \<Rightarrow> key_values" where
  "updates_meaning st m k =
     (case bt_get (fst st) k of
        Some val \<Rightarrow> val
      | None \<Rightarrow> if \<exists>p \<in> set (snd st). prefix p k then None else m k)"

definition updates_inv :: "(bytes, bytes option) btree_map \<times> bytes btree_set \<Rightarrow> bool" where
  "updates_inv st \<longleftrightarrow> bt_wf (fst st) \<and> bs_wf (snd st) \<and> antichain (snd st)
     \<and> (\<forall>k. bt_get (fst st) k = Some None \<longrightarrow> \<not> (\<exists>p \<in> set (snd st). prefix p k))"

lemma updates_meaning_init: "updates_meaning ([], []) m = m"
  by (simp add: updates_meaning_def fun_eq_iff)

lemma fold_bt_remove:
  "bt_wf m \<Longrightarrow> bt_wf (foldl (\<lambda>m key. bt_remove key m) m keys)
     \<and> bt_get (foldl (\<lambda>m key. bt_remove key m) m keys) k = (if k \<in> set keys then None else bt_get m k)"
  by (induction keys arbitrary: m) auto

lemma bt_get_remove_range:
  assumes "bt_wf m"
  shows "bt_get (foldl (\<lambda>m key. bt_remove key m) m (map fst (bt_range m (get_interval p)))) k
    = (if prefix p k then None else bt_get m k)"
proof (cases "bt_get m k")
  case None
  with assms show ?thesis by (simp add: fold_bt_remove)
next
  case (Some v)
  with assms have "(k, v) \<in> set m" by (simp add: bt_get_Some_iff)
  with assms Some show ?thesis by (auto simp: fold_bt_remove image_iff)
qed

lemma simplify_step_inv:
  assumes "updates_inv st"
  shows "updates_inv (simplify_step st op)"
proof -
  obtain dim dps where st: "st = (dim, dps)" by fastforce
  from assms have inv: "bt_wf dim" "bs_wf dps" "antichain dps"
    "\<And>k. bt_get dim k = Some None \<Longrightarrow> \<not> (\<exists>p \<in> set dps. prefix p k)"
    by (auto simp: updates_inv_def st)
  show ?thesis
  proof (cases op)
    case (Delete k)
    with inv show ?thesis by (auto simp: st updates_inv_def is_prefix_matched_iff)
  next
    case (Put k v)
    with inv show ?thesis by (auto simp: st updates_inv_def)
  next
    case (DeletePrefix p)
    let ?dim = "foldl (\<lambda>m key. bt_remove key m) dim (map fst (bt_range dim (get_interval p)))"
    let ?dps = "bs_insert p (foldl (\<lambda>s p. bs_remove p s) dps (bs_range dps (get_interval p)))"
    have dim: "bt_wf ?dim" "\<And>k. bt_get ?dim k = (if prefix p k then None else bt_get dim k)"
      using inv(1) fold_bt_remove bt_get_remove_range by blast+
    show ?thesis
    proof (cases "is_prefix_matched dps p")
      case True
      with DeletePrefix inv dim show ?thesis
        by (auto simp: st updates_inv_def Let_def)
    next
      case False
      with inv have no: "\<not> (\<exists>q \<in> set dps. prefix q p)" by (simp add: is_prefix_matched_iff)
      have dps: "set ?dps = insert p (set dps - {q \<in> set dps. prefix p q})"
        by (simp add: set_fold_bs_remove)
      have "antichain ?dps" by (rule antichain_insert [OF inv(3) no dps])
      moreover have "bs_wf ?dps" using inv(2) by (simp add: bs_wf_fold_remove)
      ultimately show ?thesis
        using False DeletePrefix inv(4) dim dps
        by (auto simp: st updates_inv_def Let_def simp del: set_bs_insert split: if_splits)
    qed
  qed
qed

lemma simplify_step_meaning:
  assumes "updates_inv st"
  shows "updates_meaning (simplify_step st op) m = apply_operation (updates_meaning st m) op"
proof -
  obtain dim dps where st: "st = (dim, dps)" by fastforce
  from assms have inv: "bt_wf dim" "bs_wf dps" "antichain dps"
    by (auto simp: updates_inv_def st)
  show ?thesis
  proof (cases op)
    case (Delete k)
    with inv show ?thesis
      by (auto simp: st updates_meaning_def is_prefix_matched_iff fun_eq_iff)
  next
    case (Put k v)
    with inv show ?thesis by (auto simp: st updates_meaning_def fun_eq_iff)
  next
    case (DeletePrefix p)
    let ?dps = "bs_insert p (foldl (\<lambda>s p. bs_remove p s) dps (bs_range dps (get_interval p)))"
    let ?dim = "foldl (\<lambda>m key. bt_remove key m) dim (map fst (bt_range dim (get_interval p)))"
    have step: "simplify_step st op = (?dim, if is_prefix_matched dps p then dps else ?dps)"
      using DeletePrefix by (simp add: st Let_def)
    have cover: "(\<exists>q \<in> set (if is_prefix_matched dps p then dps else ?dps). prefix q k)
        \<longleftrightarrow> prefix p k \<or> (\<exists>q \<in> set dps. prefix q k)" for k
      using is_prefix_matched_iff [OF inv(2,3), of p]
      by (auto simp: set_fold_bs_remove dest: prefix_order.trans)
    show ?thesis
    proof
      fix k
      show "updates_meaning (simplify_step st op) m k = apply_operation (updates_meaning st m) op k"
        unfolding updates_meaning_def step fst_conv snd_conv bt_get_remove_range [OF inv(1)] cover
        using DeletePrefix by (auto simp: st updates_meaning_def)
    qed
  qed
qed

lemma simplify_fold:
  "updates_inv st \<Longrightarrow> updates_inv (foldl simplify_step st ops)
     \<and> updates_meaning (foldl simplify_step st ops) m = apply_operations ops (updates_meaning st m)"
proof (induction ops arbitrary: st)
  case Nil
  then show ?case by simp
next
  case (Cons op ops)
  from Cons.IH [OF simplify_step_inv [OF Cons.prems, of op]] show ?case
    by (simp add: simplify_step_meaning [OF Cons.prems] apply_operations_def)
qed

lemma set_split_updates:
  assumes "bt_wf m"
  shows "(k, v) \<in> set (insertions (split_updates m)) \<longleftrightarrow> bt_get m k = Some (Some v)"
    and "k \<in> set (deletions (split_updates m)) \<longleftrightarrow> bt_get m k = Some None"
  unfolding bt_get_Some_iff [OF assms]
  by (force simp: split_updates_def List.map_filter_def image_iff split: option.splits)+

text \<open>The simplified batch: what it does, and why the order inside it does not matter.\<close>

definition simplified :: "unordered_batch \<Rightarrow> bool" where
  "simplified ub \<longleftrightarrow> bs_wf (key_prefix_deletions ub) \<and> antichain (key_prefix_deletions ub)
     \<and> independent (set (simple_operations (simple_part ub)))
     \<and> (\<forall>k \<in> set (deletions (simple_part ub)). \<not> (\<exists>p \<in> set (key_prefix_deletions ub). prefix p k))"

lemma DeletePrefix_simple [simp]: "DeletePrefix p \<notin> set (simple_operations sb)"
  by (auto simp: simple_operations_def)

lemma Delete_simple [simp]: "Delete k \<in> set (simple_operations sb) \<longleftrightarrow> k \<in> set (deletions sb)"
  by (auto simp: simple_operations_def)

lemma Put_simple [simp]: "Put k v \<in> set (simple_operations sb) \<longleftrightarrow> (k, v) \<in> set (insertions sb)"
  by (auto simp: simple_operations_def)

lemma simplify_correct:
  "simplified (simplify b)" "apply_unordered (simplify b) m = apply_batch b m"
proof -
  obtain dim dps where st: "foldl simplify_step ([], []) (operations b) = (dim, dps)" by fastforce
  have "updates_inv ([], [])" by (simp add: updates_inv_def)
  from simplify_fold [OF this, of "operations b"]
  have inv: "updates_inv (dim, dps)"
    and "updates_meaning (dim, dps) m = apply_operations (operations b) (updates_meaning ([], []) m)" for m
    by (simp_all add: st)
  then have meaning: "updates_meaning (dim, dps) m = apply_batch b m" for m
    by (simp add: apply_batch_def updates_meaning_init)
  have ub: "simplify b = \<lparr>key_prefix_deletions = dps, simple_part = split_updates dim\<rparr>"
    by (simp add: simplify_def st)
  let ?ops = "simple_operations (split_updates dim)"
  from inv have wf: "bt_wf dim" by (simp add: updates_inv_def)
  note ops = set_split_updates [OF wf]
  have ind: "independent (set ?ops)"
    by (simp add: independent_def deletes_def ops)
  with inv ops show "simplified (simplify b)"
    by (auto simp: ub simplified_def updates_inv_def)
  show "apply_unordered (simplify b) m = apply_batch b m"
  proof
    fix k
    show "apply_unordered (simplify b) m k = apply_batch b m k"
    proof (cases "\<exists>v. bt_get dim k = Some (Some v)")
      case True
      then obtain v where v: "bt_get dim k = Some (Some v)" by blast
      then have "Put k v \<in> set ?ops" by (simp add: ops)
      from independent_put [OF ind this] v show ?thesis
        by (simp add: apply_unordered_def unordered_operations_def ub updates_meaning_def flip: meaning)
    next
      case False
      then have "apply_operations ?ops m' k = (if bt_get dim k = Some None then None else m' k)" for m'
        by (subst apply_no_put) (auto simp: ops deletes_def)
      with False show ?thesis
        by (auto simp: apply_unordered_def unordered_operations_def ub apply_prefix_deletions
            updates_meaning_def split: option.splits simp flip: meaning)
    qed
  qed
qed

text \<open>The operations of the simplified batch are operations of the batch.\<close>

lemma simplify_step_origin:
  assumes "updates_inv st"
    and "\<And>k v. bt_get (fst st) k = Some (Some v) \<Longrightarrow> Put k v \<in> S"
    and "\<And>k. bt_get (fst st) k = Some None \<Longrightarrow> Delete k \<in> S"
    and "\<And>p. p \<in> set (snd st) \<Longrightarrow> DeletePrefix p \<in> S"
    and "op \<in> S"
  shows "(\<forall>k v. bt_get (fst (simplify_step st op)) k = Some (Some v) \<longrightarrow> Put k v \<in> S)
    \<and> (\<forall>k. bt_get (fst (simplify_step st op)) k = Some None \<longrightarrow> Delete k \<in> S)
    \<and> (\<forall>p \<in> set (snd (simplify_step st op)). DeletePrefix p \<in> S)"
proof -
  obtain dim dps where st: "st = (dim, dps)" by fastforce
  from assms(1) have wf: "bt_wf dim" by (simp add: updates_inv_def st)
  from assms(2-5) show ?thesis
    by (cases op)
      (auto simp: st wf Let_def bt_get_remove_range [OF wf] set_fold_bs_remove split: if_splits)
qed

lemma simplify_fold_origin:
  assumes "updates_inv st" and "set ops \<subseteq> S"
    and "\<And>k v. bt_get (fst st) k = Some (Some v) \<Longrightarrow> Put k v \<in> S"
    and "\<And>k. bt_get (fst st) k = Some None \<Longrightarrow> Delete k \<in> S"
    and "\<And>p. p \<in> set (snd st) \<Longrightarrow> DeletePrefix p \<in> S"
  shows "(\<forall>k v. bt_get (fst (foldl simplify_step st ops)) k = Some (Some v) \<longrightarrow> Put k v \<in> S)
    \<and> (\<forall>k. bt_get (fst (foldl simplify_step st ops)) k = Some None \<longrightarrow> Delete k \<in> S)
    \<and> (\<forall>p \<in> set (snd (foldl simplify_step st ops)). DeletePrefix p \<in> S)"
  using assms
proof (induction ops arbitrary: st)
  case Nil
  then show ?case by simp
next
  case (Cons op ops)
  note step = simplify_step_origin [OF Cons.prems(1,3-5), where op = op]
  show ?case
    unfolding foldl_Cons
    by (rule Cons.IH [OF simplify_step_inv [OF Cons.prems(1)]]) (use Cons.prems(2) step in auto)
qed

lemma simplify_origin: "set (unordered_operations (simplify b)) \<subseteq> set (operations b)"
proof -
  obtain dim dps where st: "foldl simplify_step ([], []) (operations b) = (dim, dps)" by fastforce
  have inv: "updates_inv ([], [])" by (simp add: updates_inv_def)
  from simplify_fold [OF this, of "operations b"] have wf: "bt_wf dim"
    by (simp add: st updates_inv_def)
  have "simplify b = \<lparr>key_prefix_deletions = dps, simple_part = split_updates dim\<rparr>"
    by (simp add: simplify_def st)
  then have "op \<in> set (unordered_operations (simplify b)) \<Longrightarrow> op \<in> set (operations b)" for op
    using simplify_fold_origin [OF inv, of "operations b" "set (operations b)"]
    by (cases op) (auto simp: unordered_operations_def st set_split_updates [OF wf])
  then show ?thesis by blast
qed

subsection \<open>Expansion preserves the meaning\<close>

text \<open>The answers of the database describe its content \<open>m\<close>.\<close>

definition expander_of :: "'e prefix_expander \<Rightarrow> key_values \<Rightarrow> bool" where
  "expander_of db m \<longleftrightarrow>
     (\<forall>p. \<exists>short_keys. db p = Inr short_keys \<and> set short_keys = {s. p @ s \<in> dom m})"

lemma expander_ofE:
  assumes "expander_of db m"
  obtains short_keys where "db p = Inr short_keys"
    and "set (map ((@) p) short_keys) = {k \<in> dom m. prefix p k}"
proof -
  from assms obtain short_keys where "db p = Inr short_keys" "set short_keys = {s. p @ s \<in> dom m}"
    unfolding expander_of_def by meson
  then show thesis by (intro that) (auto simp: prefix_def)
qed

lemma expand_loop_correct:
  assumes "expander_of db m"
  shows "\<exists>dels'. expand_loop db inserted ps dels = Inr dels'
    \<and> set dels' = set dels \<union> {k \<in> dom m. (\<exists>p \<in> set ps. prefix p k) \<and> \<not> inserted k}"
proof (induction ps arbitrary: dels)
  case Nil
  then show ?case by simp
next
  case (Cons p ps)
  from assms obtain short_keys where db: "db p = Inr short_keys"
    and keys: "set (map ((@) p) short_keys) = {k \<in> dom m. prefix p k}"
    by (rule expander_ofE)
  let ?dels = "dels @ filter (\<lambda>key. \<not> inserted key) (map ((@) p) short_keys)"
  obtain dels' where loop: "expand_loop db inserted ps ?dels = Inr dels'"
    and dels': "set dels' = set ?dels \<union> {k \<in> dom m. (\<exists>p \<in> set ps. prefix p k) \<and> \<not> inserted k}"
    using Cons.IH by blast
  have "set ?dels = set dels \<union> {k \<in> dom m. prefix p k \<and> \<not> inserted k}"
    unfolding set_append set_filter keys by blast
  with dels' have "set dels' = set dels \<union> {k \<in> dom m. (\<exists>p \<in> set (p # ps). prefix p k) \<and> \<not> inserted k}"
    by auto
  with loop show ?case by (simp add: db)
qed

lemma expand_colliding_loop_correct:
  assumes "expander_of db m"
  defines "collides \<equiv> \<lambda>ins p. \<exists>k \<in> set ins. prefix p k"
  shows "\<exists>kept' dels'. expand_colliding_loop db ins ps kept dels = Inr (kept', dels')
    \<and> set kept' = set kept \<union> {p \<in> set ps. \<not> collides ins p}
    \<and> set dels' = set dels \<union> {k \<in> dom m. (\<exists>p \<in> set ps. collides ins p \<and> prefix p k) \<and> k \<notin> set ins}"
proof (induction ps arbitrary: kept dels)
  case Nil
  then show ?case by simp
next
  case (Cons p ps)
  have range: "bs_range ins (get_interval p) \<noteq> [] \<longleftrightarrow> collides ins p"
    using set_bs_range [of ins p] by (auto simp: collides_def simp flip: set_empty)
  from assms(1) obtain short_keys where db: "db p = Inr short_keys"
    and keys: "set (map ((@) p) short_keys) = {k \<in> dom m. prefix p k}"
    by (rule expander_ofE)
  show ?case
  proof (cases "collides ins p")
    case True
    let ?dels = "dels @ filter (\<lambda>key. key \<notin> set ins) (map ((@) p) short_keys)"
    obtain kept' dels' where loop: "expand_colliding_loop db ins ps kept ?dels = Inr (kept', dels')"
      and kept': "set kept' = set kept \<union> {p \<in> set ps. \<not> collides ins p}"
      and dels': "set dels' = set ?dels
        \<union> {k \<in> dom m. (\<exists>p \<in> set ps. collides ins p \<and> prefix p k) \<and> k \<notin> set ins}"
      using Cons.IH by blast
    have "set ?dels = set dels \<union> {k \<in> dom m. prefix p k \<and> k \<notin> set ins}"
      unfolding set_append set_filter keys by blast
    with dels' True have "set dels' = set dels
        \<union> {k \<in> dom m. (\<exists>q \<in> set (p # ps). collides ins q \<and> prefix q k) \<and> k \<notin> set ins}"
      by auto
    moreover from kept' True
    have "set kept' = set kept \<union> {q \<in> set (p # ps). \<not> collides ins q}" by auto
    ultimately show ?thesis using loop True range by (simp add: db)
  next
    case False
    obtain kept' dels' where loop: "expand_colliding_loop db ins ps (kept @ [p]) dels = Inr (kept', dels')"
      and kept': "set kept' = set (kept @ [p]) \<union> {p \<in> set ps. \<not> collides ins p}"
      and dels': "set dels' = set dels
        \<union> {k \<in> dom m. (\<exists>p \<in> set ps. collides ins p \<and> prefix p k) \<and> k \<notin> set ins}"
      using Cons.IH by blast
    from kept' False have "set kept' = set kept \<union> {q \<in> set (p # ps). \<not> collides ins q}" by auto
    moreover from dels' False have "set dels' = set dels
        \<union> {k \<in> dom m. (\<exists>q \<in> set (p # ps). collides ins q \<and> prefix q k) \<and> k \<notin> set ins}"
      by auto
    ultimately show ?thesis using loop False range by simp
  qed
qed

lemma simplified_insertD:
  assumes "simplified ub" and "(k, v) \<in> set (insertions (simple_part ub))"
  shows "k \<notin> set (deletions (simple_part ub))"
    and "(k, v') \<in> set (insertions (simple_part ub)) \<Longrightarrow> v' = v"
  using assms by (auto simp: simplified_def independent_def deletes_def)

lemma apply_unordered_at:
  assumes "simplified ub"
  shows "(k, v) \<in> set (insertions (simple_part ub)) \<Longrightarrow> apply_unordered ub m k = Some v"
    and "k \<notin> fst ` set (insertions (simple_part ub)) \<Longrightarrow> apply_unordered ub m k =
      (if k \<in> set (deletions (simple_part ub)) \<or> (\<exists>p \<in> set (key_prefix_deletions ub). prefix p k)
       then None else m k)"
proof -
  assume "(k, v) \<in> set (insertions (simple_part ub))"
  with assms show "apply_unordered ub m k = Some v"
    by (simp add: apply_unordered_def unordered_operations_def simplified_def independent_put)
next
  assume "k \<notin> fst ` set (insertions (simple_part ub))"
  then show "apply_unordered ub m k =
      (if k \<in> set (deletions (simple_part ub)) \<or> (\<exists>p \<in> set (key_prefix_deletions ub). prefix p k)
       then None else m k)"
    unfolding apply_unordered_def
    by (subst apply_no_put) (force simp: unordered_operations_def deletes_def image_iff)+
qed

lemma apply_independent_eq:
  assumes "simplified ub" and "independent (set ops)"
    and "\<And>k v. Put k v \<in> set ops \<longleftrightarrow> (k, v) \<in> set (insertions (simple_part ub))"
    and "\<And>k. k \<notin> fst ` set (insertions (simple_part ub)) \<Longrightarrow> m k \<noteq> None \<Longrightarrow> deletes (set ops) k
      \<longleftrightarrow> k \<in> set (deletions (simple_part ub)) \<or> (\<exists>p \<in> set (key_prefix_deletions ub). prefix p k)"
  shows "apply_operations ops m = apply_unordered ub m"
proof
  fix k
  show "apply_operations ops m k = apply_unordered ub m k"
  proof (cases "k \<in> fst ` set (insertions (simple_part ub))")
    case True
    then obtain v where v: "(k, v) \<in> set (insertions (simple_part ub))" by auto
    with assms(3) have "Put k v \<in> set ops" by blast
    with v show ?thesis by (simp add: independent_put [OF assms(2)] apply_unordered_at [OF assms(1)])
  next
    case False
    then have "\<And>v. Put k v \<notin> set ops" unfolding assms(3) by (metis fst_conv image_eqI)
    then have "apply_operations ops m k = (if deletes (set ops) k then None else m k)"
      by (rule apply_no_put)
    with assms(4) [OF False] show ?thesis
      unfolding apply_unordered_at(2) [OF assms(1) False] by (cases "m k") auto
  qed
qed

lemma expand_delete_prefixes_correct:
  assumes "simplified ub" and "expander_of db m"
  shows "\<exists>sb. expand_delete_prefixes db ub = Inr sb \<and> independent (set (simple_operations sb))
    \<and> insertions sb = insertions (simple_part ub)
    \<and> apply_simple sb m = apply_unordered ub m"
proof -
  define ins where "ins = (\<lambda>key. key \<in> set (map fst (insertions (simple_part ub))))"
  from expand_loop_correct [OF assms(2), of ins "key_prefix_deletions ub" "deletions (simple_part ub)"]
  obtain dels where loop: "expand_loop db ins (key_prefix_deletions ub) (deletions (simple_part ub)) = Inr dels"
    and dels: "set dels = set (deletions (simple_part ub))
      \<union> {k \<in> dom m. (\<exists>p \<in> set (key_prefix_deletions ub). prefix p k) \<and> \<not> ins k}"
    by blast
  let ?sb = "\<lparr>deletions = dels, insertions = insertions (simple_part ub)\<rparr>"
  have ind: "independent (set (simple_operations ?sb))"
    unfolding independent_def deletes_def
  proof (intro allI impI conjI)
    fix k v
    assume "Put k v \<in> set (simple_operations ?sb)"
    then have kv: "(k, v) \<in> set (insertions (simple_part ub))" by simp
    then have "ins k" by (force simp: ins_def)
    with simplified_insertD(1) [OF assms(1) kv]
    show "\<not> (Delete k \<in> set (simple_operations ?sb)
        \<or> (\<exists>p. DeletePrefix p \<in> set (simple_operations ?sb) \<and> prefix p k))"
      by (simp add: dels)
    fix v'
    assume "Put k v' \<in> set (simple_operations ?sb)"
    then show "v' = v" by (simp add: simplified_insertD(2) [OF assms(1) kv])
  qed
  moreover have "apply_simple ?sb m = apply_unordered ub m"
    unfolding apply_simple_def
    by (rule apply_independent_eq [OF assms(1) ind]) (auto simp: deletes_def dels ins_def)
  moreover have "expand_delete_prefixes db ub = Inr ?sb"
    using loop by (simp add: expand_delete_prefixes_def ins_def)
  ultimately show ?thesis by simp
qed

lemma expand_colliding_correct:
  assumes "simplified ub" and "expander_of db m"
  shows "\<exists>ub'. expand_colliding_prefix_deletions db ub = Inr ub'
    \<and> independent (set (unordered_operations ub'))
    \<and> insertions (simple_part ub') = insertions (simple_part ub)
    \<and> set (key_prefix_deletions ub') \<subseteq> set (key_prefix_deletions ub)
    \<and> set (deletions (simple_part ub')) \<subseteq> set (deletions (simple_part ub))
         \<union> {k \<in> dom m. \<exists>p \<in> set (key_prefix_deletions ub). prefix p k}
    \<and> apply_unordered ub' m = apply_unordered ub m"
proof (cases "key_prefix_deletions ub = []")
  case True
  with assms(1) show ?thesis
    by (auto simp: expand_colliding_prefix_deletions_def unordered_operations_def simplified_def)
next
  case False
  let ?ins = "bs_collect (map fst (insertions (simple_part ub)))"
  from expand_colliding_loop_correct [OF assms(2), of ?ins "key_prefix_deletions ub" "[]"
      "deletions (simple_part ub)"]
  obtain kept dels where
    loop: "expand_colliding_loop db ?ins (key_prefix_deletions ub) [] (deletions (simple_part ub))
      = Inr (kept, dels)"
    and kept: "set kept = {p \<in> set (key_prefix_deletions ub). \<not> (\<exists>k \<in> set ?ins. prefix p k)}"
    and dels: "set dels = set (deletions (simple_part ub))
      \<union> {k \<in> dom m. (\<exists>p \<in> set (key_prefix_deletions ub). (\<exists>k \<in> set ?ins. prefix p k) \<and> prefix p k)
          \<and> k \<notin> set ?ins}"
    by auto
  let ?ub = "ub\<lparr>key_prefix_deletions := kept, simple_part := (simple_part ub)\<lparr>deletions := dels\<rparr>\<rparr>"
  have result: "expand_colliding_prefix_deletions db ub = Inr ?ub"
    using False loop by (simp add: expand_colliding_prefix_deletions_def Let_def)
  have ops: "Put k v \<in> set (unordered_operations ?ub) \<longleftrightarrow> (k, v) \<in> set (insertions (simple_part ub))"
    "deletes (set (unordered_operations ?ub)) k \<longleftrightarrow> k \<in> set dels \<or> (\<exists>p \<in> set kept. prefix p k)" for k v
    by (auto simp: unordered_operations_def deletes_def)
  have ind: "independent (set (unordered_operations ?ub))"
    unfolding independent_def ops
  proof (intro allI impI conjI)
    fix k v
    assume ins: "(k, v) \<in> set (insertions (simple_part ub))"
    then have "k \<in> set ?ins" by force
    with simplified_insertD(1) [OF assms(1) ins] kept dels
    show "\<not> (k \<in> set dels \<or> (\<exists>p \<in> set kept. prefix p k))" by blast
    fix v'
    assume "(k, v') \<in> set (insertions (simple_part ub))"
    then show "v' = v" by (rule simplified_insertD(2) [OF assms(1) ins])
  qed
  have "apply_operations (unordered_operations ?ub) m = apply_unordered ub m"
  proof (rule apply_independent_eq [OF assms(1) ind ops(1)])
    fix k
    assume "k \<notin> fst ` set (insertions (simple_part ub))" and "m k \<noteq> None"
    then have "k \<notin> set ?ins" and "k \<in> dom m" by auto
    then show "deletes (set (unordered_operations ?ub)) k
      \<longleftrightarrow> k \<in> set (deletions (simple_part ub)) \<or> (\<exists>p \<in> set (key_prefix_deletions ub). prefix p k)"
      unfolding ops kept dels by blast
  qed
  with result ind kept dels show ?thesis
    by (auto simp: apply_unordered_def)
qed

subsection \<open>The batch written is the batch asked for\<close>

text \<open>C20: Simplification preserves the meaning of a batch. Executing the prefix deletions of the
  simplified batch and then its deletions and insertions in any order has the effect of the original
  operations in their order.\<close>

theorem simplify_preserves_meaning:
  assumes "mset ops = mset (simple_operations (simple_part (simplify b)))"
  shows "apply_operations (map DeletePrefix (key_prefix_deletions (simplify b)) @ ops) m
    = apply_batch b m"
proof -
  have "set ops = set (simple_operations (simple_part (simplify b)))"
    using assms by (metis set_mset_mset)
  moreover have "independent (set (simple_operations (simple_part (simplify b))))"
    using simplify_correct(1) [of b] by (simp add: simplified_def)
  ultimately have "apply_operations ops m' = apply_operations (simple_operations (simple_part (simplify b))) m'"
    for m' by (intro independent_order) auto
  then show ?thesis
    using simplify_correct(2) [of b m] by (simp add: apply_unordered_def unordered_operations_def)
qed

definition demo_batch :: batch where
  "demo_batch = \<lparr>operations =
     [Put [1, 2] [], Put [1, 3, 3] [33, 2], Put [1, 2, 3] [34, 2], DeletePrefix [1, 2], Delete [1, 2, 4],
      Put [1, 2, 5] [7], Delete [3]]\<rparr>"

lemma simplify_demo_batch:
  "simplify demo_batch = \<lparr>key_prefix_deletions = [[1, 2]],
     simple_part = \<lparr>deletions = [[3]], insertions = [([1, 2, 5], [7]), ([1, 3, 3], [33, 2])]\<rparr>\<rparr>"
  by (simp add: simplify_def demo_batch_def is_prefix_matched_def bs_range_def bt_range_def
      in_interval_def get_interval_def get_upper_bound_def last_opt_def max_value_def Let_def
      split_updates_def List.map_filter_def)

theorem simplify_preserves_meaning_witness:
  "mset [Put [1, 3, 3] [33, 2], Delete [3], Put [1, 2, 5] [7]]
     = mset (simple_operations (simple_part (simplify demo_batch)))
   \<and> apply_operations [DeletePrefix [1, 2], Put [1, 3, 3] [33, 2], Delete [3], Put [1, 2, 5] [7]]
       [[1, 2, 9] \<mapsto> [1], [4] \<mapsto> [2]]
     = apply_batch demo_batch [[1, 2, 9] \<mapsto> [1], [4] \<mapsto> [2]]"
proof -
  have ops: "mset [Put [1, 3, 3] [33, 2], Delete [3], Put [1, 2, 5] [7]]
      = mset (simple_operations (simple_part (simplify demo_batch)))"
    by (simp add: simplify_demo_batch simple_operations_def)
  from simplify_preserves_meaning [OF this, of "[[1, 2, 9] \<mapsto> [1], [4] \<mapsto> [2]]"] ops show ?thesis
    by (simp add: simplify_demo_batch)
qed

end
