(* ===== verification/Memory_Store.thy ===== *)
theory Memory_Store
  imports Write_Batch
begin

section \<open>Key-value stores and the in-memory store (linera-views)\<close>

text \<open>
  \<open>kv_store\<close> is the contract of \<open>ReadableKeyValueStore\<close> and \<open>WritableKeyValueStore\<close>
  (\<open>linera-views/src/store.rs\<close>): what the queries return and what a batch does, on the content of
  the store. The in-memory store of \<open>backends/memory.rs\<close>, an ordered map whose prefix queries are
  interval queries, provides it.
\<close>

subsection \<open>The contract\<close>

locale kv_store =
  fixes content :: "'s \<Rightarrow> key_values"
    and invar :: "'s \<Rightarrow> bool"
    and read_value_bytes :: "'s \<Rightarrow> bytes \<Rightarrow> bytes option"
    and contains_key :: "'s \<Rightarrow> bytes \<Rightarrow> bool"
    and find_keys_by_prefix :: "'s \<Rightarrow> bytes \<Rightarrow> bytes list"
    and find_key_values_by_prefix :: "'s \<Rightarrow> bytes \<Rightarrow> (bytes \<times> bytes) list"
    and write_batch :: "'s \<Rightarrow> batch \<Rightarrow> 's"
  assumes read: "invar s \<Longrightarrow> read_value_bytes s k = content s k"
    and contains: "invar s \<Longrightarrow> contains_key s k \<longleftrightarrow> k \<in> dom (content s)"
    and find_keys: "invar s \<Longrightarrow> set (find_keys_by_prefix s p) = {k. p @ k \<in> dom (content s)}"
    and find_key_values:
      "invar s \<Longrightarrow> set (find_key_values_by_prefix s p) = {(k, v). content s (p @ k) = Some v}"
    and sorted_keys: "invar s \<Longrightarrow> sorted_wrt (<) (find_keys_by_prefix s p)"
    and write_content: "invar s \<Longrightarrow> content (write_batch s b) = apply_batch b (content s)"
    and write_invar: "invar s \<Longrightarrow> invar (write_batch s b)"
begin

lemma expander: "invar s \<Longrightarrow> expander_of (\<lambda>p. Inr (find_keys_by_prefix s p)) (content s)"
  by (simp add: expander_of_def find_keys)

lemma read_after_write:
  "invar s \<Longrightarrow> read_value_bytes (write_batch s b) k = apply_batch b (content s) k"
  by (simp add: read write_content write_invar)

end

subsection \<open>The in-memory store\<close>

type_synonym memory_store_map = "(bytes, bytes) btree_map"

datatype memory_store_error = Memory_BcsError | TooLargeValue | NamespaceNotFound

definition memory_read_value_bytes :: "memory_store_map \<Rightarrow> bytes \<Rightarrow> bytes option" where
  "memory_read_value_bytes m key = bt_get m key"

definition memory_contains_key :: "memory_store_map \<Rightarrow> bytes \<Rightarrow> bool" where
  "memory_contains_key m key = bt_contains m key"

definition memory_contains_keys :: "memory_store_map \<Rightarrow> bytes list \<Rightarrow> bool list" where
  "memory_contains_keys m keys = map (memory_contains_key m) keys"

definition memory_read_multi_values_bytes :: "memory_store_map \<Rightarrow> bytes list \<Rightarrow> bytes option list" where
  "memory_read_multi_values_bytes m keys = map (memory_read_value_bytes m) keys"

definition memory_find_keys_by_prefix :: "memory_store_map \<Rightarrow> bytes \<Rightarrow> bytes list" where
  "memory_find_keys_by_prefix m key_prefix =
     map (\<lambda>(key, val). drop (length key_prefix) key) (bt_range m (get_interval key_prefix))"

definition memory_find_key_values_by_prefix ::
  "memory_store_map \<Rightarrow> bytes \<Rightarrow> (bytes \<times> bytes) list" where
  "memory_find_key_values_by_prefix m key_prefix =
     map (\<lambda>(key, val). (drop (length key_prefix) key, val)) (bt_range m (get_interval key_prefix))"

fun memory_write_operation :: "memory_store_map \<Rightarrow> write_operation \<Rightarrow> memory_store_map" where
  "memory_write_operation m (Put key val) = bt_insert key val m"
| "memory_write_operation m (Delete key) = bt_remove key m"
| "memory_write_operation m (DeletePrefix key_prefix) =
     foldl (\<lambda>m key. bt_remove key m) m (map fst (bt_range m (get_interval key_prefix)))"

definition memory_write_batch :: "memory_store_map \<Rightarrow> batch \<Rightarrow> memory_store_map" where
  "memory_write_batch m b = foldl memory_write_operation m (operations b)"

definition memory_expand_delete_prefix :: "memory_store_map \<Rightarrow> memory_store_error prefix_expander" where
  "memory_expand_delete_prefix m key_prefix = Inr (memory_find_keys_by_prefix m key_prefix)"

lemma memory_write_operation_correct:
  assumes "bt_wf m"
  shows "bt_wf (memory_write_operation m op)"
    and "bt_get (memory_write_operation m op) = apply_operation (bt_get m) op"
proof -
  show "bt_wf (memory_write_operation m op)"
    using assms fold_bt_remove by (cases op) auto
  show "bt_get (memory_write_operation m op) = apply_operation (bt_get m) op"
    by (cases op) (simp_all add: fun_eq_iff assms bt_get_remove_range [OF assms])
qed

lemma memory_write_batch_fold:
  "bt_wf m \<Longrightarrow> bt_wf (foldl memory_write_operation m ops)
     \<and> bt_get (foldl memory_write_operation m ops) = apply_operations ops (bt_get m)"
  by (induction ops arbitrary: m)
    (auto simp: memory_write_operation_correct apply_operations_def)

lemma strict_sorted_drop_prefix:
  assumes "sorted_wrt (<) ks" and "\<forall>k \<in> set ks. prefix (p :: bytes) k"
  shows "sorted_wrt (<) (map (drop (length p)) ks)"
  using assms
proof (induction ks)
  case Nil
  then show ?case by simp
next
  case (Cons k ks)
  have "drop (length p) k < drop (length p) j" if "j \<in> set ks" for j
  proof -
    from that Cons.prems obtain k' j' where "k = p @ k'" "j = p @ j'" "k < j"
      by (auto simp: prefix_def)
    moreover have "p @ k' < p @ j' \<Longrightarrow> k' < j'" by (induction p) auto
    ultimately show ?thesis by simp
  qed
  with Cons show ?case by simp
qed

interpretation memory: kv_store bt_get bt_wf memory_read_value_bytes memory_contains_key
  memory_find_keys_by_prefix memory_find_key_values_by_prefix memory_write_batch
proof
  fix s :: memory_store_map and k p b
  assume wf: "bt_wf s"
  show "memory_read_value_bytes s k = bt_get s k"
    by (simp add: memory_read_value_bytes_def)
  show "memory_contains_key s k \<longleftrightarrow> k \<in> dom (bt_get s)"
    by (auto simp: memory_contains_key_def bt_contains_def)
  show "set (memory_find_keys_by_prefix s p) = {k. p @ k \<in> dom (bt_get s)}"
    by (force simp: memory_find_keys_by_prefix_def dom_def bt_get_Some_iff [OF wf] prefix_def image_iff)
  show "set (memory_find_key_values_by_prefix s p) = {(k, v). bt_get s (p @ k) = Some v}"
    by (force simp: memory_find_key_values_by_prefix_def bt_get_Some_iff [OF wf] prefix_def image_iff)
  have "sorted_wrt (<) (map fst (bt_range s (get_interval p)))"
    using wf by (simp add: bt_wf_def bt_range_def sorted_wrt_map sorted_wrt_filter)
  from strict_sorted_drop_prefix [OF this, of p]
  show "sorted_wrt (<) (memory_find_keys_by_prefix s p)"
    by (simp add: memory_find_keys_by_prefix_def comp_def case_prod_unfold)
  show "bt_get (memory_write_batch s b) = apply_batch b (bt_get s)"
    and "bt_wf (memory_write_batch s b)"
    using memory_write_batch_fold [OF wf]
    by (simp_all add: memory_write_batch_def apply_batch_def)
qed

text \<open>C21: Both conversions of a batch for a database, the one that expands every prefix deletion and
  the one that expands only those that collide with an insertion, succeed on the in-memory store, and
  what they return has, executed in any order, the effect of the original batch.\<close>

theorem from_batch_preserves_meaning:
  assumes "bt_wf store"
  shows "\<exists>sb ub. simple_from_batch (memory_expand_delete_prefix store) b = Inr sb
    \<and> unordered_from_batch (memory_expand_delete_prefix store) b = Inr ub
    \<and> (\<forall>ops. mset ops = mset (simple_operations sb)
          \<longrightarrow> apply_operations ops (bt_get store) = apply_batch b (bt_get store))
    \<and> (\<forall>ops. mset ops = mset (unordered_operations ub)
          \<longrightarrow> apply_operations ops (bt_get store) = apply_batch b (bt_get store))"
proof -
  have exp: "expander_of (memory_expand_delete_prefix store) (bt_get store)"
    using memory.expander [OF assms] by (simp add: memory_expand_delete_prefix_def [abs_def])
  note simplify_correct(1) [of b]
  from expand_delete_prefixes_correct [OF this exp] obtain sb where
    sb: "simple_from_batch (memory_expand_delete_prefix store) b = Inr sb"
      "independent (set (simple_operations sb))" "apply_simple sb (bt_get store) = apply_batch b (bt_get store)"
    by (auto simp: simple_from_batch_def simplify_correct(2))
  from expand_colliding_correct [OF simplify_correct(1) exp, of b] obtain ub where
    ub: "unordered_from_batch (memory_expand_delete_prefix store) b = Inr ub"
      "independent (set (unordered_operations ub))" "apply_unordered ub (bt_get store) = apply_batch b (bt_get store)"
    by (auto simp: unordered_from_batch_def simplify_correct(2))
  have "apply_operations ops (bt_get store) = apply_batch b (bt_get store)"
    if "mset ops = mset (simple_operations sb)" for ops
    using independent_order [OF sb(2) mset_eq_setD [OF that]] sb(3) by (simp add: apply_simple_def)
  moreover have "apply_operations ops (bt_get store) = apply_batch b (bt_get store)"
    if "mset ops = mset (unordered_operations ub)" for ops
    using independent_order [OF ub(2) mset_eq_setD [OF that]] ub(3) by (simp add: apply_unordered_def)
  ultimately show ?thesis using sb(1) ub(1) by blast
qed

definition demo_store :: memory_store_map where
  "demo_store = [([1, 2, 9], [1]), ([3], [8]), ([4], [2])]"

theorem from_batch_preserves_meaning_witness:
  "bt_wf demo_store
   \<and> (\<exists>sb ub. simple_from_batch (memory_expand_delete_prefix demo_store) demo_batch = Inr sb
      \<and> unordered_from_batch (memory_expand_delete_prefix demo_store) demo_batch = Inr ub
      \<and> apply_operations (rev (simple_operations sb)) (bt_get demo_store)
          = apply_batch demo_batch (bt_get demo_store)
      \<and> apply_operations (rev (unordered_operations ub)) (bt_get demo_store)
          = apply_batch demo_batch (bt_get demo_store))"
proof -
  have wf: "bt_wf demo_store" by (simp add: demo_store_def)
  from from_batch_preserves_meaning [OF wf, of demo_batch] wf show ?thesis
    by (metis mset_rev)
qed

end
