(* ===== verification/Journaling.thy ===== *)
theory Journaling
  imports Memory_Store
begin

section \<open>The journaling store (linera-views)\<close>

text \<open>
  \<open>linera-views/src/backends/journaling.rs\<close> with the iterators of \<open>batch.rs\<close> it runs on, for
  \<open>K::Batch = UnorderedBatch\<close> (the batches of the ScyllaDB backend). A batch too large for one write
  of the database is first saved as numbered blocks; then a header makes it permanent; then the blocks
  are executed from the last to the first, each in one write that also removes it and updates the
  header.

  The database \<open>K\<close> is a map from keys to values whose writes are atomic and may fail: \<open>write_budget\<close>
  is the number of writes that still succeed, so that a failure or a crash can be placed before any
  write, and \<open>write_log\<close> records the batches written. The BCS encodings are an argument.
\<close>

subsection \<open>Iterators over batches\<close>

record simple_unordered_batch_iter =
  delete_iter :: "bytes list"
  insert_iter :: "(bytes \<times> bytes) list"

record unordered_batch_iter =
  delete_prefix_iter :: "bytes list"
  insert_deletion_iter :: simple_unordered_batch_iter

definition simple_default :: simple_unordered_batch where
  "simple_default = \<lparr>deletions = [], insertions = []\<rparr>"

definition unordered_default :: unordered_batch where
  "unordered_default = \<lparr>key_prefix_deletions = [], simple_part = simple_default\<rparr>"

definition simple_into_iter :: "simple_unordered_batch \<Rightarrow> simple_unordered_batch_iter" where
  "simple_into_iter self = \<lparr>delete_iter = deletions self, insert_iter = insertions self\<rparr>"

definition unordered_into_iter :: "unordered_batch \<Rightarrow> unordered_batch_iter" where
  "unordered_into_iter self =
     \<lparr>delete_prefix_iter = key_prefix_deletions self,
      insert_deletion_iter = simple_into_iter (simple_part self)\<rparr>"

definition simple_len :: "simple_unordered_batch \<Rightarrow> nat" where
  "simple_len self = length (deletions self) + length (insertions self)"

definition unordered_len :: "unordered_batch \<Rightarrow> nat" where
  "unordered_len self = length (key_prefix_deletions self) + simple_len (simple_part self)"

definition simple_num_bytes :: "simple_unordered_batch \<Rightarrow> nat" where
  "simple_num_bytes self =
     sum_list (map (\<lambda>(key, val). length key + length val) (insertions self))
     + sum_list (map length (deletions self))"

definition unordered_num_bytes :: "unordered_batch \<Rightarrow> nat" where
  "unordered_num_bytes self =
     simple_num_bytes (simple_part self) + sum_list (map length (key_prefix_deletions self))"

text \<open>The loop of \<open>get_uleb128_size\<close> with \<open>power = 128 ^ expo\<close>.\<close>

function uleb128_size_loop :: "nat \<Rightarrow> nat \<Rightarrow> nat" where
  "uleb128_size_loop len expo =
     (if 128 ^ expo \<le> len then uleb128_size_loop len (expo + 1) else expo)"
  by pat_completeness auto

termination
proof (relation "measure (\<lambda>(len, expo). len - expo)")
  show "wf (measure (\<lambda>(len :: nat, expo). len - expo))" by simp
next
  fix len expo :: nat
  assume "128 ^ expo \<le> len"
  moreover have "expo < 128 ^ expo" by (rule less_exp [THEN less_le_trans]) (simp add: power_mono)
  ultimately show "((len, expo + 1), (len, expo)) \<in> measure (\<lambda>(len, expo). len - expo)" by simp
qed

declare uleb128_size_loop.simps [simp del]

definition get_uleb128_size :: "nat \<Rightarrow> nat" where
  "get_uleb128_size len = uleb128_size_loop len 1"

definition simple_overhead_size :: "simple_unordered_batch \<Rightarrow> nat" where
  "simple_overhead_size self =
     get_uleb128_size (length (deletions self)) + get_uleb128_size (length (insertions self))"

definition unordered_overhead_size :: "unordered_batch \<Rightarrow> nat" where
  "unordered_overhead_size self =
     get_uleb128_size (length (key_prefix_deletions self)) + simple_overhead_size (simple_part self)"

definition simple_add_delete :: "simple_unordered_batch \<Rightarrow> bytes \<Rightarrow> simple_unordered_batch" where
  "simple_add_delete self key = self\<lparr>deletions := deletions self @ [key]\<rparr>"

definition simple_add_insert :: "simple_unordered_batch \<Rightarrow> bytes \<Rightarrow> bytes \<Rightarrow> simple_unordered_batch" where
  "simple_add_insert self key val = self\<lparr>insertions := insertions self @ [(key, val)]\<rparr>"

definition unordered_add_delete :: "unordered_batch \<Rightarrow> bytes \<Rightarrow> unordered_batch" where
  "unordered_add_delete self key = self\<lparr>simple_part := simple_add_delete (simple_part self) key\<rparr>"

definition unordered_add_insert :: "unordered_batch \<Rightarrow> bytes \<Rightarrow> bytes \<Rightarrow> unordered_batch" where
  "unordered_add_insert self key val =
     self\<lparr>simple_part := simple_add_insert (simple_part self) key val\<rparr>"

definition simple_iter_is_empty :: "simple_unordered_batch_iter \<Rightarrow> bool" where
  "simple_iter_is_empty self \<longleftrightarrow> delete_iter self = [] \<and> insert_iter self = []"

definition unordered_iter_is_empty :: "unordered_batch_iter \<Rightarrow> bool" where
  "unordered_iter_is_empty self \<longleftrightarrow>
     delete_prefix_iter self = [] \<and> simple_iter_is_empty (insert_deletion_iter self)"

datatype journal_error =
    Journal_BcsError
  | Journal_StoreError
  | FailureToRetrieveJournalBlock
  | Journal_Panic

text \<open>The BCS functions the code calls: the size of a byte vector, and the encodings of a batch, of
  the journal header and of a position.\<close>

record bcs_codec =
  serialized_size :: "bytes \<Rightarrow> (journal_error, nat) res"
  batch_to_bytes :: "unordered_batch \<Rightarrow> (journal_error, bytes) res"
  batch_from_bytes :: "bytes \<Rightarrow> (journal_error, unordered_batch) res"
  u32_to_bytes :: "u32 \<Rightarrow> bytes"
  u32_from_bytes :: "bytes \<Rightarrow> (journal_error, u32) res"

text \<open>\<open>write_next_value\<close> returns the iterator, the batch and its size after the call, and whether there
  was a value.\<close>

definition simple_write_next_value ::
  "bcs_codec \<Rightarrow> simple_unordered_batch_iter \<Rightarrow> simple_unordered_batch \<Rightarrow> nat
   \<Rightarrow> (journal_error, simple_unordered_batch_iter \<times> simple_unordered_batch \<times> nat \<times> bool) res" where
  "simple_write_next_value bcs self b size_so_far =
     (case delete_iter self of
        delete # rest \<Rightarrow>
          and_then (serialized_size bcs delete) (\<lambda>n.
            Inr (self\<lparr>delete_iter := rest\<rparr>, b\<lparr>deletions := deletions b @ [delete]\<rparr>, size_so_far + n, True))
      | [] \<Rightarrow>
          (case insert_iter self of
             (key, val) # rest \<Rightarrow>
               and_then (serialized_size bcs key) (\<lambda>n1. and_then (serialized_size bcs val) (\<lambda>n2.
                 Inr (self\<lparr>insert_iter := rest\<rparr>, b\<lparr>insertions := insertions b @ [(key, val)]\<rparr>,
                   size_so_far + (n1 + n2), True)))
           | [] \<Rightarrow> Inr (self, b, size_so_far, False)))"

definition unordered_write_next_value ::
  "bcs_codec \<Rightarrow> unordered_batch_iter \<Rightarrow> unordered_batch \<Rightarrow> nat
   \<Rightarrow> (journal_error, unordered_batch_iter \<times> unordered_batch \<times> nat \<times> bool) res" where
  "unordered_write_next_value bcs self b size_so_far =
     (case delete_prefix_iter self of
        delete_prefix # rest \<Rightarrow>
          and_then (serialized_size bcs delete_prefix) (\<lambda>n.
            Inr (self\<lparr>delete_prefix_iter := rest\<rparr>,
              b\<lparr>key_prefix_deletions := key_prefix_deletions b @ [delete_prefix]\<rparr>, size_so_far + n, True))
      | [] \<Rightarrow>
          and_then (simple_write_next_value bcs (insert_deletion_iter self) (simple_part b) size_so_far)
            (\<lambda>(it, sb, n, has_next).
              Inr (self\<lparr>insert_deletion_iter := it\<rparr>, b\<lparr>simple_part := sb\<rparr>, n, has_next)))"

definition simple_next_batch_size ::
  "bcs_codec \<Rightarrow> simple_unordered_batch_iter \<Rightarrow> simple_unordered_batch \<Rightarrow> nat
   \<Rightarrow> (journal_error, nat option) res" where
  "simple_next_batch_size bcs self b size_so_far =
     (case delete_iter self of
        delete # rest \<Rightarrow>
          and_then (serialized_size bcs delete) (\<lambda>next_size.
            Inr (Some (size_so_far + next_size + get_uleb128_size (length (deletions b) + 1)
              + get_uleb128_size (length (insertions b)))))
      | [] \<Rightarrow>
          (case insert_iter self of
             (key, val) # rest \<Rightarrow>
               and_then (serialized_size bcs key) (\<lambda>n1. and_then (serialized_size bcs val) (\<lambda>n2.
                 Inr (Some (size_so_far + (n1 + n2) + get_uleb128_size (length (deletions b))
                   + get_uleb128_size (length (insertions b) + 1)))))
           | [] \<Rightarrow> Inr None))"

definition unordered_next_batch_size ::
  "bcs_codec \<Rightarrow> unordered_batch_iter \<Rightarrow> unordered_batch \<Rightarrow> nat \<Rightarrow> (journal_error, nat option) res" where
  "unordered_next_batch_size bcs self b size_so_far =
     (case delete_prefix_iter self of
        delete_prefix # rest \<Rightarrow>
          and_then (serialized_size bcs delete_prefix) (\<lambda>next_size.
            Inr (Some (size_so_far + next_size + get_uleb128_size (length (key_prefix_deletions b) + 1)
              + simple_overhead_size (simple_part b))))
      | [] \<Rightarrow>
          simple_next_batch_size bcs (insert_deletion_iter self) (simple_part b)
            (size_so_far + get_uleb128_size (length (key_prefix_deletions b))))"

subsection \<open>The database and the journal\<close>

record store_limits =
  max_batch_size :: nat
  max_batch_total_size :: nat
  max_value_size :: nat

record direct_store =
  store_content :: key_values
  write_budget :: nat
  write_log :: "unordered_batch list"

definition direct_write_batch ::
  "unordered_batch \<Rightarrow> direct_store \<Rightarrow> direct_store \<times> (journal_error, unit) res" where
  "direct_write_batch b s =
     (if write_budget s = 0 then (s, Inl Journal_StoreError)
      else (s\<lparr>store_content := apply_unordered b (store_content s),
              write_budget := write_budget s - 1, write_log := write_log s @ [b]\<rparr>, Inr ()))"

definition JOURNAL_TAG :: u8 where
  "JOURNAL_TAG = 0"

datatype journal_key_tag = Journal | Entry

fun journal_key_tag_byte :: "journal_key_tag \<Rightarrow> u8" where
  "journal_key_tag_byte Journal = 1"
| "journal_key_tag_byte Entry = 2"

definition get_journaling_key :: "bcs_codec \<Rightarrow> journal_key_tag \<Rightarrow> u32 \<Rightarrow> bytes" where
  "get_journaling_key bcs tag pos = JOURNAL_TAG # journal_key_tag_byte tag # u32_to_bytes bcs pos"

definition is_fastpath_feasible :: "store_limits \<Rightarrow> unordered_batch \<Rightarrow> bool" where
  "is_fastpath_feasible K b \<longleftrightarrow>
     unordered_len b \<le> max_batch_size K \<and> unordered_num_bytes b \<le> max_batch_total_size K"

text \<open>One turn of the loop of \<open>coherently_resolve_journal\<close> reads the last block and executes it,
  together with the updates of the journal.\<close>

definition resolve_block ::
  "bcs_codec \<Rightarrow> u32 \<Rightarrow> direct_store \<Rightarrow> direct_store \<times> (journal_error, unit) res" where
  "resolve_block bcs block_count s =
     (let header_key = get_journaling_key bcs Journal 0;
          block_key = get_journaling_key bcs Entry (block_count - 1)
      in case store_content s block_key of
           None \<Rightarrow> (s, Inl FailureToRetrieveJournalBlock)
         | Some bytes \<Rightarrow>
             (case batch_from_bytes bcs bytes of
                Inl e \<Rightarrow> (s, Inl e)
              | Inr b \<Rightarrow>
                  let b = unordered_add_delete b block_key;
                      block_count = block_count - 1;
                      b = (if 0 < block_count
                           then unordered_add_insert b header_key (u32_to_bytes bcs block_count)
                           else unordered_add_delete b header_key)
                  in direct_write_batch b s))"

function coherently_resolve_journal ::
  "bcs_codec \<Rightarrow> u32 \<Rightarrow> direct_store \<Rightarrow> direct_store \<times> (journal_error, unit) res" where
  "coherently_resolve_journal bcs block_count s =
     (if 0 < block_count
      then case resolve_block bcs block_count s of
             (s', Inl e) \<Rightarrow> (s', Inl e)
           | (s', Inr _) \<Rightarrow> coherently_resolve_journal bcs (block_count - 1) s'
      else (s, Inr ()))"
  by pat_completeness auto

termination
proof (relation "measure (\<lambda>(bcs, block_count, s). unat block_count)")
  show "wf (measure (\<lambda>(bcs :: bcs_codec, block_count :: u32, s :: direct_store). unat block_count))"
    by simp
next
  fix bcs :: bcs_codec and block_count :: u32 and s s' :: direct_store
  assume "0 < block_count"
  then show "((bcs, block_count - 1, s'), (bcs, block_count, s))
      \<in> measure (\<lambda>(bcs, block_count, s). unat block_count)"
    using unat_gt_0 [of block_count] by (simp add: unat_minus_one word_gt_0)
qed

declare coherently_resolve_journal.simps [simp del]

definition clear_journal :: "bcs_codec \<Rightarrow> direct_store \<Rightarrow> direct_store \<times> (journal_error, unit) res" where
  "clear_journal bcs s =
     (case store_content s (get_journaling_key bcs Journal 0) of
        None \<Rightarrow> (s, Inr ())
      | Some bytes \<Rightarrow>
          (case u32_from_bytes bcs bytes of
             Inl e \<Rightarrow> (s, Inl e)
           | Inr block_count \<Rightarrow> coherently_resolve_journal bcs block_count s))"

subsection \<open>Writing a batch\<close>

text \<open>The local variables of \<open>write_journal\<close>.\<close>

record journal_writer =
  block_batch :: unordered_batch
  block_size :: nat
  block_count :: u32
  transaction_batch :: unordered_batch
  transaction_size :: nat

definition journal_key_len :: "bcs_codec \<Rightarrow> nat" where
  "journal_key_len bcs = length (get_journaling_key bcs Journal 0)"

definition max_block_size :: "store_limits \<Rightarrow> bcs_codec \<Rightarrow> nat" where
  "max_block_size K bcs =
     (let key_len = journal_key_len bcs;
          journal_len_upper_bound = key_len + length (u32_to_bytes bcs 0)
      in min (max_value_size K) (max_batch_total_size K - key_len - journal_len_upper_bound))"

definition journal_flush ::
  "store_limits \<Rightarrow> bcs_codec \<Rightarrow> unordered_batch_iter \<Rightarrow> journal_writer
   \<Rightarrow> (journal_error, bool \<times> bool) res" where
  "journal_flush K bcs it w =
     (if unordered_iter_is_empty it \<or> unordered_len (transaction_batch w) = max_batch_size K - 1
      then Inr (True, True)
      else and_then (unordered_next_batch_size bcs it (block_batch w) (block_size w)) (\<lambda>next_size.
        case next_size of
          None \<Rightarrow> Inl Journal_Panic
        | Some next_block_size \<Rightarrow>
            let next_transaction_size = transaction_size w + next_block_size + journal_key_len bcs;
                transaction_flush = max_batch_total_size K < next_transaction_size;
                block_flush = transaction_flush
                  \<or> unordered_len (block_batch w) = max_batch_size K - 2
                  \<or> max_block_size K bcs < next_block_size
            in Inr (block_flush, transaction_flush)))"

definition flush_block :: "bcs_codec \<Rightarrow> journal_writer \<Rightarrow> (journal_error, journal_writer) res" where
  "flush_block bcs w =
     (let block_size' = block_size w + unordered_overhead_size (block_batch w)
      in and_then (batch_to_bytes bcs (block_batch w)) (\<lambda>val.
           and_then (ensure (length val = block_size') Journal_Panic) (\<lambda>_.
             Inr \<lparr>block_batch = unordered_default, block_size = 0, block_count = block_count w + 1,
               transaction_batch = unordered_add_insert (transaction_batch w)
                 (get_journaling_key bcs Entry (block_count w)) val,
               transaction_size = transaction_size w + (block_size' + journal_key_len bcs)\<rparr>)))"

definition flush_transaction ::
  "journal_writer \<Rightarrow> direct_store \<Rightarrow> direct_store \<times> (journal_error, journal_writer) res" where
  "flush_transaction w s =
     (case direct_write_batch (transaction_batch w) s of
        (s', Inl e) \<Rightarrow> (s', Inl e)
      | (s', Inr _) \<Rightarrow>
          (s', Inr (w\<lparr>transaction_batch := unordered_default, transaction_size := 0\<rparr>)))"

definition journal_loop_body ::
  "store_limits \<Rightarrow> bcs_codec \<Rightarrow> unordered_batch_iter \<Rightarrow> journal_writer \<Rightarrow> direct_store
   \<Rightarrow> direct_store \<times> (journal_error, journal_writer) res" where
  "journal_loop_body K bcs it w s =
     (case journal_flush K bcs it w of
        Inl e \<Rightarrow> (s, Inl e)
      | Inr (block_flush, transaction_flush) \<Rightarrow>
          (case (if block_flush then flush_block bcs w else Inr w) of
             Inl e \<Rightarrow> (s, Inl e)
           | Inr w' \<Rightarrow> if transaction_flush then flush_transaction w' s else (s, Inr w')))"

definition iter_length :: "unordered_batch_iter \<Rightarrow> nat" where
  "iter_length it = length (delete_prefix_iter it) + length (delete_iter (insert_deletion_iter it))
     + length (insert_iter (insert_deletion_iter it))"

lemma write_next_value_length:
  "unordered_write_next_value bcs it b n = Inr (it', b', n', True) \<Longrightarrow> iter_length it' < iter_length it"
  by (auto simp: unordered_write_next_value_def simple_write_next_value_def iter_length_def
      split: list.splits)

function write_journal_loop ::
  "store_limits \<Rightarrow> bcs_codec \<Rightarrow> unordered_batch_iter \<Rightarrow> journal_writer \<Rightarrow> direct_store
   \<Rightarrow> direct_store \<times> (journal_error, journal_writer) res" where
  "write_journal_loop K bcs it w s =
     (case unordered_write_next_value bcs it (block_batch w) (block_size w) of
        Inl e \<Rightarrow> (s, Inl e)
      | Inr (it', b, n, has_next) \<Rightarrow>
          if \<not> has_next then (s, Inr w)
          else case journal_loop_body K bcs it' (w\<lparr>block_batch := b, block_size := n\<rparr>) s of
                 (s', Inl e) \<Rightarrow> (s', Inl e)
               | (s', Inr w') \<Rightarrow> write_journal_loop K bcs it' w' s')"
  by pat_completeness auto

termination
  by (relation "measure (\<lambda>(K, bcs, it, w, s). iter_length it)")
    (auto intro: write_next_value_length)

declare write_journal_loop.simps [simp del]

definition journal_writer_init :: journal_writer where
  "journal_writer_init = \<lparr>block_batch = unordered_default, block_size = 0, block_count = 0,
     transaction_batch = unordered_default, transaction_size = 0\<rparr>"

definition write_journal ::
  "store_limits \<Rightarrow> bcs_codec \<Rightarrow> unordered_batch \<Rightarrow> direct_store
   \<Rightarrow> direct_store \<times> (journal_error, u32) res" where
  "write_journal K bcs b s =
     (case write_journal_loop K bcs (unordered_into_iter b) journal_writer_init s of
        (s', Inl e) \<Rightarrow> (s', Inl e)
      | (s', Inr w) \<Rightarrow>
          if 0 < block_count w
          then case direct_write_batch
                 (unordered_add_insert unordered_default (get_journaling_key bcs Journal 0)
                   (u32_to_bytes bcs (block_count w))) s' of
                 (s'', Inl e) \<Rightarrow> (s'', Inl e)
               | (s'', Inr _) \<Rightarrow> (s'', Inr (block_count w))
          else (s', Inr (block_count w)))"

text \<open>\<open>expand_delete_prefix\<close> lists the keys of the database with that prefix, in the order of the
  database.\<close>

type_synonym key_lister = "key_values \<Rightarrow> bytes \<Rightarrow> bytes list"

definition journaling_write_batch ::
  "store_limits \<Rightarrow> bcs_codec \<Rightarrow> key_lister \<Rightarrow> batch \<Rightarrow> direct_store
   \<Rightarrow> direct_store \<times> (journal_error, unit) res" where
  "journaling_write_batch K bcs find_keys b s =
     (case unordered_from_batch (\<lambda>p. Inr (find_keys (store_content s) p)) b of
        Inl e \<Rightarrow> (s, Inl e)
      | Inr ub \<Rightarrow>
          if is_fastpath_feasible K ub then direct_write_batch ub s
          else case write_journal K bcs ub s of
                 (s', Inl e) \<Rightarrow> (s', Inl e)
               | (s', Inr header) \<Rightarrow> coherently_resolve_journal bcs header s')"

end
