(* ===== verification/Journal_Recovery.thy ===== *)
theory Journal_Recovery
  imports Journaling
begin

section \<open>Writes through the journal are atomic\<close>

text \<open>
  The correctness of the journaling store. The keys of the users of the store are those outside the
  journal (\<open>user_content\<close>). Blocks are executed in reverse order; that this has the effect of the
  batch is because its operations are independent (\<open>independent_order\<close>). A write that fails at any
  point leaves a store from which clearing the journal restores the content before or after the batch.
\<close>

subsection \<open>Keys of the journal and keys of the users\<close>

definition journal_key :: "bytes \<Rightarrow> bool" where
  "journal_key k \<longleftrightarrow> k \<noteq> [] \<and> hd k = JOURNAL_TAG"

definition user_content :: "key_values \<Rightarrow> key_values" where
  "user_content m = (\<lambda>k. if journal_key k then None else m k)"

fun touches_journal :: "write_operation \<Rightarrow> bool" where
  "touches_journal (Delete k) \<longleftrightarrow> journal_key k"
| "touches_journal (Put k v) \<longleftrightarrow> journal_key k"
| "touches_journal (DeletePrefix p) \<longleftrightarrow> p = [] \<or> journal_key p"

fun puts_journal :: "write_operation \<Rightarrow> bool" where
  "puts_journal (Put k v) \<longleftrightarrow> journal_key k"
| "puts_journal op \<longleftrightarrow> False"

lemma journal_key_prefix: "prefix p k \<Longrightarrow> p \<noteq> [] \<Longrightarrow> journal_key k \<longleftrightarrow> journal_key p"
  by (auto simp: journal_key_def prefix_def)

lemma journaling_key_is_journal [simp]: "journal_key (get_journaling_key bcs tag pos)"
  by (simp add: journal_key_def get_journaling_key_def)

lemma puts_touches: "puts_journal op \<Longrightarrow> touches_journal op"
  by (cases op) auto

lemma user_apply_operation:
  "\<not> puts_journal op \<Longrightarrow> user_content (apply_operation m op) = apply_operation (user_content m) op"
  by (cases op) (auto simp: user_content_def fun_eq_iff)

lemma user_apply_operations:
  "\<forall>op \<in> set ops. \<not> puts_journal op
   \<Longrightarrow> user_content (apply_operations ops m) = apply_operations ops (user_content m)"
proof (induction ops rule: rev_induct)
  case Nil
  then show ?case by simp
next
  case (snoc op ops)
  then show ?case by (simp add: user_apply_operation)
qed

lemma journal_apply_operations:
  "\<forall>op \<in> set ops. \<not> touches_journal op \<Longrightarrow> journal_key k \<Longrightarrow> apply_operations ops m k = m k"
proof (induction ops rule: rev_induct)
  case Nil
  then show ?case by simp
next
  case (snoc op ops)
  then show ?case
    by (cases op) (auto simp: journal_key_prefix)
qed

text \<open>Writing only journal entries keeps the content of the users.\<close>

lemma user_content_upd [simp]: "journal_key k \<Longrightarrow> user_content (m(k := v)) = user_content m"
  by (auto simp: user_content_def)

lemma apply_insertions:
  "apply_unordered \<lparr>key_prefix_deletions = [], simple_part = \<lparr>deletions = [], insertions = kvs\<rparr>\<rparr> m
    = foldl (\<lambda>m (k, v). m(k \<mapsto> v)) m kvs"
  by (induction kvs arbitrary: m)
    (auto simp: apply_unordered_def unordered_operations_def simple_operations_def apply_operations_def)

subsection \<open>A complete journal\<close>

definition header_key :: "bcs_codec \<Rightarrow> bytes" where
  "header_key bcs = get_journaling_key bcs Journal 0"

definition entry_key :: "bcs_codec \<Rightarrow> nat \<Rightarrow> bytes" where
  "entry_key bcs i = get_journaling_key bcs Entry (of_nat i)"

text \<open>What the store relies on of BCS: decoding inverts encoding.\<close>

definition bcs_ok :: "bcs_codec \<Rightarrow> bool" where
  "bcs_ok bcs \<longleftrightarrow>
     (\<forall>b bs. batch_to_bytes bcs b = Inr bs \<longrightarrow> batch_from_bytes bcs bs = Inr b)
     \<and> (\<forall>n. u32_from_bytes bcs (u32_to_bytes bcs n) = Inr n)"

lemma u32_to_bytes_inj: "bcs_ok bcs \<Longrightarrow> u32_to_bytes bcs m = u32_to_bytes bcs n \<longleftrightarrow> m = n"
  by (metis bcs_ok_def sum.inject(2))

lemma entry_key_inj:
  "bcs_ok bcs \<Longrightarrow> i < 2 ^ 32 \<Longrightarrow> j < 2 ^ 32 \<Longrightarrow> entry_key bcs i = entry_key bcs j \<longleftrightarrow> i = j"
  by (simp add: entry_key_def get_journaling_key_def u32_to_bytes_inj word_of_nat_eq_iff
      take_bit_nat_eq_self)

lemma header_entry_keys [simp]:
  "header_key bcs \<noteq> entry_key bcs i" "entry_key bcs i \<noteq> header_key bcs"
  "journal_key (header_key bcs)" "journal_key (entry_key bcs i)"
  by (auto simp: header_key_def entry_key_def get_journaling_key_def journal_key_def)

definition entries_stored :: "bcs_codec \<Rightarrow> unordered_batch list \<Rightarrow> key_values \<Rightarrow> bool" where
  "entries_stored bcs bs m \<longleftrightarrow>
     (\<forall>i < length bs. \<exists>v. m (entry_key bcs i) = Some v \<and> batch_from_bytes bcs v = Inr (bs ! i))"

definition journaled :: "bcs_codec \<Rightarrow> unordered_batch list \<Rightarrow> key_values \<Rightarrow> bool" where
  "journaled bcs bs m \<longleftrightarrow>
     length bs < 2 ^ 32
     \<and> m (header_key bcs) = (if bs = [] then None else Some (u32_to_bytes bcs (of_nat (length bs))))
     \<and> entries_stored bcs bs m
     \<and> (\<forall>b \<in> set bs. \<forall>op \<in> set (unordered_operations b). \<not> touches_journal op)"

definition apply_blocks :: "unordered_batch list \<Rightarrow> key_values \<Rightarrow> key_values" where
  "apply_blocks bs u = foldr apply_unordered bs u"

text \<open>The batch \<open>resolve_block\<close> writes.\<close>

definition block_write :: "bcs_codec \<Rightarrow> nat \<Rightarrow> unordered_batch \<Rightarrow> unordered_batch" where
  "block_write bcs n b =
     (let b = unordered_add_delete b (entry_key bcs n)
      in if 0 < n then unordered_add_insert b (header_key bcs) (u32_to_bytes bcs (of_nat n))
         else unordered_add_delete b (header_key bcs))"

fun affects :: "bytes \<Rightarrow> write_operation \<Rightarrow> bool" where
  "affects k (Delete j) \<longleftrightarrow> j = k"
| "affects k (Put j v) \<longleftrightarrow> j = k"
| "affects k (DeletePrefix p) \<longleftrightarrow> prefix p k"

lemma apply_operations_affecting:
  "apply_operations ops m k = apply_operations (filter (affects k) ops) m k"
proof (induction ops rule: rev_induct)
  case Nil
  then show ?case by simp
next
  case (snoc op ops)
  then show ?case by (cases op) auto
qed

lemma untouched_not_affecting:
  "\<not> touches_journal op \<Longrightarrow> journal_key k \<Longrightarrow> \<not> affects k op"
  by (cases op) (auto simp: journal_key_prefix)

lemma apply_block_write:
  assumes "\<forall>op \<in> set (unordered_operations b). \<not> touches_journal op"
  shows "apply_unordered (block_write bcs n b) m k =
    (if k = header_key bcs then (if 0 < n then Some (u32_to_bytes bcs (of_nat n)) else None)
     else if k = entry_key bcs n then None
     else apply_unordered b m k)"
proof -
  have split: "unordered_operations (block_write bcs n b) =
      map DeletePrefix (key_prefix_deletions b) @ map Delete (deletions (simple_part b))
      @ (if 0 < n then [Delete (entry_key bcs n)] else [Delete (entry_key bcs n), Delete (header_key bcs)])
      @ map (\<lambda>(key, val). Put key val) (insertions (simple_part b))
      @ (if 0 < n then [Put (header_key bcs) (u32_to_bytes bcs (of_nat n))] else [])"
    by (simp add: block_write_def unordered_operations_def simple_operations_def unordered_add_delete_def
        simple_add_delete_def unordered_add_insert_def simple_add_insert_def Let_def)
  have own: "unordered_operations b = map DeletePrefix (key_prefix_deletions b)
      @ map Delete (deletions (simple_part b)) @ map (\<lambda>(key, val). Put key val) (insertions (simple_part b))"
    by (simp add: unordered_operations_def simple_operations_def)
  have none: "filter (affects j) (map DeletePrefix (key_prefix_deletions b)) = []
      \<and> filter (affects j) (map Delete (deletions (simple_part b))) = []
      \<and> filter (affects j) (map (\<lambda>(key, val). Put key val) (insertions (simple_part b))) = []"
    if "journal_key j" for j
    using assms untouched_not_affecting [OF _ that] unfolding own by (simp add: filter_empty_conv)
  show ?thesis
    unfolding apply_unordered_def
    apply (subst apply_operations_affecting)
    apply (subst (2) apply_operations_affecting)
    unfolding split own filter_append
    using none [of "header_key bcs"] none [of "entry_key bcs n"]
    by auto
qed

lemma user_apply_block_write:
  assumes "\<forall>op \<in> set (unordered_operations b). \<not> touches_journal op"
  shows "user_content (apply_unordered (block_write bcs n b) m) = apply_unordered b (user_content m)"
proof -
  have "user_content (apply_unordered (block_write bcs n b) m) = user_content (apply_unordered b m)"
    by (auto simp: user_content_def apply_block_write [OF assms])
  moreover have "\<forall>op \<in> set (unordered_operations b). \<not> puts_journal op"
    using assms puts_touches by blast
  ultimately show ?thesis
    by (simp add: apply_unordered_def user_apply_operations)
qed

lemma resolve_block_step:
  assumes "bcs_ok bcs" and "journaled bcs (bs @ [b]) (store_content s)" and "0 < write_budget s"
  obtains s' where "resolve_block bcs (of_nat (Suc (length bs))) s = (s', Inr ())"
    and "journaled bcs bs (store_content s')"
    and "user_content (store_content s') = apply_unordered b (user_content (store_content s))"
    and "write_budget s' = write_budget s - 1"
proof -
  let ?n = "length bs"
  from assms(2) have bound: "Suc ?n < 2 ^ 32"
    and entries: "entries_stored bcs (bs @ [b]) (store_content s)"
    and ops: "\<forall>b \<in> set (bs @ [b]). \<forall>op \<in> set (unordered_operations b). \<not> touches_journal op"
    by (auto simp: journaled_def)
  from entries obtain v where v: "store_content s (entry_key bcs ?n) = Some v"
    "batch_from_bytes bcs v = Inr b"
    unfolding entries_stored_def by (metis length_append_singleton lessI nth_append_length)
  have count: "(of_nat (Suc ?n) - 1 :: u32) = of_nat ?n" by simp
  have pos: "0 < (of_nat ?n :: u32) \<longleftrightarrow> 0 < ?n"
    using bound by (simp add: word_less_nat_alt unat_of_nat take_bit_nat_eq_self)
  have "resolve_block bcs (of_nat (Suc ?n)) s = direct_write_batch (block_write bcs ?n b) s"
    using v pos unfolding resolve_block_def count
    by (simp add: entry_key_def header_key_def block_write_def Let_def)
  moreover define s' where "s' = s\<lparr>store_content := apply_unordered (block_write bcs ?n b) (store_content s),
    write_budget := write_budget s - 1, write_log := write_log s @ [block_write bcs ?n b]\<rparr>"
  ultimately have "resolve_block bcs (of_nat (Suc ?n)) s = (s', Inr ())"
    using assms(3) by (simp add: direct_write_batch_def)
  moreover have "user_content (store_content s') = apply_unordered b (user_content (store_content s))"
    using ops by (simp add: s'_def user_apply_block_write)
  moreover have "journaled bcs bs (store_content s')"
  proof -
    have at: "store_content s' k = (if k = header_key bcs then (if 0 < ?n then Some (u32_to_bytes bcs (of_nat ?n)) else None)
       else if k = entry_key bcs ?n then None else apply_unordered b (store_content s) k)" for k
      using ops by (simp add: s'_def apply_block_write)
    have keep: "store_content s' (entry_key bcs i) = store_content s (entry_key bcs i)" if "i < ?n" for i
      using that bound ops entry_key_inj [OF assms(1), of i ?n]
      by (simp add: at apply_unordered_def journal_apply_operations)
    have "entries_stored bcs bs (store_content s')"
      using entries unfolding entries_stored_def
      by (metis keep length_append_singleton less_Suc_eq nth_append)
    with bound ops at [of "header_key bcs"] show ?thesis
      by (auto simp: journaled_def)
  qed
  moreover have "write_budget s' = write_budget s - 1" by (simp add: s'_def)
  ultimately show thesis by (intro that [of s'])
qed

lemma apply_blocks_snoc [simp]: "apply_blocks (bs @ [b]) u = apply_blocks bs (apply_unordered b u)"
  by (simp add: apply_blocks_def)

lemma apply_blocks_append: "apply_blocks (bs @ bs') u = apply_blocks bs (apply_blocks bs' u)"
  by (simp add: apply_blocks_def)

text \<open>Resolving executes the last blocks, all of them if no write fails.\<close>

lemma resolve_correct:
  assumes "bcs_ok bcs" and "journaled bcs bs (store_content s)"
  shows "\<exists>s' r k. coherently_resolve_journal bcs (of_nat (length bs)) s = (s', r) \<and> k \<le> length bs
    \<and> journaled bcs (take k bs) (store_content s')
    \<and> user_content (store_content s') = apply_blocks (drop k bs) (user_content (store_content s))
    \<and> (r = Inr () \<longleftrightarrow> k = 0) \<and> (length bs \<le> write_budget s \<longrightarrow> k = 0)"
  using assms(2)
proof (induction bs arbitrary: s rule: rev_induct)
  case Nil
  then show ?case
    by (auto simp: coherently_resolve_journal.simps [of _ 0] apply_blocks_def)
next
  case (snoc b bs)
  let ?n = "length bs"
  from snoc.prems have bound: "Suc ?n < 2 ^ 32" by (simp add: journaled_def)
  then have pos: "0 < (of_nat (Suc ?n) :: u32)"
    by (simp only: word_less_nat_alt unat_of_nat) (simp add: take_bit_nat_eq_self)
  have count: "(of_nat (Suc ?n) - 1 :: u32) = of_nat ?n" by simp
  show ?case
  proof (cases "write_budget s")
    case 0
    obtain v where "store_content s (entry_key bcs ?n) = Some v" "batch_from_bytes bcs v = Inr b"
      using snoc.prems unfolding journaled_def entries_stored_def
      by (metis length_append_singleton lessI nth_append_length)
    with 0 have "resolve_block bcs (of_nat (Suc ?n)) s = (s, Inl Journal_StoreError)"
      unfolding resolve_block_def count
      by (simp add: entry_key_def direct_write_batch_def Let_def)
    with pos have "coherently_resolve_journal bcs (of_nat (length (bs @ [b]))) s = (s, Inl Journal_StoreError)"
      by (simp add: coherently_resolve_journal.simps [of bcs "of_nat (Suc ?n)"] del: of_nat_Suc)
    with 0 snoc.prems show ?thesis
      by (auto simp: apply_blocks_def intro!: exI [of _ "Suc ?n"])
  next
    case (Suc budget)
    with resolve_block_step [OF assms(1) snoc.prems] obtain s' where
      step: "resolve_block bcs (of_nat (Suc ?n)) s = (s', Inr ())"
      and s': "journaled bcs bs (store_content s')"
        "user_content (store_content s') = apply_unordered b (user_content (store_content s))"
        "write_budget s' = write_budget s - 1"
      by auto
    from snoc.IH [OF s'(1)] obtain s'' r k where
      res: "coherently_resolve_journal bcs (of_nat ?n) s' = (s'', r)" "k \<le> ?n"
        "journaled bcs (take k bs) (store_content s'')"
        "user_content (store_content s'') = apply_blocks (drop k bs) (user_content (store_content s'))"
        "r = Inr () \<longleftrightarrow> k = 0" "?n \<le> write_budget s' \<longrightarrow> k = 0"
      by blast
    have "coherently_resolve_journal bcs (of_nat (length (bs @ [b]))) s = (s'', r)"
      using pos step res(1) count
      by (simp add: coherently_resolve_journal.simps [of bcs "of_nat (Suc ?n)"] del: of_nat_Suc)
    with res s'(2,3) Suc show ?thesis
      by (intro exI [of _ s''] exI [of _ r] exI [of _ k]) auto
  qed
qed

lemma clear_journal_correct:
  assumes "bcs_ok bcs" and "journaled bcs bs (store_content s)" and "length bs \<le> write_budget s"
  obtains s' where "clear_journal bcs s = (s', Inr ())" and "store_content s' (header_key bcs) = None"
    and "user_content (store_content s') = apply_blocks bs (user_content (store_content s))"
proof -
  from resolve_correct [OF assms(1,2)] assms(3) obtain s' where
    s': "coherently_resolve_journal bcs (of_nat (length bs)) s = (s', Inr ())"
      "journaled bcs [] (store_content s')"
      "user_content (store_content s') = apply_blocks bs (user_content (store_content s))"
    by (metis drop0 take0)
  have "clear_journal bcs s = (s', Inr ())"
  proof (cases "bs = []")
    case True
    with assms(2) s'(1) show ?thesis
      by (simp add: clear_journal_def journaled_def header_key_def coherently_resolve_journal.simps [of _ 0])
  next
    case False
    with assms(1,2) s'(1) show ?thesis
      by (simp add: clear_journal_def journaled_def header_key_def bcs_ok_def)
  qed
  with s' show thesis by (intro that) (simp_all add: journaled_def)
qed

lemma clear_journal_refilled:
  assumes "bcs_ok bcs" and "journaled bcs bs (store_content s)" and "length bs \<le> n"
  shows "\<exists>s'. clear_journal bcs (s\<lparr>write_budget := n\<rparr>) = (s', Inr ())
    \<and> store_content s' (header_key bcs) = None
    \<and> user_content (store_content s') = apply_blocks bs (user_content (store_content s))"
proof -
  have "journaled bcs bs (store_content (s\<lparr>write_budget := n\<rparr>))"
    and "length bs \<le> write_budget (s\<lparr>write_budget := n\<rparr>)"
    using assms(2,3) by simp_all
  from clear_journal_correct [OF assms(1) this] show ?thesis by force
qed

subsection \<open>Writing the journal\<close>

definition iter_operations :: "unordered_batch_iter \<Rightarrow> write_operation list" where
  "iter_operations it =
     map DeletePrefix (delete_prefix_iter it) @ map Delete (delete_iter (insert_deletion_iter it))
     @ map (\<lambda>(key, val). Put key val) (insert_iter (insert_deletion_iter it))"

definition put_all :: "(bytes \<times> bytes) list \<Rightarrow> key_values \<Rightarrow> key_values" where
  "put_all kvs m = foldl (\<lambda>m (k, v). m(k \<mapsto> v)) m kvs"

definition insertion_batch :: "(bytes \<times> bytes) list \<Rightarrow> unordered_batch" where
  "insertion_batch kvs = \<lparr>key_prefix_deletions = [], simple_part = \<lparr>deletions = [], insertions = kvs\<rparr>\<rparr>"

text \<open>No journal is present, and the content of the users is \<open>u\<close>.\<close>

definition unjournaled :: "bcs_codec \<Rightarrow> key_values \<Rightarrow> key_values \<Rightarrow> bool" where
  "unjournaled bcs u m \<longleftrightarrow> m (header_key bcs) = None \<and> user_content m = u"

text \<open>While the blocks \<open>bs\<close> are being written: \<open>kvs\<close> are the entries of the transaction not yet
  written, \<open>S\<close> the operations of the batch and \<open>n\<close> a bound on the number of blocks.\<close>

definition writer_core ::
  "bcs_codec \<Rightarrow> write_operation set \<Rightarrow> key_values \<Rightarrow> nat \<Rightarrow> unordered_batch list \<Rightarrow> (bytes \<times> bytes) list
   \<Rightarrow> unordered_batch_iter \<Rightarrow> journal_writer \<Rightarrow> direct_store \<Rightarrow> bool" where
  "writer_core bcs S u n bs kvs it w s \<longleftrightarrow>
     unjournaled bcs u (store_content s)
     \<and> block_count w = of_nat (length bs)
     \<and> length bs + unordered_len (block_batch w) + iter_length it \<le> n
     \<and> transaction_batch w = insertion_batch kvs
     \<and> (\<forall>kv \<in> set kvs. \<exists>i. fst kv = entry_key bcs i)
     \<and> entries_stored bcs bs (put_all kvs (store_content s))
     \<and> set (concat (map unordered_operations bs)) \<union> set (unordered_operations (block_batch w))
        \<union> set (iter_operations it) = S"

definition writer_inv ::
  "bcs_codec \<Rightarrow> write_operation set \<Rightarrow> key_values \<Rightarrow> nat \<Rightarrow> unordered_batch list \<Rightarrow> (bytes \<times> bytes) list
   \<Rightarrow> unordered_batch_iter \<Rightarrow> journal_writer \<Rightarrow> direct_store \<Rightarrow> bool" where
  "writer_inv bcs S u n bs kvs it w s \<longleftrightarrow> writer_core bcs S u n bs kvs it w s
     \<and> (unordered_iter_is_empty it \<longrightarrow> kvs = [] \<and> unordered_operations (block_batch w) = [])"

lemma put_all_simps [simp]: "put_all [] m = m" "put_all (kvs @ [(k, v)]) m = (put_all kvs m)(k \<mapsto> v)"
  by (simp_all add: put_all_def)

lemma apply_insertion_batch: "apply_unordered (insertion_batch kvs) m = put_all kvs m"
  by (simp add: insertion_batch_def put_all_def apply_insertions)

lemma unordered_default_operations [simp]:
  "unordered_operations unordered_default = []" "unordered_len unordered_default = 0"
  by (simp_all add: unordered_default_def simple_default_def unordered_operations_def
      simple_operations_def unordered_len_def simple_len_def)

lemma unordered_default_insertions: "unordered_default = insertion_batch []"
  by (simp add: unordered_default_def simple_default_def insertion_batch_def)

lemma simple_write_next_value_moves:
  assumes "simple_write_next_value bcs it b n = Inr (it', b', n', has_next)"
  shows "if has_next
    then set (simple_operations b') \<union> set (map Delete (delete_iter it')) \<union> set (map (\<lambda>(k, v). Put k v) (insert_iter it'))
          = set (simple_operations b) \<union> set (map Delete (delete_iter it)) \<union> set (map (\<lambda>(k, v). Put k v) (insert_iter it))
      \<and> simple_len b' = Suc (simple_len b)
      \<and> length (delete_iter it) + length (insert_iter it) = Suc (length (delete_iter it') + length (insert_iter it'))
    else simple_iter_is_empty it"
proof (cases "delete_iter it")
  case (Cons k rest)
  with assms show ?thesis
    by (auto simp: simple_write_next_value_def simple_operations_def simple_len_def)
next
  case Nil
  show ?thesis
  proof (cases "insert_iter it")
    case inserts: Nil
    with Nil assms show ?thesis
      by (simp add: simple_write_next_value_def simple_iter_is_empty_def)
  next
    case (Cons kv rest)
    obtain k v where kv: "kv = (k, v)" by fastforce
    from Nil Cons kv assms have eqs: "has_next" "it' = it\<lparr>insert_iter := rest\<rparr>"
      "b' = b\<lparr>insertions := insertions b @ [(k, v)]\<rparr>"
      by (auto simp: simple_write_next_value_def)
    from Nil Cons show ?thesis
      by (simp add: eqs kv simple_operations_def simple_len_def Un_assoc)
  qed
qed

lemma write_next_value_moves:
  assumes "unordered_write_next_value bcs it b n = Inr (it', b', n', has_next)"
  shows "if has_next
    then set (unordered_operations b') \<union> set (iter_operations it')
          = set (unordered_operations b) \<union> set (iter_operations it)
      \<and> unordered_len b' = Suc (unordered_len b) \<and> iter_length it = Suc (iter_length it')
    else unordered_iter_is_empty it"
proof (cases "delete_prefix_iter it")
  case (Cons p rest)
  with assms show ?thesis
    by (auto simp: unordered_write_next_value_def unordered_operations_def iter_operations_def
        unordered_len_def iter_length_def)
next
  case Nil
  with assms obtain sit sb where next_value:
    "simple_write_next_value bcs (insert_deletion_iter it) (simple_part b) n = Inr (sit, sb, n', has_next)"
    and it': "it' = it\<lparr>insert_deletion_iter := sit\<rparr>" and b': "b' = b\<lparr>simple_part := sb\<rparr>"
    by (auto simp: unordered_write_next_value_def)
  from simple_write_next_value_moves [OF next_value] Nil show ?thesis
    by (cases has_next) (simp_all add: it' b' unordered_operations_def iter_operations_def unordered_len_def
        iter_length_def unordered_iter_is_empty_def Un_assoc)
qed

lemma unjournaled_put_all:
  "unjournaled bcs u m \<Longrightarrow> \<forall>kv \<in> set kvs. \<exists>i. fst kv = entry_key bcs i \<Longrightarrow> unjournaled bcs u (put_all kvs m)"
proof (induction kvs rule: rev_induct)
  case Nil
  then show ?case by simp
next
  case (snoc kv kvs)
  then obtain i v where kv: "kv = (entry_key bcs i, v)" by (cases kv) auto
  from snoc have "unjournaled bcs u (put_all kvs m)" by simp
  then show ?case
    unfolding kv put_all_simps unjournaled_def
    by (simp only: user_content_upd header_entry_keys fun_upd_other not_False_eq_True)
qed

lemma entries_stored_snoc:
  assumes "bcs_ok bcs" and "length bs < 2 ^ 32" and "entries_stored bcs bs m"
    and "batch_to_bytes bcs b = Inr v"
  shows "entries_stored bcs (bs @ [b]) (m(entry_key bcs (length bs) \<mapsto> v))"
  unfolding entries_stored_def
proof (intro allI impI)
  fix i
  assume i: "i < length (bs @ [b])"
  show "\<exists>w. (m(entry_key bcs (length bs) \<mapsto> v)) (entry_key bcs i) = Some w
      \<and> batch_from_bytes bcs w = Inr ((bs @ [b]) ! i)"
  proof (cases "i = length bs")
    case True
    with assms(1,4) show ?thesis by (simp add: bcs_ok_def)
  next
    case False
    with i assms(2) have "entry_key bcs i \<noteq> entry_key bcs (length bs)"
      by (simp add: entry_key_inj [OF assms(1)])
    with False i assms(3) show ?thesis by (simp add: entries_stored_def nth_append)
  qed
qed

lemma flush_block_core:
  assumes "bcs_ok bcs" and "n < 2 ^ 32" and "writer_core bcs S u n bs kvs it w s"
    and "0 < unordered_len (block_batch w)" and "flush_block bcs w = Inr w'"
  shows "\<exists>v. writer_core bcs S u n (bs @ [block_batch w]) (kvs @ [(entry_key bcs (length bs), v)]) it w' s
    \<and> block_batch w' = unordered_default"
proof -
  from assms(5) obtain v where v: "batch_to_bytes bcs (block_batch w) = Inr v"
    and w': "block_batch w' = unordered_default" "block_count w' = block_count w + 1"
      "transaction_batch w' = unordered_add_insert (transaction_batch w)
         (get_journaling_key bcs Entry (block_count w)) v"
    by (auto simp: flush_block_def Let_def)
  from assms(3) have core: "unjournaled bcs u (store_content s)" "block_count w = of_nat (length bs)"
    "length bs + unordered_len (block_batch w) + iter_length it \<le> n" "transaction_batch w = insertion_batch kvs"
    "\<forall>kv \<in> set kvs. \<exists>i. fst kv = entry_key bcs i" "entries_stored bcs bs (put_all kvs (store_content s))"
    "set (concat (map unordered_operations bs)) \<union> set (unordered_operations (block_batch w))
        \<union> set (iter_operations it) = S"
    by (simp_all add: writer_core_def)
  have tb: "transaction_batch w' = insertion_batch (kvs @ [(entry_key bcs (length bs), v)])"
    by (simp add: w' core(2,4) insertion_batch_def unordered_add_insert_def simple_add_insert_def entry_key_def)
  have "length bs < 2 ^ 32" using core(3) assms(2) by simp
  from entries_stored_snoc [OF assms(1) this core(6) v]
  have "writer_core bcs S u n (bs @ [block_batch w]) (kvs @ [(entry_key bcs (length bs), v)]) it w' s"
    using core assms(4) w'(1,2) tb unfolding writer_core_def by (auto simp: add.commute)
  with w'(1) show ?thesis by blast
qed

lemma flush_transaction_core:
  assumes "writer_core bcs S u n bs kvs it w s" and "flush_transaction w s = (s', r)"
  shows "case r of Inl e \<Rightarrow> unjournaled bcs u (store_content s')
    | Inr w' \<Rightarrow> writer_core bcs S u n bs [] it w' s' \<and> block_batch w' = block_batch w"
  using assms unjournaled_put_all [of bcs u "store_content s" kvs]
  by (auto simp: flush_transaction_def direct_write_batch_def writer_core_def apply_insertion_batch
      unordered_default_insertions split: if_splits)

lemma journal_loop_body_inv:
  assumes "bcs_ok bcs" and "n < 2 ^ 32" and "writer_core bcs S u n bs kvs it w s"
    and "0 < unordered_len (block_batch w)" and "journal_loop_body K bcs it w s = (s', r)"
  shows "case r of Inl e \<Rightarrow> unjournaled bcs u (store_content s')
    | Inr w' \<Rightarrow> \<exists>bs' kvs'. writer_inv bcs S u n bs' kvs' it w' s'"
proof (cases "journal_flush K bcs it w")
  case (Inl e)
  with assms(3,5) show ?thesis by (auto simp: journal_loop_body_def writer_core_def)
next
  case (Inr flags)
  obtain bf tf where flags: "flags = (bf, tf)" by fastforce
  have tf: "tf \<Longrightarrow> bf" and last: "unordered_iter_is_empty it \<Longrightarrow> bf \<and> tf"
    using Inr flags by (auto simp: journal_flush_def Let_def split: if_splits option.splits)
  show ?thesis
  proof (cases bf)
    case False
    with tf have "\<not> tf" by blast
    with False Inr flags assms(5) have "s' = s" and "r = Inr w"
      by (simp_all add: journal_loop_body_def)
    with False assms(3) last show ?thesis by (auto simp: writer_inv_def)
  next
    case True
    show ?thesis
    proof (cases "flush_block bcs w")
      case (Inl e)
      with Inr flags True assms(5) have "s' = s" and "r = Inl e"
        by (simp_all add: journal_loop_body_def)
      with assms(3) show ?thesis by (simp add: writer_core_def)
    next
      case flushed: (Inr w1)
      from flush_block_core [OF assms(1-4) flushed] obtain v where
        core: "writer_core bcs S u n (bs @ [block_batch w]) (kvs @ [(entry_key bcs (length bs), v)]) it w1 s"
        and empty: "block_batch w1 = unordered_default"
        by blast
      show ?thesis
      proof (cases tf)
        case False
        with Inr flags True flushed assms(5) have "s' = s" and "r = Inr w1"
          by (simp_all add: journal_loop_body_def)
        with False core last show ?thesis by (auto simp: writer_inv_def)
      next
        case tf: True
        with Inr flags True flushed assms(5) have "flush_transaction w1 s = (s', r)"
          by (simp add: journal_loop_body_def)
        from flush_transaction_core [OF core this] empty show ?thesis
          by (cases r) (auto simp: writer_inv_def)
      qed
    qed
  qed
qed

lemma write_journal_loop_inv:
  assumes "bcs_ok bcs" and "n < 2 ^ 32" and "writer_inv bcs S u n bs kvs it w s"
    and "write_journal_loop K bcs it w s = (s', r)"
  shows "case r of Inl e \<Rightarrow> unjournaled bcs u (store_content s')
    | Inr w' \<Rightarrow> \<exists>bs. unjournaled bcs u (store_content s') \<and> length bs \<le> n
        \<and> block_count w' = of_nat (length bs) \<and> entries_stored bcs bs (store_content s')
        \<and> set (concat (map unordered_operations bs)) = S"
  using assms(1,3,4)
proof (induction K bcs it w s arbitrary: bs kvs rule: write_journal_loop.induct)
  case (1 K bcs it w s)
  note ok = 1(2) and inv = 1(3) and run = 1(4)
  show ?case
  proof (cases "unordered_write_next_value bcs it (block_batch w) (block_size w)")
    case (Inl e)
    with inv run show ?thesis
      by (auto simp: write_journal_loop.simps [of K] writer_inv_def writer_core_def)
  next
    case (Inr next_value)
    obtain it' b m has_next where nv: "next_value = (it', b, m, has_next)" by (cases next_value) auto
    note moves = write_next_value_moves [OF Inr [unfolded nv]]
    show ?thesis
    proof (cases has_next)
      case False
      with moves have "unordered_iter_is_empty it" by simp
      moreover from this have "iter_operations it = []"
        by (simp add: unordered_iter_is_empty_def simple_iter_is_empty_def iter_operations_def)
      ultimately show ?thesis
        using inv run Inr nv False
        by (auto simp: write_journal_loop.simps [of K] writer_inv_def writer_core_def intro!: exI [of _ bs])
    next
      case True
      let ?w = "w\<lparr>block_batch := b, block_size := m\<rparr>"
      have core: "writer_core bcs S u n bs kvs it' ?w s"
        using inv moves True by (auto simp: writer_inv_def writer_core_def)
      obtain s1 r1 where body: "journal_loop_body K bcs it' ?w s = (s1, r1)" by fastforce
      have "0 < unordered_len (block_batch ?w)" using moves True by simp
      note res = journal_loop_body_inv [OF ok assms(2) core this body]
      show ?thesis
      proof (cases r1)
        case (Inl e)
        with run Inr nv True body res show ?thesis
          by (auto simp: write_journal_loop.simps [of K])
      next
        case r1: (Inr w')
        with res obtain bs' kvs' where "writer_inv bcs S u n bs' kvs' it' w' s1" by auto
        moreover from run Inr nv True body r1 have "write_journal_loop K bcs it' w' s1 = (s', r)"
          by (simp add: write_journal_loop.simps [of K])
        moreover have "journal_loop_body K bcs it' ?w s = (s1, Inr w')" using body r1 by simp
        ultimately show ?thesis
          using 1(1) [OF Inr _ _ _ _ _ _ ok, of it' "(b, m, has_next)" b "(m, has_next)" m has_next s1 "Inr w'" w' bs' kvs'] nv True
          by simp
      qed
    qed
  qed
qed

lemma apply_blocks_operations:
  "apply_blocks bs u = apply_operations (concat (map unordered_operations (rev bs))) u"
  by (induction bs arbitrary: u rule: rev_induct) (simp_all add: apply_blocks_def apply_unordered_def)

lemma writer_inv_init:
  assumes "unjournaled bcs u (store_content s)"
  shows "writer_inv bcs (set (unordered_operations ub)) u (unordered_len ub) [] []
    (unordered_into_iter ub) journal_writer_init s"
  using assms
  by (simp add: writer_inv_def writer_core_def journal_writer_init_def unordered_into_iter_def
      simple_into_iter_def iter_length_def iter_operations_def unordered_len_def simple_len_def
      unordered_operations_def simple_operations_def entries_stored_def unordered_default_def
      simple_default_def insertion_batch_def)

lemma write_journal_correct:
  assumes "bcs_ok bcs" and "unordered_len ub < 2 ^ 32" and "unjournaled bcs u (store_content s)"
    and "independent (set (unordered_operations ub))"
    and "\<forall>op \<in> set (unordered_operations ub). \<not> touches_journal op"
    and "write_journal K bcs ub s = (s', r)"
  shows "case r of Inl e \<Rightarrow> unjournaled bcs u (store_content s')
    | Inr h \<Rightarrow> \<exists>bs. h = of_nat (length bs) \<and> length bs \<le> unordered_len ub
        \<and> journaled bcs bs (store_content s') \<and> user_content (store_content s') = u
        \<and> apply_blocks bs u = apply_unordered ub u"
proof -
  obtain s1 r1 where loop:
    "write_journal_loop K bcs (unordered_into_iter ub) journal_writer_init s = (s1, r1)"
    by fastforce
  note res = write_journal_loop_inv [OF assms(1,2) writer_inv_init [OF assms(3)] loop]
  show ?thesis
  proof (cases r1)
    case (Inl e)
    with loop assms(6) have "s' = s1" and "r = Inl e" by (simp_all add: write_journal_def)
    with res Inl show ?thesis by simp
  next
    case (Inr w)
    with res obtain bs where bs: "unjournaled bcs u (store_content s1)" "length bs \<le> unordered_len ub"
      "block_count w = of_nat (length bs)" "entries_stored bcs bs (store_content s1)"
      "set (concat (map unordered_operations bs)) = set (unordered_operations ub)"
      by auto
    then have bound: "length bs < 2 ^ 32" using assms(2) by simp
    have ops: "\<forall>b \<in> set bs. \<forall>op \<in> set (unordered_operations b). \<not> touches_journal op"
      using bs(5) assms(5) by auto
    have "set (concat (map unordered_operations (rev bs))) = set (unordered_operations ub)"
      using bs(5) by simp
    from independent_order [OF assms(4) this, of u]
    have blocks: "apply_blocks bs u = apply_unordered ub u"
      by (simp add: apply_blocks_operations apply_unordered_def)
    show ?thesis
    proof (cases "bs = []")
      case True
      with loop Inr bs(3) assms(6) have "s' = s1" and "r = Inr 0"
        by (simp_all add: write_journal_def)
      with True bs blocks show ?thesis
        by (auto simp: journaled_def unjournaled_def entries_stored_def intro!: exI [of _ "[]"])
    next
      case False
      then have "0 < (of_nat (length bs) :: u32)"
        using bound by (simp add: word_less_nat_alt unat_of_nat take_bit_nat_eq_self)
      moreover have "unordered_add_insert unordered_default k v = insertion_batch [(k, v)]" for k v
        by (simp add: unordered_add_insert_def simple_add_insert_def unordered_default_insertions
            insertion_batch_def)
      ultimately have written: "direct_write_batch (insertion_batch [(header_key bcs, u32_to_bytes bcs (of_nat (length bs)))]) s1
          = (s', map_sum id (\<lambda>_. ()) r) \<and> (r = Inr (of_nat (length bs)) \<or> (\<exists>e. r = Inl e))"
        using loop Inr bs(3) assms(6)
        by (auto simp: write_journal_def header_key_def split: prod.splits sum.splits)
      show ?thesis
      proof (cases "write_budget s1 = 0")
        case True
        with written bs(1) show ?thesis
          by (auto simp: direct_write_batch_def)
      next
        case budget: False
        with written have "store_content s' = (store_content s1)(header_key bcs \<mapsto> u32_to_bytes bcs (of_nat (length bs)))"
          and r: "r = Inr (of_nat (length bs))"
          using apply_insertion_batch [of "[(header_key bcs, u32_to_bytes bcs (of_nat (length bs)))]"]
          by (auto simp: direct_write_batch_def put_all_def)
        then have "journaled bcs bs (store_content s')" and "user_content (store_content s') = u"
          using bs(1,4) bound ops False by (auto simp: journaled_def unjournaled_def entries_stored_def)
        with r bs(2) blocks show ?thesis by auto
      qed
    qed
  qed
qed

subsection \<open>Atomicity\<close>

text \<open>A batch of a user of the store: it does not name keys of the journal, and deletes everything
  only when no block of an abandoned journal is left.\<close>

fun user_operation :: "write_operation \<Rightarrow> bool" where
  "user_operation (Delete k) \<longleftrightarrow> \<not> journal_key k"
| "user_operation (Put k v) \<longleftrightarrow> \<not> journal_key k"
| "user_operation (DeletePrefix p) \<longleftrightarrow> \<not> journal_key p"

definition user_batch :: "batch \<Rightarrow> key_values \<Rightarrow> bool" where
  "user_batch b m \<longleftrightarrow> (\<forall>op \<in> set (operations b). user_operation op)
     \<and> (DeletePrefix [] \<in> set (operations b) \<longrightarrow> (\<forall>k \<in> dom m. \<not> journal_key k))"

lemma simplified_delete_all:
  assumes "simplified ub" and "[] \<in> set (key_prefix_deletions ub)"
  shows "key_prefix_deletions ub = [[]]" and "deletions (simple_part ub) = []"
proof -
  from assms(1) have anti: "antichain (key_prefix_deletions ub)" and dist: "distinct (key_prefix_deletions ub)"
    by (simp_all add: simplified_def bs_wf_def strict_sorted_iff)
  have nil: "q = []" if "q \<in> set (key_prefix_deletions ub)" for q
    using anti assms(2) that unfolding antichain_def by (metis Nil_prefix)
  show "key_prefix_deletions ub = [[]]"
  proof (cases "key_prefix_deletions ub")
    case Nil
    with assms(2) show ?thesis by simp
  next
    case (Cons p ps)
    moreover have "ps = []"
      using nil dist Cons by (cases ps) auto
    ultimately show ?thesis using nil by simp
  qed
  from assms show "deletions (simple_part ub) = []"
    by (cases "deletions (simple_part ub)") (auto simp: simplified_def)
qed

lemma from_batch_keeps_journal:
  assumes "user_batch b m" and "expander_of db m" and "unordered_from_batch db b = Inr ub"
    and "\<not> is_fastpath_feasible K ub" and "0 < max_batch_size K"
  shows "\<forall>op \<in> set (unordered_operations ub). \<not> touches_journal op"
proof -
  let ?sb = "simplify b"
  note simpl = simplify_correct(1) [of b]
  from expand_colliding_correct [OF simpl assms(2)] assms(3)
  have ub: "insertions (simple_part ub) = insertions (simple_part ?sb)"
    "set (key_prefix_deletions ub) \<subseteq> set (key_prefix_deletions ?sb)"
    "set (deletions (simple_part ub)) \<subseteq> set (deletions (simple_part ?sb))
       \<union> {k \<in> dom m. \<exists>p \<in> set (key_prefix_deletions ?sb). prefix p k}"
    and ind: "independent (set (unordered_operations ub))"
    by (auto simp: unordered_from_batch_def)
  have user: "user_operation op" if "op \<in> set (unordered_operations ?sb)" for op
    using that simplify_origin [of b] assms(1) by (auto simp: user_batch_def)
  have root: "[] \<in> set (key_prefix_deletions ?sb) \<Longrightarrow> \<forall>k \<in> dom m. \<not> journal_key k"
    using simplify_origin [of b] assms(1) by (auto simp: user_batch_def unordered_operations_def)
  have no_root: "[] \<notin> set (key_prefix_deletions ub)"
  proof
    assume nil: "[] \<in> set (key_prefix_deletions ub)"
    with ub(2) have "[] \<in> set (key_prefix_deletions ?sb)" by blast
    note all = simplified_delete_all [OF simpl this]
    from nil ind have "insertions (simple_part ub) = []"
      by (cases "insertions (simple_part ub)")
        (force simp: independent_def deletes_def unordered_operations_def)+
    with ub(1) all assms(3)
    have "key_prefix_deletions ub = [[]] \<and> deletions (simple_part ub) = []"
      by (auto simp: unordered_from_batch_def expand_colliding_prefix_deletions_def bs_collect_def
          bs_range_def)
    with \<open>insertions (simple_part ub) = []\<close> have "is_fastpath_feasible K ub"
      using assms(5)
      by (simp add: is_fastpath_feasible_def unordered_len_def simple_len_def unordered_num_bytes_def
          simple_num_bytes_def)
    with assms(4) show False by simp
  qed
  show ?thesis
  proof
    fix op
    assume op: "op \<in> set (unordered_operations ub)"
    show "\<not> touches_journal op"
    proof (cases op)
      case (Put k v)
      with op ub(1) user [of op] show ?thesis by (auto simp: unordered_operations_def)
    next
      case (DeletePrefix p)
      with op ub(2) user [of op] no_root show ?thesis by (auto simp: unordered_operations_def)
    next
      case (Delete k)
      with op have "k \<in> set (deletions (simple_part ub))" by (auto simp: unordered_operations_def)
      with ub(3) consider "k \<in> set (deletions (simple_part ?sb))"
        | p where "k \<in> dom m" "p \<in> set (key_prefix_deletions ?sb)" "prefix p k"
        by blast
      then show ?thesis
      proof cases
        case 1
        with user [of op] Delete show ?thesis by (auto simp: unordered_operations_def)
      next
        case 2
        with user [of "DeletePrefix p"] root Delete show ?thesis
          by (cases "p = []") (auto simp: unordered_operations_def journal_key_prefix)
      qed
    qed
  qed
qed

lemma journaling_write_outcome:
  assumes bcs: "bcs_ok bcs" and clean: "store_content s (header_key bcs) = None"
    and batch: "user_batch b (store_content s)"
    and lister: "\<And>p. set (find_keys (store_content s) p) = {k. p @ k \<in> dom (store_content s)}"
    and bound: "\<And>ub. unordered_from_batch
        (\<lambda>p. Inr (find_keys (store_content s) p) :: (journal_error, bytes list) res) b = Inr ub
      \<Longrightarrow> unordered_len ub < 2 ^ 32"
    and limits: "0 < max_batch_size K" and budget: "2 ^ 32 \<le> n"
    and run: "journaling_write_batch K bcs find_keys b s = (s', r)"
  shows "\<exists>s''. clear_journal bcs (s'\<lparr>write_budget := n\<rparr>) = (s'', Inr ())
    \<and> store_content s'' (header_key bcs) = None
    \<and> (user_content (store_content s'') = apply_batch b (user_content (store_content s))
        \<or> r \<noteq> Inr () \<and> user_content (store_content s'') = user_content (store_content s))
    \<and> (r = Inr () \<longrightarrow> store_content s' (header_key bcs) = None
        \<and> user_content (store_content s') = apply_batch b (user_content (store_content s)))"
proof -
  let ?m = "store_content s"
  let ?db = "\<lambda>p. Inr (find_keys ?m p) :: (journal_error, bytes list) res"
  let ?u = "user_content ?m"
  have exp: "expander_of ?db ?m" using lister by (simp add: expander_of_def)
  obtain ub where ub: "unordered_from_batch ?db b = Inr ub"
    and ind: "independent (set (unordered_operations ub))"
    and ins: "insertions (simple_part ub) = insertions (simple_part (simplify b))"
    and meaning: "apply_unordered ub ?m = apply_batch b ?m"
    using expand_colliding_correct [OF simplify_correct(1) exp, of b]
    by (auto simp: unordered_from_batch_def simplify_correct(2))
  have puts: "\<forall>op \<in> set (unordered_operations ub). \<not> puts_journal op"
  proof
    fix op
    assume op: "op \<in> set (unordered_operations ub)"
    show "\<not> puts_journal op"
    proof (cases op)
      case (Put k v)
      with op ins have "op \<in> set (unordered_operations (simplify b))"
        by (auto simp: unordered_operations_def)
      with simplify_origin [of b] batch have "user_operation op" by (auto simp: user_batch_def)
      with Put show ?thesis by simp
    qed simp_all
  qed
  have "\<forall>op \<in> set (operations b). \<not> puts_journal op"
  proof
    fix op
    assume "op \<in> set (operations b)"
    with batch have "user_operation op" by (simp add: user_batch_def)
    then show "\<not> puts_journal op" by (cases op rule: write_operation.exhaust) auto
  qed
  then have "user_content (apply_batch b ?m) = apply_batch b ?u"
    by (simp add: apply_batch_def user_apply_operations)
  with meaning puts have after: "apply_unordered ub ?u = apply_batch b ?u"
    by (simp add: apply_unordered_def user_apply_operations flip: meaning)
  have done_: ?thesis if "store_content s' (header_key bcs) = None"
    and "user_content (store_content s') = (if r = Inr () then apply_batch b ?u else ?u)"
    using that by (auto simp: clear_journal_def header_key_def)
  show ?thesis
  proof (cases "is_fastpath_feasible K ub")
    case True
    with run ub have "direct_write_batch ub s = (s', r)"
      by (simp add: journaling_write_batch_def)
    moreover have "apply_unordered ub ?m (header_key bcs) = None"
    proof -
      have "Put (header_key bcs) v \<notin> set (unordered_operations ub)" for v
        using puts by (metis header_entry_keys(3) puts_journal.simps(1))
      then show ?thesis using clean by (simp add: apply_unordered_def apply_no_put)
    qed
    ultimately show ?thesis
      using clean puts after
      by (intro done_) (auto simp: direct_write_batch_def apply_unordered_def user_apply_operations
          split: if_splits)
  next
    case False
    obtain s1 r1 where wj: "write_journal K bcs ub s = (s1, r1)" by fastforce
    have "unjournaled bcs ?u ?m" using clean by (simp add: unjournaled_def)
    note journal = write_journal_correct [OF bcs bound [OF ub] this ind
      from_batch_keeps_journal [OF batch exp ub False limits] wj]
    show ?thesis
    proof (cases r1)
      case (Inl e)
      with run ub False wj have "s' = s1" and "r = Inl e"
        by (simp_all add: journaling_write_batch_def)
      with journal Inl show ?thesis by (intro done_) (simp_all add: unjournaled_def)
    next
      case (Inr h)
      with journal obtain bs where h: "h = of_nat (length bs)" and len: "length bs \<le> unordered_len ub"
        and bs: "journaled bcs bs (store_content s1)" and u1: "user_content (store_content s1) = ?u"
        and blocks: "apply_blocks bs ?u = apply_unordered ub ?u"
        by auto
      from run ub False wj Inr h have "coherently_resolve_journal bcs (of_nat (length bs)) s1 = (s', r)"
        by (simp add: journaling_write_batch_def)
      with resolve_correct [OF bcs bs] obtain k where k: "k \<le> length bs"
        "journaled bcs (take k bs) (store_content s')"
        "user_content (store_content s') = apply_blocks (drop k bs) ?u" "r = Inr () \<longleftrightarrow> k = 0"
        using u1 by auto
      have "length (take k bs) \<le> n" using len bound [OF ub] budget by simp
      from clear_journal_refilled [OF bcs k(2) this] obtain s'' where
        s'': "clear_journal bcs (s'\<lparr>write_budget := n\<rparr>) = (s'', Inr ())"
          "store_content s'' (header_key bcs) = None"
          "user_content (store_content s'') = apply_blocks (take k bs) (user_content (store_content s'))"
        by blast
      have final: "apply_blocks (take k bs) (user_content (store_content s')) = apply_batch b ?u"
        using k(3) blocks after apply_blocks_append [of "take k bs" "drop k bs" ?u] by simp
      moreover have "r = Inr () \<longrightarrow> store_content s' (header_key bcs) = None
          \<and> user_content (store_content s') = apply_batch b ?u"
        using final k(2,4) by (auto simp: apply_blocks_def journaled_def)
      ultimately show ?thesis using s'' by auto
    qed
  qed
qed

text \<open>C18: A batch written through the journal is atomic. Whatever write to the database fails, clearing
  the journal of the resulting store succeeds and leaves, on the keys of the users, the content before
  the batch or the content after it; the latter whenever the write was reported as successful, and then
  already before the journal is cleared.\<close>

theorem journaling_write_atomic:
  assumes "bcs_ok bcs" and "store_content s (header_key bcs) = None"
    and "user_batch b (store_content s)"
    and "\<And>p. set (find_keys (store_content s) p) = {k. p @ k \<in> dom (store_content s)}"
    and "\<And>ub. unordered_from_batch
        (\<lambda>p. Inr (find_keys (store_content s) p) :: (journal_error, bytes list) res) b = Inr ub
      \<Longrightarrow> unordered_len ub < 2 ^ 32"
    and "0 < max_batch_size K" and "2 ^ 32 \<le> n"
    and "journaling_write_batch K bcs find_keys b s = (s', r)"
  shows "\<exists>s''. clear_journal bcs (s'\<lparr>write_budget := n\<rparr>) = (s'', Inr ())
    \<and> store_content s'' (header_key bcs) = None
    \<and> (user_content (store_content s'') = apply_batch b (user_content (store_content s))
        \<or> r \<noteq> Inr () \<and> user_content (store_content s'') = user_content (store_content s))
    \<and> (r = Inr () \<longrightarrow> user_content (store_content s') = apply_batch b (user_content (store_content s)))"
  using journaling_write_outcome [OF assms] by blast

end
