(* ===== verification/Bcs_Codec.thy ===== *)
theory Bcs_Codec
  imports Journal_Recovery
begin

section \<open>A BCS codec, and the journal in action\<close>

text \<open>
  The encodings of the BCS format for the types the journal stores: lengths as ULEB128, byte vectors,
  vectors, pairs and structs as concatenations, and 32-bit integers in little-endian order. The codec
  shows that what the journal assumes of BCS can hold (\<open>bcs_codec_ok\<close>, \<open>bcs_codec_sizes\<close>), and
  runs concrete batches.
\<close>

subsection \<open>Encoding and decoding\<close>

fun uleb128 :: "nat \<Rightarrow> bytes" where
  "uleb128 n = (if n < 128 then [of_nat n] else of_nat (n mod 128 + 128) # uleb128 (n div 128))"

declare uleb128.simps [simp del]

fun dec_uleb128 :: "bytes \<Rightarrow> (nat \<times> bytes) option" where
  "dec_uleb128 [] = None"
| "dec_uleb128 (b # bs) =
     (if unat b < 128 then Some (unat b, bs)
      else map_option (\<lambda>(n, rest). (unat b - 128 + 128 * n, rest)) (dec_uleb128 bs))"

text \<open>A decoder inverts an encoder in front of any remaining input.\<close>

definition decodes :: "('a \<Rightarrow> bytes) \<Rightarrow> (bytes \<Rightarrow> ('a \<times> bytes) option) \<Rightarrow> bool" where
  "decodes enc dec \<longleftrightarrow> (\<forall>x rest. dec (enc x @ rest) = Some (x, rest))"

definition enc_bytes :: "bytes \<Rightarrow> bytes" where
  "enc_bytes b = uleb128 (length b) @ b"

definition dec_bytes :: "bytes \<Rightarrow> (bytes \<times> bytes) option" where
  "dec_bytes bs = Option.bind (dec_uleb128 bs) (\<lambda>(n, rest).
     if n \<le> length rest then Some (take n rest, drop n rest) else None)"

definition enc_vec :: "('a \<Rightarrow> bytes) \<Rightarrow> 'a list \<Rightarrow> bytes" where
  "enc_vec enc xs = uleb128 (length xs) @ concat (map enc xs)"

fun dec_times :: "(bytes \<Rightarrow> ('a \<times> bytes) option) \<Rightarrow> nat \<Rightarrow> bytes \<Rightarrow> ('a list \<times> bytes) option" where
  "dec_times dec 0 bs = Some ([], bs)"
| "dec_times dec (Suc n) bs = Option.bind (dec bs) (\<lambda>(x, rest).
     map_option (\<lambda>(xs, rest). (x # xs, rest)) (dec_times dec n rest))"

definition dec_vec :: "(bytes \<Rightarrow> ('a \<times> bytes) option) \<Rightarrow> bytes \<Rightarrow> ('a list \<times> bytes) option" where
  "dec_vec dec bs = Option.bind (dec_uleb128 bs) (\<lambda>(n, rest). dec_times dec n rest)"

definition enc_pair :: "bytes \<times> bytes \<Rightarrow> bytes" where
  "enc_pair kv = enc_bytes (fst kv) @ enc_bytes (snd kv)"

definition dec_pair :: "bytes \<Rightarrow> ((bytes \<times> bytes) \<times> bytes) option" where
  "dec_pair bs = Option.bind (dec_bytes bs) (\<lambda>(k, rest).
     map_option (\<lambda>(v, rest). ((k, v), rest)) (dec_bytes rest))"

definition enc_batch :: "unordered_batch \<Rightarrow> bytes" where
  "enc_batch b = enc_vec enc_bytes (key_prefix_deletions b)
     @ enc_vec enc_bytes (deletions (simple_part b)) @ enc_vec enc_pair (insertions (simple_part b))"

definition dec_batch :: "bytes \<Rightarrow> (journal_error, unordered_batch) res" where
  "dec_batch bs =
     (case dec_vec dec_bytes bs of
        None \<Rightarrow> Inl Journal_BcsError
      | Some (ps, rest) \<Rightarrow>
          (case dec_vec dec_bytes rest of
             None \<Rightarrow> Inl Journal_BcsError
           | Some (ds, rest) \<Rightarrow>
               (case dec_vec dec_pair rest of
                  Some (is, []) \<Rightarrow> Inr \<lparr>key_prefix_deletions = ps,
                     simple_part = \<lparr>deletions = ds, insertions = is\<rparr>\<rparr>
                | _ \<Rightarrow> Inl Journal_BcsError)))"

definition enc_u32 :: "u32 \<Rightarrow> bytes" where
  "enc_u32 n = (let m = unat n in
     [of_nat (m mod 256), of_nat (m div 256 mod 256), of_nat (m div 65536 mod 256), of_nat (m div 16777216)])"

fun dec_u32 :: "bytes \<Rightarrow> (journal_error, u32) res" where
  "dec_u32 [a, b, c, d] =
     Inr (of_nat (unat a + 256 * unat b + 65536 * unat c + 16777216 * unat d))"
| "dec_u32 _ = Inl Journal_BcsError"

definition bcs_format :: bcs_codec where
  "bcs_format = \<lparr>serialized_size = (\<lambda>b. Inr (length (enc_bytes b))),
     batch_to_bytes = (\<lambda>b. Inr (enc_batch b)), batch_from_bytes = dec_batch,
     u32_to_bytes = enc_u32, u32_from_bytes = dec_u32\<rparr>"

lemma unat_byte: "n < 256 \<Longrightarrow> unat (of_nat n :: u8) = n"
  by (simp add: unat_of_nat take_bit_nat_eq_self)

lemma decodes_uleb128: "decodes uleb128 dec_uleb128"
proof -
  have "dec_uleb128 (uleb128 n @ rest) = Some (n, rest)" for n rest
  proof (induction n arbitrary: rest rule: uleb128.induct)
    case (1 n)
    show ?case
    proof (cases "n < 128")
      case True
      then show ?thesis by (simp add: uleb128.simps [of n] unat_byte)
    next
      case False
      have "unat (of_nat (n mod 128) + 128 :: u8) = n mod 128 + 128"
        using unat_byte [of "n mod 128 + 128"] by simp
      with False 1 show ?thesis by (simp add: uleb128.simps [of n])
    qed
  qed
  then show ?thesis by (simp add: decodes_def)
qed

lemma decodes_bytes: "decodes enc_bytes dec_bytes"
  using decodes_uleb128 by (simp add: decodes_def enc_bytes_def dec_bytes_def)

lemma decodes_pair: "decodes enc_pair dec_pair"
  using decodes_bytes by (simp add: decodes_def enc_pair_def dec_pair_def)

lemma decodes_vec:
  assumes "decodes enc dec"
  shows "decodes (enc_vec enc) (dec_vec dec)"
proof -
  have "dec_times dec (length xs) (concat (map enc xs) @ rest) = Some (xs, rest)" for xs rest
    using assms by (induction xs) (simp_all add: decodes_def)
  with decodes_uleb128 show ?thesis
    by (simp add: decodes_def enc_vec_def dec_vec_def)
qed

lemma dec_enc_batch: "dec_batch (enc_batch b) = Inr b"
proof -
  note vec = decodes_vec [OF decodes_bytes, unfolded decodes_def, rule_format]
    decodes_vec [OF decodes_pair, unfolded decodes_def, rule_format]
  have "dec_vec dec_pair (enc_vec enc_pair xs) = Some (xs, [])" for xs
    using vec(2) [of xs "[]"] by simp
  with vec show ?thesis by (simp add: dec_batch_def enc_batch_def)
qed

lemma dec_enc_u32: "dec_u32 (enc_u32 n) = Inr n"
proof -
  have bound: "unat n < 4294967296" using unat_bound [of n] by simp
  let ?m = "unat n"
  have "?m mod 256 + 256 * (?m div 256 mod 256) + 65536 * (?m div 65536 mod 256) + 16777216 * (?m div 16777216) = ?m"
  proof -
    have "?m div 65536 = ?m div 256 div 256" "?m div 16777216 = ?m div 256 div 256 div 256"
      by (simp_all flip: div_mult2_eq)
    moreover have "x + 256 * y + 65536 * z + 16777216 * c = k"
      if "x + 256 * a = k" "y + 256 * b = a" "z + 256 * c = b" for x y z a b c k :: nat
      using that by simp
    ultimately show ?thesis by (metis mod_mult_div_eq)
  qed
  moreover have "?m div 16777216 < 256" using bound by simp
  ultimately show ?thesis by (simp add: enc_u32_def unat_byte Let_def)
qed

lemma bcs_codec_ok: "bcs_ok bcs_format"
  by (simp add: bcs_ok_def bcs_format_def dec_enc_batch dec_enc_u32)

subsection \<open>Sizes\<close>

definition payload :: "bcs_codec \<Rightarrow> unordered_batch \<Rightarrow> nat" where
  "payload bcs b =
     (let size = (\<lambda>x. case serialized_size bcs x of Inr n \<Rightarrow> n | Inl _ \<Rightarrow> 0)
      in sum_list (map size (key_prefix_deletions b)) + sum_list (map size (deletions (simple_part b)))
         + sum_list (map (\<lambda>(key, val). size key + size val) (insertions (simple_part b))))"

text \<open>The formula in the documentation of \<open>get_uleb128_size\<close>, for batches.\<close>

definition bcs_sizes :: "bcs_codec \<Rightarrow> bool" where
  "bcs_sizes bcs \<longleftrightarrow> (\<forall>x. \<exists>n. serialized_size bcs x = Inr n)
     \<and> (\<forall>b. \<exists>v. batch_to_bytes bcs b = Inr v \<and> length v = unordered_overhead_size b + payload bcs b)"

lemma uleb128_size_loop_shift:
  "uleb128_size_loop n (Suc e) = (if n < 128 ^ Suc e then Suc e else Suc (uleb128_size_loop (n div 128) (Suc e)))"
proof (induction n "Suc e" arbitrary: e rule: uleb128_size_loop.induct)
  case (1 n)
  show ?case
  proof (cases "n < 128 ^ Suc e")
    case True
    then show ?thesis by (simp add: uleb128_size_loop.simps [of n "Suc e"])
  next
    case False
    have div: "128 ^ Suc e \<le> n div 128 \<longleftrightarrow> 128 ^ Suc (Suc e) \<le> n"
      using div_le_mono by (simp add: less_eq_div_iff_mult_less_eq mult.commute)
    from False 1 have "uleb128_size_loop n (Suc (Suc e)) = (if n < 128 ^ Suc (Suc e) then Suc (Suc e)
        else Suc (uleb128_size_loop (n div 128) (Suc (Suc e))))"
      by simp
    moreover have "uleb128_size_loop n (Suc e) = uleb128_size_loop n (Suc (Suc e))"
      using False by (simp add: uleb128_size_loop.simps [of n "Suc e"])
    moreover have "uleb128_size_loop (n div 128) (Suc e) =
        (if 128 ^ Suc (Suc e) \<le> n then uleb128_size_loop (n div 128) (Suc (Suc e)) else Suc e)"
      using div by (simp add: uleb128_size_loop.simps [of "n div 128" "Suc e"])
    ultimately show ?thesis using False by auto
  qed
qed

lemma length_uleb128: "length (uleb128 n) = get_uleb128_size n"
proof (induction n rule: uleb128.induct)
  case (1 n)
  then show ?case
    using uleb128_size_loop_shift [of n 0] by (simp add: uleb128.simps [of n] get_uleb128_size_def)
qed

lemma bcs_codec_sizes: "bcs_sizes bcs_format"
  by (simp add: bcs_sizes_def bcs_format_def payload_def enc_batch_def enc_vec_def unordered_overhead_size_def
      simple_overhead_size_def length_concat length_uleb128 comp_def enc_pair_def case_prod_unfold
      Let_def)

subsection \<open>A write through the journal completes\<close>

lemma write_next_value_total:
  assumes "bcs_sizes bcs"
  shows "\<exists>it' b' has_next. unordered_write_next_value bcs it b (payload bcs b)
    = Inr (it', b', payload bcs b', has_next)"
proof -
  from assms have size: "\<exists>n. serialized_size bcs x = Inr n" for x by (simp add: bcs_sizes_def)
  show ?thesis
  proof (cases "delete_prefix_iter it")
    case (Cons p rest)
    with size [of p] show ?thesis
      by (auto simp: unordered_write_next_value_def payload_def Let_def)
  next
    case no_prefix: Nil
    show ?thesis
    proof (cases "delete_iter (insert_deletion_iter it)")
      case (Cons k rest)
      with no_prefix size [of k] show ?thesis
        by (auto simp: unordered_write_next_value_def simple_write_next_value_def payload_def Let_def)
    next
      case Nil
      then show ?thesis
      proof (cases "insert_iter (insert_deletion_iter it)")
        case inserts: Nil
        with no_prefix Nil show ?thesis
          by (auto simp: unordered_write_next_value_def simple_write_next_value_def)
      next
        case (Cons kv rest)
        with no_prefix Nil size [of "fst kv"] size [of "snd kv"] show ?thesis
          by (cases kv)
            (auto simp: unordered_write_next_value_def simple_write_next_value_def payload_def Let_def)
      qed
    qed
  qed
qed

lemma next_batch_size_total:
  assumes "bcs_sizes bcs" and "\<not> unordered_iter_is_empty it"
  shows "\<exists>n. unordered_next_batch_size bcs it b m = Inr (Some n)"
proof -
  from assms(1) have size: "\<exists>n. serialized_size bcs x = Inr n" for x by (simp add: bcs_sizes_def)
  show ?thesis
  proof (cases "delete_prefix_iter it")
    case (Cons p rest)
    with size [of p] show ?thesis by (auto simp: unordered_next_batch_size_def)
  next
    case no_prefix: Nil
    show ?thesis
    proof (cases "delete_iter (insert_deletion_iter it)")
      case (Cons k rest)
      with no_prefix size [of k] show ?thesis
        by (auto simp: unordered_next_batch_size_def simple_next_batch_size_def)
    next
      case Nil
      with no_prefix assms(2) obtain kv rest where "insert_iter (insert_deletion_iter it) = kv # rest"
        by (cases "insert_iter (insert_deletion_iter it)")
          (auto simp: unordered_iter_is_empty_def simple_iter_is_empty_def)
      with no_prefix Nil size [of "fst kv"] size [of "snd kv"] show ?thesis
        by (cases kv) (auto simp: unordered_next_batch_size_def simple_next_batch_size_def)
    qed
  qed
qed

lemma payload_default [simp]: "payload bcs unordered_default = 0"
  by (simp add: payload_def unordered_default_def simple_default_def)

lemma flush_block_total:
  assumes "bcs_sizes bcs" and "block_size w = payload bcs (block_batch w)"
  shows "\<exists>w'. flush_block bcs w = Inr w' \<and> block_size w' = payload bcs (block_batch w')"
proof -
  from assms(1) obtain v where "batch_to_bytes bcs (block_batch w) = Inr v"
    "length v = unordered_overhead_size (block_batch w) + payload bcs (block_batch w)"
    unfolding bcs_sizes_def by blast
  with assms(2) show ?thesis by (simp add: flush_block_def Let_def)
qed

lemma journal_loop_body_total:
  assumes "bcs_sizes bcs" and "block_size w = payload bcs (block_batch w)" and "0 < write_budget s"
  shows "\<exists>s' w'. journal_loop_body K bcs it w s = (s', Inr w')
    \<and> write_budget s \<le> Suc (write_budget s') \<and> block_size w' = payload bcs (block_batch w')"
proof -
  have "\<exists>bf tf. journal_flush K bcs it w = Inr (bf, tf)"
  proof (cases "unordered_iter_is_empty it")
    case True
    then show ?thesis by (auto simp: journal_flush_def)
  next
    case False
    from next_batch_size_total [OF assms(1) False, of "block_batch w" "block_size w"] show ?thesis
      by (auto simp: journal_flush_def Let_def)
  qed
  then obtain bf tf where flush: "journal_flush K bcs it w = Inr (bf, tf)" by blast
  obtain w1 where w1: "(if bf then flush_block bcs w else Inr w) = Inr w1"
    "block_size w1 = payload bcs (block_batch w1)"
    using flush_block_total [OF assms(1,2)] assms(2) by (cases bf) auto
  show ?thesis
    using flush w1 assms(3)
    by (auto simp: journal_loop_body_def flush_transaction_def direct_write_batch_def)
qed

lemma write_journal_loop_total:
  assumes "bcs_sizes bcs" and "block_size w = payload bcs (block_batch w)"
    and "iter_length it \<le> write_budget s"
  shows "\<exists>s' w'. write_journal_loop K bcs it w s = (s', Inr w')
    \<and> write_budget s \<le> write_budget s' + iter_length it"
  using assms
proof (induction K bcs it w s rule: write_journal_loop.induct)
  case (1 K bcs it w s)
  from write_next_value_total [OF 1(2), of it "block_batch w"] 1(3) obtain it' b has_next where
    nv: "unordered_write_next_value bcs it (block_batch w) (block_size w)
      = Inr (it', b, payload bcs b, has_next)"
    by auto
  show ?case
  proof (cases has_next)
    case False
    with nv show ?thesis by (simp add: write_journal_loop.simps [of K])
  next
    case True
    let ?w = "w\<lparr>block_batch := b, block_size := payload bcs b\<rparr>"
    have len: "iter_length it = Suc (iter_length it')"
      using write_next_value_moves [OF nv] True by simp
    with 1(4) obtain s1 w1 where body: "journal_loop_body K bcs it' ?w s = (s1, Inr w1)"
      "write_budget s \<le> Suc (write_budget s1)" "block_size w1 = payload bcs (block_batch w1)"
      using journal_loop_body_total [OF 1(2), of ?w s K it'] by auto
    from 1(1) [OF nv refl refl refl _ body(1) [symmetric] refl 1(2) body(3)] True len 1(4) body(2)
    obtain s' w' where "write_journal_loop K bcs it' w1 s1 = (s', Inr w')"
      "write_budget s1 \<le> write_budget s' + iter_length it'"
      by auto
    with nv True body(1,2) len show ?thesis
      by (auto simp: write_journal_loop.simps [of K])
  qed
qed

lemma write_journal_total:
  assumes "bcs_sizes bcs" and "unordered_len ub < write_budget s"
  shows "\<exists>s' h. write_journal K bcs ub s = (s', Inr h)
    \<and> write_budget s \<le> Suc (write_budget s' + unordered_len ub)"
proof -
  have "iter_length (unordered_into_iter ub) = unordered_len ub"
    by (simp add: iter_length_def unordered_into_iter_def simple_into_iter_def unordered_len_def simple_len_def)
  with write_journal_loop_total [OF assms(1), of journal_writer_init "unordered_into_iter ub" s K] assms(2)
  obtain s1 w where "write_journal_loop K bcs (unordered_into_iter ub) journal_writer_init s = (s1, Inr w)"
    "write_budget s \<le> write_budget s1 + unordered_len ub"
    by (auto simp: journal_writer_init_def)
  with assms(2) show ?thesis
    by (auto simp: write_journal_def direct_write_batch_def)
qed

text \<open>C19: A write through the journal completes. When the database accepts two writes per operation and
  two more, the write is successful, the journal is empty again, and the content of the users is the
  one after the batch. In particular the assertion on the size of a block never fails.\<close>

theorem journaling_write_completes:
  assumes "bcs_ok bcs" and "bcs_sizes bcs" and "store_content s (header_key bcs) = None"
    and "user_batch b (store_content s)"
    and "\<And>p. set (find_keys (store_content s) p) = {k. p @ k \<in> dom (store_content s)}"
    and "\<And>ub. unordered_from_batch
        (\<lambda>p. Inr (find_keys (store_content s) p) :: (journal_error, bytes list) res) b = Inr ub
      \<Longrightarrow> unordered_len ub < 2 ^ 32 \<and> 2 * unordered_len ub + 2 \<le> write_budget s"
    and "0 < max_batch_size K"
  shows "\<exists>s'. journaling_write_batch K bcs find_keys b s = (s', Inr ())
    \<and> store_content s' (header_key bcs) = None
    \<and> user_content (store_content s') = apply_batch b (user_content (store_content s))"
proof -
  let ?db = "\<lambda>p. Inr (find_keys (store_content s) p) :: (journal_error, bytes list) res"
  obtain s' r where run: "journaling_write_batch K bcs find_keys b s = (s', r)" by fastforce
  have exp: "expander_of ?db (store_content s)" using assms(5) by (simp add: expander_of_def)
  obtain ub where ub: "unordered_from_batch ?db b = Inr ub"
    and ind: "independent (set (unordered_operations ub))"
    using expand_colliding_correct [OF simplify_correct(1) exp, of b]
    by (auto simp: unordered_from_batch_def)
  from assms(6) [OF ub] have bound: "unordered_len ub < 2 ^ 32"
    and budget: "2 * unordered_len ub + 2 \<le> write_budget s"
    by simp_all
  have "r = Inr ()"
  proof (cases "is_fastpath_feasible K ub")
    case True
    with run ub budget show ?thesis
      by (auto simp: journaling_write_batch_def direct_write_batch_def)
  next
    case False
    from budget have "unordered_len ub < write_budget s" by simp
    from write_journal_total [OF assms(2) this, of K] obtain s1 h where
      wj: "write_journal K bcs ub s = (s1, Inr h)"
      and left: "write_budget s \<le> Suc (write_budget s1 + unordered_len ub)"
      by blast
    have clean: "unjournaled bcs (user_content (store_content s)) (store_content s)"
      using assms(3) by (simp add: unjournaled_def)
    note ops = from_batch_keeps_journal [OF assms(4) exp ub False assms(7)]
    from write_journal_correct [OF assms(1) bound clean ind ops wj] obtain bs where
      bs: "h = of_nat (length bs)" "length bs \<le> unordered_len ub" "journaled bcs bs (store_content s1)"
      by auto
    from bs(2) left budget have "length bs \<le> write_budget s1" by simp
    with resolve_correct [OF assms(1) bs(3)]
    have "\<exists>s'. coherently_resolve_journal bcs h s1 = (s', Inr ())"
      by (auto simp: bs(1))
    with run ub False wj show ?thesis by (auto simp: journaling_write_batch_def)
  qed
  with run journaling_write_outcome [OF assms(1,3,4,5) _ assms(7) order_refl run] assms(6) show ?thesis
    by blast
qed

subsection \<open>A batch through the journal\<close>

definition demo_limits :: store_limits where
  "demo_limits = \<lparr>max_batch_size = 3, max_batch_total_size = 100, max_value_size = 50\<rparr>"

definition demo_direct_store :: "nat \<Rightarrow> direct_store" where
  "demo_direct_store n = \<lparr>store_content = bt_get demo_store, write_budget = n, write_log = []\<rparr>"

definition demo_find_keys :: key_lister where
  "demo_find_keys m p = memory_find_keys_by_prefix demo_store p"

lemma demo_store_wf: "bt_wf demo_store"
  by (simp add: demo_store_def)

lemma demo_journal_facts:
  "store_content (demo_direct_store n) (header_key bcs_format) = None"
  "user_batch demo_batch (store_content (demo_direct_store n))"
  "set (demo_find_keys (store_content (demo_direct_store n)) p)
     = {k. p @ k \<in> dom (store_content (demo_direct_store n))}"
proof -
  show "store_content (demo_direct_store n) (header_key bcs_format) = None"
    by (simp add: demo_direct_store_def demo_store_def header_key_def get_journaling_key_def JOURNAL_TAG_def)
  show "user_batch demo_batch (store_content (demo_direct_store n))"
    by (simp add: user_batch_def demo_batch_def journal_key_def JOURNAL_TAG_def)
  show "set (demo_find_keys (store_content (demo_direct_store n)) p)
     = {k. p @ k \<in> dom (store_content (demo_direct_store n))}"
    using memory.find_keys [OF demo_store_wf] by (simp add: demo_find_keys_def demo_direct_store_def)
qed

lemma demo_journal_length:
  assumes "unordered_from_batch
    (\<lambda>p. Inr (demo_find_keys (store_content (demo_direct_store n)) p) :: (journal_error, bytes list) res)
    demo_batch = Inr ub"
  shows "unordered_len ub = 4"
  using assms
  by (simp add: unordered_from_batch_def simplify_demo_batch expand_colliding_prefix_deletions_def
      bs_collect_def bs_range_def demo_find_keys_def memory_find_keys_by_prefix_def demo_store_def
      bt_range_def unordered_len_def simple_len_def Let_def) auto

theorem journaling_write_atomic_witness:
  "\<exists>s' r s''. journaling_write_batch demo_limits bcs_format demo_find_keys demo_batch (demo_direct_store 3)
       = (s', r)
     \<and> clear_journal bcs_format (s'\<lparr>write_budget := 2 ^ 32\<rparr>) = (s'', Inr ())
     \<and> (user_content (store_content s'') = apply_batch demo_batch (user_content (bt_get demo_store))
        \<or> user_content (store_content s'') = user_content (bt_get demo_store))"
proof -
  obtain s' r where run:
    "journaling_write_batch demo_limits bcs_format demo_find_keys demo_batch (demo_direct_store 3) = (s', r)"
    by fastforce
  have "0 < max_batch_size demo_limits" by (simp add: demo_limits_def)
  from journaling_write_atomic [OF bcs_codec_ok demo_journal_facts _ this order_refl run]
  show ?thesis
    using run by (auto simp: demo_journal_length) (auto simp: demo_direct_store_def)
qed

theorem journaling_write_completes_witness:
  "\<exists>s'. journaling_write_batch demo_limits bcs_format demo_find_keys demo_batch (demo_direct_store 10)
       = (s', Inr ())
     \<and> store_content s' (header_key bcs_format) = None
     \<and> user_content (store_content s') = apply_batch demo_batch (user_content (bt_get demo_store))"
proof -
  have "0 < max_batch_size demo_limits" by (simp add: demo_limits_def)
  moreover have "unordered_len ub < 2 ^ 32 \<and> 2 * unordered_len ub + 2 \<le> write_budget (demo_direct_store 10)"
    if "unordered_from_batch (\<lambda>p. Inr (demo_find_keys (store_content (demo_direct_store 10)) p)
      :: (journal_error, bytes list) res) demo_batch = Inr ub" for ub
    using demo_journal_length [OF that] by (simp add: demo_direct_store_def)
  ultimately show ?thesis
    using journaling_write_completes [where find_keys = demo_find_keys and s = "demo_direct_store 10",
        OF bcs_codec_ok bcs_codec_sizes demo_journal_facts(1,2) demo_journal_facts(3), of demo_limits]
    by (simp add: demo_direct_store_def)
qed

end
