(* ===== verification/Queue_View.thy ===== *)
theory Queue_View
  imports Write_Batch
begin

section \<open>Queues kept in a key-value store (linera-views)\<close>

text \<open>
  \<open>linera-views/src/views/queue_view.rs\<close>: a FIFO queue whose front is in the store and whose back is
  staged in memory until \<open>flush\<close>. The content of the store is an argument of the operations that read
  it, \<open>flush\<close> appends to a batch, and the BCS encodings are an argument. Positions (\<open>usize\<close>) are
  natural numbers.

  \<open>persistent_queue\<close> is the contract of a queue view: the operations act on one list, whatever of
  it is staged, and the list survives \<open>flush\<close>, the write of the batch and \<open>load\<close>.
\<close>

subsection \<open>Contexts and encodings\<close>

text \<open>The errors of the views, and \<open>Panicked\<close> for a failed \<open>unwrap\<close>, an index out of range or
  \<open>unreachable!\<close>.\<close>

datatype view_error = View_BcsError | MissingEntries | PostLoadValuesError | View_StoreError | Panicked

text \<open>The encodings a view of values \<open>'v\<close> uses for its values, its bookkeeping \<open>'s\<close> and its
  positions.\<close>

record ('v, 's) view_codec =
  value_to :: "'v \<Rightarrow> bytes"
  value_from :: "bytes \<Rightarrow> (view_error, 'v) res"
  state_to :: "'s \<Rightarrow> bytes"
  state_from :: "bytes \<Rightarrow> (view_error, 's) res"
  index_to :: "nat \<Rightarrow> bytes"

definition view_codec_ok :: "('v, 's) view_codec \<Rightarrow> bool" where
  "view_codec_ok c \<longleftrightarrow> (\<forall>v. value_from c (value_to c v) = Inr v)
     \<and> (\<forall>s. state_from c (state_to c s) = Inr s) \<and> inj (index_to c)"

definition MIN_VIEW_TAG :: u8 where
  "MIN_VIEW_TAG = 1"

text \<open>\<open>Context::base_tag\<close>, \<open>base_tag_index\<close>, \<open>base_index\<close>, \<open>derive_tag_key\<close> and
  \<open>read_value\<close>.\<close>

definition base_tag :: "bytes \<Rightarrow> u8 \<Rightarrow> bytes" where
  "base_tag base_key tag = base_key @ [tag]"

definition base_tag_index :: "bytes \<Rightarrow> u8 \<Rightarrow> bytes \<Rightarrow> bytes" where
  "base_tag_index base_key tag index = base_key @ [tag] @ index"

definition base_index :: "bytes \<Rightarrow> bytes \<Rightarrow> bytes" where
  "base_index base_key index = base_key @ index"

definition derive_tag_key :: "('v, 's) view_codec \<Rightarrow> bytes \<Rightarrow> u8 \<Rightarrow> nat \<Rightarrow> bytes" where
  "derive_tag_key c base_key tag index = base_key @ [tag] @ index_to c index"

fun from_bytes_option :: "(bytes \<Rightarrow> ('e, 'a) res) \<Rightarrow> bytes option \<Rightarrow> ('e, 'a option) res" where
  "from_bytes_option from None = Inr None"
| "from_bytes_option from (Some bytes) = and_then (from bytes) (\<lambda>x. Inr (Some x))"

fun from_bytes_option_or_default :: "(bytes \<Rightarrow> ('e, 'a) res) \<Rightarrow> 'a \<Rightarrow> bytes option \<Rightarrow> ('e, 'a) res" where
  "from_bytes_option_or_default from dflt None = Inr dflt"
| "from_bytes_option_or_default from dflt (Some bytes) = from bytes"

definition read_value ::
  "('v, 's) view_codec \<Rightarrow> key_values \<Rightarrow> bytes \<Rightarrow> (view_error, 'v option) res" where
  "read_value c store key = from_bytes_option (value_from c) (store key)"

subsection \<open>The queue view\<close>

datatype queue_key_tag = Queue_Store | Queue_Index

fun queue_key_tag_byte :: "queue_key_tag \<Rightarrow> u8" where
  "queue_key_tag_byte Queue_Store = MIN_VIEW_TAG"
| "queue_key_tag_byte Queue_Index = MIN_VIEW_TAG + 1"

record 'v queue_view =
  queue_base_key :: bytes
  stored_indices :: "nat \<times> nat"
  front_delete_count :: nat
  queue_delete_storage_first :: bool
  new_back_values :: "'v list"

type_synonym 'v queue_codec = "('v, nat \<times> nat) view_codec"

definition queue_pre_load :: "bytes \<Rightarrow> bytes list" where
  "queue_pre_load base_key = [base_tag base_key (queue_key_tag_byte Queue_Store)]"

definition queue_post_load ::
  "'v queue_codec \<Rightarrow> bytes \<Rightarrow> bytes option list \<Rightarrow> (view_error, 'v queue_view) res" where
  "queue_post_load c base_key vals =
     and_then (ok_or (first_opt vals) PostLoadValuesError) (\<lambda>val.
       and_then (from_bytes_option_or_default (state_from c) (0, 0) val) (\<lambda>indices.
         Inr \<lparr>queue_base_key = base_key, stored_indices = indices, front_delete_count = 0,
           queue_delete_storage_first = False, new_back_values = []\<rparr>))"

definition queue_load ::
  "'v queue_codec \<Rightarrow> bytes \<Rightarrow> key_values \<Rightarrow> (view_error, 'v queue_view) res" where
  "queue_load c base_key store = queue_post_load c base_key (map store (queue_pre_load base_key))"

definition queue_rollback :: "'v queue_view \<Rightarrow> 'v queue_view" where
  "queue_rollback self =
     self\<lparr>queue_delete_storage_first := False, front_delete_count := 0, new_back_values := []\<rparr>"

definition queue_has_pending_changes :: "'v queue_view \<Rightarrow> bool" where
  "queue_has_pending_changes self \<longleftrightarrow>
     queue_delete_storage_first self \<or> 0 < front_delete_count self \<or> new_back_values self \<noteq> []"

definition range_len :: "nat \<times> nat \<Rightarrow> nat" where
  "range_len r = snd r - fst r"

definition stored_count :: "'v queue_view \<Rightarrow> nat" where
  "stored_count self =
     (if queue_delete_storage_first self then 0
      else range_len (stored_indices self) - front_delete_count self)"

definition queue_index_key :: "'v queue_codec \<Rightarrow> 'v queue_view \<Rightarrow> nat \<Rightarrow> bytes" where
  "queue_index_key c self index =
     derive_tag_key c (queue_base_key self) (queue_key_tag_byte Queue_Index) index"

text \<open>The loop of \<open>flush\<close> over the new values, from position \<open>end\<close> on.\<close>

fun put_values ::
  "'v queue_codec \<Rightarrow> 'v queue_view \<Rightarrow> nat \<Rightarrow> 'v list \<Rightarrow> write_operation list" where
  "put_values c self e [] = []"
| "put_values c self e (val # vals) =
     Put (queue_index_key c self e) (value_to c val) # put_values c self (e + 1) vals"

definition queue_flush ::
  "'v queue_codec \<Rightarrow> 'v queue_view \<Rightarrow> batch \<Rightarrow> 'v queue_view \<times> batch \<times> bool" where
  "queue_flush c self b =
     (let ops1 = (if queue_delete_storage_first self then [DeletePrefix (queue_base_key self)] else []);
          delete_view = queue_delete_storage_first self;
          (s, e) = stored_indices self;
          (ops2, s, e) =
            (if stored_count self = 0
             then ([DeletePrefix (base_tag (queue_base_key self) (queue_key_tag_byte Queue_Index))], 0, 0)
             else if 0 < front_delete_count self
             then (map (\<lambda>index. Delete (queue_index_key c self index)) (take (front_delete_count self) [s..<e]),
                   s + front_delete_count self, e)
             else ([], s, e));
          delete_view = (if new_back_values self \<noteq> [] then False else delete_view);
          ops3 = put_values c self e (new_back_values self);
          e = e + length (new_back_values self);
          ops4 = (if \<not> queue_delete_storage_first self \<or> s < e
                  then [Put (base_tag (queue_base_key self) (queue_key_tag_byte Queue_Store)) (state_to c (s, e))]
                  else [])
      in (self\<lparr>stored_indices := (s, e), front_delete_count := 0, queue_delete_storage_first := False,
            new_back_values := []\<rparr>,
          b\<lparr>operations := operations b @ ops1 @ ops2 @ ops3 @ ops4\<rparr>,
          delete_view))"

definition queue_clear :: "'v queue_view \<Rightarrow> 'v queue_view" where
  "queue_clear self = self\<lparr>queue_delete_storage_first := True, new_back_values := []\<rparr>"

definition queue_get ::
  "'v queue_codec \<Rightarrow> key_values \<Rightarrow> 'v queue_view \<Rightarrow> nat \<Rightarrow> (view_error, 'v option) res" where
  "queue_get c store self index = read_value c store (queue_index_key c self index)"

definition queue_front ::
  "'v queue_codec \<Rightarrow> key_values \<Rightarrow> 'v queue_view \<Rightarrow> (view_error, 'v option) res" where
  "queue_front c store self =
     (let stored_remainder = stored_count self
      in if 0 < stored_remainder then queue_get c store self (snd (stored_indices self) - stored_remainder)
         else Inr (first_opt (new_back_values self)))"

definition queue_back ::
  "'v queue_codec \<Rightarrow> key_values \<Rightarrow> 'v queue_view \<Rightarrow> (view_error, 'v option) res" where
  "queue_back c store self =
     (case last_opt (new_back_values self) of
        Some val \<Rightarrow> Inr (Some val)
      | None \<Rightarrow>
          if 0 < stored_count self then queue_get c store self (snd (stored_indices self) - 1)
          else Inr None)"

definition queue_delete_front :: "'v queue_view \<Rightarrow> 'v queue_view" where
  "queue_delete_front self =
     (if 0 < stored_count self then self\<lparr>front_delete_count := front_delete_count self + 1\<rparr>
      else self\<lparr>new_back_values := tl (new_back_values self)\<rparr>)"

definition queue_push_back :: "'v queue_view \<Rightarrow> 'v \<Rightarrow> 'v queue_view" where
  "queue_push_back self val = self\<lparr>new_back_values := new_back_values self @ [val]\<rparr>"

definition queue_count :: "'v queue_view \<Rightarrow> nat" where
  "queue_count self = stored_count self + length (new_back_values self)"

fun collect_entries :: "(view_error, 'v option) res list \<Rightarrow> (view_error, 'v list) res" where
  "collect_entries [] = Inr []"
| "collect_entries (r # rs) =
     and_then r (\<lambda>entry.
       case entry of
         None \<Rightarrow> Inl MissingEntries
       | Some val \<Rightarrow> and_then (collect_entries rs) (\<lambda>vals. Inr (val # vals)))"

definition queue_read_context ::
  "'v queue_codec \<Rightarrow> key_values \<Rightarrow> 'v queue_view \<Rightarrow> nat \<Rightarrow> nat \<Rightarrow> (view_error, 'v list) res" where
  "queue_read_context c store self s e = collect_entries (map (queue_get c store self) [s..<e])"

definition queue_read_front ::
  "'v queue_codec \<Rightarrow> key_values \<Rightarrow> 'v queue_view \<Rightarrow> nat \<Rightarrow> (view_error, 'v list) res" where
  "queue_read_front c store self cnt =
     (let cnt = (if queue_count self < cnt then queue_count self else cnt)
      in if cnt = 0 then Inr []
         else if \<not> queue_delete_storage_first self
         then let stored_remainder = stored_count self;
                  s = snd (stored_indices self) - stored_remainder
              in if cnt \<le> stored_remainder then queue_read_context c store self s (s + cnt)
                 else and_then (queue_read_context c store self s (snd (stored_indices self)))
                        (\<lambda>vals. Inr (vals @ take (cnt - stored_remainder) (new_back_values self)))
         else Inr (take cnt (new_back_values self)))"

definition queue_read_back ::
  "'v queue_codec \<Rightarrow> key_values \<Rightarrow> 'v queue_view \<Rightarrow> nat \<Rightarrow> (view_error, 'v list) res" where
  "queue_read_back c store self cnt =
     (let cnt = (if queue_count self < cnt then queue_count self else cnt);
          new_back_len = length (new_back_values self)
      in if cnt = 0 then Inr []
         else if cnt \<le> new_back_len \<or> queue_delete_storage_first self
         then Inr (drop (new_back_len - cnt) (new_back_values self))
         else let s = snd (stored_indices self) + new_back_len - cnt
              in and_then (queue_read_context c store self s (snd (stored_indices self)))
                   (\<lambda>vals. Inr (vals @ new_back_values self)))"

definition queue_elements ::
  "'v queue_codec \<Rightarrow> key_values \<Rightarrow> 'v queue_view \<Rightarrow> (view_error, 'v list) res" where
  "queue_elements c store self = queue_read_front c store self (queue_count self)"

text \<open>\<open>rotate_right(shift)\<close> moves the last \<open>shift\<close> elements to the front.\<close>

definition rotate_right :: "nat \<Rightarrow> 'a list \<Rightarrow> 'a list" where
  "rotate_right shift xs = drop (length xs - shift) xs @ take (length xs - shift) xs"

definition queue_load_all ::
  "'v queue_codec \<Rightarrow> key_values \<Rightarrow> 'v queue_view \<Rightarrow> (view_error, 'v queue_view) res" where
  "queue_load_all c store self =
     (if \<not> queue_delete_storage_first self
      then let stored_remainder = stored_count self;
               e = snd (stored_indices self);
               s = e - stored_remainder
           in and_then (queue_read_context c store self s e) (\<lambda>elements.
                Inr (self\<lparr>new_back_values := rotate_right (e - s) (new_back_values self @ elements),
                  queue_delete_storage_first := True\<rparr>))
      else Inr self)"

subsection \<open>Runs of a queue view\<close>

text \<open>What the user of a queue does: the operations on the view, writing its changes to the store,
  dropping them, and loading the view again. On the abstract side a queue is the list saved in the
  store and the current list.\<close>

datatype 'v queue_action = Push 'v | Pop | Clear | Save | Rollback | Reload

fun list_action :: "'v queue_action \<Rightarrow> 'v list \<times> 'v list \<Rightarrow> 'v list \<times> 'v list" where
  "list_action (Push v) (saved, cur) = (saved, cur @ [v])"
| "list_action Pop (saved, cur) = (saved, tl cur)"
| "list_action Clear (saved, cur) = (saved, [])"
| "list_action Save (saved, cur) = (cur, cur)"
| "list_action Rollback (saved, cur) = (saved, saved)"
| "list_action Reload (saved, cur) = (saved, saved)"

definition list_run :: "'v queue_action list \<Rightarrow> 'v list \<times> 'v list \<Rightarrow> 'v list \<times> 'v list" where
  "list_run acts st = foldl (\<lambda>st a. list_action a st) st acts"

record ('q, 'v) queue_impl =
  impl_delete_front :: "key_values \<Rightarrow> 'q \<Rightarrow> (view_error, 'q) res"
  impl_push_back :: "'q \<Rightarrow> 'v \<Rightarrow> 'q"
  impl_clear :: "'q \<Rightarrow> 'q"
  impl_rollback :: "'q \<Rightarrow> 'q"
  impl_flush :: "'q \<Rightarrow> batch \<Rightarrow> (view_error, 'q \<times> batch \<times> bool) res"
  impl_load :: "key_values \<Rightarrow> (view_error, 'q) res"

fun impl_action ::
  "('q, 'v) queue_impl \<Rightarrow> 'v queue_action \<Rightarrow> key_values \<times> 'q \<Rightarrow> (view_error, key_values \<times> 'q) res" where
  "impl_action I (Push v) (s, q) = Inr (s, impl_push_back I q v)"
| "impl_action I Pop (s, q) = and_then (impl_delete_front I s q) (\<lambda>q. Inr (s, q))"
| "impl_action I Clear (s, q) = Inr (s, impl_clear I q)"
| "impl_action I Save (s, q) =
     and_then (impl_flush I q batch_new) (\<lambda>(q, b, _). Inr (apply_batch b s, q))"
| "impl_action I Rollback (s, q) = Inr (s, impl_rollback I q)"
| "impl_action I Reload (s, q) = and_then (impl_load I s) (\<lambda>q. Inr (s, q))"

fun impl_run ::
  "('q, 'v) queue_impl \<Rightarrow> 'v queue_action list \<Rightarrow> key_values \<times> 'q \<Rightarrow> (view_error, key_values \<times> 'q) res" where
  "impl_run I [] st = Inr st"
| "impl_run I (a # acts) st = and_then (impl_action I a st) (impl_run I acts)"

subsection \<open>The contract of a persistent queue\<close>

locale persistent_queue =
  fixes invar :: "key_values \<Rightarrow> 'q \<Rightarrow> bool"
    and contents :: "key_values \<Rightarrow> 'q \<Rightarrow> 'v list"
    and front :: "key_values \<Rightarrow> 'q \<Rightarrow> (view_error, 'v option) res"
    and delete_front :: "key_values \<Rightarrow> 'q \<Rightarrow> (view_error, 'q) res"
    and push_back :: "'q \<Rightarrow> 'v \<Rightarrow> 'q"
    and count :: "'q \<Rightarrow> nat"
    and elements :: "key_values \<Rightarrow> 'q \<Rightarrow> (view_error, 'v list) res"
    and clear :: "'q \<Rightarrow> 'q"
    and rollback :: "'q \<Rightarrow> 'q"
    and flush :: "'q \<Rightarrow> batch \<Rightarrow> (view_error, 'q \<times> batch \<times> bool) res"
    and load :: "key_values \<Rightarrow> (view_error, 'q) res"
  assumes front_contents: "invar s q \<Longrightarrow> front s q = Inr (first_opt (contents s q))"
    and delete_front_contents:
      "invar s q \<Longrightarrow> \<exists>q'. delete_front s q = Inr q' \<and> invar s q' \<and> contents s q' = tl (contents s q)"
    and push_back_contents:
      "invar s q \<Longrightarrow> invar s (push_back q v) \<and> contents s (push_back q v) = contents s q @ [v]"
    and count_contents: "invar s q \<Longrightarrow> count q = length (contents s q)"
    and elements_contents: "invar s q \<Longrightarrow> elements s q = Inr (contents s q)"
    and clear_contents: "invar s q \<Longrightarrow> invar s (clear q) \<and> contents s (clear q) = []"
    and rollback_contents: "invar s q \<Longrightarrow> invar s (rollback q)
      \<and> (\<exists>q0. load s = Inr q0 \<and> invar s q0 \<and> contents s (rollback q) = contents s q0)"
    and flush_contents: "invar s q
      \<Longrightarrow> \<exists>q' b' d ops. flush q b = Inr (q', b', d) \<and> operations b' = operations b @ ops
          \<and> invar (apply_operations ops s) q'
          \<and> contents (apply_operations ops s) q' = contents s q
          \<and> (\<exists>q0. load (apply_operations ops s) = Inr q0 \<and> invar (apply_operations ops s) q0
               \<and> contents (apply_operations ops s) q0 = contents s q)"
begin

text \<open>The loop \<open>while let Some(x) = queue.front()? \{ if !p(x) break; queue.delete_front() \}\<close> of the
  users of a queue, for at most \<open>n\<close> turns; the elements it removes are returned in order.\<close>

primrec drain :: "nat \<Rightarrow> ('v \<Rightarrow> bool) \<Rightarrow> key_values \<Rightarrow> 'q \<Rightarrow> (view_error, 'q \<times> 'v list) res" where
  "drain 0 p s q = Inr (q, [])"
| "drain (Suc n) p s q =
     and_then (front s q) (\<lambda>x.
       case x of
         None \<Rightarrow> Inr (q, [])
       | Some v \<Rightarrow>
           if \<not> p v then Inr (q, [])
           else and_then (delete_front s q) (\<lambda>q'.
                  and_then (drain n p s q') (\<lambda>(q'', vs). Inr (q'', v # vs))))"

lemma drain_contents:
  assumes "invar s q" and "length (contents s q) \<le> n"
  shows "\<exists>q'. drain n p s q = Inr (q', takeWhile p (contents s q)) \<and> invar s q'
    \<and> contents s q' = dropWhile p (contents s q)"
  using assms
proof (induction n arbitrary: q)
  case 0
  then show ?case by simp
next
  case (Suc n)
  show ?case
  proof (cases "contents s q")
    case Nil
    with Suc.prems(1) show ?thesis by (simp add: front_contents)
  next
    case (Cons v vs)
    from delete_front_contents [OF Suc.prems(1)] obtain q' where
      q': "delete_front s q = Inr q'" "invar s q'" "contents s q' = vs"
      using Cons by auto
    from Suc.IH [OF q'(2)] Suc.prems(2) q' Cons Suc.prems(1) show ?thesis
      by (cases "p v") (auto simp: front_contents)
  qed
qed

lemma push_all_contents:
  "invar s q \<Longrightarrow> invar s (foldl push_back q vs) \<and> contents s (foldl push_back q vs) = contents s q @ vs"
  by (induction vs arbitrary: q) (auto simp: push_back_contents)

text \<open>A run of the view follows the run of the lists.\<close>

definition impl :: "('q, 'v) queue_impl" where
  "impl = \<lparr>impl_delete_front = delete_front, impl_push_back = push_back, impl_clear = clear,
     impl_rollback = rollback, impl_flush = flush, impl_load = load\<rparr>"

definition related :: "'v list \<times> 'v list \<Rightarrow> key_values \<times> 'q \<Rightarrow> bool" where
  "related st sq \<longleftrightarrow> invar (fst sq) (snd sq) \<and> contents (fst sq) (snd sq) = snd st
     \<and> (\<exists>q0. load (fst sq) = Inr q0 \<and> invar (fst sq) q0 \<and> contents (fst sq) q0 = fst st)"

lemma related_action:
  assumes "related st sq"
  shows "\<exists>sq'. impl_action impl a sq = Inr sq' \<and> related (list_action a st) sq'"
proof -
  obtain saved cur s q where [simp]: "st = (saved, cur)" "sq = (s, q)" by fastforce
  from assms have inv: "invar s q" "contents s q = cur"
    and saved: "\<exists>q0. load s = Inr q0 \<and> invar s q0 \<and> contents s q0 = saved"
    by (simp_all add: related_def)
  show ?thesis
  proof (cases a)
    case (Push v)
    with inv saved push_back_contents [OF inv(1), of v] show ?thesis by (simp add: related_def impl_def)
  next
    case Pop
    with inv saved delete_front_contents [OF inv(1)] show ?thesis by (auto simp: related_def impl_def)
  next
    case Clear
    with inv saved clear_contents [OF inv(1)] show ?thesis by (simp add: related_def impl_def)
  next
    case Rollback
    with saved rollback_contents [OF inv(1)] show ?thesis by (auto simp: related_def impl_def)
  next
    case Reload
    with saved show ?thesis by (auto simp: related_def impl_def)
  next
    case Save
    with flush_contents [OF inv(1), of batch_new] inv(2) show ?thesis
      by (auto simp: related_def impl_def apply_batch_def batch_new_def)
  qed
qed

lemma related_run: "related st sq \<Longrightarrow> \<exists>sq'. impl_run impl acts sq = Inr sq' \<and> related (list_run acts st) sq'"
proof (induction acts arbitrary: st sq)
  case Nil
  then show ?case by (simp add: list_run_def)
next
  case (Cons a acts)
  from related_action [OF Cons.prems, of a] obtain sq' where
    "impl_action impl a sq = Inr sq'" "related (list_action a st) sq'"
    by blast
  with Cons.IH show ?case by (simp add: list_run_def)
qed

lemma run_refines:
  assumes "load s = Inr q" and "invar s q"
  shows "\<exists>s' q'. impl_run impl acts (s, q) = Inr (s', q')
    \<and> (let cur = snd (list_run acts (contents s q, contents s q))
       in elements s' q' = Inr cur \<and> front s' q' = Inr (first_opt cur) \<and> count q' = length cur)"
proof -
  have "related (contents s q, contents s q) (s, q)" using assms by (simp add: related_def)
  from related_run [OF this, of acts] obtain s' q' where
    "impl_run impl acts (s, q) = Inr (s', q')"
    "related (list_run acts (contents s q, contents s q)) (s', q')"
    by auto
  then show ?thesis
    by (auto simp: related_def Let_def elements_contents front_contents count_contents)
qed

end

subsection \<open>The queue view satisfies it\<close>

definition stored_value :: "'v queue_codec \<Rightarrow> key_values \<Rightarrow> 'v queue_view \<Rightarrow> nat \<Rightarrow> 'v" where
  "stored_value c store q i = projr (value_from c (the (store (queue_index_key c q i))))"

definition queue_contents :: "'v queue_codec \<Rightarrow> key_values \<Rightarrow> 'v queue_view \<Rightarrow> 'v list" where
  "queue_contents c store q =
     map (stored_value c store q) [snd (stored_indices q) - stored_count q..<snd (stored_indices q)]
     @ new_back_values q"

definition queue_inv :: "'v queue_codec \<Rightarrow> bytes \<Rightarrow> key_values \<Rightarrow> 'v queue_view \<Rightarrow> bool" where
  "queue_inv c base_key store q \<longleftrightarrow>
     view_codec_ok c \<and> queue_base_key q = base_key
     \<and> fst (stored_indices q) \<le> snd (stored_indices q)
     \<and> front_delete_count q \<le> range_len (stored_indices q)
     \<and> (\<forall>i. fst (stored_indices q) \<le> i \<and> i < snd (stored_indices q)
          \<longrightarrow> (\<exists>v. store (queue_index_key c q i) = Some (value_to c v)))
     \<and> from_bytes_option_or_default (state_from c) (0, 0)
          (store (base_tag base_key (queue_key_tag_byte Queue_Store))) = Inr (stored_indices q)"

lemma queue_get_stored:
  assumes "queue_inv c base s q" and "fst (stored_indices q) \<le> i" and "i < snd (stored_indices q)"
  shows "queue_get c s q i = Inr (Some (stored_value c s q i))"
proof -
  from assms obtain v where "s (queue_index_key c q i) = Some (value_to c v)"
    by (auto simp: queue_inv_def)
  with assms(1) show ?thesis
    by (simp add: queue_get_def read_value_def stored_value_def queue_inv_def view_codec_ok_def)
qed

lemma queue_read_context_stored:
  assumes "queue_inv c base s q" and "fst (stored_indices q) \<le> a" and "b \<le> snd (stored_indices q)"
  shows "queue_read_context c s q a b = Inr (map (stored_value c s q) [a..<b])"
proof -
  have "collect_entries (map (queue_get c s q) is) = Inr (map (stored_value c s q) is)"
    if "\<forall>i \<in> set is. fst (stored_indices q) \<le> i \<and> i < snd (stored_indices q)" for "is"
    using that by (induction "is") (simp_all add: queue_get_stored [OF assms(1)])
  with assms(2,3) show ?thesis by (simp add: queue_read_context_def)
qed

lemma stored_count_le: "stored_count q \<le> range_len (stored_indices q)"
  by (simp add: stored_count_def)

lemma queue_front_contents:
  assumes "queue_inv c base s q"
  shows "queue_front c s q = Inr (first_opt (queue_contents c s q))"
proof (cases "stored_count q")
  case 0
  then show ?thesis by (simp add: queue_front_def queue_contents_def)
next
  case (Suc n)
  let ?e = "snd (stored_indices q)"
  have "stored_count q \<le> ?e - fst (stored_indices q)" "fst (stored_indices q) \<le> ?e"
    using stored_count_le [of q] assms by (auto simp: range_len_def queue_inv_def)
  with Suc have "fst (stored_indices q) \<le> ?e - stored_count q" "?e - stored_count q < ?e" by auto
  then show ?thesis
    using queue_get_stored [OF assms, of "?e - stored_count q"] Suc
    by (simp add: queue_front_def queue_contents_def upt_conv_Cons Let_def)
qed

lemma queue_inv_fields:
  assumes "queue_inv c base s q"
  shows "fst (stored_indices q) \<le> snd (stored_indices q) - stored_count q"
    and "stored_count q \<le> snd (stored_indices q)"
  using assms stored_count_le [of q] by (auto simp: queue_inv_def range_len_def)

lemma queue_inv_cong:
  assumes "queue_inv c base s q" and "queue_base_key q' = queue_base_key q"
    and "stored_indices q' = stored_indices q" and "front_delete_count q' \<le> range_len (stored_indices q)"
  shows "queue_inv c base s q'"
  using assms by (auto simp: queue_inv_def queue_index_key_def)

lemma stored_value_cong:
  "queue_base_key q' = queue_base_key q \<Longrightarrow> stored_value c s q' = stored_value c s q"
  by (simp add: stored_value_def queue_index_key_def fun_eq_iff)

lemma queue_delete_front_contents:
  assumes "queue_inv c base s q"
  shows "queue_inv c base s (queue_delete_front q)
    \<and> queue_contents c s (queue_delete_front q) = tl (queue_contents c s q)"
proof (cases "stored_count q")
  case 0
  then show ?thesis
    using assms queue_inv_cong [OF assms, of "queue_delete_front q"]
    by (auto simp: queue_delete_front_def queue_contents_def stored_count_def queue_inv_def split: if_splits)
next
  case (Suc n)
  let ?q = "queue_delete_front q" and ?e = "snd (stored_indices q)"
  from Suc have q: "\<not> queue_delete_storage_first q" "?q = q\<lparr>front_delete_count := front_delete_count q + 1\<rparr>"
    by (auto simp: queue_delete_front_def stored_count_def split: if_splits)
  with Suc have count: "stored_count ?q = n" "Suc (front_delete_count q) \<le> range_len (stored_indices q)"
    by (simp_all add: stored_count_def)
  have "[?e - Suc n..<?e] = (?e - Suc n) # [?e - n..<?e]"
    using queue_inv_fields(2) [OF assms] Suc
    by (simp add: upt_conv_Cons Suc_diff_Suc)
  with Suc q count queue_inv_cong [OF assms, of ?q] stored_value_cong [of ?q q c s] show ?thesis
    by (simp add: queue_contents_def)
qed

lemma queue_read_front_contents:
  assumes "queue_inv c base s q"
  shows "queue_read_front c s q n = Inr (take n (queue_contents c s q))"
proof -
  let ?e = "snd (stored_indices q)" and ?k = "stored_count q"
  let ?n = "if queue_count q < n then queue_count q else n"
  note fields = queue_inv_fields [OF assms]
  have len: "length (queue_contents c s q) = queue_count q"
    using fields by (simp add: queue_contents_def queue_count_def)
  then have take: "take n (queue_contents c s q) = take ?n (queue_contents c s q)" by simp
  have stored: "queue_read_context c s q (?e - ?k) j = Inr (map (stored_value c s q) [?e - ?k..<j])"
    if "j \<le> ?e" for j
    using queue_read_context_stored [OF assms fields(1) that] .
  have "take ?n (queue_contents c s q) =
      (if ?n \<le> ?k then map (stored_value c s q) [?e - ?k..<?e - ?k + ?n]
       else map (stored_value c s q) [?e - ?k..<?e] @ take (?n - ?k) (new_back_values q))"
    using fields(2) by (simp add: queue_contents_def take_map)
  moreover have "queue_delete_storage_first q \<Longrightarrow> ?k = 0" by (simp add: stored_count_def)
  ultimately show ?thesis
    unfolding take using stored fields(2) by (auto simp: queue_read_front_def Let_def)
qed

lemma queue_elements_contents:
  assumes "queue_inv c base s q"
  shows "queue_elements c s q = Inr (queue_contents c s q)"
proof -
  have "length (queue_contents c s q) = queue_count q"
    using queue_inv_fields [OF assms] by (simp add: queue_contents_def queue_count_def)
  then show ?thesis by (simp add: queue_elements_def queue_read_front_contents [OF assms])
qed

lemma queue_load_inv:
  assumes "queue_inv c base s q"
  shows "queue_load c base s = Inr (q\<lparr>front_delete_count := 0, queue_delete_storage_first := False,
    new_back_values := []\<rparr>)"
  using assms
  by (simp add: queue_load_def queue_pre_load_def queue_post_load_def queue_inv_def)

lemma queue_index_key_inj:
  "view_codec_ok c \<Longrightarrow> queue_index_key c q i = queue_index_key c q j \<longleftrightarrow> i = j"
  by (auto simp: queue_index_key_def derive_tag_key_def view_codec_ok_def inj_eq)

lemma queue_keys:
  "prefix (queue_base_key q) (queue_index_key c q i)"
  "prefix (base_tag (queue_base_key q) (queue_key_tag_byte Queue_Index)) (queue_index_key c q i)"
  "\<not> prefix (base_tag (queue_base_key q) (queue_key_tag_byte Queue_Index))
     (base_tag (queue_base_key q) (queue_key_tag_byte Queue_Store))"
  "queue_index_key c q i \<noteq> base_tag (queue_base_key q) (queue_key_tag_byte Queue_Store)"
  "prefix (queue_base_key q) (base_tag (queue_base_key q) (queue_key_tag_byte Queue_Store))"
  by (auto simp: queue_index_key_def derive_tag_key_def base_tag_def MIN_VIEW_TAG_def)

lemma apply_operations_Cons [simp]:
  "apply_operations (op # ops) m = apply_operations ops (apply_operation m op)"
  by (simp add: apply_operations_def)

lemma put_values_at:
  assumes "view_codec_ok c"
  shows "apply_operations (put_values c q e vs) m (queue_index_key c q i) =
    (if e \<le> i \<and> i < e + length vs then Some (value_to c (vs ! (i - e))) else m (queue_index_key c q i))"
proof (induction vs arbitrary: e m)
  case Nil
  then show ?case by auto
next
  case (Cons v vs)
  have step: "apply_operations (put_values c q e (v # vs)) m
      = apply_operations (put_values c q (Suc e) vs) (m(queue_index_key c q e \<mapsto> value_to c v))"
    by (simp add: apply_operations_def)
  show ?case
    unfolding step Cons.IH
    by (auto simp: queue_index_key_inj [OF assms] nth_Cons' Suc_diff_le)
qed

lemma put_values_other:
  "(\<And>i. k \<noteq> queue_index_key c q i) \<Longrightarrow> apply_operations (put_values c q e vs) m k = m k"
proof (induction vs arbitrary: e m)
  case Nil
  then show ?case by simp
next
  case (Cons v vs)
  then show ?case
    using Cons.IH [of "Suc e" "m(queue_index_key c q e \<mapsto> value_to c v)"] by (simp add: apply_operations_def)
qed

text \<open>What \<open>flush\<close> leaves in the store, when nothing of the stored part is left and otherwise.\<close>

definition flush_operations :: "'v queue_codec \<Rightarrow> 'v queue_view \<Rightarrow> write_operation list" where
  "flush_operations c q = operations (fst (snd (queue_flush c q batch_new)))"

definition flushed_view :: "'v queue_codec \<Rightarrow> 'v queue_view \<Rightarrow> 'v queue_view" where
  "flushed_view c q = fst (queue_flush c q batch_new)"

lemma queue_flush_split:
  "\<exists>d. queue_flush c q b = (flushed_view c q, b\<lparr>operations := operations b @ flush_operations c q\<rparr>, d)"
  by (cases "stored_indices q")
    (simp add: queue_flush_def flush_operations_def flushed_view_def batch_new_def Let_def)

lemma flush_empty:
  fixes s :: key_values
  assumes "view_codec_ok c" and "stored_count q = 0"
  defines "m \<equiv> apply_operations (flush_operations c q) s"
  shows "stored_indices (flushed_view c q) = (0, length (new_back_values q))"
    and "m (queue_index_key c q i) =
      (if i < length (new_back_values q) then Some (value_to c (new_back_values q ! i)) else None)"
    and "from_bytes_option_or_default (state_from c) (0, 0)
      (m (base_tag (queue_base_key q) (queue_key_tag_byte Queue_Store))) = Inr (0, length (new_back_values q))"
proof -
  let ?idx = "base_tag (queue_base_key q) (queue_key_tag_byte Queue_Index)"
  let ?store = "base_tag (queue_base_key q) (queue_key_tag_byte Queue_Store)"
  let ?n = "length (new_back_values q)"
  obtain a e where ae: "stored_indices q = (a, e)" by fastforce
  have ops: "flush_operations c q =
      (if queue_delete_storage_first q then [DeletePrefix (queue_base_key q)] else []) @ [DeletePrefix ?idx]
      @ put_values c q 0 (new_back_values q)
      @ (if \<not> queue_delete_storage_first q \<or> 0 < ?n then [Put ?store (state_to c (0, ?n))] else [])"
    using assms(2) by (simp add: flush_operations_def queue_flush_def batch_new_def ae Let_def)
  show "stored_indices (flushed_view c q) = (0, ?n)"
    using assms(2) by (simp add: flushed_view_def queue_flush_def batch_new_def ae Let_def)
  note keys = queue_keys [where q = q]
  show "m (queue_index_key c q i) = (if i < ?n then Some (value_to c (new_back_values q ! i)) else None)"
    using put_values_at [OF assms(1), of q 0 "new_back_values q" _ i] keys
    by (auto simp: m_def ops)
  have other: "apply_operations (put_values c q 0 (new_back_values q)) m' ?store = m' ?store" for m'
    by (rule put_values_other) (metis keys(4))
  show "from_bytes_option_or_default (state_from c) (0, 0) (m ?store) = Inr (0, ?n)"
    using assms(1) keys(3,5) by (auto simp: m_def ops other view_codec_ok_def)
qed

lemma flush_stored:
  fixes s :: key_values
  assumes "view_codec_ok c" and "0 < stored_count q" and "stored_indices q = (a, e)"
  defines "m \<equiv> apply_operations (flush_operations c q) s"
  shows "stored_indices (flushed_view c q) = (a + front_delete_count q, e + length (new_back_values q))"
    and "m (queue_index_key c q i) =
      (if e \<le> i \<and> i < e + length (new_back_values q) then Some (value_to c (new_back_values q ! (i - e)))
       else if a \<le> i \<and> i < a + front_delete_count q then None else s (queue_index_key c q i))"
    and "m (base_tag (queue_base_key q) (queue_key_tag_byte Queue_Store)) =
      Some (state_to c (a + front_delete_count q, e + length (new_back_values q)))"
proof -
  let ?store = "base_tag (queue_base_key q) (queue_key_tag_byte Queue_Store)"
  let ?n = "length (new_back_values q)" and ?d = "front_delete_count q"
  from assms(2,3) have d: "\<not> queue_delete_storage_first q" "?d < e - a"
    by (auto simp: stored_count_def range_len_def split: if_splits)
  have ops: "flush_operations c q =
      map (\<lambda>index. Delete (queue_index_key c q index)) (take ?d [a..<e])
      @ put_values c q e (new_back_values q) @ [Put ?store (state_to c (a + ?d, e + ?n))]"
    using assms(2) d by (simp add: flush_operations_def queue_flush_def batch_new_def assms(3) Let_def)
  show "stored_indices (flushed_view c q) = (a + ?d, e + ?n)"
    using assms(2) by (simp add: flushed_view_def queue_flush_def batch_new_def assms(3) Let_def)
  have dels: "apply_operations (map (\<lambda>index. Delete (queue_index_key c q index)) (take ?d [a..<e])) s
      (queue_index_key c q i) = (if a \<le> i \<and> i < a + ?d then None else s (queue_index_key c q i))"
    using d(2)
    by (subst apply_no_put) (auto simp: deletes_def queue_index_key_inj [OF assms(1)] image_iff)
  note keys = queue_keys [where q = q]
  show "m (queue_index_key c q i) =
      (if e \<le> i \<and> i < e + ?n then Some (value_to c (new_back_values q ! (i - e)))
       else if a \<le> i \<and> i < a + ?d then None else s (queue_index_key c q i))"
    using put_values_at [OF assms(1), of q e "new_back_values q" _ i] keys dels
    by (auto simp: m_def ops)
  show "m ?store = Some (state_to c (a + ?d, e + ?n))"
    by (simp add: m_def ops)
qed

lemma flushed_view_fields [simp]:
  "queue_base_key (flushed_view c q) = queue_base_key q" "front_delete_count (flushed_view c q) = 0"
  "\<not> queue_delete_storage_first (flushed_view c q)" "new_back_values (flushed_view c q) = []"
  by (cases "stored_indices q"; simp add: flushed_view_def queue_flush_def batch_new_def Let_def)+

lemma queue_flush_contents:
  assumes inv: "queue_inv c base s q"
  defines "m \<equiv> apply_operations (flush_operations c q) s"
  shows "queue_inv c base m (flushed_view c q)
    \<and> queue_contents c m (flushed_view c q) = queue_contents c s q"
proof -
  let ?q = "flushed_view c q" and ?new = "new_back_values q"
  have ok: "view_codec_ok c" and base: "queue_base_key q = base"
    using inv by (simp_all add: queue_inv_def)
  then have dec: "projr (value_from c (value_to c v)) = v" for v by (simp add: view_codec_ok_def)
  have key: "queue_index_key c ?q i = queue_index_key c q i" for i by (simp add: queue_index_key_def)
  show ?thesis
  proof (cases "stored_count q = 0")
    case True
    note empty = flush_empty(1) [OF ok True] flush_empty(2,3) [OF ok True, where s = s, folded m_def]
    have "queue_inv c base m ?q"
      using ok base empty(1,3) by (auto simp: queue_inv_def key empty(2) range_len_def)
    moreover have "map (stored_value c m ?q) [0..<length ?new] = ?new"
      by (rule nth_equalityI) (simp_all add: stored_value_def key empty(2) dec)
    ultimately show ?thesis
      using True empty(1) by (simp add: queue_contents_def stored_count_def range_len_def)
  next
    case False
    obtain a e where ae: "stored_indices q = (a, e)" by fastforce
    let ?d = "front_delete_count q"
    from False have pos: "0 < stored_count q" by simp
    note stored = flush_stored(1) [OF ok pos ae] flush_stored(2,3) [OF ok pos ae, where s = s, folded m_def]
    from False ae have d: "\<not> queue_delete_storage_first q" "?d < e - a" "stored_count q = e - a - ?d"
      by (auto simp: stored_count_def range_len_def split: if_splits)
    have old: "\<exists>v. s (queue_index_key c q i) = Some (value_to c v)" if "a \<le> i" "i < e" for i
      using inv that ae by (auto simp: queue_inv_def)
    have "\<exists>v. m (queue_index_key c q i) = Some (value_to c v)"
      if "a + ?d \<le> i" "i < e + length ?new" for i
      using that old [of i] by (auto simp: stored(2))
    then have "queue_inv c base m ?q"
      using ok base stored(1,3) d(2) by (simp add: queue_inv_def key range_len_def view_codec_ok_def)
    moreover have "map (stored_value c m ?q) [a + ?d..<e + length ?new]
        = map (stored_value c s q) [a + ?d..<e] @ ?new"
    proof -
      have "[a + ?d..<e + length ?new] = [a + ?d..<e] @ [e..<e + length ?new]"
        using d(2) by (intro upt_add_eq_append) simp
      moreover have "map (stored_value c m ?q) [a + ?d..<e] = map (stored_value c s q) [a + ?d..<e]"
        by (simp add: stored_value_def key stored(2))
      moreover have "map (stored_value c m ?q) [e..<e + length ?new] = ?new"
        by (rule nth_equalityI) (simp_all add: stored_value_def key stored(2) dec)
      ultimately show ?thesis by simp
    qed
    ultimately show ?thesis
      using d stored(1) ae by (simp add: queue_contents_def stored_count_def range_len_def)
  qed
qed

lemma queue_rollback_inv:
  assumes "queue_inv c base s q"
  shows "queue_inv c base s (queue_rollback q)" and "queue_load c base s = Inr (queue_rollback q)"
  using queue_load_inv [OF assms] queue_inv_cong [OF assms, of "queue_rollback q"]
  by (simp_all add: queue_rollback_def)

interpretation qv: persistent_queue "queue_inv c base" "queue_contents c" "queue_front c"
  "\<lambda>s q. Inr (queue_delete_front q)" queue_push_back queue_count "queue_elements c" queue_clear
  queue_rollback "\<lambda>q b. Inr (queue_flush c q b)" "queue_load c base"
  for c :: "'v queue_codec" and base
proof
  fix s :: key_values and q :: "'v queue_view" and v b
  assume inv: "queue_inv c base s q"
  show "queue_front c s q = Inr (first_opt (queue_contents c s q))"
    by (rule queue_front_contents [OF inv])
  show "\<exists>q'. Inr (queue_delete_front q) = Inr q' \<and> queue_inv c base s q'
      \<and> queue_contents c s q' = tl (queue_contents c s q)"
    using queue_delete_front_contents [OF inv] by simp
  show "queue_inv c base s (queue_push_back q v)
      \<and> queue_contents c s (queue_push_back q v) = queue_contents c s q @ [v]"
    using queue_inv_cong [OF inv, of "queue_push_back q v"] inv stored_value_cong [of "queue_push_back q v" q]
    by (simp add: queue_push_back_def queue_contents_def stored_count_def queue_inv_def)
  show "queue_count q = length (queue_contents c s q)"
    using queue_inv_fields [OF inv] by (simp add: queue_contents_def queue_count_def)
  show "queue_elements c s q = Inr (queue_contents c s q)"
    by (rule queue_elements_contents [OF inv])
  show "queue_inv c base s (queue_clear q) \<and> queue_contents c s (queue_clear q) = []"
    using queue_inv_cong [OF inv, of "queue_clear q"] inv
    by (simp add: queue_clear_def queue_contents_def stored_count_def queue_inv_def)
  show "queue_inv c base s (queue_rollback q)
      \<and> (\<exists>q0. queue_load c base s = Inr q0 \<and> queue_inv c base s q0
           \<and> queue_contents c s (queue_rollback q) = queue_contents c s q0)"
    using queue_rollback_inv [OF inv] by auto
  let ?m = "apply_operations (flush_operations c q) s"
  note flushed = queue_flush_contents [OF inv]
  have "queue_rollback (flushed_view c q) = flushed_view c q"
    by (simp add: queue_rollback_def)
  with queue_rollback_inv(2) [of c base ?m "flushed_view c q"] flushed
  have "queue_load c base ?m = Inr (flushed_view c q)" by simp
  with flushed queue_flush_split [of c q b]
  show "\<exists>q' b' d ops. Inr (queue_flush c q b) = Inr (q', b', d) \<and> operations b' = operations b @ ops
      \<and> queue_inv c base (apply_operations ops s) q'
      \<and> queue_contents c (apply_operations ops s) q' = queue_contents c s q
      \<and> (\<exists>q0. queue_load c base (apply_operations ops s) = Inr q0
           \<and> queue_inv c base (apply_operations ops s) q0
           \<and> queue_contents c (apply_operations ops s) q0 = queue_contents c s q)"
    by auto
qed

definition queue_view_impl :: "'v queue_codec \<Rightarrow> bytes \<Rightarrow> ('v queue_view, 'v) queue_impl" where
  "queue_view_impl c base_key =
     \<lparr>impl_delete_front = (\<lambda>_ q. Inr (queue_delete_front q)), impl_push_back = queue_push_back,
      impl_clear = queue_clear, impl_rollback = queue_rollback,
      impl_flush = (\<lambda>q b. Inr (queue_flush c q b)), impl_load = queue_load c base_key\<rparr>"

lemma queue_load_empty:
  assumes "view_codec_ok c"
  shows "\<exists>q. queue_load c base_key Map.empty = Inr q \<and> queue_inv c base_key Map.empty q
    \<and> queue_contents c Map.empty q = []"
  using assms
  by (simp add: queue_load_def queue_pre_load_def queue_post_load_def queue_inv_def queue_contents_def
      stored_count_def range_len_def)

text \<open>C22: A queue view implements a list. Starting from an empty store, after any sequence of pushes,
  removals, clears, saves to the store, rollbacks and reloads, the view's elements, front and size are
  those of the list obtained by the same actions, where a rollback or a reload returns to the list last
  saved.\<close>

theorem queue_view_refines_list:
  assumes "view_codec_ok c"
  shows "\<exists>q0 s q. queue_load c base_key Map.empty = Inr q0
    \<and> impl_run (queue_view_impl c base_key) acts (Map.empty, q0) = Inr (s, q)
    \<and> (let cur = snd (list_run acts ([], []))
       in queue_elements c s q = Inr cur \<and> queue_front c s q = Inr (first_opt cur)
          \<and> queue_count q = length cur)"
proof -
  obtain q0 where q0: "queue_load c base_key Map.empty = Inr q0" "queue_inv c base_key Map.empty q0"
    "queue_contents c Map.empty q0 = []"
    using queue_load_empty [OF assms] by blast
  from qv.run_refines [OF q0(1,2), of acts] q0(1,3) show ?thesis
    by (auto simp: qv.impl_def queue_view_impl_def)
qed

end
