(* ===== verification/Bucket_Queue_View.thy ===== *)
theory Bucket_Queue_View
  imports Queue_View
begin

section \<open>Queues kept in buckets (linera-views)\<close>

text \<open>
  \<open>linera-views/src/views/bucket_queue_view.rs\<close>: a FIFO queue whose stored part is cut into buckets of
  at most \<open>N\<close> values. The front bucket is loaded with the view, the others when they become the front.
  The operations that may load a bucket take the content of the store; panics are errors. The view
  satisfies the contract \<open>persistent_queue\<close>.
\<close>

datatype bucket_key_tag = Bucket_Front | Bucket_Store | Bucket_Index

fun bucket_key_tag_byte :: "bucket_key_tag \<Rightarrow> u8" where
  "bucket_key_tag_byte Bucket_Front = MIN_VIEW_TAG"
| "bucket_key_tag_byte Bucket_Store = MIN_VIEW_TAG + 1"
| "bucket_key_tag_byte Bucket_Index = MIN_VIEW_TAG + 2"

record bucket_indices =
  indices :: "(nat \<times> nat) list"
  indices_position :: nat

text \<open>The \<open>Cursor\<close>: the bucket of the front and the position in it.\<close>

type_synonym cursor = "(nat \<times> nat) option"

definition cursor_new :: "nat \<Rightarrow> nat \<Rightarrow> cursor" where
  "cursor_new number_bucket position = (if number_bucket = 0 then None else Some (0, position))"

definition is_incrementable :: "cursor \<Rightarrow> bool" where
  "is_incrementable self \<longleftrightarrow> self \<noteq> None"

datatype 'v bucket = Loaded "'v list" | NotLoaded nat

fun bucket_len :: "'v bucket \<Rightarrow> nat" where
  "bucket_len (Loaded data) = length data"
| "bucket_len (NotLoaded len) = len"

fun is_loaded :: "'v bucket \<Rightarrow> bool" where
  "is_loaded (Loaded data) = True"
| "is_loaded (NotLoaded len) = False"

definition bucket_stored_indices :: "(nat \<times> 'v bucket) list \<Rightarrow> nat \<Rightarrow> bucket_indices" where
  "bucket_stored_indices stored position =
     \<lparr>indices = map (\<lambda>(index, bucket). (bucket_len bucket, index)) stored, indices_position = position\<rparr>"

record 'v bucket_queue_view =
  bucket_base_key :: bytes
  stored_data :: "(nat \<times> 'v bucket) list"
  bucket_new_back_values :: "'v list"
  stored_position :: nat
  bucket_cursor :: cursor
  bucket_delete_storage_first :: bool

type_synonym 'v bucket_codec = "('v list, bucket_indices) view_codec"

definition bucket_default_indices :: bucket_indices where
  "bucket_default_indices = \<lparr>indices = [], indices_position = 0\<rparr>"

definition bucket_pre_load :: "bytes \<Rightarrow> bytes list" where
  "bucket_pre_load base_key =
     [base_tag base_key (bucket_key_tag_byte Bucket_Front), base_tag base_key (bucket_key_tag_byte Bucket_Store)]"

definition bucket_post_load ::
  "'v bucket_codec \<Rightarrow> bytes \<Rightarrow> bytes option list \<Rightarrow> (view_error, 'v bucket_queue_view) res" where
  "bucket_post_load c base_key vals =
     and_then (ok_or (first_opt vals) PostLoadValuesError) (\<lambda>value1.
     and_then (ok_or (first_opt (drop 1 vals)) PostLoadValuesError) (\<lambda>value2.
     and_then (from_bytes_option (value_from c) value1) (\<lambda>front.
     and_then (from_bytes_option_or_default (state_from c) bucket_default_indices value2) (\<lambda>stored.
       let front_data = (case front of Some data \<Rightarrow> [(0, Loaded data)] | None \<Rightarrow> []);
           stored_data = front_data @ map (\<lambda>(len, index). (index, NotLoaded len)) (drop 1 (indices stored))
       in Inr \<lparr>bucket_base_key = base_key, stored_data = stored_data, bucket_new_back_values = [],
            stored_position = indices_position stored,
            bucket_cursor = cursor_new (length (indices stored)) (indices_position stored),
            bucket_delete_storage_first = False\<rparr>))))"

definition bucket_load ::
  "'v bucket_codec \<Rightarrow> bytes \<Rightarrow> key_values \<Rightarrow> (view_error, 'v bucket_queue_view) res" where
  "bucket_load c base_key store = bucket_post_load c base_key (map store (bucket_pre_load base_key))"

definition bucket_rollback :: "'v bucket_queue_view \<Rightarrow> 'v bucket_queue_view" where
  "bucket_rollback self =
     self\<lparr>bucket_delete_storage_first := False,
       bucket_cursor := cursor_new (length (stored_data self)) (stored_position self),
       bucket_new_back_values := []\<rparr>"

definition bucket_has_pending_changes :: "'v bucket_queue_view \<Rightarrow> bool" where
  "bucket_has_pending_changes self \<longleftrightarrow>
     bucket_delete_storage_first self
     \<or> (stored_data self \<noteq> []
        \<and> (case bucket_cursor self of
             None \<Rightarrow> True
           | Some (i_block, position) \<Rightarrow> i_block \<noteq> 0 \<or> position \<noteq> stored_position self))
     \<or> bucket_new_back_values self \<noteq> []"

definition get_index_key :: "'v bucket_codec \<Rightarrow> bytes \<Rightarrow> nat \<Rightarrow> bytes" where
  "get_index_key c base_key index =
     (if index = 0 then base_tag base_key (bucket_key_tag_byte Bucket_Front)
      else derive_tag_key c base_key (bucket_key_tag_byte Bucket_Index) index)"

definition bucket_stored_count :: "'v bucket_queue_view \<Rightarrow> nat" where
  "bucket_stored_count self =
     (if bucket_delete_storage_first self then 0
      else case bucket_cursor self of
        None \<Rightarrow> 0
      | Some (i_block, position) \<Rightarrow>
          sum_list (map (bucket_len \<circ> snd) (drop i_block (stored_data self))) - position)"

definition bucket_count :: "'v bucket_queue_view \<Rightarrow> nat" where
  "bucket_count self = bucket_stored_count self + length (bucket_new_back_values self)"

text \<open>\<open>flush\<close>, in the order of the code: the deletions, moving the front bucket to the front key, the
  new buckets and the indices.\<close>

definition move_front_bucket ::
  "'v bucket_codec \<Rightarrow> bytes \<Rightarrow> (nat \<times> 'v bucket) list
     \<Rightarrow> (view_error, (nat \<times> 'v bucket) list \<times> write_operation list) res" where
  "move_front_bucket c base_key stored =
     (case stored of
        [] \<Rightarrow> Inl Panicked
      | (first_index, bucket) # rest \<Rightarrow>
          if first_index \<noteq> 0
          then (case bucket of
                  NotLoaded _ \<Rightarrow> Inl Panicked
                | Loaded data \<Rightarrow>
                    Inr ((0, bucket) # rest,
                      [Delete (get_index_key c base_key first_index),
                       Put (get_index_key c base_key 0) (value_to c data)]))
          else Inr (stored, []))"

definition flush_front ::
  "'v bucket_codec \<Rightarrow> 'v bucket_queue_view \<Rightarrow> (view_error, 'v bucket_queue_view \<times> write_operation list) res" where
  "flush_front c self =
     (if bucket_stored_count self = 0
      then Inr (self\<lparr>stored_data := [], stored_position := 0\<rparr>, [DeletePrefix (bucket_base_key self)])
      else case bucket_cursor self of
        None \<Rightarrow> Inr (self, [])
      | Some (i_block, position) \<Rightarrow>
          if length (stored_data self) < i_block then Inl Panicked
          else and_then (move_front_bucket c (bucket_base_key self) (drop i_block (stored_data self)))
                 (\<lambda>(stored, ops).
                   Inr (self\<lparr>stored_data := stored, bucket_cursor := Some (0, position),
                          stored_position := position\<rparr>,
                        map (\<lambda>(index, _). Delete (get_index_key c (bucket_base_key self) index))
                          (take i_block (stored_data self)) @ ops)))"

text \<open>\<open>chunks(N)\<close>, which panics for \<open>N = 0\<close>.\<close>

fun chunks_loop :: "nat \<Rightarrow> 'a list \<Rightarrow> 'a list list" where
  "chunks_loop n [] = []"
| "chunks_loop n (x # xs) = take (Suc n) (x # xs) # chunks_loop n (drop n xs)"

definition chunks :: "nat \<Rightarrow> 'a list \<Rightarrow> (view_error, 'a list list) res" where
  "chunks n xs = (if n = 0 then Inl Panicked else Inr (chunks_loop (n - 1) xs))"

definition unused_index :: "(nat \<times> 'v bucket) list \<Rightarrow> nat" where
  "unused_index stored = (case last_opt stored of Some (index, _) \<Rightarrow> index + 1 | None \<Rightarrow> 0)"

fun push_chunks ::
  "'v bucket_codec \<Rightarrow> bytes \<Rightarrow> nat \<Rightarrow> 'v list list \<Rightarrow> (nat \<times> 'v bucket) list \<times> write_operation list" where
  "push_chunks c base_key index [] = ([], [])"
| "push_chunks c base_key index (chunk # rest) =
     (let (stored, ops) = push_chunks c base_key (index + 1) rest
      in ((index, Loaded chunk) # stored, Put (get_index_key c base_key index) (value_to c chunk) # ops))"

definition flush_back ::
  "'v bucket_codec \<Rightarrow> nat \<Rightarrow> 'v bucket_queue_view \<Rightarrow> (view_error, 'v bucket_queue_view \<times> write_operation list) res" where
  "flush_back c N self =
     (if bucket_new_back_values self \<noteq> []
      then and_then (chunks N (bucket_new_back_values self)) (\<lambda>cs.
             let (stored, ops) = push_chunks c (bucket_base_key self) (unused_index (stored_data self)) cs
             in Inr (self\<lparr>stored_data := stored_data self @ stored, bucket_new_back_values := [],
                       bucket_cursor := (if \<not> is_incrementable (bucket_cursor self) then Some (0, 0)
                                         else bucket_cursor self)\<rparr>, ops))
      else Inr (self, []))"

definition bucket_flush ::
  "'v bucket_codec \<Rightarrow> nat \<Rightarrow> 'v bucket_queue_view \<Rightarrow> batch
     \<Rightarrow> (view_error, 'v bucket_queue_view \<times> batch \<times> bool) res" where
  "bucket_flush c N self b =
     (let ops1 = (if bucket_delete_storage_first self then [DeletePrefix (bucket_base_key self)] else []);
          delete_view = (bucket_delete_storage_first self \<and> bucket_new_back_values self = [])
      in and_then (flush_front c self) (\<lambda>(self, ops2).
         and_then (flush_back c N self) (\<lambda>(self, ops3).
           let ops4 = (if \<not> bucket_delete_storage_first self \<or> stored_data self \<noteq> []
                       then [Put (base_tag (bucket_base_key self) (bucket_key_tag_byte Bucket_Store))
                               (state_to c (bucket_stored_indices (stored_data self) (stored_position self)))]
                       else [])
           in Inr (self\<lparr>bucket_delete_storage_first := False\<rparr>,
                b\<lparr>operations := operations b @ ops1 @ ops2 @ ops3 @ ops4\<rparr>, delete_view))))"

definition bucket_clear :: "'v bucket_queue_view \<Rightarrow> 'v bucket_queue_view" where
  "bucket_clear self =
     self\<lparr>bucket_delete_storage_first := True, bucket_new_back_values := [], bucket_cursor := None\<rparr>"

definition bucket_front :: "'v bucket_queue_view \<Rightarrow> (view_error, 'v option) res" where
  "bucket_front self =
     (case bucket_cursor self of
        Some (i_block, position) \<Rightarrow>
          (if i_block < length (stored_data self)
           then case snd (stored_data self ! i_block) of
               Loaded data \<Rightarrow> if position < length data then Inr (Some (data ! position)) else Inl Panicked
             | NotLoaded _ \<Rightarrow> Inl Panicked
           else Inl Panicked)
      | None \<Rightarrow> Inr (first_opt (bucket_new_back_values self)))"

text \<open>An assignment of \<open>f\<close> of the old value through the reference that \<open>front_mut\<close> returns.\<close>

definition bucket_front_mut ::
  "('v \<Rightarrow> 'v) \<Rightarrow> 'v bucket_queue_view \<Rightarrow> (view_error, 'v bucket_queue_view) res" where
  "bucket_front_mut f self =
     (case bucket_cursor self of
        Some (i_block, position) \<Rightarrow>
          (if i_block < length (stored_data self)
           then case stored_data self ! i_block of
               (index, Loaded data) \<Rightarrow>
                 if position < length data
                 then Inr (self\<lparr>stored_data := (stored_data self)
                        [i_block := (index, Loaded (data[position := f (data ! position)]))]\<rparr>)
                 else Inl Panicked
             | (_, NotLoaded _) \<Rightarrow> Inl Panicked
           else Inl Panicked)
      | None \<Rightarrow>
          Inr (self\<lparr>bucket_new_back_values :=
            (case bucket_new_back_values self of [] \<Rightarrow> [] | v # vs \<Rightarrow> f v # vs)\<rparr>))"

text \<open>Reading the bucket at an index of the store.\<close>

definition read_bucket ::
  "'v bucket_codec \<Rightarrow> bytes \<Rightarrow> key_values \<Rightarrow> nat \<Rightarrow> (view_error, 'v list) res" where
  "read_bucket c base_key store index =
     and_then (ok_or (store (get_index_key c base_key index)) MissingEntries) (value_from c)"

definition bucket_delete_front ::
  "'v bucket_codec \<Rightarrow> key_values \<Rightarrow> 'v bucket_queue_view \<Rightarrow> (view_error, 'v bucket_queue_view) res" where
  "bucket_delete_front c store self =
     (case bucket_cursor self of
        Some (i_block, position) \<Rightarrow>
          (if i_block < length (stored_data self)
           then let (i_block, position) =
                      (if bucket_len (snd (stored_data self ! i_block)) = position + 1
                       then (i_block + 1, 0) else (i_block, position + 1))
                in if i_block = length (stored_data self) then Inr (self\<lparr>bucket_cursor := None\<rparr>)
                   else let self = self\<lparr>bucket_cursor := Some (i_block, position)\<rparr>;
                            (index, bucket) = stored_data self ! i_block
                        in if \<not> is_loaded bucket
                           then and_then (read_bucket c (bucket_base_key self) store index) (\<lambda>data.
                                  Inr (self\<lparr>stored_data := (stored_data self)[i_block := (index, Loaded data)]\<rparr>))
                           else Inr self
           else Inl Panicked)
      | None \<Rightarrow> Inr (self\<lparr>bucket_new_back_values := tl (bucket_new_back_values self)\<rparr>))"

definition bucket_push_back :: "'v bucket_queue_view \<Rightarrow> 'v \<Rightarrow> 'v bucket_queue_view" where
  "bucket_push_back self val = self\<lparr>bucket_new_back_values := bucket_new_back_values self @ [val]\<rparr>"

definition bucket_back ::
  "'v bucket_codec \<Rightarrow> key_values \<Rightarrow> 'v bucket_queue_view
     \<Rightarrow> (view_error, 'v bucket_queue_view \<times> 'v option) res" where
  "bucket_back c store self =
     (case last_opt (bucket_new_back_values self) of
        Some val \<Rightarrow> Inr (self, Some val)
      | None \<Rightarrow>
          if bucket_cursor self = None then Inr (self, None)
          else case last_opt (stored_data self) of
            None \<Rightarrow> Inr (self, None)
          | Some (index, bucket) \<Rightarrow>
              and_then (case bucket of Loaded data \<Rightarrow> Inr data
                        | NotLoaded _ \<Rightarrow> read_bucket c (bucket_base_key self) store index) (\<lambda>data.
                case last_opt data of
                  None \<Rightarrow> Inl Panicked
                | Some val \<Rightarrow>
                    Inr (self\<lparr>stored_data := butlast (stored_data self) @ [(index, Loaded data)]\<rparr>, Some val)))"

text \<open>\<open>read_context\<close>: the second loop, over the buckets from the cursor on. The first loop only
  collects the keys of the buckets that the second one decodes, so their values are read here one at a
  time; an element that is missing is an error in both.\<close>

fun read_buckets ::
  "'v bucket_codec \<Rightarrow> bytes \<Rightarrow> key_values \<Rightarrow> nat \<Rightarrow> nat \<Rightarrow> (nat \<times> 'v bucket) list
     \<Rightarrow> (view_error, 'v list \<times> nat) res" where
  "read_buckets c base_key store position count_remain [] = Inr ([], count_remain)"
| "read_buckets c base_key store position count_remain ((index, bucket) # rest) =
     and_then (case bucket of Loaded data \<Rightarrow> Inr data | NotLoaded _ \<Rightarrow> read_bucket c base_key store index) (\<lambda>data.
       let size = bucket_len bucket - position;
           elements = take count_remain (drop position data)
       in if count_remain \<le> size then Inr (elements, 0)
          else and_then (read_buckets c base_key store 0 (count_remain - size) rest) (\<lambda>(more_elements, remain).
                 Inr (elements @ more_elements, remain)))"

definition bucket_read_context ::
  "'v bucket_codec \<Rightarrow> key_values \<Rightarrow> 'v bucket_queue_view \<Rightarrow> cursor \<Rightarrow> nat \<Rightarrow> (view_error, 'v list) res" where
  "bucket_read_context c store self position cnt =
     (if cnt = 0 then Inr []
      else and_then
        (case position of
           None \<Rightarrow> Inr ([], cnt)
         | Some (i_block, position) \<Rightarrow>
             read_buckets c (bucket_base_key self) store position cnt (drop i_block (stored_data self)))
        (\<lambda>(elements, count_remain). Inr (elements @ take count_remain (bucket_new_back_values self))))"

definition bucket_read_front ::
  "'v bucket_codec \<Rightarrow> key_values \<Rightarrow> 'v bucket_queue_view \<Rightarrow> nat \<Rightarrow> (view_error, 'v list) res" where
  "bucket_read_front c store self cnt =
     bucket_read_context c store self (bucket_cursor self) (min cnt (bucket_count self))"

definition bucket_elements ::
  "'v bucket_codec \<Rightarrow> key_values \<Rightarrow> 'v bucket_queue_view \<Rightarrow> (view_error, 'v list) res" where
  "bucket_elements c store self = bucket_read_context c store self (bucket_cursor self) (bucket_count self)"

text \<open>The loop of \<open>read_back\<close>: the bucket and the position of the element after \<open>increment\<close> others.\<close>

fun seek_bucket :: "nat \<Rightarrow> nat \<Rightarrow> nat \<Rightarrow> (nat \<times> 'v bucket) list \<Rightarrow> (nat \<times> nat) option" where
  "seek_bucket block position increment [] = None"
| "seek_bucket block position increment (entry # rest) =
     (let size = bucket_len (snd entry) - position
      in if increment < size then Some (block, position + increment)
         else seek_bucket (block + 1) 0 (increment - size) rest)"

definition bucket_read_back ::
  "'v bucket_codec \<Rightarrow> key_values \<Rightarrow> 'v bucket_queue_view \<Rightarrow> nat \<Rightarrow> (view_error, 'v list) res" where
  "bucket_read_back c store self cnt =
     (let cnt = min cnt (bucket_count self);
          new_len = length (bucket_new_back_values self)
      in if cnt \<le> new_len then Inr (drop (new_len - cnt) (bucket_new_back_values self))
         else case bucket_cursor self of
           None \<Rightarrow> Inl Panicked
         | Some (i_block, position) \<Rightarrow>
             (case seek_bucket i_block position (bucket_count self - cnt) (drop i_block (stored_data self)) of
                None \<Rightarrow> Inl Panicked
              | Some start \<Rightarrow> bucket_read_context c store self (Some start) cnt))"

definition bucket_load_all ::
  "'v bucket_codec \<Rightarrow> key_values \<Rightarrow> 'v bucket_queue_view \<Rightarrow> (view_error, 'v bucket_queue_view) res" where
  "bucket_load_all c store self =
     (if \<not> bucket_delete_storage_first self
      then and_then (bucket_elements c store self) (\<lambda>elements.
             Inr (self\<lparr>bucket_new_back_values := elements, bucket_cursor := None,
               bucket_delete_storage_first := True\<rparr>))
      else Inr self)"

subsection \<open>The bucket queue satisfies the contract\<close>

definition bucket_values :: "'v bucket_codec \<Rightarrow> bytes \<Rightarrow> key_values \<Rightarrow> nat \<times> 'v bucket \<Rightarrow> 'v list" where
  "bucket_values c base_key store entry =
     (case snd entry of
        Loaded data \<Rightarrow> data
      | NotLoaded _ \<Rightarrow> projr (value_from c (the (store (get_index_key c base_key (fst entry))))))"

definition bucket_ok :: "'v bucket_codec \<Rightarrow> bytes \<Rightarrow> key_values \<Rightarrow> nat \<times> 'v bucket \<Rightarrow> bool" where
  "bucket_ok c base_key store entry \<longleftrightarrow>
     store (get_index_key c base_key (fst entry)) = Some (value_to c (bucket_values c base_key store entry))
     \<and> bucket_values c base_key store entry \<noteq> []
     \<and> bucket_len (snd entry) = length (bucket_values c base_key store entry)"

definition buckets_ok :: "'v bucket_codec \<Rightarrow> bytes \<Rightarrow> key_values \<Rightarrow> (nat \<times> 'v bucket) list \<Rightarrow> bool" where
  "buckets_ok c base_key store stored \<longleftrightarrow>
     (\<forall>entry \<in> set stored. bucket_ok c base_key store entry) \<and> sorted_wrt (<) (map fst stored)
     \<and> (case stored of
          [] \<Rightarrow> store (get_index_key c base_key 0) = None
        | entry # _ \<Rightarrow> fst entry = 0 \<and> is_loaded (snd entry))"

definition bucket_inv :: "'v bucket_codec \<Rightarrow> nat \<Rightarrow> bytes \<Rightarrow> key_values \<Rightarrow> 'v bucket_queue_view \<Rightarrow> bool" where
  "bucket_inv c N base_key store q \<longleftrightarrow>
     view_codec_ok c \<and> 0 < N \<and> bucket_base_key q = base_key
     \<and> buckets_ok c base_key store (stored_data q)
     \<and> (stored_data q \<noteq> [] \<longrightarrow> stored_position q < bucket_len (snd (hd (stored_data q))))
     \<and> from_bytes_option_or_default (state_from c) bucket_default_indices
          (store (base_tag base_key (bucket_key_tag_byte Bucket_Store)))
         = Inr (bucket_stored_indices (stored_data q) (stored_position q))
     \<and> (bucket_delete_storage_first q \<longrightarrow> bucket_cursor q = None)
     \<and> (case bucket_cursor q of
          None \<Rightarrow> True
        | Some (i, p) \<Rightarrow> i < length (stored_data q) \<and> is_loaded (snd (stored_data q ! i))
            \<and> p < bucket_len (snd (stored_data q ! i)))"

definition bucket_tail ::
  "'v bucket_codec \<Rightarrow> bytes \<Rightarrow> key_values \<Rightarrow> (nat \<times> 'v bucket) list \<Rightarrow> cursor \<Rightarrow> 'v list" where
  "bucket_tail c base_key store stored cur =
     (case cur of
        None \<Rightarrow> []
      | Some (i, p) \<Rightarrow> drop p (concat (map (bucket_values c base_key store) (drop i stored))))"

definition bucket_contents :: "'v bucket_codec \<Rightarrow> key_values \<Rightarrow> 'v bucket_queue_view \<Rightarrow> 'v list" where
  "bucket_contents c store q =
     bucket_tail c (bucket_base_key q) store (stored_data q) (bucket_cursor q) @ bucket_new_back_values q"

lemma bucket_values_Loaded [simp]: "bucket_values c base s (i, Loaded d) = d"
  by (simp add: bucket_values_def)

lemma buckets_len:
  assumes "\<forall>e \<in> set D. bucket_ok c base s e"
  shows "sum_list (map (bucket_len \<circ> snd) D) = length (concat (map (bucket_values c base s) D))"
  using assms by (induction D) (simp_all add: bucket_ok_def)

lemma buckets_ok_set: "buckets_ok c base s D \<Longrightarrow> e \<in> set D \<Longrightarrow> bucket_ok c base s e"
  by (simp add: buckets_ok_def)

lemma bucket_loaded:
  assumes "is_loaded b"
  obtains d where "b = Loaded d"
  using assms by (cases b) auto

lemma bucket_front_contents:
  assumes "bucket_inv c N base s q"
  shows "bucket_front q = Inr (first_opt (bucket_contents c s q))"
proof (cases "bucket_cursor q")
  case None
  then show ?thesis by (simp add: bucket_front_def bucket_contents_def bucket_tail_def)
next
  case (Some ip)
  obtain i p where ip: "ip = (i, p)" by fastforce
  with assms Some have i: "i < length (stored_data q)" "is_loaded (snd (stored_data q ! i))"
    "p < bucket_len (snd (stored_data q ! i))"
    by (simp_all add: bucket_inv_def)
  obtain j d where d: "stored_data q ! i = (j, Loaded d)"
    using i(2) by (metis bucket_loaded prod.collapse)
  with i have "drop i (stored_data q) = (j, Loaded d) # drop (Suc i) (stored_data q)"
    by (simp add: Cons_nth_drop_Suc [symmetric])
  with i d Some ip show ?thesis
    by (simp add: bucket_front_def bucket_contents_def bucket_tail_def Cons_nth_drop_Suc [symmetric])
qed

lemma bucket_count_contents:
  assumes "bucket_inv c N base s q"
  shows "bucket_count q = length (bucket_contents c s q)"
proof (cases "bucket_cursor q")
  case None
  then show ?thesis by (simp add: bucket_count_def bucket_stored_count_def bucket_contents_def bucket_tail_def)
next
  case (Some ip)
  obtain i p where ip: "ip = (i, p)" by fastforce
  from assms have ok: "\<forall>e \<in> set (drop i (stored_data q)). bucket_ok c base s e"
    by (auto simp: bucket_inv_def buckets_ok_def dest: in_set_dropD)
  from assms Some have "\<not> bucket_delete_storage_first q" "bucket_base_key q = base"
    by (auto simp: bucket_inv_def)
  with Some ip buckets_len [OF ok] show ?thesis
    by (simp add: bucket_count_def bucket_stored_count_def bucket_contents_def bucket_tail_def)
qed

lemma read_bucket_ok:
  assumes "view_codec_ok c" and "bucket_ok c base s (i, b)"
  shows "(case b of Loaded data \<Rightarrow> Inr data | NotLoaded _ \<Rightarrow> read_bucket c base s i)
    = Inr (bucket_values c base s (i, b))"
  using assms by (auto simp: read_bucket_def bucket_ok_def view_codec_ok_def split: bucket.split)

lemma read_buckets_ok:
  assumes "view_codec_ok c" and "\<forall>e \<in> set D. bucket_ok c base s e"
    and "case D of [] \<Rightarrow> p = 0 | e # _ \<Rightarrow> p < bucket_len (snd e)"
  shows "read_buckets c base s p n D =
    (let xs = drop p (concat (map (bucket_values c base s) D)) in Inr (take n xs, n - length xs))"
  using assms(2,3)
proof (induction D arbitrary: p n)
  case Nil
  then show ?case by simp
next
  case (Cons e D)
  obtain i b where e: "e = (i, b)" by fastforce
  let ?d = "bucket_values c base s e"
  from Cons.prems e have ok: "bucket_ok c base s (i, b)" by simp
  then have len: "bucket_len b = length ?d" and p: "p < length ?d"
    using Cons.prems e by (simp_all add: bucket_ok_def)
  have first: "case D of [] \<Rightarrow> (0::nat) = 0 | e # _ \<Rightarrow> 0 < bucket_len (snd e)"
    using Cons.prems(1) by (auto simp: bucket_ok_def split: list.split)
  have IH: "read_buckets c base s 0 m D =
      Inr (take m (concat (map (bucket_values c base s) D)), m - length (concat (map (bucket_values c base s) D)))" for m
    using Cons.IH [OF _ first] Cons.prems(1) by (simp add: Let_def)
  show ?case
    using read_bucket_ok [OF assms(1) ok] len p e
    by (simp add: IH Let_def)
qed

lemma bucket_read_front_contents:
  assumes "bucket_inv c N base s q"
  shows "bucket_read_context c s q (bucket_cursor q) n = Inr (take n (bucket_contents c s q))"
proof (cases "bucket_cursor q")
  case None
  then show ?thesis by (simp add: bucket_read_context_def bucket_contents_def bucket_tail_def)
next
  case (Some ip)
  obtain i p where ip: "ip = (i, p)" by fastforce
  from assms have ok: "\<forall>e \<in> set (drop i (stored_data q)). bucket_ok c base s e"
    by (auto simp: bucket_inv_def buckets_ok_def dest: in_set_dropD)
  from assms Some ip have fields: "view_codec_ok c" "bucket_base_key q = base"
    "i < length (stored_data q)" "p < bucket_len (snd (stored_data q ! i))"
    by (auto simp: bucket_inv_def)
  from fields have "case drop i (stored_data q) of [] \<Rightarrow> p = 0 | e # _ \<Rightarrow> p < bucket_len (snd e)"
    by (simp add: Cons_nth_drop_Suc [symmetric])
  from read_buckets_ok [OF fields(1) ok this, of n] Some ip fields(2) show ?thesis
    by (simp add: bucket_read_context_def bucket_contents_def bucket_tail_def Let_def)
qed

lemma bucket_elements_contents:
  assumes "bucket_inv c N base s q"
  shows "bucket_elements c s q = Inr (bucket_contents c s q)"
  using bucket_read_front_contents [OF assms] bucket_count_contents [OF assms]
  by (simp add: bucket_elements_def)

text \<open>Loading the data of a bucket changes neither its values nor the invariant.\<close>

lemma buckets_ok_load:
  assumes "buckets_ok c base s D" and "i < length D"
  shows "buckets_ok c base s (D[i := (fst (D ! i), Loaded (bucket_values c base s (D ! i)))])"
    and "map (bucket_values c base s) (D[i := (fst (D ! i), Loaded (bucket_values c base s (D ! i)))])
      = map (bucket_values c base s) D"
proof -
  let ?e = "(fst (D ! i), Loaded (bucket_values c base s (D ! i)))"
  have ok: "bucket_ok c base s ?e"
    using buckets_ok_set [OF assms(1) nth_mem [OF assms(2)]] by (simp add: bucket_ok_def)
  have fst: "map fst (D[i := ?e]) = map fst D"
    using assms(2) by (simp add: map_update list_update_same_conv)
  show "buckets_ok c base s (D[i := ?e])"
    using assms ok unfolding buckets_ok_def fst
    by (cases D; cases i) (auto dest: subsetD [OF set_update_subset_insert])
  show "map (bucket_values c base s) (D[i := ?e]) = map (bucket_values c base s) D"
    using assms(2) by (simp add: map_update list_update_same_conv)
qed

lemma bucket_indices_load:
  assumes "buckets_ok c base s D" and "i < length D"
  shows "bucket_stored_indices (D[i := (fst (D ! i), Loaded (bucket_values c base s (D ! i)))]) p
    = bucket_stored_indices D p"
  using buckets_ok_set [OF assms(1) nth_mem [OF assms(2)]] assms(2)
  by (simp add: bucket_stored_indices_def map_update list_update_same_conv bucket_ok_def split_beta)

lemma bucket_delete_front_contents:
  assumes inv: "bucket_inv c N base s q"
  shows "\<exists>q'. bucket_delete_front c s q = Inr q' \<and> bucket_inv c N base s q'
    \<and> bucket_contents c s q' = tl (bucket_contents c s q)"
proof (cases "bucket_cursor q")
  case None
  with inv show ?thesis
    by (auto simp: bucket_delete_front_def bucket_inv_def bucket_contents_def bucket_tail_def)
next
  case (Some ip)
  obtain i p where ip: "ip = (i, p)" by fastforce
  let ?D = "stored_data q" and ?V = "bucket_values c base s"
  from inv Some ip have fields: "view_codec_ok c" "bucket_base_key q = base" "buckets_ok c base s ?D"
    "i < length ?D" "is_loaded (snd (?D ! i))" "p < bucket_len (snd (?D ! i))"
    "\<not> bucket_delete_storage_first q"
    by (auto simp: bucket_inv_def)
  have ok: "bucket_ok c base s (?D ! j)" if "j < length ?D" for j
    using buckets_ok_set [OF fields(3)] that by simp
  have len: "bucket_len (snd (?D ! j)) = length (?V (?D ! j))" "?V (?D ! j) \<noteq> []" if "j < length ?D" for j
    using ok [OF that] by (simp_all add: bucket_ok_def)
  have cont: "bucket_contents c s q = drop p (?V (?D ! i) @ concat (map ?V (drop (Suc i) ?D)))
      @ bucket_new_back_values q"
    using Some ip fields(2,4) by (simp add: bucket_contents_def bucket_tail_def Cons_nth_drop_Suc [symmetric])
  consider (within) "Suc p < length (?V (?D ! i))"
    | (final) "Suc p = length (?V (?D ! i))" "Suc i = length ?D"
    | (following) "Suc p = length (?V (?D ! i))" "Suc i < length ?D"
    using fields(4,6) len [OF fields(4)] by linarith
  then show ?thesis
  proof cases
    case within
    with fields inv Some ip len [OF fields(4)] cont show ?thesis
      by (auto simp: bucket_delete_front_def bucket_inv_def bucket_contents_def bucket_tail_def split_beta
          Cons_nth_drop_Suc [symmetric] drop_Suc tl_drop tl_append2)
  next
    case final
    with fields inv Some ip len [OF fields(4)] cont show ?thesis
      by (auto simp: bucket_delete_front_def bucket_inv_def bucket_contents_def bucket_tail_def
          drop_Suc tl_drop tl_append2)
  next
    case following
    define D' where "D' = ?D[Suc i := (fst (?D ! Suc i), Loaded (?V (?D ! Suc i)))]"
    define q' where "q' = q\<lparr>bucket_cursor := Some (Suc i, 0), stored_data := D'\<rparr>"
    note load = buckets_ok_load [OF fields(3) following(2), folded D'_def]
    have loaded: "?D = D'" if "?D ! Suc i = (j, Loaded d)" for j d
      using that following(2) unfolding D'_def by (metis bucket_values_Loaded fst_conv list_update_id)
    have "bucket_delete_front c s q = Inr q'"
    proof (cases "?D ! Suc i")
      case (Pair j b)
      from read_bucket_ok [OF fields(1), of base s j b] ok [OF following(2)] Pair loaded
      show ?thesis
        using Some ip fields(2,4) len(1) [OF fields(4)] following
        by (cases b) (auto simp: bucket_delete_front_def q'_def D'_def)
    qed
    moreover have "bucket_inv c N base s q'"
    proof -
      have "length D' = length ?D" "snd (D' ! Suc i) = Loaded (?V (?D ! Suc i))" "D' \<noteq> []"
        using following(2) by (auto simp: D'_def)
      moreover have "hd D' = hd ?D"
        using following(2) by (cases ?D) (simp_all add: D'_def)
      ultimately show ?thesis
        using inv load(1) fields bucket_indices_load [OF fields(3) following(2), folded D'_def]
          following(2) len(2) [OF following(2)]
        by (auto simp: bucket_inv_def q'_def)
    qed
    moreover have "bucket_contents c s q' = tl (bucket_contents c s q)"
    proof -
      have "map ?V (drop (Suc i) D') = map ?V (drop (Suc i) ?D)" using load(2) by (metis drop_map)
      then have "bucket_contents c s q' = concat (map ?V (drop (Suc i) ?D)) @ bucket_new_back_values q"
        by (simp add: bucket_contents_def bucket_tail_def q'_def fields(2))
      moreover have "drop p (?V (?D ! i)) = [?V (?D ! i) ! p]"
        using following(1) by (simp add: Cons_nth_drop_Suc [of p, symmetric])
      ultimately show ?thesis using following(1) by (simp add: cont)
    qed
    ultimately show ?thesis by blast
  qed
qed

lemma bucket_clear_contents:
  "bucket_inv c N base s q \<Longrightarrow> bucket_inv c N base s (bucket_clear q) \<and> bucket_contents c s (bucket_clear q) = []"
  by (simp add: bucket_clear_def bucket_inv_def bucket_contents_def bucket_tail_def)

lemma bucket_push_back_contents:
  "bucket_inv c N base s q \<Longrightarrow> bucket_inv c N base s (bucket_push_back q v)
     \<and> bucket_contents c s (bucket_push_back q v) = bucket_contents c s q @ [v]"
  by (auto simp: bucket_push_back_def bucket_inv_def bucket_contents_def split: option.splits)

text \<open>A view with the stored data \<open>D\<close> and no pending change.\<close>

definition clean_view :: "bytes \<Rightarrow> (nat \<times> 'v bucket) list \<Rightarrow> nat \<Rightarrow> 'v bucket_queue_view" where
  "clean_view base_key D position =
     \<lparr>bucket_base_key = base_key, stored_data = D, bucket_new_back_values = [],
      stored_position = position, bucket_cursor = cursor_new (length D) position,
      bucket_delete_storage_first = False\<rparr>"

fun unload :: "(nat \<times> 'v bucket) list \<Rightarrow> (nat \<times> 'v bucket) list" where
  "unload [] = []"
| "unload (e # D) = e # map (\<lambda>(i, b). (i, NotLoaded (bucket_len b))) D"

lemma bucket_ok_unload:
  assumes "view_codec_ok c" and "bucket_ok c base s (i, b)"
  shows "bucket_values c base s (i, NotLoaded (bucket_len b)) = bucket_values c base s (i, b)"
    and "bucket_ok c base s (i, NotLoaded (bucket_len b))"
  using assms by (auto simp: bucket_ok_def bucket_values_def view_codec_ok_def)

lemma unload_values:
  assumes "view_codec_ok c" and "\<forall>e \<in> set D. bucket_ok c base s e"
  shows "map (bucket_values c base s) (unload D) = map (bucket_values c base s) D"
    and "\<forall>e \<in> set (unload D). bucket_ok c base s e"
    and "map fst (unload D) = map fst D" and "bucket_stored_indices (unload D) p = bucket_stored_indices D p"
    and "length (unload D) = length D"
  using assms by (cases D; force simp: bucket_ok_unload bucket_stored_indices_def)+

lemma bucket_load_inv:
  assumes inv: "bucket_inv c N base s q"
  shows "bucket_load c base s = Inr (clean_view base (unload (stored_data q)) (stored_position q))"
    and "bucket_inv c N base s (clean_view base (unload (stored_data q)) (stored_position q))"
    and "bucket_contents c s (clean_view base (unload (stored_data q)) (stored_position q))
      = bucket_contents c s (bucket_rollback q)"
    and "bucket_inv c N base s (bucket_rollback q)"
proof -
  let ?D = "stored_data q" and ?p = "stored_position q"
  let ?q = "clean_view base (unload ?D) ?p"
  from inv have fields: "view_codec_ok c" "bucket_base_key q = base" "buckets_ok c base s ?D"
    "from_bytes_option_or_default (state_from c) bucket_default_indices
       (s (base_tag base (bucket_key_tag_byte Bucket_Store))) = Inr (bucket_stored_indices ?D ?p)"
    "?D \<noteq> [] \<Longrightarrow> ?p < bucket_len (snd (hd ?D))" "0 < N"
    by (auto simp: bucket_inv_def)
  from fields(3) have ok: "\<forall>e \<in> set ?D. bucket_ok c base s e" by (simp add: buckets_ok_def)
  note unload = unload_values [OF fields(1) ok]
  show "bucket_inv c N base s (bucket_rollback q)"
    using inv by (cases ?D) (auto simp: bucket_inv_def bucket_rollback_def cursor_new_def buckets_ok_def)
  have "buckets_ok c base s (unload ?D)"
    using fields(3) unload(2) unfolding buckets_ok_def unload(3) by (cases ?D) auto
  then show "bucket_inv c N base s ?q"
    using fields unload
    by (cases ?D) (auto simp: bucket_inv_def clean_view_def cursor_new_def buckets_ok_def)
  show "bucket_contents c s ?q = bucket_contents c s (bucket_rollback q)"
    using unload fields(2)
    by (simp add: bucket_contents_def bucket_tail_def clean_view_def bucket_rollback_def cursor_new_def)
  show "bucket_load c base s = Inr ?q"
  proof (cases ?D)
    case Nil
    then show ?thesis using fields
      by (simp add: bucket_load_def bucket_pre_load_def bucket_post_load_def clean_view_def
          bucket_stored_indices_def buckets_ok_def get_index_key_def)
  next
    case (Cons e D)
    with fields(3) obtain d where e: "e = (0, Loaded d)"
      by (cases e) (auto simp: buckets_ok_def elim: bucket_loaded)
    with Cons ok have "s (base_tag base (bucket_key_tag_byte Bucket_Front)) = Some (value_to c d)"
      by (simp add: bucket_ok_def get_index_key_def)
    with e Cons fields show ?thesis
      by (simp add: bucket_load_def bucket_pre_load_def bucket_post_load_def clean_view_def
          bucket_stored_indices_def view_codec_ok_def split_beta)
  qed
qed

lemma get_index_key_inj:
  "view_codec_ok c \<Longrightarrow> get_index_key c base i = get_index_key c base j \<longleftrightarrow> i = j"
  by (auto simp: get_index_key_def base_tag_def derive_tag_key_def view_codec_ok_def inj_eq MIN_VIEW_TAG_def)

lemma bucket_keys:
  "prefix base (get_index_key c base i)" "prefix base (base_tag base t)"
  "get_index_key c base i \<noteq> base_tag base (bucket_key_tag_byte Bucket_Store)"
  by (simp_all add: get_index_key_def base_tag_def derive_tag_key_def MIN_VIEW_TAG_def)

lemma bucket_ok_cong:
  "s' (get_index_key c base (fst e)) = s (get_index_key c base (fst e))
    \<Longrightarrow> bucket_ok c base s' e = bucket_ok c base s e \<and> bucket_values c base s' e = bucket_values c base s e"
  by (simp add: bucket_ok_def bucket_values_def split: bucket.split)

lemma bucket_ok_put:
  assumes "view_codec_ok c" and "d \<noteq> []"
  shows "bucket_ok c base (s(get_index_key c base i \<mapsto> value_to c d)) (i, Loaded d)"
  using assms by (simp add: bucket_ok_def)

text \<open>The new buckets.\<close>

lemma push_chunks_other:
  assumes "view_codec_ok c" and "\<And>i. u \<le> i \<Longrightarrow> k \<noteq> get_index_key c base i"
  shows "apply_operations (snd (push_chunks c base u cs)) s k = s k"
  using assms(2)
proof (induction cs arbitrary: u s)
  case Nil
  then show ?case by (simp add: apply_operations_def)
next
  case (Cons d cs)
  have "apply_operations (snd (push_chunks c base (u + 1) cs)) s' k = s' k" for s'
    using Cons.prems by (intro Cons.IH) auto
  with Cons.prems [of u] show ?case by (simp add: split_beta Let_def)
qed

lemma push_chunks_ok:
  assumes "view_codec_ok c" and "[] \<notin> set cs"
  shows "\<forall>e \<in> set (fst (push_chunks c base u cs)).
      bucket_ok c base (apply_operations (snd (push_chunks c base u cs)) s) e \<and> is_loaded (snd e)"
    and "map fst (fst (push_chunks c base u cs)) = [u..<u + length cs]"
    and "concat (map (bucket_values c base s') (fst (push_chunks c base u cs))) = concat cs"
  using assms(2)
proof (induction cs arbitrary: u s)
  case Nil
  case 1 show ?case by simp
  case 2 show ?case by simp
  case 3 show ?case by simp
next
  case (Cons d cs)
  case 1
  define s1 where "s1 = s(get_index_key c base u \<mapsto> value_to c d)"
  let ?s = s1
  let ?m = "apply_operations (snd (push_chunks c base (u + 1) cs)) s1"
  have "?m (get_index_key c base u) = ?s (get_index_key c base u)"
    using assms(1) by (intro push_chunks_other) (auto simp: get_index_key_inj)
  then have "bucket_ok c base ?m (u, Loaded d)"
    using bucket_ok_put [OF assms(1), of d base s u] 1 bucket_ok_cong [of ?m c base "(u, Loaded d)" ?s]
    by (auto simp: s1_def)
  moreover have "apply_operation s (Put (get_index_key c base u) (value_to c d)) = s1"
    by (simp add: s1_def)
  ultimately show ?case using Cons.IH(1) [of "u + 1" s1] 1
    by (simp add: split_beta Let_def del: apply_operation.simps)
  case 2
  with Cons.IH(2) [of "u + 1"] show ?case
    by (simp add: split_beta Let_def upt_conv_Cons del: upt_Suc)
  case 3
  with Cons.IH(3) [of "u + 1"] show ?case by (simp add: split_beta Let_def)
qed

lemma chunks_loop_concat: "concat (chunks_loop n xs) = xs" "[] \<notin> set (chunks_loop n xs)"
  "xs \<noteq> [] \<Longrightarrow> chunks_loop n xs \<noteq> []"
  by (induction n xs rule: chunks_loop.induct) simp_all

text \<open>The view between the steps of \<open>flush\<close>: stored data that agree with the store, and new values.\<close>

definition flushing :: "bytes \<Rightarrow> (nat \<times> 'v bucket) list \<Rightarrow> nat \<Rightarrow> 'v list \<Rightarrow> bool \<Rightarrow> 'v bucket_queue_view" where
  "flushing base_key D position new del =
     (clean_view base_key D position)\<lparr>bucket_new_back_values := new, bucket_delete_storage_first := del\<rparr>"

definition flush_inv ::
  "'v bucket_codec \<Rightarrow> bytes \<Rightarrow> key_values \<Rightarrow> (nat \<times> 'v bucket) list \<Rightarrow> nat \<Rightarrow> bool" where
  "flush_inv c base_key store D position \<longleftrightarrow> buckets_ok c base_key store D
     \<and> (case D of [] \<Rightarrow> position = 0 | e # _ \<Rightarrow> position < bucket_len (snd e))"

lemma unused_index_above:
  assumes "buckets_ok c base s D" and "e \<in> set D"
  shows "fst e < unused_index D"
proof -
  from assms(2) obtain i where i: "i < length D" "e = D ! i" by (auto simp: in_set_conv_nth)
  from assms(1) have sorted: "sorted_wrt (<) (map fst D)" by (simp add: buckets_ok_def)
  have "fst (D ! i) \<le> fst (D ! (length D - 1))"
  proof (cases "i = length D - 1")
    case False
    with i have "i < length D - 1" "length D - 1 < length D" by linarith+
    with i sorted_wrt_nth_less [OF sorted, of i "length D - 1"] show ?thesis by simp
  qed simp
  with i show ?thesis
    by (auto simp: unused_index_def last_opt_def last_conv_nth split_beta)
qed

lemma flush_back_ok:
  assumes c: "view_codec_ok c" and "0 < N" and inv: "flush_inv c base m D p"
  shows "\<exists>D' ops. flush_back c N (flushing base D p new del) = Inr (flushing base D' p [] del, ops)
    \<and> flush_inv c base (apply_operations ops m) D' p
    \<and> concat (map (bucket_values c base (apply_operations ops m)) D')
      = concat (map (bucket_values c base m) D) @ new
    \<and> apply_operations ops m (base_tag base (bucket_key_tag_byte Bucket_Store))
      = m (base_tag base (bucket_key_tag_byte Bucket_Store))"
proof (cases "new = []")
  case True
  with inv show ?thesis
    by (intro exI [of _ D] exI [of _ "[]"]) (simp add: flush_back_def flushing_def apply_operations_def clean_view_def)
next
  case False
  define cs where "cs = chunks_loop (N - 1) new"
  define u where "u = unused_index D"
  define D2 where "D2 = fst (push_chunks c base u cs)"
  define ops where "ops = snd (push_chunks c base u cs)"
  let ?m = "apply_operations ops m"
  have cs: "concat cs = new" "[] \<notin> set cs" "cs \<noteq> []"
    using chunks_loop_concat False by (simp_all add: cs_def)
  note pushed = push_chunks_ok [OF c cs(2), where base = base and u = u, folded D2_def ops_def]
  from inv have ok: "buckets_ok c base m D" by (simp add: flush_inv_def)
  have old: "bucket_ok c base ?m e" "bucket_values c base ?m e = bucket_values c base m e" if "e \<in> set D" for e
  proof -
    have "?m (get_index_key c base (fst e)) = m (get_index_key c base (fst e))"
      unfolding ops_def using unused_index_above [OF ok that] c
      by (intro push_chunks_other) (auto simp: get_index_key_inj u_def)
    with bucket_ok_cong [of ?m c base e m] buckets_ok_set [OF ok that]
    show "bucket_ok c base ?m e" "bucket_values c base ?m e = bucket_values c base m e" by simp_all
  qed
  have "D2 \<noteq> []" using pushed(2) cs(3) by (cases cs) (auto simp: upt_conv_Cons simp del: upt_Suc)
  then obtain e2 D3 where D2: "D2 = e2 # D3" by (cases D2) auto
  with pushed(2) cs(3) have e2: "fst e2 = u" by (cases cs) (simp_all add: upt_conv_Cons del: upt_Suc)
  have "sorted_wrt (<) (map fst (D @ D2))"
    using ok unused_index_above [OF ok] unfolding map_append pushed(2)
    by (auto simp: buckets_ok_def sorted_wrt_append u_def) (meson less_le_trans)
  moreover have "\<forall>e \<in> set (D @ D2). bucket_ok c base ?m e" using old(1) pushed(1) by auto
  ultimately have "buckets_ok c base ?m (D @ D2)"
    using ok D2 e2 pushed(1) unfolding buckets_ok_def
    by (cases D) (auto simp: u_def unused_index_def last_opt_def)
  moreover have "concat (map (bucket_values c base ?m) (D @ D2)) = concat (map (bucket_values c base m) D) @ new"
    using old(2) pushed(3) [of ?m] cs(1) by (simp cong: map_cong)
  moreover have "flush_back c N (flushing base D p new del) = Inr (flushing base (D @ D2) p [] del, ops)"
    using False \<open>0 < N\<close> \<open>D2 \<noteq> []\<close> inv
    by (cases D) (simp_all add: flush_back_def flushing_def clean_view_def chunks_def split_beta cs_def D2_def ops_def u_def
        cursor_new_def is_incrementable_def flush_inv_def)
  moreover have "flush_inv c base ?m (D @ D2) p"
    using inv calculation(1) D2 pushed(1) [of m]
    by (cases D) (auto simp: flush_inv_def bucket_ok_def)
  moreover have "?m (base_tag base (bucket_key_tag_byte Bucket_Store))
      = m (base_tag base (bucket_key_tag_byte Bucket_Store))"
    unfolding ops_def by (intro push_chunks_other c bucket_keys(3) [symmetric])
  ultimately show ?thesis by (intro exI [of _ "D @ D2"] exI [of _ ops]) simp
qed

text \<open>The first part of \<open>flush\<close> leaves the values from the cursor on.\<close>

lemma bucket_stored_count_0:
  assumes inv: "bucket_inv c N base s q"
  shows "bucket_stored_count q = 0 \<longleftrightarrow> bucket_cursor q = None"
proof -
  have "bucket_tail c base s (stored_data q) (bucket_cursor q) \<noteq> []" if "bucket_cursor q = Some (i, p)" for i p
  proof -
    from that inv have i: "i < length (stored_data q)" "p < bucket_len (snd (stored_data q ! i))"
      and "bucket_ok c base s (stored_data q ! i)"
      by (auto simp: bucket_inv_def buckets_ok_def)
    then have "p < length (bucket_values c base s (stored_data q ! i))" by (simp add: bucket_ok_def)
    with i(1) that show ?thesis by (simp add: bucket_tail_def Cons_nth_drop_Suc [symmetric])
  qed
  moreover have "bucket_stored_count q = length (bucket_tail c base s (stored_data q) (bucket_cursor q))"
    using bucket_count_contents [OF inv] inv by (simp add: bucket_count_def bucket_contents_def bucket_inv_def)
  ultimately show ?thesis by (cases "bucket_cursor q") (auto simp: bucket_tail_def)
qed

lemma apply_deletes:
  "apply_operations (map (\<lambda>(i, _). Delete (f i)) D) s k = (if k \<in> f ` fst ` set D then None else s k)"
  by (induction D arbitrary: s) (auto simp: apply_operations_def)

lemma flush_front_ok:
  assumes inv: "bucket_inv c N base s q"
  defines "ops1 \<equiv> (if bucket_delete_storage_first q then [DeletePrefix base] else [])"
  shows "\<exists>D p ops. flush_front c q
      = Inr (flushing base D p (bucket_new_back_values q) (bucket_delete_storage_first q), ops)
    \<and> flush_inv c base (apply_operations (ops1 @ ops) s) D p
    \<and> drop p (concat (map (bucket_values c base (apply_operations (ops1 @ ops) s)) D))
      = bucket_tail c base s (stored_data q) (bucket_cursor q)
    \<and> (bucket_delete_storage_first q
         \<longrightarrow> apply_operations (ops1 @ ops) s (base_tag base (bucket_key_tag_byte Bucket_Store)) = None)"
proof (cases "bucket_cursor q")
  case None
  let ?m = "apply_operations (ops1 @ [DeletePrefix base]) s"
  have "?m (get_index_key c base 0) = None"
    by (simp add: ops1_def bucket_keys(1))
  moreover have "flush_front c q = Inr (flushing base [] 0 (bucket_new_back_values q) (bucket_delete_storage_first q),
      [DeletePrefix base])"
    using None bucket_stored_count_0 [OF inv] inv
    by (simp add: flush_front_def flushing_def clean_view_def cursor_new_def bucket_inv_def)
  ultimately show ?thesis using None
    by (intro exI [of _ "[]"] exI [of _ 0] exI [of _ "[DeletePrefix base]"])
      (simp add: flush_inv_def buckets_ok_def bucket_tail_def bucket_keys(2))
next
  case (Some ip)
  obtain i p where ip: "ip = (i, p)" by fastforce
  let ?D = "stored_data q"
  from inv Some ip have fields: "view_codec_ok c" "bucket_base_key q = base" "buckets_ok c base s ?D"
    "i < length ?D" "is_loaded (snd (?D ! i))" "p < bucket_len (snd (?D ! i))" "\<not> bucket_delete_storage_first q"
    by (auto simp: bucket_inv_def)
  obtain j d where d: "?D ! i = (j, Loaded d)"
    using fields(5) by (metis bucket_loaded prod.collapse)
  define R where "R = drop (Suc i) ?D"
  have drop: "drop i ?D = (j, Loaded d) # R"
    using fields(4) d by (simp add: R_def Cons_nth_drop_Suc [symmetric])
  have split: "?D = take i ?D @ (j, Loaded d) # R"
    using drop by (metis append_take_drop_id)
  define dels where "dels = map (\<lambda>(index, _). Delete (get_index_key c base index)) (take i ?D)"
  have tail: "bucket_tail c base s ?D (bucket_cursor q) = drop p (d @ concat (map (bucket_values c base s) R))"
    using Some ip drop by (simp add: bucket_tail_def)
  have count: "bucket_stored_count q \<noteq> 0" using bucket_stored_count_0 [OF inv] Some by simp
  from fields(3) have sorted: "sorted_wrt (<) (map fst (take i ?D @ (j, Loaded d) # R))"
    using split by (simp add: buckets_ok_def)
  have okR: "\<forall>e \<in> set R. bucket_ok c base s e"
    using fields(3) by (auto simp: R_def buckets_ok_def dest: in_set_dropD)
  show ?thesis
  proof (cases "i = 0")
    case True
    with drop fields(3) have "j = 0" by (simp add: buckets_ok_def)
    with True drop count Some ip fields have "flush_front c q
        = Inr (flushing base ?D p (bucket_new_back_values q) (bucket_delete_storage_first q), [])"
      by (cases q) (simp add: flush_front_def move_front_bucket_def flushing_def clean_view_def cursor_new_def)
    with True fields drop tail d show ?thesis
      by (intro exI [of _ ?D] exI [of _ p] exI [of _ "[]"])
        (simp add: ops1_def apply_operations_def flush_inv_def)
  next
    case False
    then obtain e0 D0 where e0: "take i ?D = e0 # D0" using fields(4) by (cases "take i ?D") auto
    with split fields(3) have "fst e0 = 0" by (simp add: buckets_ok_def)
    with sorted e0 have j: "0 < j" by auto
    define ops where "ops = dels @ [Delete (get_index_key c base j), Put (get_index_key c base 0) (value_to c d)]"
    define m where "m = apply_operations ops s"
    have "flush_front c q
        = Inr (flushing base ((0, Loaded d) # R) p (bucket_new_back_values q) (bucket_delete_storage_first q), ops)"
      using False drop count Some ip fields j
      by (simp add: flush_front_def move_front_bucket_def flushing_def clean_view_def cursor_new_def ops_def dels_def)
    moreover have "flush_inv c base m ((0, Loaded d) # R) p"
      and "map (bucket_values c base m) R = map (bucket_values c base s) R"
    proof -
      have R: "m (get_index_key c base (fst e)) = s (get_index_key c base (fst e))" "0 < fst e" if "e \<in> set R" for e
      proof -
        from sorted that have "j < fst e" "\<forall>x \<in> set (take i ?D). fst x < fst e"
          by (auto simp: sorted_wrt_append)
        with j fields(1) show "m (get_index_key c base (fst e)) = s (get_index_key c base (fst e))" "0 < fst e"
          by (auto simp: m_def ops_def dels_def apply_deletes get_index_key_inj)
      qed
      have same: "bucket_ok c base m e = bucket_ok c base s e" "bucket_values c base m e = bucket_values c base s e"
        if "e \<in> set R" for e
        using bucket_ok_cong [of m c base e s] R [OF that] by simp_all
      then show "map (bucket_values c base m) R = map (bucket_values c base s) R" by simp
      have "d \<noteq> []" using buckets_ok_set [OF fields(3) nth_mem [OF fields(4)]] d by (simp add: bucket_ok_def)
      then have "bucket_ok c base m (0, Loaded d)" by (simp add: bucket_ok_def m_def ops_def)
      moreover have "p < length d" using fields(6) d by simp
      ultimately show "flush_inv c base m ((0, Loaded d) # R) p"
        using okR same(1) sorted R(2) by (auto simp: flush_inv_def buckets_ok_def sorted_wrt_append)
    qed
    ultimately show ?thesis using fields(7) tail
      by (intro exI [of _ "(0, Loaded d) # R"] exI [of _ p] exI [of _ ops]) (simp add: ops1_def m_def cong: map_cong)
  qed
qed

lemma buckets_ok_cong:
  assumes "\<And>i. s' (get_index_key c base i) = s (get_index_key c base i)"
  shows "buckets_ok c base s' D = buckets_ok c base s D" "bucket_values c base s' = bucket_values c base s"
  using assms bucket_ok_cong [of s' c base _ s] by (auto simp: buckets_ok_def split: list.split)

lemma bucket_flush_contents:
  assumes inv: "bucket_inv c N base s q"
  shows "\<exists>q' b' d ops. bucket_flush c N q b = Inr (q', b', d) \<and> operations b' = operations b @ ops
          \<and> bucket_inv c N base (apply_operations ops s) q'
          \<and> bucket_contents c (apply_operations ops s) q' = bucket_contents c s q
          \<and> bucket_rollback q' = q'"
proof -
  let ?ops1 = "if bucket_delete_storage_first q then [DeletePrefix base] else []"
  let ?del = "bucket_delete_storage_first q" and ?new = "bucket_new_back_values q"
  let ?store_key = "base_tag base (bucket_key_tag_byte Bucket_Store)"
  from inv have fields: "view_codec_ok c" "0 < N" "bucket_base_key q = base" by (simp_all add: bucket_inv_def)
  from flush_front_ok [OF inv] obtain D p ops2 where
    front: "flush_front c q = Inr (flushing base D p ?new ?del, ops2)"
    "flush_inv c base (apply_operations (?ops1 @ ops2) s) D p"
    "drop p (concat (map (bucket_values c base (apply_operations (?ops1 @ ops2) s)) D))
      = bucket_tail c base s (stored_data q) (bucket_cursor q)"
    "?del \<longrightarrow> apply_operations (?ops1 @ ops2) s ?store_key = None"
    by blast
  define m2 where "m2 = apply_operations (?ops1 @ ops2) s"
  from flush_back_ok [OF fields(1,2) front(2), of ?new ?del] obtain D' ops3 where
    rear: "flush_back c N (flushing base D p ?new ?del) = Inr (flushing base D' p [] ?del, ops3)"
    "flush_inv c base (apply_operations ops3 m2) D' p"
    "concat (map (bucket_values c base (apply_operations ops3 m2)) D')
      = concat (map (bucket_values c base m2) D) @ ?new"
    "apply_operations ops3 m2 ?store_key = m2 ?store_key"
    unfolding m2_def by blast
  define m3 where "m3 = apply_operations ops3 m2"
  define ops4 where "ops4 = (if \<not> ?del \<or> D' \<noteq> []
    then [Put ?store_key (state_to c (bucket_stored_indices D' p))] else [])"
  define m4 where "m4 = apply_operations ops4 m3"
  have m4: "apply_operations (?ops1 @ ops2 @ ops3 @ ops4) s = m4"
    by (simp add: m4_def m3_def m2_def)
  let ?q = "clean_view base D' p"
  have flush: "bucket_flush c N q b = Inr (?q, b\<lparr>operations := operations b @ ?ops1 @ ops2 @ ops3 @ ops4\<rparr>,
      ?del \<and> ?new = [])"
    using front(1) rear(1) fields(3) by (simp add: bucket_flush_def Let_def ops4_def flushing_def clean_view_def)
  have keys: "m4 (get_index_key c base i) = m3 (get_index_key c base i)" for i
    by (simp add: m4_def ops4_def bucket_keys(3) del: bucket_key_tag_byte.simps)
  note same = buckets_ok_cong [where s' = m4 and s = m3 and c = c and base = base, OF keys]
  from rear(2) have D': "buckets_ok c base m4 D'" "D' = [] \<Longrightarrow> p = 0"
    "D' \<noteq> [] \<Longrightarrow> p < bucket_len (snd (hd D'))"
    unfolding same(1) m3_def by (auto simp: flush_inv_def split: list.splits)
  have "from_bytes_option_or_default (state_from c) bucket_default_indices (m4 ?store_key)
      = Inr (bucket_stored_indices D' p)"
  proof (cases "?del \<and> D' = []")
    case True
    then have "m4 ?store_key = None"
      using front(4) rear(4) by (simp add: m4_def ops4_def m3_def m2_def)
    with True D'(2) show ?thesis by (simp add: bucket_default_indices_def bucket_stored_indices_def)
  next
    case False
    then have "m4 ?store_key = Some (state_to c (bucket_stored_indices D' p))"
      by (auto simp: m4_def ops4_def)
    with fields(1) show ?thesis by (simp add: view_codec_ok_def)
  qed
  with D' fields have "bucket_inv c N base m4 ?q"
    by (cases D') (auto simp: bucket_inv_def clean_view_def cursor_new_def buckets_ok_def)
  moreover have "bucket_contents c m4 ?q = bucket_contents c s q"
  proof -
    have "bucket_contents c m4 ?q = drop p (concat (map (bucket_values c base m2) D) @ ?new)"
      using rear(3) D'(2) by (cases D') (auto simp: bucket_contents_def bucket_tail_def clean_view_def cursor_new_def
          same(2) m3_def)
    also have "\<dots> = drop p (concat (map (bucket_values c base m2) D)) @ ?new"
    proof -
      have "p \<le> length (concat (map (bucket_values c base m2) D))"
        using front(2) unfolding m2_def [symmetric]
        by (cases D) (auto simp: flush_inv_def buckets_ok_def bucket_ok_def)
      then show ?thesis by simp
    qed
    finally show ?thesis using front(3) fields(3) by (simp add: m2_def bucket_contents_def)
  qed
  moreover have "bucket_rollback ?q = ?q" by (simp add: bucket_rollback_def clean_view_def)
  ultimately show ?thesis using flush m4
    by (intro exI [of _ ?q] exI [of _ "b\<lparr>operations := operations b @ ?ops1 @ ops2 @ ops3 @ ops4\<rparr>"]
        exI [of _ "?del \<and> ?new = []"] exI [of _ "?ops1 @ ops2 @ ops3 @ ops4"]) simp
qed

interpretation bqv: persistent_queue "bucket_inv c N base" "bucket_contents c" "\<lambda>s. bucket_front"
  "bucket_delete_front c" bucket_push_back bucket_count "bucket_elements c" bucket_clear bucket_rollback
  "bucket_flush c N" "bucket_load c base"
  for c N base
proof unfold_locales
  fix s q v b
  assume inv: "bucket_inv c N base s q"
  show "bucket_front q = Inr (first_opt (bucket_contents c s q))" using inv by (rule bucket_front_contents)
  show "\<exists>q'. bucket_delete_front c s q = Inr q' \<and> bucket_inv c N base s q'
      \<and> bucket_contents c s q' = tl (bucket_contents c s q)"
    using inv by (rule bucket_delete_front_contents)
  show "bucket_inv c N base s (bucket_push_back q v)
      \<and> bucket_contents c s (bucket_push_back q v) = bucket_contents c s q @ [v]"
    using inv by (rule bucket_push_back_contents)
  show "bucket_count q = length (bucket_contents c s q)" using inv by (rule bucket_count_contents)
  show "bucket_elements c s q = Inr (bucket_contents c s q)" using inv by (rule bucket_elements_contents)
  show "bucket_inv c N base s (bucket_clear q) \<and> bucket_contents c s (bucket_clear q) = []"
    using inv by (rule bucket_clear_contents)
  show "bucket_inv c N base s (bucket_rollback q)
      \<and> (\<exists>q0. bucket_load c base s = Inr q0 \<and> bucket_inv c N base s q0
           \<and> bucket_contents c s (bucket_rollback q) = bucket_contents c s q0)"
    using bucket_load_inv [OF inv] by auto
  obtain q' b' d ops where fl: "bucket_flush c N q b = Inr (q', b', d)" "operations b' = operations b @ ops"
    "bucket_inv c N base (apply_operations ops s) q'"
    "bucket_contents c (apply_operations ops s) q' = bucket_contents c s q" "bucket_rollback q' = q'"
    using bucket_flush_contents [OF inv] by blast
  from bucket_load_inv [OF fl(3)] fl
  show "\<exists>q' b' d ops. bucket_flush c N q b = Inr (q', b', d) \<and> operations b' = operations b @ ops
      \<and> bucket_inv c N base (apply_operations ops s) q'
      \<and> bucket_contents c (apply_operations ops s) q' = bucket_contents c s q
      \<and> (\<exists>q0. bucket_load c base (apply_operations ops s) = Inr q0
           \<and> bucket_inv c N base (apply_operations ops s) q0
           \<and> bucket_contents c (apply_operations ops s) q0 = bucket_contents c s q)"
    by (metis (no_types, lifting))
qed

lemma seek_bucket_ok:
  assumes "\<forall>e \<in> set D. bucket_ok c base s e" and "case D of [] \<Rightarrow> p = 0 | e # _ \<Rightarrow> p \<le> bucket_len (snd e)"
    and "inc < length (drop p (concat (map (bucket_values c base s) D)))"
  shows "\<exists>k p'. seek_bucket b p inc D = Some (b + k, p') \<and> k < length D \<and> p' < bucket_len (snd (D ! k))
    \<and> drop p' (concat (map (bucket_values c base s) (drop k D)))
      = drop inc (drop p (concat (map (bucket_values c base s) D)))"
  using assms
proof (induction D arbitrary: b p inc)
  case Nil
  then show ?case by simp
next
  case (Cons e D)
  let ?d = "bucket_values c base s e"
  from Cons.prems have len: "bucket_len (snd e) = length ?d" "p \<le> length ?d" by (simp_all add: bucket_ok_def)
  show ?case
  proof (cases "inc < length ?d - p")
    case True
    with len show ?thesis by (intro exI [of _ 0] exI [of _ "p + inc"]) (auto simp: add.commute)
  next
    case False
    have "case D of [] \<Rightarrow> (0::nat) = 0 | e # _ \<Rightarrow> 0 \<le> bucket_len (snd e)" by (cases D) simp_all
    moreover have "inc - (length ?d - p) < length (drop 0 (concat (map (bucket_values c base s) D)))"
      using Cons.prems(3) False len by simp
    ultimately obtain k p' where "seek_bucket (b + 1) 0 (inc - (length ?d - p)) D = Some (b + 1 + k, p')"
      "k < length D" "p' < bucket_len (snd (D ! k))"
      "drop p' (concat (map (bucket_values c base s) (drop k D)))
        = drop (inc - (length ?d - p)) (concat (map (bucket_values c base s) D))"
      using Cons.IH [of 0 "inc - (length ?d - p)" "b + 1"] Cons.prems(1) by auto
    with False len show ?thesis
      by (intro exI [of _ "Suc k"] exI [of _ p']) (simp add: Let_def)
  qed
qed

lemma bucket_read_back_contents:
  assumes inv: "bucket_inv c N base s q"
  shows "bucket_read_back c s q n
    = Inr (drop (length (bucket_contents c s q) - n) (bucket_contents c s q))"
proof -
  define cnt where "cnt = min n (bucket_count q)"
  let ?new = "bucket_new_back_values q" and ?D = "stored_data q"
  note count = bucket_count_contents [OF inv]
  have cnt: "length (bucket_contents c s q) - n = bucket_count q - cnt" "cnt \<le> bucket_count q"
    by (auto simp: cnt_def count)
  show ?thesis
  proof (cases "cnt \<le> length ?new")
    case True
    then have "drop (bucket_count q - cnt) (bucket_contents c s q) = drop (length ?new - cnt) ?new"
      using count cnt(2) by (simp add: bucket_contents_def)
    with True cnt show ?thesis by (simp add: bucket_read_back_def cnt_def [symmetric] Let_def)
  next
    case False
    then have tail: "bucket_count q - cnt < length (bucket_tail c base s ?D (bucket_cursor q))"
      using count cnt(2) inv by (simp add: bucket_contents_def bucket_inv_def)
    then obtain i p where cur: "bucket_cursor q = Some (i, p)"
      by (cases "bucket_cursor q") (auto simp: bucket_tail_def)
    from inv cur have fields: "view_codec_ok c" "bucket_base_key q = base" "i < length ?D"
      "p < bucket_len (snd (?D ! i))" and ok: "\<forall>e \<in> set (drop i ?D). bucket_ok c base s e"
      by (auto simp: bucket_inv_def buckets_ok_def dest: in_set_dropD)
    have "case drop i ?D of [] \<Rightarrow> p = 0 | e # _ \<Rightarrow> p \<le> bucket_len (snd e)"
      using fields(3,4) by (simp add: Cons_nth_drop_Suc [symmetric])
    from seek_bucket_ok [OF ok this, of "bucket_count q - cnt" i] tail cur obtain k p' where
      seek: "seek_bucket i p (bucket_count q - cnt) (drop i ?D) = Some (i + k, p')" "i + k < length ?D"
      "p' < bucket_len (snd (?D ! (i + k)))"
      "drop p' (concat (map (bucket_values c base s) (drop (i + k) ?D)))
        = drop (bucket_count q - cnt) (bucket_tail c base s ?D (bucket_cursor q))"
      by (auto simp: bucket_tail_def add.commute)
    have ok': "\<forall>e \<in> set (drop (i + k) ?D). bucket_ok c base s e"
      using ok by (metis drop_drop add.commute in_set_dropD)
    have "case drop (i + k) ?D of [] \<Rightarrow> p' = 0 | e # _ \<Rightarrow> p' < bucket_len (snd e)"
      using seek(2,3) by (simp add: Cons_nth_drop_Suc [symmetric])
    from read_buckets_ok [OF fields(1) ok' this, of cnt] seek(4) False
    have "bucket_read_context c s q (Some (i + k, p')) cnt
        = Inr (take cnt (drop (bucket_count q - cnt) (bucket_contents c s q)))"
      using tail fields(2) by (auto simp: bucket_read_context_def bucket_contents_def Let_def)
    moreover have "take cnt (drop (bucket_count q - cnt) (bucket_contents c s q))
        = drop (bucket_count q - cnt) (bucket_contents c s q)"
      using count cnt(2) by simp
    ultimately show ?thesis
      using False seek(1) cur cnt(1) by (simp add: bucket_read_back_def cnt_def [symmetric] Let_def)
  qed
qed

lemma bucket_front_mut_flush:
  assumes inv: "bucket_inv c N base s q" and cur: "bucket_cursor q = Some (0, p)"
    and mut: "bucket_front_mut f q = Inr q1"
  shows "\<exists>q2 d b'. bucket_flush c N q1 b = Inr (q2, b', d) \<and> (\<exists>q3. bucket_flush c N q b = Inr (q3, b', d))"
proof -
  from inv cur obtain e D d where D: "stored_data q = (0, Loaded d) # D" "p < length d"
    by (cases "stored_data q") (auto simp: bucket_inv_def buckets_ok_def elim!: bucket_loaded)
  define d1 where "d1 = d[p := f (d ! p)]"
  have q1: "q1 = q\<lparr>stored_data := (0, Loaded d1) # D\<rparr>"
    using mut cur D by (simp add: bucket_front_mut_def d1_def)
  have len: "length d1 = length d" by (simp add: d1_def)
  have count: "bucket_stored_count (q\<lparr>stored_data := (0, Loaded d1) # D\<rparr>) = bucket_stored_count q"
    by (simp add: bucket_stored_count_def cur D len)
  have "bucket_stored_count q \<noteq> 0" using bucket_stored_count_0 [OF inv] cur by simp
  moreover from inv cur have "0 < N" "\<not> bucket_delete_storage_first q" by (auto simp: bucket_inv_def)
  moreover have "unused_index ((0, Loaded d1) # D) = unused_index ((0, Loaded d) # D)"
    by (simp add: last_opt_def unused_index_def split_beta)
  ultimately show ?thesis
    using cur
    by (cases "bucket_new_back_values q = []")
      (auto simp: bucket_flush_def flush_front_def count move_front_bucket_def D q1 Let_def flush_back_def
        chunks_def split_beta bucket_stored_indices_def len)
qed

definition bucket_queue_impl :: "'v bucket_codec \<Rightarrow> nat \<Rightarrow> bytes \<Rightarrow> ('v bucket_queue_view, 'v) queue_impl" where
  "bucket_queue_impl c N base_key =
     \<lparr>impl_delete_front = bucket_delete_front c, impl_push_back = bucket_push_back,
      impl_clear = bucket_clear, impl_rollback = bucket_rollback,
      impl_flush = bucket_flush c N, impl_load = bucket_load c base_key\<rparr>"

lemma bucket_load_empty:
  assumes "view_codec_ok c" and "0 < N"
  shows "\<exists>q. bucket_load c base_key Map.empty = Inr q \<and> bucket_inv c N base_key Map.empty q
    \<and> bucket_contents c Map.empty q = []"
  using assms
  by (simp add: bucket_load_def bucket_pre_load_def bucket_post_load_def bucket_inv_def bucket_contents_def
      bucket_tail_def cursor_new_def buckets_ok_def bucket_default_indices_def bucket_stored_indices_def)

text \<open>C23: A bucket queue view implements a list. Starting from an empty store, for every bucket size that
  is not zero, after any sequence of pushes, removals, clears, saves to the store, rollbacks and reloads
  no operation panics or fails, and the elements, front and size of the view and the values it reads from
  either end are those of the list obtained by the same actions.\<close>

theorem bucket_queue_view_refines_list:
  assumes "view_codec_ok c" and "0 < N"
  shows "\<exists>q0 s q. bucket_load c base_key Map.empty = Inr q0
    \<and> impl_run (bucket_queue_impl c N base_key) acts (Map.empty, q0) = Inr (s, q)
    \<and> (let cur = snd (list_run acts ([], []))
       in bucket_elements c s q = Inr cur \<and> bucket_front q = Inr (first_opt cur)
          \<and> bucket_count q = length cur \<and> bucket_read_front c s q n = Inr (take n cur)
          \<and> bucket_read_back c s q n = Inr (drop (length cur - n) cur))"
proof -
  obtain q0 where q0: "bucket_load c base_key Map.empty = Inr q0" "bucket_inv c N base_key Map.empty q0"
    "bucket_contents c Map.empty q0 = []"
    using bucket_load_empty [OF assms] by blast
  from q0 have "bqv.related c N base_key ([], []) (Map.empty, q0)" by (simp add: bqv.related_def)
  from bqv.related_run [OF this, of acts] obtain s q where
    run: "impl_run (bucket_queue_impl c N base_key) acts (Map.empty, q0) = Inr (s, q)"
    and inv: "bucket_inv c N base_key s q" "bucket_contents c s q = snd (list_run acts ([], []))"
    by (auto simp: bqv.impl_def bucket_queue_impl_def bqv.related_def)
  have "bucket_read_front c s q n = Inr (take n (snd (list_run acts ([], []))))"
    using bucket_read_front_contents [OF inv(1)] bucket_count_contents [OF inv(1)] inv(2)
    by (simp add: bucket_read_front_def min_def)
  with q0(1) run inv bucket_read_back_contents [OF inv(1), of n] show ?thesis
    by (auto simp: Let_def bqv.elements_contents bqv.front_contents bqv.count_contents)
qed

text \<open>C24: A change made through \<open>front_mut\<close> to a value of the stored front bucket is lost. The view shows
  the new value, but flushing the view, writing the batch and loading the view again brings back the
  queue as it was before the change.\<close>

theorem bucket_front_mut_lost:
  assumes "bucket_inv c N base_key s q" and "bucket_cursor q = Some (0, p)"
    and "bucket_contents c s q = v # vs"
  shows "\<exists>q1 q2 b d q3. bucket_front_mut f q = Inr q1 \<and> bucket_front q1 = Inr (Some (f v))
    \<and> bucket_flush c N q1 batch_new = Inr (q2, b, d)
    \<and> bucket_load c base_key (apply_batch b s) = Inr q3
    \<and> bucket_elements c (apply_batch b s) q3 = Inr (v # vs)"
proof -
  note inv = assms(1) and cur = assms(2)
  from inv cur obtain D d where D: "stored_data q = (0, Loaded d) # D" "p < length d"
    by (cases "stored_data q") (auto simp: bucket_inv_def buckets_ok_def elim!: bucket_loaded)
  from bucket_front_contents [OF inv] assms(3) cur D have v: "d ! p = v"
    by (simp add: bucket_front_def)
  define q1 where "q1 = q\<lparr>stored_data := (0, Loaded (d[p := f v])) # D\<rparr>"
  have mut: "bucket_front_mut f q = Inr q1" "bucket_front q1 = Inr (Some (f v))"
    using cur D v by (simp_all add: bucket_front_mut_def q1_def bucket_front_def)
  from bqv.flush_contents [OF inv, of batch_new] obtain q' b d' ops q3 where
    flush: "bucket_flush c N q batch_new = Inr (q', b, d')" "operations b = ops"
    "bucket_load c base_key (apply_operations ops s) = Inr q3"
    "bucket_inv c N base_key (apply_operations ops s) q3"
    "bucket_contents c (apply_operations ops s) q3 = v # vs"
    using assms(3) by (auto simp: batch_new_def)
  from bucket_front_mut_flush [OF inv cur mut(1), of batch_new] flush(1)
  have "\<exists>q2. bucket_flush c N q1 batch_new = Inr (q2, b, d')" by auto
  with mut flush(2-) bqv.elements_contents [OF flush(4)] show ?thesis
    by (auto simp: apply_batch_def)
qed

end
