(* ===== verification/View_Codecs.thy ===== *)
theory View_Codecs
  imports Bcs_Codec Bucket_Queue_View
begin

section \<open>Concrete encodings for the views\<close>

text \<open>
  Codecs built from the BCS encodings of byte vectors, sequences and ULEB128 numbers. They show that the
  laws assumed of the serialisation of the views can hold, on concrete runs of the views.
\<close>

definition enc_prod :: "('a \<Rightarrow> bytes) \<Rightarrow> ('b \<Rightarrow> bytes) \<Rightarrow> 'a \<times> 'b \<Rightarrow> bytes" where
  "enc_prod enc1 enc2 xy = enc1 (fst xy) @ enc2 (snd xy)"

definition dec_prod ::
  "(bytes \<Rightarrow> ('a \<times> bytes) option) \<Rightarrow> (bytes \<Rightarrow> ('b \<times> bytes) option) \<Rightarrow> bytes \<Rightarrow> (('a \<times> 'b) \<times> bytes) option" where
  "dec_prod dec1 dec2 bs = Option.bind (dec1 bs) (\<lambda>(x, rest).
     map_option (\<lambda>(y, rest). ((x, y), rest)) (dec2 rest))"

lemma decodes_prod: "decodes enc1 dec1 \<Longrightarrow> decodes enc2 dec2 \<Longrightarrow> decodes (enc_prod enc1 enc2) (dec_prod dec1 dec2)"
  by (simp add: decodes_def enc_prod_def dec_prod_def)

definition from_whole :: "(bytes \<Rightarrow> ('a \<times> bytes) option) \<Rightarrow> bytes \<Rightarrow> (view_error, 'a) res" where
  "from_whole dec bs = (case dec bs of Some (x, []) \<Rightarrow> Inr x | _ \<Rightarrow> Inl View_BcsError)"

lemma from_whole_decodes: "decodes enc dec \<Longrightarrow> from_whole dec (enc x) = Inr x"
  using append_Nil2 [of "enc x"] unfolding decodes_def from_whole_def by (metis (no_types, lifting) list.simps(4) option.simps(5) prod.simps(2))

lemma inj_uleb128: "inj uleb128"
proof (rule injI)
  fix a b assume "uleb128 a = uleb128 b"
  moreover have "dec_uleb128 (uleb128 n @ []) = Some (n, [])" for n
    using decodes_uleb128 unfolding decodes_def by blast
  ultimately show "a = b" by (metis option.inject prod.inject)
qed

definition demo_view_codec :: "(bytes, nat \<times> nat) view_codec" where
  "demo_view_codec = \<lparr>value_to = enc_bytes, value_from = from_whole dec_bytes,
     state_to = enc_prod uleb128 uleb128, state_from = from_whole (dec_prod dec_uleb128 dec_uleb128),
     index_to = uleb128\<rparr>"

lemma demo_view_codec_ok: "view_codec_ok demo_view_codec"
  by (simp add: view_codec_ok_def demo_view_codec_def inj_uleb128 decodes_prod decodes_uleb128 decodes_bytes
      from_whole_decodes)

abbreviation demo_actions :: "bytes queue_action list" where
  "demo_actions \<equiv> [Push [1], Push [2], Save, Push [3], Pop, Reload, Pop, Push [4], Save, Reload]"

theorem queue_view_refines_list_witness:
  "\<exists>q0 s q. queue_load demo_view_codec [7] Map.empty = Inr q0
    \<and> impl_run (queue_view_impl demo_view_codec [7]) demo_actions (Map.empty, q0) = Inr (s, q)
    \<and> queue_elements demo_view_codec s q = Inr [[2], [4]]"
  using queue_view_refines_list [OF demo_view_codec_ok, of "[7]" demo_actions]
  by (auto simp: list_run_def simp del: impl_run.simps)

text \<open>The bucket queue stores sequences of byte vectors and the indices of the buckets.\<close>

definition demo_bucket_codec :: "bytes bucket_codec" where
  "demo_bucket_codec = \<lparr>value_to = enc_vec enc_bytes, value_from = from_whole (dec_vec dec_bytes),
     state_to = (\<lambda>ix. enc_prod (enc_vec (enc_prod uleb128 uleb128)) uleb128 (indices ix, indices_position ix)),
     state_from = (\<lambda>bs. and_then (from_whole (dec_prod (dec_vec (dec_prod dec_uleb128 dec_uleb128)) dec_uleb128) bs)
        (\<lambda>(ixs, p). Inr \<lparr>indices = ixs, indices_position = p\<rparr>)),
     index_to = uleb128\<rparr>"

lemma demo_bucket_codec_ok: "view_codec_ok demo_bucket_codec"
  by (simp add: view_codec_ok_def demo_bucket_codec_def inj_uleb128 decodes_prod decodes_vec decodes_uleb128
      decodes_bytes from_whole_decodes)

theorem bucket_queue_view_refines_list_witness:
  "\<exists>q0 s q. bucket_load demo_bucket_codec [7] Map.empty = Inr q0
    \<and> impl_run (bucket_queue_impl demo_bucket_codec 1 [7]) demo_actions (Map.empty, q0) = Inr (s, q)
    \<and> bucket_elements demo_bucket_codec s q = Inr [[2], [4]]
    \<and> bucket_read_back demo_bucket_codec s q 1 = Inr [[4]]"
  using bucket_queue_view_refines_list [OF demo_bucket_codec_ok, of 1 "[7]" demo_actions 1]
  by (auto simp: list_run_def simp del: impl_run.simps)

definition demo_bucket_store :: key_values where
  "demo_bucket_store = Map.empty
     (get_index_key demo_bucket_codec [7] 0 \<mapsto> value_to demo_bucket_codec [[1], [2]],
      base_tag [7] (bucket_key_tag_byte Bucket_Store) \<mapsto>
        state_to demo_bucket_codec (bucket_stored_indices [(0, Loaded [[1], [2 :: u8]])] 0))"

lemma demo_bucket_inv:
  "bucket_inv demo_bucket_codec 5 [7] demo_bucket_store (clean_view [7] [(0, Loaded [[1], [2]])] 0)"
  using demo_bucket_codec_ok bucket_keys(3) [of demo_bucket_codec "[7]" 0]
  by (simp add: bucket_inv_def clean_view_def cursor_new_def buckets_ok_def bucket_ok_def demo_bucket_store_def
      view_codec_ok_def del: bucket_key_tag_byte.simps)

theorem bucket_front_mut_lost_witness:
  "\<exists>q1 q2 b d q3. bucket_front_mut (\<lambda>_. [9]) (clean_view [7] [(0, Loaded [[1], [2]])] 0) = Inr q1
    \<and> bucket_front q1 = Inr (Some [9])
    \<and> bucket_flush demo_bucket_codec 5 q1 batch_new = Inr (q2, b, d)
    \<and> bucket_load demo_bucket_codec [7] (apply_batch b demo_bucket_store) = Inr q3
    \<and> bucket_elements demo_bucket_codec (apply_batch b demo_bucket_store) q3 = Inr [[1], [2]]"
  by (rule bucket_front_mut_lost [OF demo_bucket_inv, of 0])
    (simp_all add: clean_view_def cursor_new_def bucket_contents_def bucket_tail_def)

end
