(* ===== verification/Mailboxes.thy ===== *)
theory Mailboxes
  imports Certificates
begin

section \<open>Inboxes and outboxes (linera-chain)\<close>

text \<open>
  \<open>linera-chain/src/inbox.rs\<close> and \<open>outbox.rs\<close>. The queue views are lists, which theory
  \<open>Queue_View\<close> justifies, and the registers are their values. An operation that fails
  returns only the error: the changes it staged in the view are discarded with the view.

  The history of an inbox is the list of the bundles added to it and of those removed from it by
  executed blocks. \<open>inbox_reconciles\<close> relates the two: what was removed is what was added, but for
  skippable bundles and for the bundles still waiting on one side.
\<close>

subsection \<open>Cursors\<close>

datatype inbox_cursor = Cursor (cursor_height: block_height) (cursor_index: u32)

instantiation inbox_cursor :: linorder
begin

definition less_eq_inbox_cursor :: "inbox_cursor \<Rightarrow> inbox_cursor \<Rightarrow> bool" where
  "less_eq_inbox_cursor a b \<longleftrightarrow> cursor_height a < cursor_height b \<or>
     cursor_height a = cursor_height b \<and> cursor_index a \<le> cursor_index b"

definition less_inbox_cursor :: "inbox_cursor \<Rightarrow> inbox_cursor \<Rightarrow> bool" where
  "less_inbox_cursor a b \<longleftrightarrow> cursor_height a < cursor_height b \<or>
     cursor_height a = cursor_height b \<and> cursor_index a < cursor_index b"

instance
  by standard (auto simp: less_eq_inbox_cursor_def less_inbox_cursor_def intro: inbox_cursor.expand)

end

definition cursor_default :: inbox_cursor where
  "cursor_default = Cursor 0 0"

definition cursor_from :: "message_bundle \<Rightarrow> inbox_cursor" where
  "cursor_from bundle = Cursor (mb_height bundle) (mb_transaction_index bundle)"

definition cursor_try_add_one :: "inbox_cursor \<Rightarrow> (arithmetic_error, inbox_cursor) res" where
  "cursor_try_add_one self =
     and_then (ok_or (checked_add (cursor_index self) 1) Overflow)
       (\<lambda>index. Inr (Cursor (cursor_height self) index))"

lemma cursor_default_least [simp]: "cursor_default \<le> x"
  by (auto simp: cursor_default_def less_eq_inbox_cursor_def word_gt_0)

text \<open>The next cursor is the least one above.\<close>

lemma cursor_try_add_one_iff:
  assumes "cursor_try_add_one c = Inr d"
  shows "x < d \<longleftrightarrow> x \<le> c"
proof -
  from assms obtain i where d: "d = Cursor (cursor_height c) i" and i: "unat i = unat (cursor_index c) + 1"
    by (auto simp: cursor_try_add_one_def checked_add_Some_iff)
  have "unat (cursor_index x) < unat i \<longleftrightarrow> unat (cursor_index x) \<le> unat (cursor_index c)"
    using i by linarith
  with d show ?thesis
    by (auto simp: less_inbox_cursor_def less_eq_inbox_cursor_def word_less_nat_alt word_le_nat_alt)
qed

subsection \<open>The inbox\<close>

record inbox_state =
  next_cursor_to_add :: inbox_cursor
  next_cursor_to_remove :: inbox_cursor
  added_bundles :: "message_bundle list"
  removed_bundles :: "message_bundle list"

datatype inbox_error =
    InboxArithmeticError arithmetic_error
  | UnexpectedBundle message_bundle message_bundle
  | IncorrectOrder message_bundle inbox_cursor
  | UnskippableBundle message_bundle

definition inbox_new :: inbox_state where
  "inbox_new = \<lparr>next_cursor_to_add = cursor_default, next_cursor_to_remove = cursor_default,
     added_bundles = [], removed_bundles = []\<rparr>"

fun chain_error_from_inbox :: "chain_id \<Rightarrow> origin \<Rightarrow> inbox_error \<Rightarrow> chain_error" where
  "chain_error_from_inbox chain orig (InboxArithmeticError e) = ChainArithmeticError e"
| "chain_error_from_inbox chain orig (UnexpectedBundle bundle previous) = UnexpectedMessage chain orig bundle previous"
| "chain_error_from_inbox chain orig (IncorrectOrder bundle next_cursor) =
     IncorrectMessageOrder chain orig bundle (cursor_height next_cursor) (cursor_index next_cursor)"
| "chain_error_from_inbox chain orig (UnskippableBundle bundle) = CannotSkipMessage chain orig bundle"

definition inbox_next_block_height_to_receive :: "inbox_state \<Rightarrow> (chain_error, block_height) res" where
  "inbox_next_block_height_to_receive self =
     (let c = next_cursor_to_add self
      in if cursor_index c = 0 then Inr (cursor_height c)
         else map_err ChainArithmeticError (try_add_one (cursor_height c)))"

text \<open>The loop of \<open>remove_bundle\<close> that discards the added bundles with lower cursors.\<close>

fun discard_lower :: "inbox_cursor \<Rightarrow> message_bundle list \<Rightarrow> (inbox_error, message_bundle list) res" where
  "discard_lower cursor [] = Inr []"
| "discard_lower cursor (previous_bundle # rest) =
     (if cursor \<le> cursor_from previous_bundle then Inr (previous_bundle # rest)
      else and_then (ensure (mb_is_skippable previous_bundle) (UnskippableBundle previous_bundle))
             (\<lambda>_. discard_lower cursor rest))"

definition remove_bundle :: "inbox_state \<Rightarrow> message_bundle \<Rightarrow> (inbox_error, inbox_state \<times> bool) res" where
  "remove_bundle self bundle =
     (let cursor = cursor_from bundle
      in and_then (ensure (next_cursor_to_remove self \<le> cursor) (IncorrectOrder bundle (next_cursor_to_remove self))) (\<lambda>_.
         and_then (discard_lower cursor (added_bundles self)) (\<lambda>added.
         and_then
           (case added of
              previous_bundle # rest \<Rightarrow>
                and_then (ensure (bundle = previous_bundle) (UnexpectedBundle bundle previous_bundle)) (\<lambda>_.
                  Inr (self\<lparr>added_bundles := rest\<rparr>, True))
            | [] \<Rightarrow>
                Inr (self\<lparr>added_bundles := [], removed_bundles := removed_bundles self @ [bundle]\<rparr>, False))
           (\<lambda>(self, already_known).
         and_then (map_err InboxArithmeticError (cursor_try_add_one cursor)) (\<lambda>next_cursor.
           Inr (self\<lparr>next_cursor_to_remove := next_cursor\<rparr>, already_known))))))"

definition add_bundle :: "inbox_state \<Rightarrow> message_bundle \<Rightarrow> (inbox_error, inbox_state \<times> bool) res" where
  "add_bundle self bundle =
     (let cursor = cursor_from bundle
      in and_then (ensure (next_cursor_to_add self \<le> cursor) (IncorrectOrder bundle (next_cursor_to_add self))) (\<lambda>_.
         and_then
           (case removed_bundles self of
              previous_bundle # rest \<Rightarrow>
                if cursor_from previous_bundle = cursor
                then and_then (ensure (bundle = previous_bundle) (UnexpectedBundle bundle previous_bundle)) (\<lambda>_.
                       Inr (self\<lparr>removed_bundles := rest\<rparr>, False))
                else and_then (ensure (cursor < cursor_from previous_bundle \<and> mb_is_skippable bundle)
                         (UnexpectedBundle bundle previous_bundle)) (\<lambda>_. Inr (self, False))
            | [] \<Rightarrow> Inr (self\<lparr>added_bundles := added_bundles self @ [bundle]\<rparr>, True))
           (\<lambda>(self, newly_added).
         and_then (map_err InboxArithmeticError (cursor_try_add_one cursor)) (\<lambda>next_cursor.
           Inr (self\<lparr>next_cursor_to_add := next_cursor\<rparr>, newly_added)))))"

subsection \<open>The outbox\<close>

record outbox_state =
  next_height_to_schedule :: block_height
  outbox_queue :: "block_height list"

definition outbox_new :: outbox_state where
  "outbox_new = \<lparr>next_height_to_schedule = 0, outbox_queue = []\<rparr>"

definition schedule_message ::
  "outbox_state \<Rightarrow> block_height \<Rightarrow> (arithmetic_error, outbox_state \<times> bool) res" where
  "schedule_message self height =
     (if height < next_height_to_schedule self then Inr (self, False)
      else and_then (try_add_one height) (\<lambda>next_height.
        Inr (self\<lparr>next_height_to_schedule := next_height, outbox_queue := outbox_queue self @ [height]\<rparr>, True)))"

text \<open>The loop of \<open>mark_messages_as_received\<close>: the heights taken from the queue and the rest.\<close>

fun take_received :: "block_height \<Rightarrow> block_height list \<Rightarrow> block_height list \<times> block_height list" where
  "take_received height [] = ([], [])"
| "take_received height (h # queue) =
     (if h > height then ([], h # queue)
      else let (updates, rest) = take_received height queue in (h # updates, rest))"

definition outbox_mark_messages_as_received ::
  "outbox_state \<Rightarrow> block_height \<Rightarrow> outbox_state \<times> block_height list" where
  "outbox_mark_messages_as_received self height =
     (let (updates, rest) = take_received height (outbox_queue self)
      in (self\<lparr>outbox_queue := rest\<rparr>, updates))"

subsection \<open>The history of an inbox\<close>

inductive inbox_history :: "message_bundle list \<Rightarrow> message_bundle list \<Rightarrow> inbox_state \<Rightarrow> bool" where
  history_new: "inbox_history [] [] inbox_new"
| history_add: "inbox_history A R ib \<Longrightarrow> add_bundle ib b = Inr (ib', newly_added) \<Longrightarrow> inbox_history (A @ [b]) R ib'"
| history_remove:
    "inbox_history A R ib \<Longrightarrow> remove_bundle ib b = Inr (ib', already_known) \<Longrightarrow> inbox_history A (R @ [b]) ib'"

text \<open>\<open>R\<close> is what was taken out of the bundles \<open>A\<close>, whose other bundles could be skipped.\<close>

definition inbox_reconciles :: "message_bundle list \<Rightarrow> message_bundle list \<Rightarrow> bool" where
  "inbox_reconciles A R \<longleftrightarrow> R = filter (\<lambda>b. b \<in> set R) A \<and> (\<forall>b \<in> set A - set R. mb_is_skippable b)"

abbreviation increasing :: "message_bundle list \<Rightarrow> bool" where
  "increasing bs \<equiv> sorted_wrt (<) (map cursor_from bs)"

definition inbox_inv :: "message_bundle list \<Rightarrow> message_bundle list \<Rightarrow> inbox_state \<Rightarrow> bool" where
  "inbox_inv A R ib \<longleftrightarrow>
     (\<exists>A1 R1. A = A1 @ added_bundles ib \<and> R = R1 @ removed_bundles ib \<and> inbox_reconciles A1 R1)
     \<and> (added_bundles ib = [] \<or> removed_bundles ib = []) \<and> increasing A \<and> increasing R
     \<and> (\<forall>b \<in> set A. cursor_from b < next_cursor_to_add ib)
     \<and> (\<forall>b \<in> set R. cursor_from b < next_cursor_to_remove ib)
     \<and> (\<forall>b \<in> set (added_bundles ib). next_cursor_to_remove ib \<le> cursor_from b)
     \<and> (\<forall>b \<in> set (removed_bundles ib). next_cursor_to_add ib \<le> cursor_from b)
     \<and> (if removed_bundles ib \<noteq> []
        then cursor_try_add_one (cursor_from (last (removed_bundles ib))) = Inr (next_cursor_to_remove ib)
        else if added_bundles ib \<noteq> []
        then cursor_try_add_one (cursor_from (last (added_bundles ib))) = Inr (next_cursor_to_add ib)
        else next_cursor_to_add ib = next_cursor_to_remove ib)"

lemma inbox_reconciles_subset: "inbox_reconciles A R \<Longrightarrow> set R \<subseteq> set A"
  unfolding inbox_reconciles_def by (metis filter_is_subset)

lemma inbox_reconciles_skip:
  assumes "inbox_reconciles A R" and "set A \<inter> set S = {}" and "list_all mb_is_skippable S"
  shows "inbox_reconciles (A @ S) R"
proof -
  have "filter (\<lambda>b. b \<in> set R) S = []"
    using inbox_reconciles_subset [OF assms(1)] assms(2) by (auto simp: filter_empty_conv)
  with assms(1,3) show ?thesis by (auto simp: inbox_reconciles_def list_all_iff)
qed

lemma inbox_reconciles_take:
  assumes "inbox_reconciles A R" and "b \<notin> set A"
  shows "inbox_reconciles (A @ [b]) (R @ [b])"
proof -
  have "filter (\<lambda>x. x \<in> set (R @ [b])) A = filter (\<lambda>x. x \<in> set R) A"
    using assms(2) by (intro filter_cong) auto
  with assms(1) show ?thesis by (auto simp: inbox_reconciles_def)
qed

lemma discard_lower_ok:
  assumes "discard_lower c bs = Inr rest"
  obtains S where "bs = S @ rest" and "list_all mb_is_skippable S" and "\<forall>b \<in> set S. cursor_from b < c"
    and "rest = [] \<or> c \<le> cursor_from (hd rest)"
proof -
  from assms have "\<exists>S. bs = S @ rest \<and> list_all mb_is_skippable S \<and> (\<forall>b \<in> set S. cursor_from b < c)
      \<and> (rest = [] \<or> c \<le> cursor_from (hd rest))"
  proof (induction c bs rule: discard_lower.induct)
    case (2 c b bs)
    show ?case
    proof (cases "c \<le> cursor_from b")
      case True
      with 2 show ?thesis by (intro exI [of _ "[]"]) auto
    next
      case False
      with 2 obtain S where "bs = S @ rest" "list_all mb_is_skippable S" "\<forall>b \<in> set S. cursor_from b < c"
        "rest = [] \<or> c \<le> cursor_from (hd rest)" "mb_is_skippable b"
        by (auto split: if_splits)
      with False show ?thesis by (intro exI [of _ "b # S"]) auto
    qed
  qed simp
  then show ?thesis using that by blast
qed

lemma increasing_snoc: "increasing (bs @ [b]) \<longleftrightarrow> increasing bs \<and> (\<forall>x \<in> set bs. cursor_from x < cursor_from b)"
  by (auto simp: sorted_wrt_append)

lemma increasing_distinct: "increasing bs \<Longrightarrow> distinct bs"
  by (induction bs) auto

lemma add_bundle_Inr:
  assumes "add_bundle ib b = Inr (ib', n)"
  obtains d where "next_cursor_to_add ib \<le> cursor_from b" and "cursor_try_add_one (cursor_from b) = Inr d"
    and "removed_bundles ib = [] \<and> n \<and> ib' = ib\<lparr>added_bundles := added_bundles ib @ [b], next_cursor_to_add := d\<rparr>
      \<or> \<not> n \<and> (\<exists>rest. removed_bundles ib = b # rest \<and> ib' = ib\<lparr>removed_bundles := rest, next_cursor_to_add := d\<rparr>)
      \<or> \<not> n \<and> removed_bundles ib \<noteq> [] \<and> cursor_from b < cursor_from (hd (removed_bundles ib)) \<and> mb_is_skippable b
        \<and> ib' = ib\<lparr>next_cursor_to_add := d\<rparr>"
proof -
  from assms obtain d where d: "next_cursor_to_add ib \<le> cursor_from b" "cursor_try_add_one (cursor_from b) = Inr d"
    by (auto simp: add_bundle_def Let_def)
  show ?thesis
  proof (cases "removed_bundles ib")
    case Nil
    with assms d have "n \<and> ib' = ib\<lparr>added_bundles := added_bundles ib @ [b], next_cursor_to_add := d\<rparr>"
      by (simp add: add_bundle_def)
    with Nil show ?thesis by (intro that [OF d]) blast
  next
    case (Cons p rest)
    show ?thesis
    proof (cases "cursor_from p = cursor_from b")
      case True
      have "b = p \<and> \<not> n \<and> ib' = ib\<lparr>removed_bundles := rest, next_cursor_to_add := d\<rparr>"
        using assms d Cons True [symmetric] by (simp add: add_bundle_def)
      with Cons show ?thesis by (intro that [OF d]) blast
    next
      case False
      with assms d Cons have "cursor_from b < cursor_from p \<and> mb_is_skippable b \<and> \<not> n \<and> ib' = ib\<lparr>next_cursor_to_add := d\<rparr>"
        by (simp add: add_bundle_def)
      then show ?thesis by (intro that [OF d]) (simp add: Cons)
    qed
  qed
qed

lemma inbox_inv_next_remove:
  assumes inv: "inbox_inv A R ib" and "removed_bundles ib = []"
  shows "next_cursor_to_remove ib \<le> next_cursor_to_add ib"
proof (cases "added_bundles ib = []")
  case False
  then have "last (added_bundles ib) \<in> set (added_bundles ib)" "set (added_bundles ib) \<subseteq> set A"
    using inv by (auto simp: inbox_inv_def)
  with inv have "next_cursor_to_remove ib \<le> cursor_from (last (added_bundles ib))"
    "cursor_from (last (added_bundles ib)) < next_cursor_to_add ib"
    unfolding inbox_inv_def by auto
  then show ?thesis by simp
qed (use assms in \<open>simp add: inbox_inv_def\<close>)

lemma inbox_inv_next_add:
  assumes inv: "inbox_inv A R ib" and c: "next_cursor_to_remove ib \<le> c"
    and added: "\<forall>x \<in> set (added_bundles ib). cursor_from x < c"
  shows "next_cursor_to_add ib \<le> c"
proof (cases "removed_bundles ib = []")
  case True
  show ?thesis
  proof (cases "added_bundles ib = []")
    case False
    with True inv have "cursor_try_add_one (cursor_from (last (added_bundles ib))) = Inr (next_cursor_to_add ib)"
      by (simp add: inbox_inv_def)
    from cursor_try_add_one_iff [OF this, of c] added False show ?thesis by (meson last_in_set not_le)
  qed (use inv c True in \<open>simp add: inbox_inv_def\<close>)
next
  case False
  then have "last (removed_bundles ib) \<in> set (removed_bundles ib)" "set (removed_bundles ib) \<subseteq> set R"
    using inv by (auto simp: inbox_inv_def)
  with inv have "next_cursor_to_add ib \<le> cursor_from (last (removed_bundles ib))"
    "cursor_from (last (removed_bundles ib)) < next_cursor_to_remove ib"
    unfolding inbox_inv_def by auto
  with c show ?thesis by simp
qed

lemma add_bundle_inv:
  assumes inv: "inbox_inv A R ib" and add: "add_bundle ib b = Inr (ib', n)"
  shows "inbox_inv (A @ [b]) R ib'"
proof -
  let ?c = "cursor_from b"
  from inv obtain A1 R1 where A: "A = A1 @ added_bundles ib" "R = R1 @ removed_bundles ib" "inbox_reconciles A1 R1"
    unfolding inbox_inv_def by blast
  from add obtain d where c: "next_cursor_to_add ib \<le> ?c" and d: "cursor_try_add_one ?c = Inr d"
    and outcome: "removed_bundles ib = [] \<and> n \<and> ib' = ib\<lparr>added_bundles := added_bundles ib @ [b], next_cursor_to_add := d\<rparr>
      \<or> \<not> n \<and> (\<exists>rest. removed_bundles ib = b # rest \<and> ib' = ib\<lparr>removed_bundles := rest, next_cursor_to_add := d\<rparr>)
      \<or> \<not> n \<and> removed_bundles ib \<noteq> [] \<and> ?c < cursor_from (hd (removed_bundles ib)) \<and> mb_is_skippable b
        \<and> ib' = ib\<lparr>next_cursor_to_add := d\<rparr>"
    by (rule add_bundle_Inr)
  from c inv have below: "\<forall>x \<in> set A. cursor_from x < ?c" unfolding inbox_inv_def by (meson less_le_trans)
  then have new: "b \<notin> set A" by auto
  note next_iff = cursor_try_add_one_iff [OF d]
  then have d_le: "d \<le> x \<longleftrightarrow> ?c < x" for x by (meson not_le)
  have sorted: "increasing (A @ [b])" unfolding increasing_snoc using inv below by (simp add: inbox_inv_def)
  from outcome show ?thesis
  proof (elim disjE conjE exE)
    assume *: "removed_bundles ib = []" "ib' = ib\<lparr>added_bundles := added_bundles ib @ [b], next_cursor_to_add := d\<rparr>"
    with inbox_inv_next_remove [OF inv] c have "next_cursor_to_remove ib \<le> ?c" by simp
    then show ?thesis
      using inv * A sorted below d unfolding inbox_inv_def by (auto simp: next_iff d_le less_imp_le)
  next
    fix rest
    assume *: "removed_bundles ib = b # rest" "ib' = ib\<lparr>removed_bundles := rest, next_cursor_to_add := d\<rparr>"
    with inv have added: "added_bundles ib = []" by (simp add: inbox_inv_def)
    have "inbox_reconciles (A1 @ [b]) (R1 @ [b])" using inbox_reconciles_take [OF A(3)] new A(1) by simp
    moreover have "\<forall>x \<in> set rest. ?c < cursor_from x"
      using inv A(2) * by (auto simp: inbox_inv_def sorted_wrt_append)
    moreover have "rest = [] \<Longrightarrow> next_cursor_to_remove ib = d" using inv * d by (simp add: inbox_inv_def)
    ultimately show ?thesis
      using inv * A sorted below added unfolding inbox_inv_def
      by (auto simp: next_iff d_le less_imp_le split: if_splits)
  next
    assume *: "removed_bundles ib \<noteq> []" "?c < cursor_from (hd (removed_bundles ib))" "mb_is_skippable b"
      "ib' = ib\<lparr>next_cursor_to_add := d\<rparr>"
    with inv have added: "added_bundles ib = []" by (simp add: inbox_inv_def)
    have "inbox_reconciles (A1 @ [b]) R1" using inbox_reconciles_skip [OF A(3), of "[b]"] new A(1) *(3) by simp
    moreover have "\<forall>x \<in> set (removed_bundles ib). ?c < cursor_from x"
      using inv A(2) *(1,2) by (cases "removed_bundles ib") (auto simp: inbox_inv_def sorted_wrt_append)
    ultimately show ?thesis
      using inv * A sorted below added unfolding inbox_inv_def
      by (auto simp: next_iff d_le less_imp_le split: if_splits)
  qed
qed

lemma remove_bundle_Inr:
  assumes "remove_bundle ib b = Inr (ib', known)"
  obtains d S where "next_cursor_to_remove ib \<le> cursor_from b" and "cursor_try_add_one (cursor_from b) = Inr d"
    and "list_all mb_is_skippable S" and "\<forall>x \<in> set S. cursor_from x < cursor_from b"
    and "known \<and> (\<exists>rest. added_bundles ib = S @ b # rest
          \<and> ib' = ib\<lparr>added_bundles := rest, next_cursor_to_remove := d\<rparr>)
      \<or> \<not> known \<and> added_bundles ib = S \<and> ib' = ib\<lparr>added_bundles := [],
          removed_bundles := removed_bundles ib @ [b], next_cursor_to_remove := d\<rparr>"
proof -
  from assms obtain d rest where c: "next_cursor_to_remove ib \<le> cursor_from b"
    "cursor_try_add_one (cursor_from b) = Inr d" and rest: "discard_lower (cursor_from b) (added_bundles ib) = Inr rest"
    by (auto simp: remove_bundle_def Let_def)
  from rest obtain S where S: "added_bundles ib = S @ rest" "list_all mb_is_skippable S"
    "\<forall>x \<in> set S. cursor_from x < cursor_from b"
    by (rule discard_lower_ok)
  show ?thesis
  proof (cases rest)
    case Nil
    with assms c rest have "\<not> known \<and> ib' = ib\<lparr>added_bundles := [],
          removed_bundles := removed_bundles ib @ [b], next_cursor_to_remove := d\<rparr>"
      by (simp add: remove_bundle_def)
    with Nil S show ?thesis by (intro that [OF c S(2,3)]) simp
  next
    case (Cons p rest')
    with assms c rest have "b = p \<and> known \<and> ib' = ib\<lparr>added_bundles := rest', next_cursor_to_remove := d\<rparr>"
      by (simp add: remove_bundle_def)
    with Cons S show ?thesis by (intro that [OF c S(2,3)]) blast
  qed
qed

lemma remove_bundle_inv:
  assumes inv: "inbox_inv A R ib" and rem: "remove_bundle ib b = Inr (ib', known)"
  shows "inbox_inv A (R @ [b]) ib'"
proof -
  let ?c = "cursor_from b"
  from inv obtain A1 R1 where A: "A = A1 @ added_bundles ib" "R = R1 @ removed_bundles ib" "inbox_reconciles A1 R1"
    unfolding inbox_inv_def by blast
  from rem obtain d S where c: "next_cursor_to_remove ib \<le> ?c" and d: "cursor_try_add_one ?c = Inr d"
    and S: "list_all mb_is_skippable S" "\<forall>x \<in> set S. cursor_from x < ?c"
    and outcome: "known \<and> (\<exists>rest. added_bundles ib = S @ b # rest
          \<and> ib' = ib\<lparr>added_bundles := rest, next_cursor_to_remove := d\<rparr>)
      \<or> \<not> known \<and> added_bundles ib = S \<and> ib' = ib\<lparr>added_bundles := [],
          removed_bundles := removed_bundles ib @ [b], next_cursor_to_remove := d\<rparr>"
    by (rule remove_bundle_Inr)
  note next_iff = cursor_try_add_one_iff [OF d]
  then have d_le: "d \<le> x \<longleftrightarrow> ?c < x" for x by (meson not_le)
  from c inv have below: "\<forall>x \<in> set R. cursor_from x < ?c" unfolding inbox_inv_def by (meson less_le_trans)
  have sorted: "increasing (R @ [b])" unfolding increasing_snoc using inv below by (simp add: inbox_inv_def)
  have "distinct A" using inv by (auto simp: inbox_inv_def intro: increasing_distinct)
  from outcome show ?thesis
  proof (elim disjE conjE exE)
    fix rest
    assume *: "added_bundles ib = S @ b # rest" "ib' = ib\<lparr>added_bundles := rest, next_cursor_to_remove := d\<rparr>"
    with inv have removed: "removed_bundles ib = []" by (simp add: inbox_inv_def)
    have "inbox_reconciles (A1 @ S) R1"
      using \<open>distinct A\<close> A(1) * by (intro inbox_reconciles_skip A(3) S(1)) auto
    then have "inbox_reconciles ((A1 @ S) @ [b]) (R1 @ [b])"
      using \<open>distinct A\<close> A(1) * by (intro inbox_reconciles_take) auto
    then have "\<exists>A2 R2. A = A2 @ rest \<and> R @ [b] = R2 @ [] \<and> inbox_reconciles A2 R2"
      using A(1,2) * removed by (intro exI [of _ "A1 @ S @ [b]"] exI [of _ "R1 @ [b]"]) simp
    moreover have "\<forall>x \<in> set rest. ?c < cursor_from x"
      using inv A(1) * by (auto simp: inbox_inv_def sorted_wrt_append)
    moreover have "rest = [] \<Longrightarrow> next_cursor_to_add ib = d" using inv removed * d by (simp add: inbox_inv_def)
    ultimately show ?thesis
      using inv sorted below removed * unfolding inbox_inv_def by (auto simp: next_iff d_le less_imp_le)
  next
    assume *: "added_bundles ib = S" "ib' = ib\<lparr>added_bundles := [],
          removed_bundles := removed_bundles ib @ [b], next_cursor_to_remove := d\<rparr>"
    have "inbox_reconciles (A1 @ S) R1"
      using \<open>distinct A\<close> A(1) * by (intro inbox_reconciles_skip A(3) S(1)) auto
    then have "\<exists>A2 R2. A = A2 @ [] \<and> R @ [b] = R2 @ removed_bundles ib @ [b] \<and> inbox_reconciles A2 R2"
      using A * by (intro exI [of _ "A1 @ S"] exI [of _ R1]) simp
    moreover have "next_cursor_to_add ib \<le> ?c" using inbox_inv_next_add [OF inv c] S(2) *(1) by simp
    ultimately show ?thesis
      using inv sorted below *(2) d unfolding inbox_inv_def by (auto simp: next_iff d_le less_imp_le)
  qed
qed

lemma inbox_history_inv: "inbox_history A R ib \<Longrightarrow> inbox_inv A R ib"
proof (induction rule: inbox_history.induct)
  case history_new
  show ?case by (simp add: inbox_inv_def inbox_new_def inbox_reconciles_def)
qed (auto intro: add_bundle_inv remove_bundle_inv)

definition example_bundle :: "block_height \<Rightarrow> message_bundle" where
  "example_bundle h = \<lparr>mb_height = h, mb_timestamp = 0, mb_certificate_hash = 0, mb_transaction_index = 0,
     mb_messages = []\<rparr>"

lemma example_cursor: "cursor_from (example_bundle h) = Cursor h 0"
  "cursor_try_add_one (Cursor h 0) = Inr (Cursor h 1)" "mb_is_skippable (example_bundle h)"
  by (simp_all add: cursor_from_def example_bundle_def cursor_try_add_one_def checked_add_def mb_is_skippable_def)

text \<open>A bundle is added and skipped, the next one is executed before it is received.\<close>

lemma example_history:
  "inbox_history [example_bundle 1] [example_bundle 2]
     \<lparr>next_cursor_to_add = Cursor 1 1, next_cursor_to_remove = Cursor 2 1, added_bundles = [],
      removed_bundles = [example_bundle 2]\<rparr>"
proof -
  have "add_bundle inbox_new (example_bundle 1) = Inr (\<lparr>next_cursor_to_add = Cursor 1 1,
      next_cursor_to_remove = cursor_default, added_bundles = [example_bundle 1], removed_bundles = []\<rparr>, True)"
    by (simp add: add_bundle_def inbox_new_def example_cursor)
  from history_add [OF history_new this]
  have one: "inbox_history [example_bundle 1] [] \<lparr>next_cursor_to_add = Cursor 1 1,
      next_cursor_to_remove = cursor_default, added_bundles = [example_bundle 1], removed_bundles = []\<rparr>"
    by simp
  have "remove_bundle \<lparr>next_cursor_to_add = Cursor 1 1, next_cursor_to_remove = cursor_default,
        added_bundles = [example_bundle 1], removed_bundles = []\<rparr> (example_bundle 2)
      = Inr (\<lparr>next_cursor_to_add = Cursor 1 1, next_cursor_to_remove = Cursor 2 1, added_bundles = [],
          removed_bundles = [example_bundle 2]\<rparr>, False)"
    by (simp add: remove_bundle_def example_cursor less_eq_inbox_cursor_def cursor_default_def)
  from history_remove [OF one this] show ?thesis by simp
qed

text \<open>C25: Whatever bundles are added to an inbox and removed from it, in any interleaving of successful
  operations starting from an empty inbox, at most one of the two queues is not empty and the removed
  bundles other than those still waiting to be received are exactly bundles that were received, in the
  same order and each once; the received bundles that were passed over can all be skipped. Bundles are
  received and removed in strictly increasing order of their cursors.\<close>

theorem inbox_reconciliation:
  assumes "inbox_history A R ib"
  shows "\<exists>A1 R1. A = A1 @ added_bundles ib \<and> R = R1 @ removed_bundles ib
    \<and> (added_bundles ib = [] \<or> removed_bundles ib = [])
    \<and> R1 = filter (\<lambda>b. b \<in> set R1) A1 \<and> (\<forall>b \<in> set A1 - set R1. mb_is_skippable b)
    \<and> sorted_wrt (<) (map cursor_from A) \<and> sorted_wrt (<) (map cursor_from R)"
  using inbox_history_inv [OF assms] unfolding inbox_inv_def inbox_reconciles_def by blast

theorem inbox_reconciliation_witness:
  "\<exists>A1 R1. [example_bundle 1] = A1 @ [] \<and> [example_bundle 2] = R1 @ [example_bundle 2]
    \<and> R1 = filter (\<lambda>b. b \<in> set R1) A1"
  using inbox_reconciliation [OF example_history] by auto

lemma discard_lower_eq:
  assumes "increasing bs" and "\<forall>x \<in> set bs. cursor_from x < c \<longrightarrow> mb_is_skippable x"
  shows "discard_lower c bs = Inr (filter (\<lambda>x. c \<le> cursor_from x) bs)"
  using assms
proof (induction bs)
  case (Cons b bs)
  show ?case
  proof (cases "c \<le> cursor_from b")
    case True
    with Cons.prems(1) have "filter (\<lambda>x. c \<le> cursor_from x) bs = bs" by (auto simp: filter_id_conv)
    with True show ?thesis by simp
  qed (use Cons in auto)
qed simp

lemma cursor_try_add_one_ok:
  "(\<exists>d. cursor_try_add_one (cursor_from b) = Inr d) \<longleftrightarrow> mb_transaction_index b \<noteq> max_value"
proof -
  have "unat i + 1 < 2 ^ 32 \<longleftrightarrow> i \<noteq> max_value" for i :: u32
    using unat_bound [of i] by (auto simp: word_unat_eq_iff unat_max_value)
  then show ?thesis by (auto simp: cursor_try_add_one_def checked_add_def cursor_from_def)
qed

text \<open>C26: Removing a bundle from an inbox succeeds exactly when its cursor has not been passed and can be
  advanced, no waiting bundle before it is unskippable, and the bundle is either the first waiting bundle
  that is not before it or later than all waiting bundles. The result says whether it was waiting.\<close>

theorem remove_bundle_succeeds_iff:
  assumes "inbox_history A R ib"
  shows "(\<exists>ib'. remove_bundle ib b = Inr (ib', known)) \<longleftrightarrow>
    next_cursor_to_remove ib \<le> cursor_from b \<and> mb_transaction_index b \<noteq> max_value
    \<and> (\<forall>x \<in> set (added_bundles ib). cursor_from x < cursor_from b \<longrightarrow> mb_is_skippable x)
    \<and> (if known then b \<in> set (added_bundles ib)
       else \<forall>x \<in> set (added_bundles ib). cursor_from x < cursor_from b)"
    (is "?L \<longleftrightarrow> ?R")
proof -
  from inbox_history_inv [OF assms] have sorted: "increasing (added_bundles ib)"
    by (auto simp: inbox_inv_def sorted_wrt_append)
  show ?thesis
  proof
    assume ?L
    then obtain ib' where rem: "remove_bundle ib b = Inr (ib', known)" by blast
    then obtain d where "cursor_try_add_one (cursor_from b) = Inr d" by (rule remove_bundle_Inr)
    then have "mb_transaction_index b \<noteq> max_value" using cursor_try_add_one_ok by blast
    moreover from rem sorted have "next_cursor_to_remove ib \<le> cursor_from b
        \<and> (\<forall>x \<in> set (added_bundles ib). cursor_from x < cursor_from b \<longrightarrow> mb_is_skippable x)
        \<and> (if known then b \<in> set (added_bundles ib)
           else \<forall>x \<in> set (added_bundles ib). cursor_from x < cursor_from b)"
      by (elim remove_bundle_Inr disjE conjE exE) (auto simp: sorted_wrt_append list_all_iff)
    ultimately show ?R by blast
  next
    assume R: ?R
    then obtain d where d: "cursor_try_add_one (cursor_from b) = Inr d" using cursor_try_add_one_ok by blast
    let ?rest = "filter (\<lambda>x. cursor_from b \<le> cursor_from x) (added_bundles ib)"
    have disc: "discard_lower (cursor_from b) (added_bundles ib) = Inr ?rest"
      using discard_lower_eq [OF sorted] R by blast
    show ?L
    proof (cases known)
      case True
      with R obtain S T where ST: "added_bundles ib = S @ b # T" by (auto simp: in_set_conv_decomp)
      with sorted have "filter (\<lambda>x. cursor_from b \<le> cursor_from x) S = []"
        "filter (\<lambda>x. cursor_from b \<le> cursor_from x) T = T"
        by (auto simp: sorted_wrt_append filter_empty_conv filter_id_conv less_imp_le)
      with ST have "?rest = b # T" by simp
      with R disc d True show ?thesis by (simp add: remove_bundle_def)
    next
      case False
      with R have "?rest = []" by (auto simp: filter_empty_conv)
      with R disc d False show ?thesis by (simp add: remove_bundle_def)
    qed
  qed
qed

theorem remove_bundle_succeeds_iff_witness:
  "(\<exists>ib'. remove_bundle \<lparr>next_cursor_to_add = Cursor 1 1, next_cursor_to_remove = Cursor 2 1,
      added_bundles = [], removed_bundles = [example_bundle 2]\<rparr> (example_bundle 3) = Inr (ib', False))"
  using remove_bundle_succeeds_iff [OF example_history, of "example_bundle 3" False]
  by (simp add: example_cursor less_eq_inbox_cursor_def) (simp add: example_bundle_def max_value_def)

end
