(* ===== verification/Chain_State.thy ===== *)
theory Chain_State
  imports Mailboxes Manager
begin

section \<open>The state of a chain: mailboxes and channels (linera-chain)\<close>

text \<open>
  \<open>linera-chain/src/chain.rs\<close>: the state of a chain and the operations on its mailboxes and channels. The
  execution state is a type parameter here; theory \<open>Chain_Execution\<close> adds the operations that use it.
  A collection view is a map; loading entries for writing creates the missing ones and fails when an
  entry is asked for twice, because its lock is already taken. A \<open>HashSet\<close> is the list of its elements
  in the order of insertion, which no result depends on.

  \<open>outbox_inv\<close> is the invariant of the counters: for each height the number of outboxes with a message
  from that height in flight.
\<close>

subsection \<open>The tip of the chain\<close>

record chain_tip_state =
  tip_block_hash :: "crypto_hash option"
  next_block_height :: block_height
  num_incoming_bundles :: u32
  num_operations :: u32
  num_outgoing_messages :: u32

definition verify_block_chaining :: "chain_tip_state \<Rightarrow> block \<Rightarrow> (chain_error, unit) res" where
  "verify_block_chaining self new_block =
     and_then (ensure (block_height_of new_block = next_block_height self)
         (UnexpectedBlockHeight (next_block_height self) (block_height_of new_block))) (\<lambda>_.
       ensure (previous_block_hash new_block = tip_block_hash self) UnexpectedPreviousBlockHash)"

definition already_validated_block :: "chain_tip_state \<Rightarrow> block_height \<Rightarrow> (chain_error, bool) res" where
  "already_validated_block self height =
     and_then (ensure (height \<le> next_block_height self) (MissingEarlierBlocks (next_block_height self))) (\<lambda>_.
       Inr (height < next_block_height self))"

definition is_first_block :: "chain_tip_state \<Rightarrow> bool" where
  "is_first_block self \<longleftrightarrow> next_block_height self = 0"

definition checked_count :: "u32 \<Rightarrow> nat \<Rightarrow> (chain_error, u32) res" where
  "checked_count counter len =
     and_then (ok_or (try_from_nat len) (ChainArithmeticError Overflow)) (\<lambda>n.
       ok_or (checked_add counter n) (ChainArithmeticError Overflow))"

definition verify_counters ::
  "chain_tip_state \<Rightarrow> block \<Rightarrow> block_execution_outcome \<Rightarrow> (chain_error, unit) res" where
  "verify_counters self new_block outcome =
     and_then (checked_count (num_incoming_bundles self) (length (incoming_bundles new_block))) (\<lambda>_.
     and_then (checked_count (num_operations self) (length (operations new_block))) (\<lambda>_.
     and_then (checked_count (num_outgoing_messages self) (length (beo_messages outcome))) (\<lambda>_. Inr ())))"

subsection \<open>The state\<close>

datatype bundle_in_inbox = BundleInInbox (bii_origin: origin) (bii_cursor: inbox_cursor)

definition bundle_in_inbox_new :: "origin \<Rightarrow> message_bundle \<Rightarrow> bundle_in_inbox" where
  "bundle_in_inbox_new orig bundle = BundleInInbox orig (cursor_from bundle)"

record timestamped_bundle =
  tb_entry :: bundle_in_inbox
  tb_seen :: timestamp

record channel_state =
  subscribers :: "chain_id set"
  block_heights :: "block_height list"

definition channel_new :: channel_state where
  "channel_new = \<lparr>subscribers = {}, block_heights = []\<rparr>"

type_synonym outbox_map = "target \<Rightarrow> outbox_state option"
type_synonym counters = "(block_height, u32) btree_map"

record 'x chain_state_view =
  cs_chain_id :: chain_id
  execution_state :: 'x
  execution_state_hash :: "crypto_hash option"
  tip_state :: chain_tip_state
  cs_manager :: chain_manager
  confirmed_log :: "crypto_hash list"
  received_log :: "chain_and_height list"
  received_certificate_trackers :: "validator_name \<Rightarrow> u64 option"
  inboxes :: "origin \<Rightarrow> inbox_state option"
  unskippable_bundles :: "timestamped_bundle list"
  removed_unskippable_bundles :: "bundle_in_inbox set"
  outboxes :: outbox_map
  outbox_counters :: counters
  channels :: "channel_full_name \<Rightarrow> channel_state option"

text \<open>\<open>try_load_entries_mut\<close>: each entry is locked until all of them are dropped.\<close>

definition try_load_entries_mut :: "'v \<Rightarrow> ('k \<Rightarrow> 'v option) \<Rightarrow> 'k list \<Rightarrow> (chain_error, 'k \<Rightarrow> 'v option) res" where
  "try_load_entries_mut new_view m keys =
     (if distinct keys then Inr (\<lambda>k. if k \<in> set keys \<and> m k = None then Some new_view else m k)
      else Inl ChainViewError)"

subsection \<open>Outgoing messages\<close>

text \<open>\<open>*outbox_counters.entry(height).or_default() += 1\<close>, after scheduling a message.\<close>

definition counter_increment :: "block_height \<Rightarrow> counters \<Rightarrow> counters" where
  "counter_increment height cs =
     bt_insert height ((case bt_get cs height of Some n \<Rightarrow> n | None \<Rightarrow> 0) + 1) cs"

fun schedule_outbox ::
  "target \<Rightarrow> block_height \<Rightarrow> outbox_map \<times> counters \<Rightarrow> (chain_error, (outbox_map \<times> counters) \<times> bool) res" where
  "schedule_outbox t height (obs, cs) =
     and_then (map_err ChainArithmeticError
         (schedule_message (case obs t of Some ob \<Rightarrow> ob | None \<Rightarrow> outbox_new) height)) (\<lambda>(ob, changed).
       Inr ((obs(t \<mapsto> ob), if changed then counter_increment height cs else cs), changed))"

text \<open>The loops over the loaded outboxes; the flag tells whether an entry was new.\<close>

fun schedule_outboxes ::
  "(target \<times> block_height) list \<Rightarrow> outbox_map \<times> counters \<Rightarrow> (chain_error, (outbox_map \<times> counters) \<times> bool) res" where
  "schedule_outboxes [] st = Inr (st, False)"
| "schedule_outboxes ((t, height) # rest) st =
     and_then (schedule_outbox t height st) (\<lambda>(st, changed).
     and_then (schedule_outboxes rest st) (\<lambda>(st, more). Inr (st, changed \<or> more)))"

definition process_unsubscribes ::
  "'x chain_state_view \<Rightarrow> (channel_name \<times> chain_id) list \<Rightarrow> generic_application_id
     \<Rightarrow> (chain_error, 'x chain_state_view) res" where
  "process_unsubscribes self names_and_ids app =
     (if names_and_ids = [] then Inr self
      else let full_names = map (\<lambda>(name, _). ChannelFullName app name) names_and_ids
           in and_then (try_load_entries_mut channel_new (channels self) full_names) (\<lambda>chs.
                Inr (self\<lparr>channels := foldl (\<lambda>chs (name, cid).
                    chs(ChannelFullName app name := map_option
                      (\<lambda>ch. ch\<lparr>subscribers := subscribers ch - {cid}\<rparr>) (chs (ChannelFullName app name))))
                  chs names_and_ids\<rparr>)))"

text \<open>One subscription: the channel afterwards, and the outbox and the heights to send to it.\<close>

definition add_subscriber ::
  "channel_full_name \<Rightarrow> chain_id \<Rightarrow> channel_state \<Rightarrow> channel_state \<times> (target \<times> block_height list) option" where
  "add_subscriber full_name cid ch =
     (if cid \<in> subscribers ch then (ch, None)
      else (ch\<lparr>subscribers := insert cid (subscribers ch)\<rparr>,
            if block_heights ch = [] then None else Some (target_channel cid full_name, block_heights ch)))"

fun add_subscribers ::
  "generic_application_id \<Rightarrow> (channel_name \<times> chain_id) list \<Rightarrow> (channel_full_name \<Rightarrow> channel_state option)
     \<Rightarrow> (channel_full_name \<Rightarrow> channel_state option) \<times> (target \<times> block_height list) list" where
  "add_subscribers app [] chs = (chs, [])"
| "add_subscribers app ((name, cid) # rest) chs =
     (let full_name = ChannelFullName app name;
          (ch, info) = add_subscriber full_name cid (case chs full_name of Some ch \<Rightarrow> ch | None \<Rightarrow> channel_new);
          (chs, infos) = add_subscribers app rest (chs(full_name \<mapsto> ch))
      in (chs, (case info of None \<Rightarrow> infos | Some i \<Rightarrow> i # infos)))"

definition process_subscribes ::
  "'x chain_state_view \<Rightarrow> (channel_name \<times> chain_id) list \<Rightarrow> generic_application_id
     \<Rightarrow> (chain_error, 'x chain_state_view \<times> bool) res" where
  "process_subscribes self names_and_ids app =
     (if names_and_ids = [] then Inr (self, False)
      else let full_names = map (\<lambda>(name, _). ChannelFullName app name) names_and_ids
           in and_then (try_load_entries_mut channel_new (channels self) full_names) (\<lambda>chs.
              let (chs, infos) = add_subscribers app names_and_ids chs
              in and_then (try_load_entries_mut outbox_new (outboxes self) (map fst infos)) (\<lambda>obs.
                 and_then (schedule_outboxes (concat (map (\<lambda>(t, hs). map (Pair t) hs) infos))
                     (obs, outbox_counters self)) (\<lambda>((obs, cs), new_outbox_entries).
                   Inr (self\<lparr>channels := chs, outboxes := obs, outbox_counters := cs\<rparr>, new_outbox_entries)))))"

text \<open>The loop over the messages of an outcome: the recipients, the channels of the broadcasts and the
  messages.\<close>

fun collect_messages ::
  "('m \<Rightarrow> message) \<Rightarrow> ('m, amount) raw_execution_outcome \<Rightarrow> ('m, amount) raw_outgoing_message list
     \<Rightarrow> (chain_error, chain_id list \<times> channel_name list \<times> outgoing_message list) res" where
  "collect_messages lift raw [] = Inr ([], [], [])"
| "collect_messages lift raw (msg # rest) =
     and_then (case rom_destination msg of
         Recipient cid \<Rightarrow> Inr ([cid], [])
       | Subscribers name \<Rightarrow> and_then (ensure (rom_grant msg = 0) GrantUseOnBroadcast) (\<lambda>_. Inr ([], [name])))
       (\<lambda>(recipient, broadcast).
     and_then (collect_messages lift raw rest) (\<lambda>(recipients, broadcasts, msgs).
       Inr (recipient @ recipients, broadcast @ broadcasts,
         \<lparr>om_destination = rom_destination msg,
          om_authenticated_signer = (if rom_authenticated msg then reo_authenticated_signer raw else None),
          om_grant = rom_grant msg,
          om_refund_grant_to = (if 0 < rom_grant msg then reo_refund_grant_to raw else None),
          om_kind = rom_kind msg, om_message = lift (rom_message msg)\<rparr> # msgs)))"

fun broadcast_height ::
  "block_height \<Rightarrow> channel_full_name list \<Rightarrow> (channel_full_name \<Rightarrow> channel_state option)
     \<Rightarrow> (channel_full_name \<Rightarrow> channel_state option) \<times> target list" where
  "broadcast_height height [] chs = (chs, [])"
| "broadcast_height height (full_name # rest) chs =
     (let ch = (case chs full_name of Some ch \<Rightarrow> ch | None \<Rightarrow> channel_new);
          targets = map (\<lambda>r. target_channel r full_name) (sorted_list_of_set (subscribers ch));
          (chs, more) = broadcast_height height rest
            (chs(full_name \<mapsto> ch\<lparr>block_heights := block_heights ch @ [height]\<rparr>))
      in (chs, targets @ more))"

definition process_raw_execution_outcome ::
  "'x chain_state_view \<Rightarrow> generic_application_id \<Rightarrow> ('m \<Rightarrow> message) \<Rightarrow> block_height
     \<Rightarrow> ('m, amount) raw_execution_outcome
     \<Rightarrow> (chain_error, 'x chain_state_view \<times> outgoing_message list \<times> event_record list) res" where
  "process_raw_execution_outcome self app lift height raw =
     (let events = map (\<lambda>(name, key, val). \<lparr>er_stream_id = StreamId app name, er_key = key, er_value = val\<rparr>)
            (reo_events raw)
      in and_then (collect_messages lift raw (reo_messages raw)) (\<lambda>(recipients, broadcasts, msgs).
         let targets = map target_chain (remdups recipients)
         in and_then (try_load_entries_mut outbox_new (outboxes self) targets) (\<lambda>obs.
         and_then (schedule_outboxes (map (\<lambda>t. (t, height)) targets) (obs, outbox_counters self)) (\<lambda>((obs, cs), _).
         and_then (process_unsubscribes (self\<lparr>outboxes := obs, outbox_counters := cs\<rparr>) (reo_unsubscribe raw) app) (\<lambda>self.
         let full_names = map (ChannelFullName app) (remdups broadcasts)
         in and_then (try_load_entries_mut channel_new (channels self) full_names) (\<lambda>chs.
         let (chs, targets) = broadcast_height height full_names chs
         in and_then (try_load_entries_mut outbox_new (outboxes self) targets) (\<lambda>obs.
         and_then (schedule_outboxes (map (\<lambda>t. (t, height)) targets) (obs, outbox_counters self)) (\<lambda>((obs, cs), _).
         and_then (process_subscribes (self\<lparr>channels := chs, outboxes := obs, outbox_counters := cs\<rparr>)
             (reo_subscribe raw) app) (\<lambda>(self, _).
           Inr (self, msgs, events))))))))))"

fun process_execution_outcomes ::
  "'x chain_state_view \<Rightarrow> block_height \<Rightarrow> execution_outcome list
     \<Rightarrow> (chain_error, 'x chain_state_view \<times> outgoing_message list \<times> event_record list) res" where
  "process_execution_outcomes self height [] = Inr (self, [], [])"
| "process_execution_outcomes self height (result # rest) =
     and_then
       (case result of
          SystemOutcome raw \<Rightarrow> process_raw_execution_outcome self SystemApp SystemMsg height raw
        | UserOutcome app raw \<Rightarrow> process_raw_execution_outcome self (UserApp app) (UserMsg app) height raw)
       (\<lambda>(self, messages, events).
     and_then (process_execution_outcomes self height rest) (\<lambda>(self, more_messages, more_events).
       Inr (self, messages @ more_messages, events @ more_events)))"

text \<open>The loop of \<open>mark_messages_as_received\<close> over the heights; \<open>None\<close> is one of the two panics.\<close>

fun count_received :: "block_height list \<Rightarrow> counters \<Rightarrow> counters option" where
  "count_received [] cs = Some cs"
| "count_received (update # updates) cs =
     Option.bind (bt_get cs update) (\<lambda>counter.
     Option.bind (checked_sub counter 1) (\<lambda>counter.
       count_received updates (if counter = 0 then bt_remove update cs else bt_insert update counter cs)))"

definition mark_messages_as_received ::
  "'x chain_state_view \<Rightarrow> target \<Rightarrow> block_height \<Rightarrow> ('x chain_state_view \<times> bool) option" where
  "mark_messages_as_received self t height =
     (let (ob, updates) = outbox_mark_messages_as_received
            (case outboxes self t of Some ob \<Rightarrow> ob | None \<Rightarrow> outbox_new) height
      in if updates = [] then Some (self\<lparr>outboxes := (outboxes self)(t \<mapsto> ob)\<rparr>, False)
         else Option.bind (count_received updates (outbox_counters self)) (\<lambda>cs.
           Some (self\<lparr>outboxes := (if outbox_queue ob = [] then (outboxes self)(t := None)
                                  else (outboxes self)(t \<mapsto> ob)),
                      outbox_counters := cs\<rparr>, True)))"

definition all_messages_delivered_up_to :: "'x chain_state_view \<Rightarrow> block_height \<Rightarrow> bool" where
  "all_messages_delivered_up_to self height =
     (case outbox_counters self of (key, _) # _ \<Rightarrow> height < key | [] \<Rightarrow> True)"

subsection \<open>The counters of the messages in flight\<close>

definition in_flight :: "outbox_map \<Rightarrow> block_height \<Rightarrow> target set" where
  "in_flight obs h = {t. \<exists>ob. obs t = Some ob \<and> h \<in> set (outbox_queue ob)}"

definition outbox_ok :: "outbox_state \<Rightarrow> bool" where
  "outbox_ok ob \<longleftrightarrow> sorted_wrt (<) (outbox_queue ob) \<and> (\<forall>h \<in> set (outbox_queue ob). h < next_height_to_schedule ob)"

definition counted :: "nat \<Rightarrow> u32 option" where
  "counted n = (if n = 0 then None else Some (of_nat n))"

definition outbox_inv :: "outbox_map \<Rightarrow> counters \<Rightarrow> bool" where
  "outbox_inv obs cs \<longleftrightarrow> finite (dom obs) \<and> bt_wf cs \<and> (\<forall>t ob. obs t = Some ob \<longrightarrow> outbox_ok ob)
     \<and> (\<forall>h. bt_get cs h = counted (card (in_flight obs h)))"

lemma in_flight_dom: "in_flight obs h \<subseteq> dom obs"
  by (auto simp: in_flight_def)

lemma finite_in_flight: "outbox_inv obs cs \<Longrightarrow> finite (in_flight obs h)"
  by (rule finite_subset [OF in_flight_dom]) (simp add: outbox_inv_def)

lemma in_flight_upd:
  "in_flight (obs(t := x)) h
    = (if (\<exists>ob. x = Some ob \<and> h \<in> set (outbox_queue ob)) then insert t (in_flight obs h) else in_flight obs h - {t})"
  by (auto simp: in_flight_def)

lemma outbox_ok_new [simp]: "outbox_ok outbox_new"
  by (simp add: outbox_ok_def outbox_new_def)

text \<open>An entry whose queue has the same heights changes nothing.\<close>

lemma outbox_inv_same:
  assumes "outbox_inv obs cs" and "outbox_ok ob"
    and "set (outbox_queue ob) = (case obs t of Some ob \<Rightarrow> set (outbox_queue ob) | None \<Rightarrow> {})"
  shows "outbox_inv (obs(t \<mapsto> ob)) cs"
proof -
  have "h \<in> set (outbox_queue ob) \<longleftrightarrow> t \<in> in_flight obs h" for h
    using assms(3) by (cases "obs t") (simp_all add: in_flight_def)
  then have "in_flight (obs(t \<mapsto> ob)) h = in_flight obs h" for h
    by (simp add: in_flight_upd insert_absorb)
  with assms(1,2) show ?thesis by (simp add: outbox_inv_def)
qed

lemma outbox_inv_load:
  assumes "outbox_inv obs cs" and "try_load_entries_mut outbox_new obs ts = Inr obs'"
  shows "outbox_inv obs' cs" and "dom obs' = dom obs \<union> set ts"
proof -
  have obs': "obs' = (\<lambda>t. if t \<in> set ts \<and> obs t = None then Some outbox_new else obs t)"
    using assms(2) by (simp add: try_load_entries_mut_def split: if_splits)
  then show dom: "dom obs' = dom obs \<union> set ts" by (auto simp: dom_def)
  have "in_flight obs' h = in_flight obs h" for h
    unfolding in_flight_def obs' by (auto simp: outbox_new_def)
  moreover have "outbox_ok ob" if "obs' t = Some ob" for t ob
    using that assms(1) by (auto simp: outbox_inv_def obs' split: if_splits)
  ultimately show "outbox_inv obs' cs"
    using assms(1) dom by (simp add: outbox_inv_def)
qed

lemma unat_of_nat_u32: "n < 2 ^ 32 \<Longrightarrow> unat (of_nat n :: u32) = n"
  by (simp add: unat_of_nat take_bit_nat_eq_self)

lemma u32_eq_0: "n < 2 ^ 32 \<Longrightarrow> (of_nat n :: u32) = 0 \<longleftrightarrow> n = 0"
  by (simp add: word_unat_eq_iff unat_of_nat_u32)

lemma schedule_message_cases:
  assumes "schedule_message ob h = Inr (ob', changed)" and "outbox_ok ob"
  shows "outbox_ok ob' \<and> (if changed then outbox_queue ob' = outbox_queue ob @ [h] \<and> h \<notin> set (outbox_queue ob)
    else ob' = ob)"
proof (cases "h < next_height_to_schedule ob")
  case True
  with assms show ?thesis by (simp add: schedule_message_def)
next
  case False
  with assms(1) obtain n where n: "try_add_one h = Inr n" "changed"
    "ob' = ob\<lparr>next_height_to_schedule := n, outbox_queue := outbox_queue ob @ [h]\<rparr>"
    by (auto simp: schedule_message_def)
  have "unat n = unat h + 1" using n(1) by (auto simp: try_add_one_def checked_add_Some_iff)
  then have "h < n" by (simp add: word_less_nat_alt)
  moreover have "k < h" if "k \<in> set (outbox_queue ob)" for k
    using that False assms(2) unfolding outbox_ok_def by (meson less_le_trans not_le)
  ultimately show ?thesis
    using assms(2) n(2,3) by (fastforce simp: outbox_ok_def sorted_wrt_append)
qed

lemma schedule_outbox_inv:
  assumes inv: "outbox_inv obs cs" and bound: "card (insert t (dom obs)) < 2 ^ 32"
    and sched: "schedule_outbox t h (obs, cs) = Inr ((obs', cs'), changed)"
  shows "outbox_inv obs' cs'" and "dom obs' = insert t (dom obs)"
proof -
  define ob where "ob = (case obs t of Some ob \<Rightarrow> ob | None \<Rightarrow> outbox_new)"
  have ok: "outbox_ok ob" using inv by (auto simp: ob_def outbox_inv_def split: option.split)
  from sched obtain ob' where ob': "schedule_message ob h = Inr (ob', changed)" "obs' = obs(t \<mapsto> ob')"
    "cs' = (if changed then counter_increment h cs else cs)"
    by (auto simp: ob_def)
  show "dom obs' = insert t (dom obs)" by (simp add: ob')
  note cases = schedule_message_cases [OF ob'(1) ok]
  have queue: "set (outbox_queue ob) = (case obs t of Some ob \<Rightarrow> set (outbox_queue ob) | None \<Rightarrow> {})"
    by (simp add: ob_def outbox_new_def split: option.split)
  show "outbox_inv obs' cs'"
  proof (cases changed)
    case False
    with cases ob' outbox_inv_same [OF inv ok queue] show ?thesis by simp
  next
    case True
    with cases have q: "outbox_queue ob' = outbox_queue ob @ [h]" "h \<notin> set (outbox_queue ob)" by auto
    have t: "t \<notin> in_flight obs h"
      using q(2) queue by (auto simp: in_flight_def)
    have h: "in_flight obs' h = insert t (in_flight obs h)"
      by (simp add: ob'(2) in_flight_upd q(1))
    have "k \<in> set (outbox_queue ob) \<longleftrightarrow> t \<in> in_flight obs k" for k
      using queue by (cases "obs t") (simp_all add: in_flight_def)
    then have other: "in_flight obs' k = in_flight obs k" if "k \<noteq> h" for k
      using that by (simp add: ob'(2) in_flight_upd q(1) insert_absorb)
    have "card (in_flight obs' h) \<le> card (insert t (dom obs))"
      using inv in_flight_dom [of obs h] by (intro card_mono) (auto simp: h outbox_inv_def)
    then have small: "Suc (card (in_flight obs h)) < 2 ^ 32"
      using bound h t finite_in_flight [OF inv, of h] by simp
    have "bt_get cs' k = counted (card (in_flight obs' k))" for k
    proof (cases "k = h")
      case True
      have "bt_get cs' h = Some ((case counted (card (in_flight obs h)) of Some n \<Rightarrow> n | None \<Rightarrow> 0) + 1)"
        using inv \<open>changed\<close> by (simp add: ob'(3) counter_increment_def outbox_inv_def)
      also have "\<dots> = counted (Suc (card (in_flight obs h)))"
        by (simp add: counted_def add.commute)
      also have "Suc (card (in_flight obs h)) = card (in_flight obs' h)"
        using h t finite_in_flight [OF inv, of h] by simp
      finally show ?thesis using True by simp
    next
      case False
      with inv other [of k] \<open>changed\<close> show ?thesis by (simp add: ob'(3) counter_increment_def outbox_inv_def)
    qed
    with inv \<open>changed\<close> cases ob' show ?thesis
      by (auto simp: outbox_inv_def counter_increment_def)
  qed
qed

lemma schedule_outboxes_inv:
  assumes "outbox_inv obs cs" and "card (dom obs \<union> fst ` set ths) < 2 ^ 32"
    and "schedule_outboxes ths (obs, cs) = Inr ((obs', cs'), changed)"
  shows "outbox_inv obs' cs' \<and> dom obs' = dom obs \<union> fst ` set ths"
  using assms
proof (induction ths arbitrary: obs cs changed)
  case (Cons th ths)
  obtain t h where th: "th = (t, h)" by fastforce
  from Cons.prems(3) th obtain obs1 cs1 ch1 ch2 where
    1: "schedule_outbox t h (obs, cs) = Inr ((obs1, cs1), ch1)"
    and 2: "schedule_outboxes ths (obs1, cs1) = Inr ((obs', cs'), ch2)"
    by (auto simp del: schedule_outbox.simps)
  have "finite (dom obs)" using Cons.prems(1) by (simp add: outbox_inv_def)
  then have "card (insert t (dom obs)) \<le> card (dom obs \<union> fst ` set (th # ths))"
    by (intro card_mono) (auto simp: th)
  with Cons.prems(2) have "card (insert t (dom obs)) < 2 ^ 32" by simp
  note step = schedule_outbox_inv [OF Cons.prems(1) this 1]
  from Cons.prems(2) th step(2) have "card (dom obs1 \<union> fst ` set ths) < 2 ^ 32" by (simp add: insert_commute)
  from Cons.IH [OF step(1) this 2] step(2) th show ?case by auto
qed simp

lemma count_received_inv:
  assumes "outbox_inv obs cs" and "obs t = Some ob" and "outbox_queue ob = updates @ rest"
    and "card (dom obs) < 2 ^ 32"
  shows "\<exists>cs'. count_received updates cs = Some cs' \<and> outbox_inv (obs(t \<mapsto> ob\<lparr>outbox_queue := rest\<rparr>)) cs'"
  using assms
proof (induction updates arbitrary: obs cs ob)
  case Nil
  then have "obs(t \<mapsto> ob\<lparr>outbox_queue := rest\<rparr>) = obs" by (simp add: fun_upd_idem)
  with Nil show ?case by simp
next
  case (Cons h updates)
  let ?ob1 = "ob\<lparr>outbox_queue := updates @ rest\<rparr>"
  let ?obs1 = "obs(t \<mapsto> ?ob1)"
  have ok: "outbox_ok ob" using Cons.prems(1,2) by (auto simp: outbox_inv_def)
  then have q: "h \<notin> set (updates @ rest)" and ok1: "outbox_ok ?ob1"
    using Cons.prems(3) by (auto simp: outbox_ok_def)
  have t: "t \<in> in_flight obs h" using Cons.prems(2,3) by (simp add: in_flight_def)
  have h: "in_flight ?obs1 h = in_flight obs h - {t}" using q by (simp add: in_flight_upd)
  have other: "in_flight ?obs1 k = in_flight obs k" if "k \<noteq> h" for k
    using that Cons.prems(2,3) by (auto simp: in_flight_upd) (auto simp: in_flight_def)
  have fin: "finite (in_flight obs h)" using finite_in_flight [OF Cons.prems(1)] .
  have "card (in_flight obs h) \<le> card (dom obs)"
    using Cons.prems(1) in_flight_dom by (intro card_mono) (auto simp: outbox_inv_def)
  then obtain n where n: "card (in_flight obs h) = Suc n" "Suc n < 2 ^ 32"
    using Cons.prems(4) t fin by (metis card_0_eq empty_iff le_less_trans not0_implies_Suc)
  have n1: "card (in_flight ?obs1 h) = n" using n(1) h t fin by simp
  have get: "bt_get cs h = Some (of_nat (Suc n))"
    using Cons.prems(1) n(1) by (simp add: outbox_inv_def counted_def)
  have sub: "checked_sub (of_nat (Suc n) :: u32) 1 = Some (of_nat n)"
    using unat_of_nat_u32 [OF n(2)] by (simp add: checked_sub_def word_le_nat_alt)
  define cs1 where "cs1 = (if (of_nat n :: u32) = 0 then bt_remove h cs else bt_insert h (of_nat n) cs)"
  have n0: "(of_nat n :: u32) = 0 \<longleftrightarrow> n = 0"
    using n(2) by (intro u32_eq_0) simp
  have "outbox_inv ?obs1 cs1"
  proof -
    have wf: "bt_wf cs" using Cons.prems(1) by (simp add: outbox_inv_def)
    have "bt_get cs1 k = counted (card (in_flight ?obs1 k))" for k
    proof (cases "k = h")
      case True
      then show ?thesis using n0 n1 wf by (simp add: cs1_def counted_def)
    next
      case False
      with Cons.prems(1) other [OF False] wf show ?thesis by (simp add: cs1_def outbox_inv_def)
    qed
    with Cons.prems(1) ok1 wf show ?thesis by (auto simp: outbox_inv_def cs1_def)
  qed
  moreover have "card (dom ?obs1) < 2 ^ 32" using Cons.prems(2,4) by (simp add: insert_absorb domI)
  moreover have "?obs1 t = Some ?ob1" "outbox_queue ?ob1 = updates @ rest" by simp_all
  ultimately obtain cs' where "count_received updates cs1 = Some cs'"
    "outbox_inv (?obs1(t \<mapsto> ?ob1\<lparr>outbox_queue := rest\<rparr>)) cs'"
    using Cons.IH [of ?obs1 cs1 ?ob1] by blast
  then have "count_received (h # updates) cs = Some cs'" "outbox_inv (obs(t \<mapsto> ob\<lparr>outbox_queue := rest\<rparr>)) cs'"
    using get sub by (simp_all add: cs1_def [symmetric] del: of_nat_Suc)
  then show ?case by blast
qed

lemma take_received_append: "take_received height q = (updates, rest) \<Longrightarrow> q = updates @ rest"
  by (induction q arbitrary: updates rest) (auto split: if_splits prod.splits)

lemma mark_messages_ok:
  assumes inv: "outbox_inv (outboxes s) (outbox_counters s)" and bound: "card (dom (outboxes s)) < 2 ^ 32"
  shows "\<exists>s' changed. mark_messages_as_received s t height = Some (s', changed)
    \<and> outbox_inv (outboxes s') (outbox_counters s')"
proof -
  define ob where "ob = (case outboxes s t of Some ob \<Rightarrow> ob | None \<Rightarrow> outbox_new)"
  obtain updates rest where tr: "take_received height (outbox_queue ob) = (updates, rest)" by fastforce
  note app = take_received_append [OF tr]
  have mark: "outbox_mark_messages_as_received ob height = (ob\<lparr>outbox_queue := rest\<rparr>, updates)"
    by (simp add: outbox_mark_messages_as_received_def tr)
  show ?thesis
  proof (cases "updates = []")
    case True
    have ok: "outbox_ok ob" using inv by (auto simp: ob_def outbox_inv_def split: option.split)
    have "ob\<lparr>outbox_queue := rest\<rparr> = ob" using app True by simp
    moreover have "set (outbox_queue ob) = (case outboxes s t of Some ob \<Rightarrow> set (outbox_queue ob) | None \<Rightarrow> {})"
      by (simp add: ob_def outbox_new_def split: option.split)
    ultimately have "outbox_inv ((outboxes s)(t \<mapsto> ob\<lparr>outbox_queue := rest\<rparr>)) (outbox_counters s)"
      using outbox_inv_same [OF inv ok, of t] by simp
    moreover have "mark_messages_as_received s t height
        = Some (s\<lparr>outboxes := (outboxes s)(t \<mapsto> ob\<lparr>outbox_queue := rest\<rparr>)\<rparr>, False)"
      unfolding mark_messages_as_received_def ob_def [symmetric] mark using True by simp
    ultimately show ?thesis by (intro exI [of _ "s\<lparr>outboxes := (outboxes s)(t \<mapsto> ob\<lparr>outbox_queue := rest\<rparr>)\<rparr>"] exI [of _ False]) simp
  next
    case False
    with app have "outboxes s t = Some ob"
      by (cases "outboxes s t") (auto simp: ob_def outbox_new_def)
    from count_received_inv [OF inv this app bound] obtain cs where
      cs: "count_received updates (outbox_counters s) = Some cs"
      "outbox_inv ((outboxes s)(t \<mapsto> ob\<lparr>outbox_queue := rest\<rparr>)) cs"
      by blast
    define obs where "obs = (if rest = [] then (outboxes s)(t := None) else (outboxes s)(t \<mapsto> ob\<lparr>outbox_queue := rest\<rparr>))"
    have "outbox_inv obs cs"
    proof (cases "rest = []")
      case True
      have same: "in_flight ((outboxes s)(t \<mapsto> ob\<lparr>outbox_queue := rest\<rparr>)) = in_flight ((outboxes s)(t := None))"
        by (rule ext) (simp add: in_flight_upd True)
      have "outbox_ok ob'" if "((outboxes s)(t := None)) t' = Some ob'" for t' ob'
        using that inv by (auto simp: outbox_inv_def split: if_splits)
      moreover have "finite (dom ((outboxes s)(t := None)))" using inv by (simp add: outbox_inv_def)
      ultimately show ?thesis using cs(2) unfolding outbox_inv_def obs_def if_P [OF True] same by blast
    qed (use cs(2) in \<open>simp add: obs_def\<close>)
    moreover have "mark_messages_as_received s t height = Some (s\<lparr>outboxes := obs, outbox_counters := cs\<rparr>, True)"
      unfolding mark_messages_as_received_def ob_def [symmetric] mark using False cs(1) by (simp add: obs_def)
    ultimately show ?thesis by (intro exI [of _ "s\<lparr>outboxes := obs, outbox_counters := cs\<rparr>"] exI [of _ True]) simp
  qed
qed

text \<open>The other operations on the outboxes.\<close>

lemma process_unsubscribes_outboxes:
  assumes "process_unsubscribes s names app = Inr s'"
  shows "outboxes s' = outboxes s" and "outbox_counters s' = outbox_counters s"
  using assms by (auto simp: process_unsubscribes_def Let_def split: if_splits)

lemma schedule_outboxes_dom:
  "schedule_outboxes ths (obs, cs) = Inr ((obs', cs'), changed) \<Longrightarrow> dom obs' = dom obs \<union> fst ` set ths"
proof (induction ths arbitrary: obs cs changed)
  case (Cons th ths)
  obtain t h where th: "th = (t, h)" by fastforce
  from Cons.prems th obtain ob cs1 ch2 where "schedule_outboxes ths (obs(t \<mapsto> ob), cs1) = Inr ((obs', cs'), ch2)"
    by auto
  from Cons.IH [OF this] th show ?case by auto
qed simp

lemma schedule_loaded_dom:
  assumes "try_load_entries_mut outbox_new obs0 ts = Inr obs"
    and "schedule_outboxes ths (obs, cs) = Inr ((obs', cs'), changed)"
  shows "dom obs0 \<subseteq> dom obs'"
  using schedule_outboxes_dom [OF assms(2)] assms(1) by (auto simp: try_load_entries_mut_def split: if_splits)

lemma schedule_loaded_inv:
  assumes "outbox_inv obs0 cs" and "try_load_entries_mut outbox_new obs0 ts = Inr obs"
    and "schedule_outboxes ths (obs, cs) = Inr ((obs', cs'), changed)" and "card (dom obs') < 2 ^ 32"
  shows "outbox_inv obs' cs'"
  using schedule_outboxes_inv [OF outbox_inv_load(1) [OF assms(1,2)] _ assms(3)] assms(4)
    schedule_outboxes_dom [OF assms(3)] by simp

lemma process_subscribes_cases:
  assumes "process_subscribes s names app = Inr (s', new_entries)"
  obtains "s' = s"
  | ts obs ths where "try_load_entries_mut outbox_new (outboxes s) ts = Inr obs"
    and "schedule_outboxes ths (obs, outbox_counters s) = Inr ((outboxes s', outbox_counters s'), new_entries)"
proof (cases "names = []")
  case True
  with assms that(1) show ?thesis by (simp add: process_subscribes_def)
next
  case False
  with assms obtain infos obs obs' cs' where
    "try_load_entries_mut outbox_new (outboxes s) (map fst infos) = Inr obs"
    "schedule_outboxes (concat (map (\<lambda>(t, hs). map (Pair t) hs) infos)) (obs, outbox_counters s)
      = Inr ((obs', cs'), new_entries)" "outboxes s' = obs'" "outbox_counters s' = cs'"
    by (force simp: process_subscribes_def Let_def split_beta)
  with that(2) show ?thesis by blast
qed

lemma process_subscribes_dom:
  "process_subscribes s names app = Inr (s', new_entries) \<Longrightarrow> dom (outboxes s) \<subseteq> dom (outboxes s')"
  by (erule process_subscribes_cases) (auto dest: schedule_loaded_dom)

lemma process_subscribes_inv:
  assumes "outbox_inv (outboxes s) (outbox_counters s)"
    and "process_subscribes s names app = Inr (s', new_entries)" and "card (dom (outboxes s')) < 2 ^ 32"
  shows "outbox_inv (outboxes s') (outbox_counters s')"
  using assms(2) by (rule process_subscribes_cases) (use assms(1,3) in \<open>auto intro: schedule_loaded_inv\<close>)

lemma process_raw_execution_outcome_inv:
  assumes run: "process_raw_execution_outcome s app lift height raw = Inr (s', msgs, events)"
  shows "dom (outboxes s) \<subseteq> dom (outboxes s')"
    and "outbox_inv (outboxes s) (outbox_counters s) \<Longrightarrow> finite (dom (outboxes s')) \<Longrightarrow> card (dom (outboxes s')) < 2 ^ 32
      \<Longrightarrow> outbox_inv (outboxes s') (outbox_counters s')"
proof -
  from run obtain ts1 obs1 obs2 cs2 ths1 ch1 s3 ts2 obs4 obs5 cs5 ths2 ch2 chs ch3 where
    1: "try_load_entries_mut outbox_new (outboxes s) ts1 = Inr obs1"
    "schedule_outboxes ths1 (obs1, outbox_counters s) = Inr ((obs2, cs2), ch1)"
    and 2: "process_unsubscribes (s\<lparr>outboxes := obs2, outbox_counters := cs2\<rparr>) (reo_unsubscribe raw) app = Inr s3"
    and 3: "try_load_entries_mut outbox_new (outboxes s3) ts2 = Inr obs4"
    "schedule_outboxes ths2 (obs4, outbox_counters s3) = Inr ((obs5, cs5), ch2)"
    and 4: "process_subscribes (s3\<lparr>channels := chs, outboxes := obs5, outbox_counters := cs5\<rparr>) (reo_subscribe raw) app
      = Inr (s', ch3)"
    by (force simp: process_raw_execution_outcome_def Let_def split_beta)
  note outboxes3 = process_unsubscribes_outboxes [OF 2, simplified]
  have dom5: "dom obs5 \<subseteq> dom (outboxes s')" using process_subscribes_dom [OF 4] by simp
  have dom2: "dom obs2 \<subseteq> dom obs5" using schedule_loaded_dom [OF 3] outboxes3(1) by simp
  show "dom (outboxes s) \<subseteq> dom (outboxes s')" using schedule_loaded_dom [OF 1] dom2 dom5 by blast
  assume inv: "outbox_inv (outboxes s) (outbox_counters s)" and fin: "finite (dom (outboxes s'))"
    and bound: "card (dom (outboxes s')) < 2 ^ 32"
  have card5: "card (dom obs5) < 2 ^ 32" using bound card_mono [OF fin dom5] by simp
  have "card (dom obs2) < 2 ^ 32" using card5 card_mono [OF finite_subset [OF dom5 fin] dom2] by simp
  then have "outbox_inv obs2 cs2" by (rule schedule_loaded_inv [OF inv 1])
  then have "outbox_inv obs5 cs5" using schedule_loaded_inv [OF _ 3 card5] outboxes3 by simp
  then show "outbox_inv (outboxes s') (outbox_counters s')" using process_subscribes_inv [OF _ 4 bound] by simp
qed

lemma process_execution_outcomes_inv:
  assumes "process_execution_outcomes s height results = Inr (s', msgs, events)"
  shows "dom (outboxes s) \<subseteq> dom (outboxes s') \<and> (outbox_inv (outboxes s) (outbox_counters s) \<longrightarrow> finite (dom (outboxes s'))
    \<longrightarrow> card (dom (outboxes s')) < 2 ^ 32 \<longrightarrow> outbox_inv (outboxes s') (outbox_counters s'))"
  using assms
proof (induction s height results arbitrary: s' msgs events rule: process_execution_outcomes.induct)
  case (2 s height result rest)
  from "2.prems" obtain s1 msgs1 events1 msgs2 events2 where
    first: "(case result of SystemOutcome raw \<Rightarrow> process_raw_execution_outcome s SystemApp SystemMsg height raw
        | UserOutcome app raw \<Rightarrow> process_raw_execution_outcome s (UserApp app) (UserMsg app) height raw)
      = Inr (s1, msgs1, events1)"
    and second: "process_execution_outcomes s1 height rest = Inr (s', msgs2, events2)"
    by auto
  have step: "dom (outboxes s) \<subseteq> dom (outboxes s1) \<and> (outbox_inv (outboxes s) (outbox_counters s)
    \<longrightarrow> finite (dom (outboxes s1)) \<longrightarrow> card (dom (outboxes s1)) < 2 ^ 32 \<longrightarrow> outbox_inv (outboxes s1) (outbox_counters s1))"
  proof (cases result)
    case (SystemOutcome raw)
    with first have "process_raw_execution_outcome s SystemApp SystemMsg height raw = Inr (s1, msgs1, events1)" by simp
    from process_raw_execution_outcome_inv [OF this] show ?thesis by blast
  next
    case (UserOutcome app raw)
    with first have "process_raw_execution_outcome s (UserApp app) (UserMsg app) height raw = Inr (s1, msgs1, events1)"
      by simp
    from process_raw_execution_outcome_inv [OF this] show ?thesis by blast
  qed
  have rest: "dom (outboxes s1) \<subseteq> dom (outboxes s') \<and> (outbox_inv (outboxes s1) (outbox_counters s1) \<longrightarrow> finite (dom (outboxes s'))
    \<longrightarrow> card (dom (outboxes s')) < 2 ^ 32 \<longrightarrow> outbox_inv (outboxes s') (outbox_counters s'))"
    using "2.IH" [OF first refl refl second] by blast
  have "card (dom (outboxes s1)) < 2 ^ 32" "finite (dom (outboxes s1))"
    if "finite (dom (outboxes s'))" "card (dom (outboxes s')) < 2 ^ 32"
    using card_mono [OF that(1)] finite_subset [OF _ that(1)] rest that(2) by (auto intro: le_less_trans)
  with step rest show ?case by blast
qed simp

text \<open>The operations of a chain on its outboxes, for chains with fewer than \<open>2\<^sup>3\<^sup>2\<close> outboxes.\<close>

inductive outbox_run :: "'x chain_state_view \<Rightarrow> bool" where
  run_new: "outboxes s = Map.empty \<Longrightarrow> outbox_counters s = [] \<Longrightarrow> outbox_run s"
| run_outcome: "outbox_run s \<Longrightarrow> process_execution_outcomes s height results = Inr (s', msgs, events)
    \<Longrightarrow> finite (dom (outboxes s')) \<Longrightarrow> card (dom (outboxes s')) < 2 ^ 32 \<Longrightarrow> outbox_run s'"
| run_subscribe: "outbox_run s \<Longrightarrow> process_subscribes s names app = Inr (s', new_entries)
    \<Longrightarrow> finite (dom (outboxes s')) \<Longrightarrow> card (dom (outboxes s')) < 2 ^ 32 \<Longrightarrow> outbox_run s'"
| run_unsubscribe: "outbox_run s \<Longrightarrow> process_unsubscribes s names app = Inr s' \<Longrightarrow> outbox_run s'"
| run_received: "outbox_run s \<Longrightarrow> mark_messages_as_received s t height = Some (s', changed)
    \<Longrightarrow> card (dom (outboxes s')) < 2 ^ 32 \<Longrightarrow> outbox_run s'"

lemma outbox_run_inv: "outbox_run s \<Longrightarrow> outbox_inv (outboxes s) (outbox_counters s) \<and> card (dom (outboxes s)) < 2 ^ 32"
proof (induction rule: outbox_run.induct)
  case (run_new s)
  then show ?case by (simp add: outbox_inv_def in_flight_def counted_def)
next
  case (run_received s t height s' changed)
  from mark_messages_ok [of s t height] run_received show ?case by auto
qed (auto intro: process_subscribes_inv simp: process_unsubscribes_outboxes dest: process_execution_outcomes_inv)

text \<open>C27: The counters of the messages in flight are right. In every state that a chain with fewer than
  \<open>2\<^sup>3\<^sup>2\<close> outboxes reaches by executing outcomes, subscriptions and confirmations of receipt, in any order,
  marking messages as received does not panic for any target and height, and all messages are reported
  as delivered up to a height exactly when no outbox holds a message of that height or a lower one.\<close>

theorem outbox_counters_exact:
  assumes "outbox_run s"
  shows "(\<exists>s' changed. mark_messages_as_received s t height = Some (s', changed))
    \<and> (all_messages_delivered_up_to s height \<longleftrightarrow> (\<forall>t ob. outboxes s t = Some ob \<longrightarrow> (\<forall>h \<in> set (outbox_queue ob). height < h)))"
proof -
  from outbox_run_inv [OF assms] have inv: "outbox_inv (outboxes s) (outbox_counters s)"
    and bound: "card (dom (outboxes s)) < 2 ^ 32" by auto
  have key: "h \<in> fst ` set (outbox_counters s) \<longleftrightarrow> in_flight (outboxes s) h \<noteq> {}" for h
  proof -
    have "h \<in> fst ` set (outbox_counters s) \<longleftrightarrow> bt_get (outbox_counters s) h \<noteq> None"
      by (simp add: bt_get_None_iff)
    also have "\<dots> \<longleftrightarrow> card (in_flight (outboxes s) h) \<noteq> 0"
      using inv by (simp add: outbox_inv_def counted_def)
    finally show ?thesis using finite_in_flight [OF inv, of h] by simp
  qed
  have "all_messages_delivered_up_to s height \<longleftrightarrow> (\<forall>h \<in> fst ` set (outbox_counters s). height < h)"
  proof (cases "outbox_counters s")
    case (Cons kn cs)
    have "bt_wf (outbox_counters s)" using inv by (simp add: outbox_inv_def)
    with Cons have "\<forall>h \<in> fst ` set cs. fst kn < h" by (cases kn) simp
    with Cons show ?thesis by (cases kn) (auto simp: all_messages_delivered_up_to_def)
  qed (simp add: all_messages_delivered_up_to_def)
  also have "\<dots> \<longleftrightarrow> (\<forall>t ob. outboxes s t = Some ob \<longrightarrow> (\<forall>h \<in> set (outbox_queue ob). height < h))"
    unfolding key Ball_def by (auto simp: in_flight_def)
  finally show ?thesis using mark_messages_ok [OF inv bound, of t height] by blast
qed

text \<open>C28: Subscribing two chains to the same channel at once fails. The channel is loaded for writing once
  for each subscription, and its lock is still taken the second time; an application that subscribes two
  chains to one of its channels in one transaction therefore makes the block fail.\<close>

theorem subscribe_same_channel_fails:
  "process_subscribes s ((name, cid) # (name, cid') # rest) app = Inl ChainViewError \<and>
   (\<exists>e. process_execution_outcomes s height
      (UserOutcome aid (raw\<lparr>reo_subscribe := (name, cid) # (name, cid') # rest\<rparr>) # results) = Inl e)"
proof -
  have fails: "process_subscribes s ((name, cid) # (name, cid') # rest) app = Inl ChainViewError"
    for s :: "'b chain_state_view" and app
    by (simp add: process_subscribes_def try_load_entries_mut_def)
  let ?raw = "raw\<lparr>reo_subscribe := (name, cid) # (name, cid') # rest\<rparr>"
  have "\<nexists>r. process_raw_execution_outcome s (UserApp aid) (UserMsg aid) height ?raw = Inr r"
    by (auto simp: process_raw_execution_outcome_def Let_def split_beta fails)
  then obtain e where "process_raw_execution_outcome s (UserApp aid) (UserMsg aid) height ?raw = Inl e"
    by (metis sum.exhaust)
  with fails show ?thesis by simp
qed

definition example_chain :: "chain_manager \<Rightarrow> unit chain_state_view" where
  "example_chain mgr =
     \<lparr>cs_chain_id = 1, execution_state = (), execution_state_hash = None,
      tip_state = \<lparr>tip_block_hash = None, next_block_height = 0, num_incoming_bundles = 0, num_operations = 0,
        num_outgoing_messages = 0\<rparr>,
      cs_manager = mgr, confirmed_log = [], received_log = [], received_certificate_trackers = Map.empty,
      inboxes = Map.empty, unskippable_bundles = [], removed_unskippable_bundles = {},
      outboxes = Map.empty, outbox_counters = [], channels = Map.empty\<rparr>"

definition example_outcome :: "(system_message, amount) raw_execution_outcome" where
  "example_outcome = with_message outcome_default \<lparr>rom_destination = Recipient 2, rom_authenticated = False,
     rom_grant = 0, rom_kind = Simple, rom_message = ApplicationCreated\<rparr>"

definition example_chain_after :: "chain_manager \<Rightarrow> unit chain_state_view" where
  "example_chain_after mgr = (example_chain mgr)\<lparr>
     outboxes := [target_chain 2 \<mapsto> \<lparr>next_height_to_schedule = 4, outbox_queue = [3]\<rparr>],
     outbox_counters := [(3, 1)]\<rparr>"

lemma example_outbox_run: "outbox_run (example_chain_after mgr)"
proof -
  have "outbox_run (example_chain mgr)" by (rule run_new) (simp_all add: example_chain_def)
  moreover have "\<exists>msgs. process_execution_outcomes (example_chain mgr) 3 [SystemOutcome example_outcome]
      = Inr (example_chain_after mgr, msgs, [])"
    by (simp add: example_outcome_def with_message_def outcome_default_def process_raw_execution_outcome_def
        try_load_entries_mut_def example_chain_def example_chain_after_def schedule_message_def outbox_new_def
        try_add_one_def checked_add_def counter_increment_def process_unsubscribes_def process_subscribes_def
        fun_eq_iff)
  moreover have "finite (dom (outboxes (example_chain_after mgr)))" "card (dom (outboxes (example_chain_after mgr))) < 2 ^ 32"
    by (simp_all add: example_chain_after_def)
  ultimately show ?thesis by (blast intro: run_outcome)
qed

theorem outbox_counters_exact_witness:
  "\<exists>mgr s' changed. mark_messages_as_received (example_chain_after mgr) (target_chain 2) 3 = Some (s', changed)
    \<and> \<not> all_messages_delivered_up_to (example_chain_after mgr) 3"
  using outbox_counters_exact [OF example_outbox_run, of _ "target_chain 2" 3]
  by (auto simp: example_chain_after_def)

end
