(* ===== verification/Chain_Inboxes.thy ===== *)
theory Chain_Inboxes
  imports Chain_State
begin

section \<open>The inboxes of a chain (linera-chain)\<close>

text \<open>
  \<open>linera-chain/src/chain.rs\<close>: the operations on the inboxes of a chain, and the queue of unskippable
  bundles that decides when the validators may take over the chain. The bundles of a block are grouped by
  origin; the order of the groups only decides which error is reported.

  The invariant \<open>unskippable_inv\<close> says that the queue holds the unskippable bundles waiting in the inboxes
  and those of the set of removed ones, and that its front is not a removed one.
\<close>

definition validate_incoming_bundles :: "'x chain_state_view \<Rightarrow> origin list \<Rightarrow> (chain_error, unit) res" where
  "validate_incoming_bundles self origins =
     and_then (collect_results (\<lambda>orig.
         case inboxes self orig of
           Some inbox \<Rightarrow>
             (case removed_bundles inbox of
                bundle # _ \<Rightarrow> Inl (MissingCrossChainUpdate (cs_chain_id self) orig (mb_height bundle))
              | [] \<Rightarrow> Inr ())
         | None \<Rightarrow> Inr ()) origins)
       (\<lambda>_. Inr ())"

definition next_block_height_to_receive :: "'x chain_state_view \<Rightarrow> origin \<Rightarrow> (chain_error, block_height) res" where
  "next_block_height_to_receive self orig =
     (case inboxes self orig of
        Some inbox \<Rightarrow> inbox_next_block_height_to_receive inbox
      | None \<Rightarrow> Inr 0)"

definition last_anticipated_block_height :: "'x chain_state_view \<Rightarrow> origin \<Rightarrow> block_height option" where
  "last_anticipated_block_height self orig =
     (case inboxes self orig of
        Some inbox \<Rightarrow>
          (if removed_bundles inbox = [] then None else Some (mb_height (last (removed_bundles inbox))))
      | None \<Rightarrow> None)"

definition update_received_certificate_trackers ::
  "'x chain_state_view \<Rightarrow> (validator_name, u64) btree_map \<Rightarrow> 'x chain_state_view" where
  "update_received_certificate_trackers self new_trackers =
     self\<lparr>received_certificate_trackers := foldl (\<lambda>trackers (name, tracker).
         case trackers name of
           Some t \<Rightarrow> if tracker > t then trackers(name \<mapsto> tracker) else trackers
         | None \<Rightarrow> trackers(name \<mapsto> tracker))
       (received_certificate_trackers self) new_trackers\<rparr>"

text \<open>The part of \<open>receive_message_bundle\<close> for a bundle that goes to the inbox.\<close>

definition inbox_of :: "'x chain_state_view \<Rightarrow> origin \<Rightarrow> inbox_state" where
  "inbox_of self orig = (case inboxes self orig of Some inbox \<Rightarrow> inbox | None \<Rightarrow> inbox_new)"

definition set_inbox :: "'x chain_state_view \<Rightarrow> origin \<Rightarrow> inbox_state \<Rightarrow> 'x chain_state_view" where
  "set_inbox self orig inbox = self\<lparr>inboxes := (inboxes self)(orig \<mapsto> inbox)\<rparr>"

definition receive_in_inbox ::
  "'x chain_state_view \<Rightarrow> origin \<Rightarrow> message_bundle \<Rightarrow> timestamp \<Rightarrow> (chain_error, 'x chain_state_view) res" where
  "receive_in_inbox self orig bundle local_time =
     and_then (map_err (\<lambda>_. InternalError ''while processing messages in certified block'')
         (add_bundle (inbox_of self orig) bundle)) (\<lambda>(inbox, newly_added).
       let self = set_inbox self orig inbox
       in Inr (if newly_added \<and> \<not> mb_is_skippable bundle
               then self\<lparr>unskippable_bundles := unskippable_bundles self
                      @ [\<lparr>tb_entry = bundle_in_inbox_new orig bundle, tb_seen = local_time\<rparr>]\<rparr>
               else self))"

text \<open>The bundles of a block for each origin.\<close>

definition bundles_by_origin :: "incoming_bundle list \<Rightarrow> (origin \<times> message_bundle list) list" where
  "bundles_by_origin bundles =
     map (\<lambda>orig. (orig, map ib_bundle (filter (\<lambda>b. ib_origin b = orig) bundles))) (remdups (map ib_origin bundles))"

fun remove_from_inbox ::
  "chain_id \<Rightarrow> origin \<Rightarrow> message_bundle list \<Rightarrow> inbox_state \<Rightarrow> (chain_error, inbox_state \<times> bundle_in_inbox set) res" where
  "remove_from_inbox cid orig [] inbox = Inr (inbox, {})"
| "remove_from_inbox cid orig (bundle # rest) inbox =
     and_then (map_err (chain_error_from_inbox cid orig) (remove_bundle inbox bundle)) (\<lambda>(inbox, was_present).
     and_then (remove_from_inbox cid orig rest inbox) (\<lambda>(inbox, removed).
       Inr (inbox, if was_present \<and> \<not> mb_is_skippable bundle
                   then insert (bundle_in_inbox_new orig bundle) removed else removed)))"

fun remove_from_inboxes ::
  "(origin \<times> message_bundle list) list \<Rightarrow> 'x chain_state_view
     \<Rightarrow> (chain_error, 'x chain_state_view \<times> bundle_in_inbox set) res" where
  "remove_from_inboxes [] self = Inr (self, {})"
| "remove_from_inboxes ((orig, bundles) # rest) self =
     and_then (remove_from_inbox (cs_chain_id self) orig bundles (inbox_of self orig)) (\<lambda>(inbox, removed).
     and_then (remove_from_inboxes rest (set_inbox self orig inbox)) (\<lambda>(self, removed').
       Inr (self, removed \<union> removed')))"

text \<open>The loop that deletes removed bundles from the front of the queue, for the newly removed bundles and
  the earlier ones.\<close>

fun clean_queue ::
  "timestamped_bundle list \<Rightarrow> bundle_in_inbox set \<Rightarrow> bundle_in_inbox set
     \<Rightarrow> timestamped_bundle list \<times> bundle_in_inbox set \<times> bundle_in_inbox set" where
  "clean_queue [] new_removed old_removed = ([], new_removed, old_removed)"
| "clean_queue (entry # queue) new_removed old_removed =
     (if tb_entry entry \<in> new_removed then clean_queue queue (new_removed - {tb_entry entry}) old_removed
      else if tb_entry entry \<in> old_removed then clean_queue queue new_removed (old_removed - {tb_entry entry})
      else (entry # queue, new_removed, old_removed))"

definition remove_bundles_from_inboxes ::
  "'x chain_state_view \<Rightarrow> block \<Rightarrow> (chain_error, 'x chain_state_view) res" where
  "remove_bundles_from_inboxes self blk =
     and_then (collect_results (\<lambda>b. ensure (mb_timestamp (ib_bundle b) \<le> block_timestamp blk)
         (IncorrectBundleTimestamp (cs_chain_id self) (mb_timestamp (ib_bundle b)) (block_timestamp blk)))
         (incoming_bundles blk)) (\<lambda>_.
     and_then (remove_from_inboxes (bundles_by_origin (incoming_bundles blk)) self) (\<lambda>(self, removed).
       if removed = {} then Inr self
       else let (queue, new_removed, old_removed) =
                  (case unskippable_bundles self of
                     entry # queue \<Rightarrow>
                       if tb_entry entry \<in> removed
                       then clean_queue queue (removed - {tb_entry entry}) (removed_unskippable_bundles self)
                       else (unskippable_bundles self, removed, removed_unskippable_bundles self)
                   | [] \<Rightarrow> ([], removed, removed_unskippable_bundles self))
            in Inr (self\<lparr>unskippable_bundles := queue, removed_unskippable_bundles := old_removed \<union> new_removed\<rparr>)))"

subsection \<open>The queue of unskippable bundles\<close>

definition waiting :: "'x chain_state_view \<Rightarrow> bundle_in_inbox set" where
  "waiting s = {e. \<exists>inbox b. inboxes s (bii_origin e) = Some inbox \<and> b \<in> set (added_bundles inbox)
     \<and> cursor_from b = bii_cursor e \<and> \<not> mb_is_skippable b}"

definition entries :: "'x chain_state_view \<Rightarrow> bundle_in_inbox list" where
  "entries s = map tb_entry (unskippable_bundles s)"

text \<open>\<open>E\<close> are the entries of the queue and \<open>X\<close> those of them whose bundles were removed.\<close>

definition queue_covers :: "'x chain_state_view \<Rightarrow> bundle_in_inbox set \<Rightarrow> bundle_in_inbox set \<Rightarrow> bool" where
  "queue_covers s E X \<longleftrightarrow> E = waiting s \<union> X \<and> waiting s \<inter> X = {}
     \<and> (\<forall>orig inbox. inboxes s orig = Some inbox \<longrightarrow> (\<exists>A R. inbox_history A R inbox))
     \<and> (\<forall>e \<in> E. \<exists>inbox. inboxes s (bii_origin e) = Some inbox \<and> bii_cursor e < next_cursor_to_add inbox)"

definition unskippable_inv :: "'x chain_state_view \<Rightarrow> bool" where
  "unskippable_inv s \<longleftrightarrow> distinct (entries s) \<and> queue_covers s (set (entries s)) (removed_unskippable_bundles s)
     \<and> (entries s \<noteq> [] \<longrightarrow> hd (entries s) \<notin> removed_unskippable_bundles s)"

lemma set_inbox_simps [simp]:
  "inboxes (set_inbox s orig inbox) = (inboxes s)(orig \<mapsto> inbox)"
  "unskippable_bundles (set_inbox s orig inbox) = unskippable_bundles s"
  "removed_unskippable_bundles (set_inbox s orig inbox) = removed_unskippable_bundles s"
  "set_inbox (set_inbox s orig inbox) orig inbox' = set_inbox s orig inbox'"
  "inbox_of (set_inbox s orig inbox) orig = inbox"
  by (simp_all add: set_inbox_def inbox_of_def)

lemma inbox_of_history: "queue_covers s E X \<Longrightarrow> \<exists>A R. inbox_history A R (inbox_of s orig)"
  by (auto simp: inbox_of_def queue_covers_def split: option.split intro: history_new)

lemma waiting_upd:
  "waiting (set_inbox s orig inbox) =
     {e \<in> waiting s. bii_origin e \<noteq> orig}
     \<union> {BundleInInbox orig (cursor_from b) | b. b \<in> set (added_bundles inbox) \<and> \<not> mb_is_skippable b}"
proof (rule set_eqI)
  fix e
  show "e \<in> waiting (set_inbox s orig inbox) \<longleftrightarrow> e \<in> {e \<in> waiting s. bii_origin e \<noteq> orig}
     \<union> {BundleInInbox orig (cursor_from b) | b. b \<in> set (added_bundles inbox) \<and> \<not> mb_is_skippable b}"
    by (cases e) (auto simp: waiting_def)
qed

lemma waiting_of:
  "e \<in> waiting s \<and> bii_origin e = orig \<longleftrightarrow>
     (\<exists>b \<in> set (added_bundles (inbox_of s orig)). \<not> mb_is_skippable b \<and> e = BundleInInbox orig (cursor_from b))"
  by (cases e; cases "inboxes s orig") (auto simp: waiting_def inbox_of_def inbox_new_def)

lemma waiting_same:
  assumes "\<And>b. \<not> mb_is_skippable b \<Longrightarrow> b \<in> set (added_bundles inbox) \<longleftrightarrow> b \<in> set (added_bundles (inbox_of s orig))"
  shows "waiting (set_inbox s orig inbox) = waiting s"
  unfolding waiting_upd using assms waiting_of [of _ s orig] by blast

lemma queue_covers_upd:
  assumes "queue_covers s E X" and "\<exists>A R. inbox_history A R inbox"
    and "next_cursor_to_add (inbox_of s orig) \<le> next_cursor_to_add inbox"
    and "E' = waiting (set_inbox s orig inbox) \<union> X'"
    and "waiting (set_inbox s orig inbox) \<inter> X' = {}"
    and "\<forall>e \<in> E' - E. bii_origin e = orig \<and> bii_cursor e < next_cursor_to_add inbox"
  shows "queue_covers (set_inbox s orig inbox) E' X'"
proof -
  have "\<exists>inbox'. ((inboxes s)(orig \<mapsto> inbox)) (bii_origin e) = Some inbox' \<and> bii_cursor e < next_cursor_to_add inbox'"
    if "e \<in> E'" for e
  proof (cases "bii_origin e = orig")
    case True
    show ?thesis
    proof (cases "e \<in> E")
      case True
      then obtain inbox' where "inboxes s (bii_origin e) = Some inbox'" "bii_cursor e < next_cursor_to_add inbox'"
        using assms(1) unfolding queue_covers_def by blast
      with \<open>bii_origin e = orig\<close> have "bii_cursor e < next_cursor_to_add (inbox_of s orig)"
        by (simp add: inbox_of_def)
      with assms(3) \<open>bii_origin e = orig\<close> show ?thesis by simp
    next
      case False
      with assms(6) that True show ?thesis by simp
    qed
  next
    case False
    with assms(6) that have "e \<in> E" by blast
    with False assms(1) show ?thesis unfolding queue_covers_def by fastforce
  qed
  moreover have "\<exists>A R. inbox_history A R inbox'" if "((inboxes s)(orig \<mapsto> inbox)) orig' = Some inbox'" for orig' inbox'
    using that assms(1,2) unfolding queue_covers_def by (auto split: if_splits)
  ultimately show ?thesis using assms(4,5) unfolding queue_covers_def by simp
qed

lemma queue_covers_cong: "inboxes s' = inboxes s \<Longrightarrow> queue_covers s' E X = queue_covers s E X"
  by (simp add: queue_covers_def waiting_def)

lemma queue_covers_subset: "queue_covers s E X \<Longrightarrow> X \<subseteq> E"
  by (auto simp: queue_covers_def)

lemma receive_in_inbox_inv:
  assumes inv: "unskippable_inv s" and run: "receive_in_inbox s orig b t = Inr s'"
  shows "unskippable_inv s'"
proof -
  let ?ib = "inbox_of s orig" and ?new = "bundle_in_inbox_new orig b"
  let ?X = "removed_unskippable_bundles s" and ?E = "set (entries s)"
  from run obtain inbox n where add: "add_bundle ?ib b = Inr (inbox, n)"
    and s': "s' = (let self = set_inbox s orig inbox
       in if n \<and> \<not> mb_is_skippable b
          then self\<lparr>unskippable_bundles := unskippable_bundles self @ [\<lparr>tb_entry = ?new, tb_seen = t\<rparr>]\<rparr>
          else self)"
    by (auto simp: receive_in_inbox_def Let_def)
  let ?s = "set_inbox s orig inbox"
  from inv have cov: "queue_covers s ?E ?X" by (simp add: unskippable_inv_def)
  with inbox_of_history obtain A R where "inbox_history A R ?ib" by blast
  with add have hist: "\<exists>A R. inbox_history A R inbox" by (blast intro: history_add)
  from add obtain d where c: "next_cursor_to_add ?ib \<le> cursor_from b" and d: "cursor_try_add_one (cursor_from b) = Inr d"
    and nxt: "next_cursor_to_add inbox = d"
    and added: "added_bundles inbox = (if n then added_bundles ?ib @ [b] else added_bundles ?ib)"
    by (elim add_bundle_Inr) auto
  have "cursor_from b < d" using cursor_try_add_one_iff [OF d, of "cursor_from b"] by simp
  with c nxt have le: "next_cursor_to_add ?ib \<le> next_cursor_to_add inbox" by simp
  show ?thesis
  proof (cases "n \<and> \<not> mb_is_skippable b")
    case True
    have "?new \<notin> ?E"
    proof
      assume "?new \<in> ?E"
      with cov have "\<exists>inbox'. inboxes s (bii_origin ?new) = Some inbox' \<and> bii_cursor ?new < next_cursor_to_add inbox'"
        unfolding queue_covers_def by blast
      with c show False by (auto simp: inbox_of_def bundle_in_inbox_new_def)
    qed
    moreover have "waiting ?s = insert ?new (waiting s)"
    proof -
      have "{BundleInInbox orig (cursor_from x) | x. x \<in> set (added_bundles inbox) \<and> \<not> mb_is_skippable x}
          = insert ?new {BundleInInbox orig (cursor_from x) | x. x \<in> set (added_bundles ?ib) \<and> \<not> mb_is_skippable x}"
        using True added by (auto simp: bundle_in_inbox_new_def)
      also have "{BundleInInbox orig (cursor_from x) | x. x \<in> set (added_bundles ?ib) \<and> \<not> mb_is_skippable x}
          = {e \<in> waiting s. bii_origin e = orig}"
        using waiting_of [of _ s orig] by blast
      finally show ?thesis unfolding waiting_upd by auto
    qed
    ultimately have "queue_covers ?s (insert ?new ?E) ?X"
      using cov \<open>cursor_from b < d\<close> nxt
      by (intro queue_covers_upd [OF cov hist le]) (auto simp: queue_covers_def bundle_in_inbox_new_def)
    moreover have "inboxes s' = inboxes ?s" "entries s' = entries s @ [?new]" "removed_unskippable_bundles s' = ?X"
      using True by (simp_all add: s' entries_def)
    moreover have "?new \<notin> ?X" using queue_covers_subset [OF cov] \<open>?new \<notin> ?E\<close> by blast
    ultimately show ?thesis
      using inv \<open>?new \<notin> ?E\<close> queue_covers_cong [of s' ?s]
      by (cases "entries s") (auto simp: unskippable_inv_def insert_commute)
  next
    case False
    have "waiting ?s = waiting s" using False added by (intro waiting_same) auto
    with cov have "queue_covers ?s ?E ?X"
      by (intro queue_covers_upd [OF cov hist le]) (auto simp: queue_covers_def)
    moreover have "inboxes s' = inboxes ?s" "entries s' = entries s" "removed_unskippable_bundles s' = ?X"
      using False unfolding s' Let_def by (auto simp: entries_def)
    ultimately show ?thesis
      using inv queue_covers_cong [of s' ?s] by (cases "entries s") (simp_all add: unskippable_inv_def)
  qed
qed

text \<open>Removing bundles.\<close>

lemma remove_bundle_covers:
  assumes cov: "queue_covers s E X" and rem: "remove_bundle (inbox_of s orig) b = Inr (inbox, known)"
  defines "gone \<equiv> (if known \<and> \<not> mb_is_skippable b then {bundle_in_inbox_new orig b} else {})"
  shows "queue_covers (set_inbox s orig inbox) E (X \<union> gone)" and "gone \<subseteq> waiting s"
proof -
  let ?ib = "inbox_of s orig" and ?s = "set_inbox s orig inbox"
  from inbox_of_history [OF cov] obtain A R where hist: "inbox_history A R ?ib" by blast
  with rem have hist': "\<exists>A R. inbox_history A R inbox" by (blast intro: history_remove)
  from inbox_history_inv [OF hist] have sorted: "increasing (added_bundles ?ib)"
    by (auto simp: inbox_inv_def sorted_wrt_append)
  from rem obtain S where S: "list_all mb_is_skippable S" and le: "next_cursor_to_add inbox = next_cursor_to_add ?ib"
    and split: "added_bundles ?ib = (if known then S @ b # added_bundles inbox else S)" "\<not> known \<Longrightarrow> added_bundles inbox = []"
    by (elim remove_bundle_Inr) auto
  have wait: "waiting ?s = waiting s - gone \<and> gone \<subseteq> waiting s"
  proof (cases "known \<and> \<not> mb_is_skippable b")
    case True
    let ?W = "\<lambda>bs. {BundleInInbox orig (cursor_from x) | x. x \<in> set bs \<and> \<not> mb_is_skippable x}"
    have "?W (added_bundles ?ib) = insert (bundle_in_inbox_new orig b) (?W (added_bundles inbox))"
      using S True split(1) by (auto simp: list_all_iff bundle_in_inbox_new_def)
    moreover have "bundle_in_inbox_new orig b \<notin> ?W (added_bundles inbox)"
      using sorted split(1) True by (auto simp: sorted_wrt_append bundle_in_inbox_new_def)
    moreover have "?W (added_bundles ?ib) = {e \<in> waiting s. bii_origin e = orig}"
      using waiting_of [of _ s orig] by blast
    moreover have "bii_origin (bundle_in_inbox_new orig b) = orig" by (simp add: bundle_in_inbox_new_def)
    ultimately show ?thesis using True unfolding waiting_upd gone_def by auto
  next
    case False
    then have "waiting ?s = waiting s"
      using S split by (intro waiting_same) (auto simp: list_all_iff split: if_splits)
    moreover have "gone = {}" using False by (auto simp: gone_def)
    ultimately show ?thesis by simp
  qed
  then show "gone \<subseteq> waiting s" by blast
  show "queue_covers ?s E (X \<union> gone)"
    using cov wait by (intro queue_covers_upd [OF cov hist']) (auto simp: le queue_covers_def)
qed

lemma remove_from_inbox_covers:
  assumes "queue_covers s E X" and "remove_from_inbox cid orig bs (inbox_of s orig) = Inr (inbox, removed)"
  shows "queue_covers (set_inbox s orig inbox) E (X \<union> removed) \<and> removed \<subseteq> waiting s"
  using assms
proof (induction bs arbitrary: s X removed)
  case Nil
  have same: "waiting (set_inbox s orig (inbox_of s orig)) = waiting s"
    by (intro waiting_same) simp
  have "E = waiting s \<union> X" "waiting s \<inter> X = {}" using Nil.prems(1) by (auto simp: queue_covers_def)
  then have "queue_covers (set_inbox s orig (inbox_of s orig)) E X"
    using inbox_of_history [OF Nil.prems(1)]
    by (intro queue_covers_upd [OF Nil.prems(1)]) (simp_all only: same, simp_all)
  moreover have "inbox = inbox_of s orig" "removed = {}" using Nil.prems(2) by auto
  ultimately show ?case by (simp only: Un_empty_right empty_subsetI simp_thms)
next
  case (Cons b bs)
  from Cons.prems(2) obtain inbox1 known removed1 where
    rem: "remove_bundle (inbox_of s orig) b = Inr (inbox1, known)"
    and rest: "remove_from_inbox cid orig bs inbox1 = Inr (inbox, removed1)"
    and removed: "removed = (if known \<and> \<not> mb_is_skippable b then {bundle_in_inbox_new orig b} else {}) \<union> removed1"
    by (auto split: if_splits)
  let ?s = "set_inbox s orig inbox1"
  note step = remove_bundle_covers [OF Cons.prems(1) rem]
  have "waiting ?s \<subseteq> waiting s" using step(1) Cons.prems(1) by (auto simp: queue_covers_def)
  moreover from Cons.IH [OF step(1)] rest
  have "queue_covers (set_inbox ?s orig inbox) E
      (X \<union> (if known \<and> \<not> mb_is_skippable b then {bundle_in_inbox_new orig b} else {}) \<union> removed1) \<and> removed1 \<subseteq> waiting ?s"
    by simp
  ultimately show ?case using step(2) removed by (simp add: Un_assoc) blast
qed

lemma remove_from_inboxes_covers:
  assumes "queue_covers s E X" and "remove_from_inboxes groups s = Inr (s', removed)"
  shows "queue_covers s' E (X \<union> removed) \<and> removed \<subseteq> waiting s
    \<and> unskippable_bundles s' = unskippable_bundles s
    \<and> removed_unskippable_bundles s' = removed_unskippable_bundles s"
  using assms
proof (induction groups s arbitrary: X s' removed rule: remove_from_inboxes.induct)
  case (1 s)
  then show ?case by simp
next
  case (2 orig bundles rest s)
  from "2.prems"(2) obtain inbox removed1 removed2 where
    first: "remove_from_inbox (cs_chain_id s) orig bundles (inbox_of s orig) = Inr (inbox, removed1)"
    and rest: "remove_from_inboxes rest (set_inbox s orig inbox) = Inr (s', removed2)"
    and removed: "removed = removed1 \<union> removed2"
    by auto
  note step = remove_from_inbox_covers [OF "2.prems"(1) first]
  from step "2.prems"(1) have "waiting (set_inbox s orig inbox) \<subseteq> waiting s"
    by (auto simp: queue_covers_def)
  with "2.IH" [OF first refl conjunct1 [OF step] rest] step removed show ?case by (simp add: Un_assoc) blast
qed

lemma clean_queue_spec:
  assumes "clean_queue q N X = (q', N', X')" and "distinct (map tb_entry q)" and "N \<inter> X = {}"
  shows "\<exists>D. q = D @ q' \<and> tb_entry ` set D \<subseteq> N \<union> X \<and> N' \<union> X' = N \<union> X - tb_entry ` set D
    \<and> (q' = [] \<or> tb_entry (hd q') \<notin> N' \<union> X')"
  using assms
proof (induction q N X rule: clean_queue.induct)
  case (2 entry queue N X)
  consider (new) "tb_entry entry \<in> N" | (old) "tb_entry entry \<notin> N" "tb_entry entry \<in> X"
    | (stop) "tb_entry entry \<notin> N" "tb_entry entry \<notin> X" by blast
  then show ?case
  proof cases
    case new
    with 2 obtain D where "queue = D @ q'" "tb_entry ` set D \<subseteq> N - {tb_entry entry} \<union> X"
      "N' \<union> X' = (N - {tb_entry entry}) \<union> X - tb_entry ` set D" "q' = [] \<or> tb_entry (hd q') \<notin> N' \<union> X'"
      by auto
    with new "2.prems"(3) show ?thesis by (intro exI [of _ "entry # D"]) auto
  next
    case old
    with 2 obtain D where "queue = D @ q'" "tb_entry ` set D \<subseteq> N \<union> (X - {tb_entry entry})"
      "N' \<union> X' = N \<union> (X - {tb_entry entry}) - tb_entry ` set D" "q' = [] \<or> tb_entry (hd q') \<notin> N' \<union> X'"
      by auto
    with old "2.prems"(3) show ?thesis by (intro exI [of _ "entry # D"]) auto
  next
    case stop
    with 2 show ?thesis by (intro exI [of _ "[]"]) auto
  qed
qed simp

lemma queue_covers_drop:
  assumes "queue_covers s E (X \<union> N)" and "G \<subseteq> X \<union> N"
  shows "queue_covers s (E - G) (X \<union> N - G)"
  using assms by (auto simp: queue_covers_def)

lemma remove_bundles_inv:
  assumes inv: "unskippable_inv s" and run: "remove_bundles_from_inboxes s blk = Inr s'"
  shows "unskippable_inv s'"
proof -
  let ?X = "removed_unskippable_bundles s"
  from run obtain s1 removed where rem: "remove_from_inboxes (bundles_by_origin (incoming_bundles blk)) s = Inr (s1, removed)"
    by (auto simp: remove_bundles_from_inboxes_def)
  from inv have cov: "queue_covers s (set (entries s)) ?X" by (simp add: unskippable_inv_def)
  from remove_from_inboxes_covers [OF cov rem] have
    cov1: "queue_covers s1 (set (entries s)) (?X \<union> removed)" and sub: "removed \<subseteq> waiting s"
    and same: "unskippable_bundles s1 = unskippable_bundles s" "removed_unskippable_bundles s1 = ?X"
    by auto
  have disj: "removed \<inter> ?X = {}" using sub cov by (auto simp: queue_covers_def)
  show ?thesis
  proof (cases "removed = {}")
    case True
    then have "s' = s1" using run rem by (auto simp: remove_bundles_from_inboxes_def)
    with True inv cov1 same show ?thesis by (simp add: unskippable_inv_def entries_def)
  next
    case False
    with sub cov have "entries s \<noteq> []" by (auto simp: queue_covers_def)
    then obtain entry queue where q: "unskippable_bundles s = entry # queue"
      by (cases "unskippable_bundles s") (auto simp: entries_def)
    from inv q have front: "tb_entry entry \<notin> ?X" "distinct (map tb_entry (entry # queue))"
      by (simp_all add: unskippable_inv_def entries_def)
    show ?thesis
    proof (cases "tb_entry entry \<in> removed")
      case True
      obtain q' N' X' where clean: "clean_queue queue (removed - {tb_entry entry}) ?X = (q', N', X')"
        by (metis prod_cases3)
      have s': "s' = s1\<lparr>unskippable_bundles := q', removed_unskippable_bundles := X' \<union> N'\<rparr>"
        using run rem False True q same clean by (auto simp: remove_bundles_from_inboxes_def)
      from clean_queue_spec [OF clean] front(2) disj obtain D where
        D: "queue = D @ q'" "tb_entry ` set D \<subseteq> removed - {tb_entry entry} \<union> ?X"
        "N' \<union> X' = removed - {tb_entry entry} \<union> ?X - tb_entry ` set D" "q' = [] \<or> tb_entry (hd q') \<notin> N' \<union> X'"
        by auto
      let ?G = "insert (tb_entry entry) (tb_entry ` set D)"
      have "queue_covers s1 (set (entries s) - ?G) (?X \<union> removed - ?G)"
        using queue_covers_drop [OF cov1] D(2) True by blast
      moreover have "set (entries s) - ?G = tb_entry ` set q'"
        using front(2) D(1) by (auto simp: entries_def q)
      moreover have "?X \<union> removed - ?G = X' \<union> N'" using D(3) front(1) by auto
      ultimately have "queue_covers s1 (tb_entry ` set q') (X' \<union> N')" by simp
      then have "queue_covers s' (tb_entry ` set q') (X' \<union> N')"
        using queue_covers_cong [of s' s1] s' by simp
      moreover have "distinct (map tb_entry q')" using front(2) D(1) by simp
      ultimately show ?thesis
        using D(4) by (cases q') (auto simp: unskippable_inv_def s' entries_def)
    next
      case False
      have s': "s' = s1\<lparr>unskippable_bundles := unskippable_bundles s, removed_unskippable_bundles := ?X \<union> removed\<rparr>"
        using run rem False \<open>removed \<noteq> {}\<close> q same by (auto simp: remove_bundles_from_inboxes_def)
      have "queue_covers s' (set (entries s)) (?X \<union> removed)"
        using cov1 queue_covers_cong [of s' s1] s' by simp
      with s' False front q inv show ?thesis by (simp add: unskippable_inv_def entries_def)
    qed
  qed
qed

text \<open>The runs of a chain on its inboxes.\<close>

inductive inbox_run :: "'x chain_state_view \<Rightarrow> bool" where
  irun_new: "inboxes s = Map.empty \<Longrightarrow> unskippable_bundles s = [] \<Longrightarrow> removed_unskippable_bundles s = {} \<Longrightarrow> inbox_run s"
| irun_receive: "inbox_run s \<Longrightarrow> receive_in_inbox s orig b t = Inr s' \<Longrightarrow> inbox_run s'"
| irun_remove: "inbox_run s \<Longrightarrow> remove_bundles_from_inboxes s blk = Inr s' \<Longrightarrow> inbox_run s'"

lemma inbox_run_inv: "inbox_run s \<Longrightarrow> unskippable_inv s"
proof (induction rule: inbox_run.induct)
  case (irun_new s)
  then show ?case by (simp add: unskippable_inv_def entries_def queue_covers_def waiting_def)
qed (auto intro: receive_in_inbox_inv remove_bundles_inv)

text \<open>C29: The validators take over a chain only for a bundle that is really waiting. After any bundles
  were received and any blocks executed, the queue of unskippable bundles is empty exactly when no inbox
  holds an unskippable bundle, and otherwise its front, whose age decides on the fallback, is an
  unskippable bundle that is still waiting in the inbox of its origin; every waiting unskippable bundle is
  in the queue.\<close>

theorem unskippable_queue_front:
  assumes "inbox_run s"
  shows "waiting s \<subseteq> tb_entry ` set (unskippable_bundles s)
    \<and> (unskippable_bundles s = [] \<longleftrightarrow> waiting s = {})
    \<and> (\<forall>e queue. unskippable_bundles s = e # queue \<longrightarrow>
         (\<exists>inbox b. inboxes s (bii_origin (tb_entry e)) = Some inbox \<and> b \<in> set (added_bundles inbox)
            \<and> cursor_from b = bii_cursor (tb_entry e) \<and> \<not> mb_is_skippable b))"
proof -
  from inbox_run_inv [OF assms] have inv: "unskippable_inv s" .
  then have cov: "tb_entry ` set (unskippable_bundles s) = waiting s \<union> removed_unskippable_bundles s"
    by (simp add: unskippable_inv_def queue_covers_def entries_def)
  have front: "tb_entry e \<in> waiting s" if "unskippable_bundles s = e # queue" for e queue
  proof -
    from that inv have "tb_entry e \<notin> removed_unskippable_bundles s" by (simp add: unskippable_inv_def entries_def)
    moreover from that cov have "tb_entry e \<in> waiting s \<union> removed_unskippable_bundles s" by auto
    ultimately show ?thesis by blast
  qed
  moreover have "unskippable_bundles s = [] \<longleftrightarrow> waiting s = {}"
    using cov front by (cases "unskippable_bundles s") auto
  ultimately show ?thesis using cov by (auto simp: waiting_def)
qed

definition example_protected :: message_bundle where
  "example_protected = (example_bundle 4)\<lparr>mb_messages := [\<lparr>pm_authenticated_signer = None, pm_grant = 0,
     pm_refund_grant_to = None, pm_kind = Protected, pm_index = 0, pm_message = SystemMsg ApplicationCreated\<rparr>]\<rparr>"

theorem unskippable_queue_front_witness:
  "\<exists>mgr s inbox b. receive_in_inbox (example_chain mgr) (origin_chain 2) example_protected 9 = Inr s
    \<and> unskippable_bundles s = [\<lparr>tb_entry = BundleInInbox (origin_chain 2) (Cursor 4 0), tb_seen = 9\<rparr>]
    \<and> inboxes s (origin_chain 2) = Some inbox \<and> b \<in> set (added_bundles inbox) \<and> \<not> mb_is_skippable b"
proof -
  fix mgr :: chain_manager
  have cursor: "cursor_from example_protected = Cursor 4 0" "\<not> mb_is_skippable example_protected"
    by (simp_all add: example_protected_def example_bundle_def cursor_from_def mb_is_skippable_def pm_is_skippable_def)
  have "\<exists>s. receive_in_inbox (example_chain mgr) (origin_chain 2) example_protected 9 = Inr s
      \<and> unskippable_bundles s = [\<lparr>tb_entry = BundleInInbox (origin_chain 2) (Cursor 4 0), tb_seen = 9\<rparr>]"
    by (simp add: receive_in_inbox_def inbox_of_def example_chain_def add_bundle_def inbox_new_def cursor
        example_cursor(2) bundle_in_inbox_new_def set_inbox_def)
  then obtain s where s: "receive_in_inbox (example_chain mgr) (origin_chain 2) example_protected 9 = Inr s"
    "unskippable_bundles s = [\<lparr>tb_entry = BundleInInbox (origin_chain 2) (Cursor 4 0), tb_seen = 9\<rparr>]"
    by blast
  have "inbox_run (example_chain mgr)" by (rule irun_new) (simp_all add: example_chain_def)
  then have "inbox_run s" using s(1) by (rule irun_receive)
  from unskippable_queue_front [OF this] s show ?thesis by fastforce
qed

end
