(* ===== verification/Applications.thy ===== *)
theory Applications
  imports Execution_Types "HOL-Library.AList"
begin

section \<open>The application registry (linera-execution/src/applications.rs)\<close>

text \<open>
  The applications a chain knows, as an association list, and the topological sort of the dependencies of
  applications. The stack of \<open>find_dependencies\<close> is a list whose head is the top. \<open>registered_apps\<close> is the
  map of further descriptions that the caller passes.

  The lemmas show that the loop ends, also when the dependencies are cyclic, what it returns, and that a chain
  can register the descriptions another chain returns, in that order.
\<close>

type_synonym app_registry = "(application_id \<times> user_application_description) list"

definition describe_application ::
  "app_registry \<Rightarrow> application_id \<Rightarrow> (system_execution_error, user_application_description) res" where
  "describe_application self app_id = ok_or (map_of self app_id) (UnknownApplicationId app_id)"

definition register_application ::
  "app_registry \<Rightarrow> user_application_description \<Rightarrow> (system_execution_error, application_id \<times> app_registry) res" where
  "register_application self application =
     and_then (collect_results (describe_application self) (uad_required_application_ids application)) (\<lambda>_.
       let app_id = application_id_from_description application
       in Inr (app_id, AList.update app_id application self))"

definition register_new_application ::
  "app_registry \<Rightarrow> application_id \<Rightarrow> bytes \<Rightarrow> application_id list \<Rightarrow> (system_execution_error, app_registry) res" where
  "register_new_application self app_id parameters required_application_ids =
     and_then (collect_results (describe_application self) required_application_ids) (\<lambda>_.
       Inr (AList.update app_id
         \<lparr>uad_bytecode_id = app_bytecode_id app_id, uad_creation = app_creation app_id, uad_parameters = parameters,
          uad_required_application_ids = required_application_ids\<rparr> self))"

text \<open>The description the sort uses.\<close>

definition lookup_application ::
  "app_registry \<Rightarrow> app_registry \<Rightarrow> application_id \<Rightarrow> (system_execution_error, user_application_description) res" where
  "lookup_application self registered_apps app_id =
     (case map_of registered_apps app_id of Some app \<Rightarrow> Inr app | None \<Rightarrow> describe_application self app_id)"

definition known_apps :: "app_registry \<Rightarrow> app_registry \<Rightarrow> application_id set" where
  "known_apps self registered_apps = set (map fst self) \<union> set (map fst registered_apps)"

lemma lookup_application_known:
  "lookup_application self registered_apps app_id = Inr app \<Longrightarrow> app_id \<in> known_apps self registered_apps"
  by (auto simp: lookup_application_def describe_application_def known_apps_def rev_image_eqI
      split: option.splits dest!: map_of_SomeD)

text \<open>The loop: \<open>sorted_apps\<close> and \<open>result\<close> have the same elements; \<open>seen\<close> are the applications whose
  dependencies have been pushed.\<close>

function dependencies_loop ::
  "app_registry \<Rightarrow> app_registry \<Rightarrow> application_id list \<Rightarrow> application_id list \<Rightarrow> application_id set \<Rightarrow> application_id set
     \<Rightarrow> (system_execution_error, application_id list) res" where
  "dependencies_loop self registered_apps [] result sorted_apps seen = Inr result"
| "dependencies_loop self registered_apps (app_id # stack) result sorted_apps seen =
     (if app_id \<in> sorted_apps then dependencies_loop self registered_apps stack result sorted_apps seen
      else if app_id \<in> seen then
        dependencies_loop self registered_apps stack (result @ [app_id]) (insert app_id sorted_apps) seen
      else
        (case lookup_application self registered_apps app_id of
           Inl e \<Rightarrow> Inl e
         | Inr app \<Rightarrow>
             dependencies_loop self registered_apps
               ([child \<leftarrow> uad_required_application_ids app. child \<notin> insert app_id seen] @ app_id # stack)
               result sorted_apps (insert app_id seen)))"
  by pat_completeness auto

termination
proof (relation "measures [\<lambda>(self, registered_apps, stack, result, sorted_apps, seen). card (known_apps self registered_apps - seen),
    \<lambda>(self, registered_apps, stack, result, sorted_apps, seen). length stack]", goal_cases)
  case (4 self registered_apps app_id stack result sorted_apps seen app)
  have "finite (known_apps self registered_apps)" by (simp add: known_apps_def)
  then have "card (known_apps self registered_apps - insert app_id seen) < card (known_apps self registered_apps - seen)"
    using lookup_application_known [OF 4(3)] 4(2) by (intro psubset_card_mono) auto
  then show ?case by simp
qed simp_all

definition find_dependencies ::
  "app_registry \<Rightarrow> application_id list \<Rightarrow> app_registry \<Rightarrow> (system_execution_error, application_id list) res" where
  "find_dependencies self stack registered_apps = dependencies_loop self registered_apps (rev stack) [] {} {}"

definition describe_applications_with_dependencies ::
  "app_registry \<Rightarrow> application_id list \<Rightarrow> app_registry
     \<Rightarrow> (system_execution_error, user_application_description list) res" where
  "describe_applications_with_dependencies self ids extra_registered_apps =
     and_then (find_dependencies self ids extra_registered_apps) (\<lambda>ids_with_deps.
       collect_results (lookup_application self extra_registered_apps) ids_with_deps)"

subsection \<open>The sort is topological\<close>

definition depends :: "app_registry \<Rightarrow> app_registry \<Rightarrow> (application_id \<times> application_id) set" where
  "depends self registered_apps = {(a, b). \<exists>app. lookup_application self registered_apps a = Inr app
     \<and> b \<in> set (uad_required_application_ids app)}"

fun deps_first :: "(application_id \<times> application_id) set \<Rightarrow> application_id set \<Rightarrow> application_id list \<Rightarrow> bool" where
  "deps_first D before [] = True"
| "deps_first D before (app_id # ids) = (D `` {app_id} \<subseteq> before \<and> deps_first D (insert app_id before) ids)"

lemma deps_first_snoc [simp]:
  "deps_first D before (ids @ [app_id]) \<longleftrightarrow> deps_first D before ids \<and> D `` {app_id} \<subseteq> before \<union> set ids"
  by (induction ids arbitrary: before) auto

lemma deps_first_closed: "deps_first D before ids \<Longrightarrow> D `` set ids \<subseteq> before \<union> set ids"
  by (induction ids arbitrary: before) fastforce+

text \<open>An application that has been seen but not sorted waits on the stack: everything above it is one of its
  dependencies, and its own dependencies are above it or sorted.\<close>

definition waits :: "(application_id \<times> application_id) set \<Rightarrow> application_id list \<Rightarrow> application_id set \<Rightarrow> application_id \<Rightarrow> bool" where
  "waits D stack sorted_apps g \<longleftrightarrow> g \<in> set stack \<and>
     (\<forall>x \<in> set (takeWhile (\<lambda>x. x \<noteq> g) stack). (g, x) \<in> D\<^sup>+) \<and>
     D `` {g} \<subseteq> sorted_apps \<union> set (takeWhile (\<lambda>x. x \<noteq> g) stack)"

lemma waits_pop:
  assumes "waits D (x # stack) sorted_apps g" "g \<noteq> x" "x \<in> sorted_apps'" "sorted_apps \<subseteq> sorted_apps'"
  shows "waits D stack sorted_apps' g"
  using assms by (auto simp: waits_def)

lemma waits_top: "waits D (g # stack) sorted_apps g \<Longrightarrow> D `` {g} \<subseteq> sorted_apps"
  by (simp add: waits_def)

lemma waits_push:
  assumes "waits D (x # stack) sorted_apps g" "g \<noteq> x" "g \<notin> set cs" "set cs \<subseteq> D `` {x}"
  shows "waits D (cs @ x # stack) sorted_apps g"
proof -
  have "takeWhile (\<lambda>x. x \<noteq> g) (cs @ x # stack) = cs @ takeWhile (\<lambda>x. x \<noteq> g) (x # stack)"
    by (rule takeWhile_append2) (use assms(3) in auto)
  moreover have "(g, x) \<in> D\<^sup>+" using assms(1,2) by (simp add: waits_def)
  ultimately show ?thesis
    using assms by (auto simp: waits_def intro: trancl_into_trancl)
qed

lemma waits_new:
  assumes "x \<notin> set cs" "set cs \<subseteq> D `` {x}" "D `` {x} \<subseteq> sorted_apps \<union> set cs"
  shows "waits D (cs @ x # stack) sorted_apps x"
proof -
  have "takeWhile (\<lambda>y. y \<noteq> x) (cs @ x # stack) = cs @ takeWhile (\<lambda>y. y \<noteq> x) (x # stack)"
    by (rule takeWhile_append2) (use assms(1) in auto)
  then show ?thesis using assms by (auto simp: waits_def)
qed

definition sort_inv ::
  "(application_id \<times> application_id) set \<Rightarrow> application_id set \<Rightarrow> application_id list \<Rightarrow> application_id list
     \<Rightarrow> application_id set \<Rightarrow> bool" where
  "sort_inv D roots stack result seen \<longleftrightarrow>
     distinct result \<and> set result \<subseteq> seen \<and> deps_first D {} result \<and>
     (\<forall>g \<in> seen - set result. waits D stack (set result) g) \<and>
     set stack \<union> seen \<subseteq> D\<^sup>* `` roots \<and> roots \<subseteq> set stack \<union> set result"

lemma sort_inv_skip:
  "sort_inv D roots (x # stack) result seen \<Longrightarrow> x \<in> set result \<Longrightarrow> sort_inv D roots stack result seen"
  by (auto simp: sort_inv_def intro: waits_pop)

lemma sort_inv_sorted:
  assumes "sort_inv D roots (x # stack) result seen" "x \<notin> set result" "x \<in> seen"
  shows "sort_inv D roots stack (result @ [x]) seen"
proof -
  have "D `` {x} \<subseteq> set result"
    by (rule waits_top [of D x stack]) (use assms in \<open>simp add: sort_inv_def\<close>)
  then show ?thesis
    using assms by (auto simp: sort_inv_def intro: waits_pop)
qed

lemma sort_inv_push:
  assumes inv: "sort_inv D roots (x # stack) result seen" and x: "x \<notin> seen" and D: "acyclic D"
    and cs: "set cs = D `` {x} - insert x seen"
  shows "sort_inv D roots (cs @ x # stack) result (insert x seen)"
proof -
  have "waits D (cs @ x # stack) (set result) x"
  proof (rule waits_new)
    show "D `` {x} \<subseteq> set result \<union> set cs"
    proof
      fix d
      assume d: "d \<in> D `` {x}"
      then have "d \<noteq> x" using D by (auto simp: acyclic_def)
      moreover have "d \<notin> seen - set result"
      proof
        assume "d \<in> seen - set result"
        then have "waits D (x # stack) (set result) d" "d \<noteq> x" using inv x by (auto simp: sort_inv_def)
        then have "(d, x) \<in> D\<^sup>+" by (simp add: waits_def)
        then show False using d D by (meson Image_singleton_iff acyclic_def trancl_into_trancl)
      qed
      ultimately show "d \<in> set result \<union> set cs" using d cs by auto
    qed
  qed (use cs in auto)
  moreover have "waits D (cs @ x # stack) (set result) g" if "g \<in> seen - set result" for g
    by (rule waits_push) (use inv that x cs in \<open>auto simp: sort_inv_def\<close>)
  moreover have "D `` {x} \<subseteq> D\<^sup>* `` roots"
    using inv by (auto simp: sort_inv_def intro: rtrancl_into_rtrancl)
  ultimately show ?thesis
    using inv cs by (auto simp: sort_inv_def)
qed

lemma dependencies_loop_sorts:
  assumes "dependencies_loop self registered_apps stack result sorted_apps seen = Inr ids" "sorted_apps = set result"
    "sort_inv (depends self registered_apps) roots stack result seen" "acyclic (depends self registered_apps)"
  shows "\<exists>seen. sort_inv (depends self registered_apps) roots [] ids seen"
  using assms
proof (induction self registered_apps stack result sorted_apps seen rule: dependencies_loop.induct)
  case (2 self registered_apps app_id stack result sorted_apps seen)
  note prems = 2(4-7)
  show ?case
  proof (cases "app_id \<in> sorted_apps")
    case True
    then show ?thesis using 2(1) prems sort_inv_skip by simp
  next
    case unsorted: False
    show ?thesis
    proof (cases "app_id \<in> seen")
      case True
      then show ?thesis using 2(2) prems unsorted sort_inv_sorted by simp
    next
      case False
      then obtain app where app: "lookup_application self registered_apps app_id = Inr app"
        using prems(1) unsorted by (auto split: sum.splits)
      have "set [child \<leftarrow> uad_required_application_ids app. child \<notin> insert app_id seen]
          = depends self registered_apps `` {app_id} - insert app_id seen"
        using app by (auto simp: depends_def)
      note push = sort_inv_push [OF prems(3) False prems(4) this]
      show ?thesis using 2(3) [OF unsorted False app _ prems(2) push prems(4)] prems(1) app unsorted False by simp
    qed
  qed
qed auto

lemma dependencies_loop_error:
  assumes "dependencies_loop self registered_apps stack result sorted_apps seen = Inl e"
    "set stack \<subseteq> (depends self registered_apps)\<^sup>* `` roots"
  shows "\<exists>app_id \<in> (depends self registered_apps)\<^sup>* `` roots. lookup_application self registered_apps app_id = Inl e"
  using assms
proof (induction self registered_apps stack result sorted_apps seen rule: dependencies_loop.induct)
  case (2 self registered_apps app_id stack result sorted_apps seen)
  show ?case
  proof (cases "app_id \<in> sorted_apps \<or> app_id \<in> seen")
    case True
    then show ?thesis using 2 by (auto split: if_splits)
  next
    case False
    show ?thesis
    proof (cases "lookup_application self registered_apps app_id")
      case (Inl e')
      then show ?thesis using 2(4,5) False by auto
    next
      case (Inr app)
      have "depends self registered_apps `` {app_id} \<subseteq> (depends self registered_apps)\<^sup>* `` roots"
        using 2(5) by (auto intro: rtrancl_into_rtrancl)
      then have "set (uad_required_application_ids app) \<subseteq> (depends self registered_apps)\<^sup>* `` roots"
        using Inr by (auto simp: depends_def)
      then show ?thesis using 2(3) [OF _ _ Inr] 2(4,5) False Inr by auto
    qed
  qed
qed simp

lemma dependencies_loop_known:
  assumes "dependencies_loop self registered_apps stack result sorted_apps seen = Inr ids"
    "\<forall>x \<in> seen \<union> set result. \<exists>app. lookup_application self registered_apps x = Inr app"
  shows "\<forall>x \<in> set ids. \<exists>app. lookup_application self registered_apps x = Inr app"
  using assms
proof (induction self registered_apps stack result sorted_apps seen rule: dependencies_loop.induct)
  case (2 self registered_apps app_id stack result sorted_apps seen)
  show ?case
  proof (cases "app_id \<in> sorted_apps \<or> app_id \<in> seen")
    case True
    then show ?thesis using 2 by (auto split: if_splits)
  next
    case False
    then obtain app where "lookup_application self registered_apps app_id = Inr app"
      using 2(4) by (auto split: sum.splits)
    then show ?thesis using 2(3) [of app] 2(4,5) False by auto
  qed
qed simp

lemma lookup_application_iff:
  "(\<exists>app. lookup_application self registered_apps x = Inr app) \<longleftrightarrow> x \<in> known_apps self registered_apps"
proof -
  have "x \<in> known_apps self registered_apps \<longleftrightarrow> map_of self x \<noteq> None \<or> map_of registered_apps x \<noteq> None"
    by (auto simp: known_apps_def map_of_eq_None_iff)
  then show ?thesis
    by (cases "map_of registered_apps x"; cases "map_of self x")
      (simp_all add: lookup_application_def describe_application_def)
qed

lemma find_dependencies_Inr:
  assumes "acyclic (depends self registered_apps)" "find_dependencies self stack registered_apps = Inr ids"
  shows "distinct ids" "deps_first (depends self registered_apps) {} ids"
    "set ids = (depends self registered_apps)\<^sup>* `` set stack" "set ids \<subseteq> known_apps self registered_apps"
proof -
  let ?D = "depends self registered_apps"
  have loop: "dependencies_loop self registered_apps (rev stack) [] {} {} = Inr ids"
    using assms(2) by (simp add: find_dependencies_def)
  have "sort_inv ?D (set stack) (rev stack) [] {}" by (auto simp: sort_inv_def)
  from dependencies_loop_sorts [OF loop _ this assms(1)]
  obtain seen where inv: "sort_inv ?D (set stack) [] ids seen" by auto
  then show "distinct ids" "deps_first ?D {} ids" by (simp_all add: sort_inv_def)
  then have "?D `` set ids \<subseteq> set ids" using deps_first_closed by fastforce
  then have "?D\<^sup>* `` set ids = set ids" by (rule Image_closed_trancl)
  moreover have "set stack \<subseteq> set ids" "set ids \<subseteq> ?D\<^sup>* `` set stack"
    using inv by (auto simp: sort_inv_def)
  ultimately show "set ids = ?D\<^sup>* `` set stack" by blast
  show "set ids \<subseteq> known_apps self registered_apps"
    using dependencies_loop_known [OF loop] lookup_application_iff by auto
qed

text \<open>C34: The search for dependencies always ends. If the dependencies of the known applications have no cycle,
  it succeeds if and only if every application it reaches is known, and then returns every application reached
  exactly once, each one after all the applications it requires.
\<close>

theorem find_dependencies_topological:
  assumes "acyclic (depends self registered_apps)"
  shows "((\<exists>ids. find_dependencies self stack registered_apps = Inr ids) \<longleftrightarrow>
      (depends self registered_apps)\<^sup>* `` set stack \<subseteq> known_apps self registered_apps)
    \<and> (\<forall>ids. find_dependencies self stack registered_apps = Inr ids \<longrightarrow>
        distinct ids \<and> set ids = (depends self registered_apps)\<^sup>* `` set stack
        \<and> deps_first (depends self registered_apps) {} ids)"
proof -
  have "\<not> (depends self registered_apps)\<^sup>* `` set stack \<subseteq> known_apps self registered_apps"
    if "find_dependencies self stack registered_apps = Inl e" for e
  proof -
    have "\<exists>x \<in> (depends self registered_apps)\<^sup>* `` set stack. lookup_application self registered_apps x = Inl e"
      by (rule dependencies_loop_error) (use that in \<open>auto simp: find_dependencies_def\<close>)
    then obtain x where x: "x \<in> (depends self registered_apps)\<^sup>* `` set stack"
      "lookup_application self registered_apps x = Inl e" by blast
    then have "x \<notin> known_apps self registered_apps" using lookup_application_iff [of self registered_apps x] by simp
    then show ?thesis using x(1) by blast
  qed
  then show ?thesis
    using find_dependencies_Inr [OF assms] by (cases "find_dependencies self stack registered_apps") auto
qed

subsection \<open>Registering what another chain describes\<close>

text \<open>The loop of \<open>RegisterApplications\<close> in \<open>SystemExecutionStateView::execute_message\<close>, without the
  check of the bytecode blobs.\<close>

fun register_applications :: "app_registry \<Rightarrow> user_application_description list \<Rightarrow> (system_execution_error, app_registry) res" where
  "register_applications self [] = Inr self"
| "register_applications self (application # applications) =
     and_then (register_application self application) (\<lambda>(_, self). register_applications self applications)"

definition registry_consistent :: "app_registry \<Rightarrow> bool" where
  "registry_consistent self \<longleftrightarrow> (\<forall>app_id app. map_of self app_id = Some app \<longrightarrow> application_id_from_description app = app_id)"

lemma register_application_Inr:
  "register_application self application = Inr (app_id, self') \<longleftrightarrow>
     set (uad_required_application_ids application) \<subseteq> fst ` set self
     \<and> app_id = application_id_from_description application \<and> self' = AList.update app_id application self"
proof -
  have "(\<exists>ys. collect_results (describe_application self) ids = Inr ys) \<longleftrightarrow> set ids \<subseteq> fst ` set self" for ids
    by (induction ids)
      (auto simp: describe_application_def dom_map_of_conv_image_fst [symmetric] domIff)
  then show ?thesis by (auto simp: register_application_def Let_def)
qed

lemma register_application_consistent:
  "register_application self application = Inr (app_id, self') \<Longrightarrow> registry_consistent self \<Longrightarrow> registry_consistent self'"
  by (auto simp: register_application_Inr registry_consistent_def update_conv)

lemma register_applications_ok:
  assumes "deps_first D before ids" "before \<subseteq> fst ` set other"
    "list_all2 (\<lambda>x app. application_id_from_description app = x \<and> set (uad_required_application_ids app) = D `` {x}) ids apps"
    "distinct ids"
  shows "\<exists>other'. register_applications other apps = Inr other' \<and> list_all2 (\<lambda>x app. map_of other' x = Some app) ids apps
    \<and> (\<forall>x. x \<notin> set ids \<longrightarrow> map_of other' x = map_of other x)"
  using assms
proof (induction ids arbitrary: apps before other)
  case (Cons x ids)
  then obtain app apps' where apps: "apps = app # apps'" "application_id_from_description app = x"
    "set (uad_required_application_ids app) = D `` {x}"
    "list_all2 (\<lambda>x app. application_id_from_description app = x \<and> set (uad_required_application_ids app) = D `` {x}) ids apps'"
    by (auto simp: list_all2_Cons1)
  have reg: "register_application other app = Inr (x, AList.update x app other)"
    using Cons.prems apps by (auto simp: register_application_Inr)
  have "insert x before \<subseteq> fst ` set (AList.update x app other)"
    using Cons.prems(2) by (auto simp: dom_update)
  from Cons.IH [OF _ this apps(4)] Cons.prems
  obtain other' where o: "register_applications (AList.update x app other) apps' = Inr other'"
    "list_all2 (\<lambda>x app. map_of other' x = Some app) ids apps'"
    "\<forall>y. y \<notin> set ids \<longrightarrow> map_of other' y = map_of (AList.update x app other) y" by auto
  then show ?case using apps reg Cons.prems(4) by (auto simp: update_conv')
qed auto

text \<open>C35: A chain can register what another chain describes. If the descriptions of a chain are filed under their
  own identifiers and have no cyclic dependencies, then the descriptions it returns for some applications and
  their dependencies can be registered one by one, in that order, by any other chain, which then knows each of
  those applications by the same description.
\<close>

theorem described_applications_register:
  assumes "acyclic (depends self [])" "registry_consistent self"
    and "describe_applications_with_dependencies self ids [] = Inr apps"
  shows "\<exists>other'. register_applications other apps = Inr other'
    \<and> (\<forall>x \<in> (depends self [])\<^sup>* `` set ids. map_of other' x = map_of self x \<and> map_of self x \<noteq> None)"
proof -
  obtain found where found: "find_dependencies self ids [] = Inr found"
    and apps: "list_all2 (\<lambda>x app. lookup_application self [] x = Inr app) found apps"
    using assms(3) by (auto simp: describe_applications_with_dependencies_def collect_results_Inr_iff)
  have look: "lookup_application self [] x = Inr app \<longleftrightarrow> map_of self x = Some app" for x app
    by (simp add: lookup_application_def describe_application_def)
  have "list_all2 (\<lambda>x app. application_id_from_description app = x
      \<and> set (uad_required_application_ids app) = depends self [] `` {x}) found apps"
    using apps by (rule list_all2_mono) (use assms(2) in \<open>auto simp: look registry_consistent_def depends_def\<close>)
  from register_applications_ok [OF find_dependencies_Inr(2) [OF assms(1) found] _ this
      find_dependencies_Inr(1) [OF assms(1) found], of other]
  obtain other' where o: "register_applications other apps = Inr other'"
    "list_all2 (\<lambda>x app. map_of other' x = Some app) found apps" by auto
  have "map_of other' x = map_of self x \<and> map_of self x \<noteq> None" if "x \<in> set found" for x
    using that o(2) apps by (auto simp: look in_set_conv_nth list_all2_conv_all_nth)
  then show ?thesis using o(1) find_dependencies_Inr(3) [OF assms(1) found] by auto
qed

subsection \<open>An example\<close>

definition example_app :: "u32 \<Rightarrow> application_id" where
  "example_app n = ApplicationId (BytecodeId 1 2) (MessageId 3 0 n)"

definition example_description :: "u32 \<Rightarrow> u32 list \<Rightarrow> user_application_description" where
  "example_description n required = \<lparr>uad_bytecode_id = BytecodeId 1 2, uad_creation = MessageId 3 0 n, uad_parameters = [],
     uad_required_application_ids = map example_app required\<rparr>"

text \<open>The third application requires the other two, and the second one the first.\<close>

definition example_registry :: app_registry where
  "example_registry = [(example_app 1, example_description 1 []), (example_app 2, example_description 2 [1]),
     (example_app 3, example_description 3 [1, 2])]"

lemma example_app_eq [simp]: "example_app m = example_app n \<longleftrightarrow> m = n"
  by (simp add: example_app_def)

lemma example_acyclic: "acyclic (depends example_registry [])"
proof (rule acyclic_subset)
  show "acyclic ((measure (\<lambda>a. unat (mid_index (app_creation a))))\<inverse>)"
    by (simp add: acyclic_converse wf_acyclic)
  show "depends example_registry [] \<subseteq> (measure (\<lambda>a. unat (mid_index (app_creation a))))\<inverse>"
    by (auto simp: depends_def lookup_application_def describe_application_def example_registry_def
        example_description_def example_app_def split: if_splits)
qed

text \<open>Witness: the dependencies of the third application.\<close>

theorem find_dependencies_topological_witness:
  "find_dependencies example_registry [example_app 3] [] = Inr [example_app 1, example_app 2, example_app 3]
    \<and> deps_first (depends example_registry []) {} [example_app 1, example_app 2, example_app 3]"
proof -
  have "find_dependencies example_registry [example_app 3] [] = Inr [example_app 1, example_app 2, example_app 3]"
    by (simp add: find_dependencies_def lookup_application_def describe_application_def example_registry_def
        example_description_def)
  then show ?thesis
    using find_dependencies_topological [OF example_acyclic, of "[example_app 3]"] by auto
qed

text \<open>Witness: a chain that knows no application registers the three.\<close>

theorem described_applications_register_witness:
  "\<exists>apps other'. describe_applications_with_dependencies example_registry [example_app 3] [] = Inr apps
    \<and> register_applications [] apps = Inr other' \<and> map_of other' (example_app 3) = Some (example_description 3 [1, 2])"
proof -
  have described: "describe_applications_with_dependencies example_registry [example_app 3] []
      = Inr [example_description 1 [], example_description 2 [1], example_description 3 [1, 2]]"
    by (simp add: describe_applications_with_dependencies_def find_dependencies_def lookup_application_def
        describe_application_def example_registry_def example_description_def)
  have "registry_consistent example_registry"
    by (simp add: registry_consistent_def example_registry_def example_description_def example_app_def
        application_id_from_description_def)
  from described_applications_register [OF example_acyclic this described, of "[]"]
  obtain other' where o: "register_applications []
      [example_description 1 [], example_description 2 [1], example_description 3 [1, 2]] = Inr other'"
    "map_of other' (example_app 3) = map_of example_registry (example_app 3)"
    by (auto dest!: bspec [of _ _ "example_app 3"])
  then show ?thesis using described by (auto simp: example_registry_def)
qed

end
