(* ===== verification/Transaction_Tracker.thy ===== *)
theory Transaction_Tracker
  imports Execution_Types
begin

section \<open>The outcomes of a transaction (linera-execution/src/transaction_tracker.rs)\<close>

text \<open>
  The tracker of a transaction: the outcomes and oracle responses recorded so far, the index of the next
  message, and, when a block is replayed, the recorded responses that are still to come.
\<close>

record transaction_tracker =
  replaying_oracle_responses :: "oracle_response list option"
  tt_oracle_responses :: "oracle_response list"
  tt_outcomes :: "execution_outcome list"
  next_message_index :: u32

definition transaction_tracker_new :: "u32 \<Rightarrow> oracle_response list option \<Rightarrow> transaction_tracker" where
  "transaction_tracker_new index responses =
     \<lparr>replaying_oracle_responses = responses, tt_oracle_responses = [], tt_outcomes = [],
      next_message_index = index\<rparr>"

definition add_outcome :: "transaction_tracker \<Rightarrow> execution_outcome \<Rightarrow> (arithmetic_error, transaction_tracker) res" where
  "add_outcome self outcome =
     and_then (ok_or (try_from_nat (message_count outcome)) Overflow) (\<lambda>count.
     and_then (ok_or (checked_add (next_message_index self) count) Overflow) (\<lambda>index.
       Inr (self\<lparr>next_message_index := index, tt_outcomes := tt_outcomes self @ [outcome]\<rparr>)))"

definition add_system_outcome ::
  "transaction_tracker \<Rightarrow> (system_message, amount) raw_execution_outcome \<Rightarrow> (arithmetic_error, transaction_tracker) res" where
  "add_system_outcome self outcome = add_outcome self (SystemOutcome outcome)"

definition add_user_outcome ::
  "transaction_tracker \<Rightarrow> application_id \<Rightarrow> (bytes, amount) raw_execution_outcome
     \<Rightarrow> (arithmetic_error, transaction_tracker) res" where
  "add_user_outcome self app_id outcome = add_outcome self (UserOutcome app_id outcome)"

fun add_outcomes :: "transaction_tracker \<Rightarrow> execution_outcome list \<Rightarrow> (arithmetic_error, transaction_tracker) res" where
  "add_outcomes self [] = Inr self"
| "add_outcomes self (outcome # outcomes) =
     and_then (add_outcome self outcome) (\<lambda>self. add_outcomes self outcomes)"

definition add_oracle_response :: "transaction_tracker \<Rightarrow> oracle_response \<Rightarrow> transaction_tracker" where
  "add_oracle_response self response = self\<lparr>tt_oracle_responses := tt_oracle_responses self @ [response]\<rparr>"

definition next_replayed_oracle_response ::
  "transaction_tracker \<Rightarrow> (system_execution_error, transaction_tracker \<times> oracle_response option) res" where
  "next_replayed_oracle_response self =
     (case replaying_oracle_responses self of
        None \<Rightarrow> Inr (self, None)
      | Some [] \<Rightarrow> Inl MissingOracleResponse
      | Some (response # responses) \<Rightarrow>
          Inr (self\<lparr>replaying_oracle_responses := Some responses\<rparr>, Some response))"

definition replay_oracle_response ::
  "transaction_tracker \<Rightarrow> oracle_response \<Rightarrow> (system_execution_error, transaction_tracker \<times> bool) res" where
  "replay_oracle_response self response =
     and_then (next_replayed_oracle_response self) (\<lambda>(self, recorded).
     and_then (case recorded of
         Some recorded_response \<Rightarrow>
           and_then (ensure (recorded_response = response) SysOracleResponseMismatch) (\<lambda>_. Inr True)
       | None \<Rightarrow> Inr False) (\<lambda>replaying.
       Inr (add_oracle_response self response, replaying)))"

definition destructure ::
  "transaction_tracker \<Rightarrow> (execution_error, execution_outcome list \<times> oracle_response list \<times> u32) res" where
  "destructure self =
     and_then (case replaying_oracle_responses self of
         Some responses \<Rightarrow> ensure (responses = []) UnexpectedOracleResponse
       | None \<Rightarrow> Inr ()) (\<lambda>_.
       Inr (tt_outcomes self, tt_oracle_responses self, next_message_index self))"

subsection \<open>Indices and oracles\<close>

lemma add_outcome_Inr:
  "add_outcome self outcome = Inr self' \<longleftrightarrow>
     unat (next_message_index self) + message_count outcome < 2 ^ 32
     \<and> self' = self\<lparr>next_message_index := next_message_index self + of_nat (message_count outcome),
         tt_outcomes := tt_outcomes self @ [outcome]\<rparr>"
proof (cases "message_count outcome < 2 ^ 32")
  case True
  then have "unat (of_nat (message_count outcome) :: u32) = message_count outcome"
    by (simp add: unat_of_nat take_bit_nat_eq_self)
  then show ?thesis
    using True by (auto simp: add_outcome_def try_from_nat_def checked_add_def)
next
  case False
  then show ?thesis by (simp add: add_outcome_def try_from_nat_def)
qed

text \<open>The index counts the messages of the outcomes.\<close>

definition outcomes_message_count :: "execution_outcome list \<Rightarrow> nat" where
  "outcomes_message_count outcomes = sum_list (map message_count outcomes)"

lemma add_outcome_index:
  "add_outcome self outcome = Inr self' \<Longrightarrow>
     unat (next_message_index self') = unat (next_message_index self) + message_count outcome
     \<and> tt_outcomes self' = tt_outcomes self @ [outcome]"
proof -
  assume "add_outcome self outcome = Inr self'"
  then have lt: "unat (next_message_index self) + message_count outcome < 2 ^ 32"
    and s: "self' = self\<lparr>next_message_index := next_message_index self + of_nat (message_count outcome),
         tt_outcomes := tt_outcomes self @ [outcome]\<rparr>"
    by (simp_all add: add_outcome_Inr)
  have "unat (of_nat (message_count outcome) :: u32) = message_count outcome"
    using lt by (simp add: unat_of_nat take_bit_nat_eq_self)
  then show ?thesis using lt s by (simp add: unat_add_exact)
qed

text \<open>When a block is replayed, the responses recorded so far and those to come are always the recorded list.\<close>

lemma replay_oracle_response_log:
  assumes "replay_oracle_response self response = Inr (self', replaying)"
    "replaying_oracle_responses self = Some responses"
  shows "replaying \<and> (\<exists>rest. responses = response # rest \<and> replaying_oracle_responses self' = Some rest)
    \<and> tt_oracle_responses self' = tt_oracle_responses self @ [response] \<and> tt_outcomes self' = tt_outcomes self
    \<and> next_message_index self' = next_message_index self"
  using assms
  by (cases responses) (auto simp: replay_oracle_response_def next_replayed_oracle_response_def add_oracle_response_def)

lemma replay_oracle_response_keeps:
  assumes "replay_oracle_response self response = Inr (self', replaying)"
  shows "tt_outcomes self' = tt_outcomes self \<and> next_message_index self' = next_message_index self"
proof (cases "replaying_oracle_responses self")
  case None
  then show ?thesis
    using assms by (auto simp: replay_oracle_response_def next_replayed_oracle_response_def add_oracle_response_def)
next
  case (Some responses)
  then show ?thesis using replay_oracle_response_log assms by blast
qed

end
