(* ===== verification/System_Execution.thy ===== *)
theory System_Execution
  imports Applications Transaction_Tracker "HOL-Library.List_Lexorder"
begin

section \<open>The system application (linera-execution/src/system.rs)\<close>

text \<open>
  The part of a chain's execution state that the protocol itself manages: accounts, committees, subscriptions,
  known applications and used blobs, with every system operation and message. \<open>SystemExecutionStateView\<close> is a
  record. A set view is a set, except for the subscriptions, a list in the order of their serialised keys,
  because closing a chain sends a message for each of them in that order.

  What the code gets from elsewhere is a parameter, \<open>system_env\<close>: hashing, the serialisation of a key, and the
  blobs in storage, where a lookup may fail (\<open>Inl\<close>), find nothing, or find the blob. A panic is the error
  \<open>SysPanicked\<close>. An operation that fails returns only the error: its changes are thrown away.
\<close>

record system_env =
  se_description_hash :: "chain_description \<Rightarrow> crypto_hash"
  se_owner_of :: "public_key \<Rightarrow> owner"
  se_subscription_key :: "channel_subscription \<Rightarrow> bytes"
  se_get_blob :: "blob_id \<Rightarrow> (unit, blob option) res"
  se_contains_blob :: "blob_id \<Rightarrow> (unit, bool) res"

record system_state =
  sys_description :: "chain_description option"
  sys_epoch :: "epoch option"
  sys_admin_id :: "chain_id option"
  sys_subscriptions :: "channel_subscription list"
  sys_committees :: "(epoch, committee) btree_map"
  sys_ownership :: chain_ownership
  sys_balance :: amount
  sys_balances :: "account_owner \<Rightarrow> amount option"
  sys_timestamp :: timestamp
  sys_registry :: app_registry
  sys_closed :: bool
  sys_application_permissions :: application_permissions
  sys_used_blobs :: "blob_id set"

type_synonym system_outgoing = "(system_message, amount) raw_outgoing_message"
type_synonym system_outcome = "(system_message, amount) raw_execution_outcome"

text \<open>\<open>SystemChannel::name\<close>: the BCS encoding of the only variant.\<close>

definition system_channel_name :: "system_channel \<Rightarrow> channel_name" where
  "system_channel_name self = (case self of AdminChannel \<Rightarrow> [0])"

definition current_committee :: "system_state \<Rightarrow> (epoch \<times> committee) option" where
  "current_committee self =
     Option.bind (sys_epoch self) (\<lambda>epoch.
       map_option (Pair epoch) (bt_get (sys_committees self) epoch))"

definition system_is_active :: "system_state \<Rightarrow> bool" where
  "system_is_active self \<longleftrightarrow>
     sys_description self \<noteq> None \<and> ownership_is_active (sys_ownership self)
     \<and> current_committee self \<noteq> None \<and> sys_admin_id self \<noteq> None"

text \<open>\<open>HashedSetView::insert\<close> on the subscriptions.\<close>

definition insert_subscription ::
  "system_env \<Rightarrow> channel_subscription \<Rightarrow> channel_subscription list \<Rightarrow> channel_subscription list" where
  "insert_subscription env subscription subs =
     (if subscription \<in> set subs then subs else insort_key (se_subscription_key env) subscription subs)"

text \<open>The messages the system sends carry no grant.\<close>

definition system_message_to :: "destination \<Rightarrow> bool \<Rightarrow> message_kind \<Rightarrow> system_message \<Rightarrow> system_outgoing" where
  "system_message_to dest authenticated kind msg =
     \<lparr>rom_destination = dest, rom_authenticated = authenticated, rom_grant = 0, rom_kind = kind, rom_message = msg\<rparr>"

subsection \<open>Blobs\<close>

definition blob_used ::
  "system_state \<Rightarrow> transaction_tracker option \<Rightarrow> blob_id
     \<Rightarrow> (system_execution_error, system_state \<times> transaction_tracker option \<times> bool) res" where
  "blob_used self txn_tracker bid =
     (if bid \<in> sys_used_blobs self then Inr (self, txn_tracker, False)
      else
        let self = self\<lparr>sys_used_blobs := insert bid (sys_used_blobs self)\<rparr>
        in case txn_tracker of
             None \<Rightarrow> Inr (self, None, True)
           | Some tracker \<Rightarrow>
               and_then (replay_oracle_response tracker (OracleBlob bid)) (\<lambda>(tracker, _).
                 Inr (self, Some tracker, True)))"

definition blob_published :: "system_state \<Rightarrow> blob_id \<Rightarrow> system_state" where
  "blob_published self bid = self\<lparr>sys_used_blobs := insert bid (sys_used_blobs self)\<rparr>"

definition read_blob_content :: "system_env \<Rightarrow> blob_id \<Rightarrow> (system_execution_error, blob_content) res" where
  "read_blob_content env bid =
     (case se_get_blob env bid of
        Inr (Some b) \<Rightarrow> Inr (blob_content_of b)
      | Inr None \<Rightarrow> Inl (SysBlobsNotFound [bid])
      | Inl _ \<Rightarrow> Inl SysViewError)"

definition contains_blob :: "system_env \<Rightarrow> blob_id \<Rightarrow> (system_execution_error, bool) res" where
  "contains_blob env bid = map_err (\<lambda>_. SysViewError) (se_contains_blob env bid)"

definition assert_blob_exists :: "system_env \<Rightarrow> blob_id \<Rightarrow> (system_execution_error, unit) res" where
  "assert_blob_exists env bid =
     and_then (contains_blob env bid) (\<lambda>found. ensure found (SysBlobsNotFound [bid]))"

definition check_bytecode_blobs ::
  "system_env \<Rightarrow> bytecode_id \<Rightarrow> (system_execution_error, blob_id \<times> blob_id) res" where
  "check_bytecode_blobs env bytecode =
     (let contract_id = BlobId BlobContractBytecode (contract_blob_hash bytecode);
          service_id = BlobId BlobServiceBytecode (service_blob_hash bytecode)
      in and_then (contains_blob env contract_id) (\<lambda>has_contract.
         and_then (contains_blob env service_id) (\<lambda>has_service.
         let missing_blobs = (if has_contract then [] else [contract_id]) @ (if has_service then [] else [service_id])
         in and_then (ensure (missing_blobs = []) (SysBlobsNotFound missing_blobs)) (\<lambda>_.
              Inr (contract_id, service_id)))))"

fun record_bytecode_blobs ::
  "system_state \<Rightarrow> blob_id list \<Rightarrow> transaction_tracker
     \<Rightarrow> (system_execution_error, system_state \<times> transaction_tracker) res" where
  "record_bytecode_blobs self [] tracker = Inr (self, tracker)"
| "record_bytecode_blobs self (bid # bids) tracker =
     and_then (blob_used self (Some tracker) bid) (\<lambda>(self, tracker', _).
       record_bytecode_blobs self bids (the tracker'))"

definition check_and_record_bytecode_blobs ::
  "system_env \<Rightarrow> system_state \<Rightarrow> bytecode_id \<Rightarrow> transaction_tracker
     \<Rightarrow> (system_execution_error, system_state \<times> transaction_tracker) res" where
  "check_and_record_bytecode_blobs env self bytecode tracker =
     and_then (check_bytecode_blobs env bytecode) (\<lambda>(contract_id, service_id).
       record_bytecode_blobs self [contract_id, service_id] tracker)"

subsection \<open>Accounts\<close>

definition debit :: "system_state \<Rightarrow> account_owner option \<Rightarrow> amount \<Rightarrow> (system_execution_error, system_state) res" where
  "debit self account_of amount =
     (case account_of of
        Some own \<Rightarrow>
          and_then (ok_or (sys_balances self own) (InsufficientFunding 0)) (\<lambda>balance.
          and_then (map_err (\<lambda>_. InsufficientFunding balance) (try_sub_assign balance amount)) (\<lambda>balance.
            Inr (self\<lparr>sys_balances := (sys_balances self)(own := if balance = 0 then None else Some balance)\<rparr>)))
      | None \<Rightarrow>
          and_then (map_err (\<lambda>_. InsufficientFunding (sys_balance self)) (try_sub_assign (sys_balance self) amount))
            (\<lambda>balance. Inr (self\<lparr>sys_balance := balance\<rparr>)))"

text \<open>The crediting half of \<open>Credit\<close>: \<open>get_mut_or_default\<close> and \<open>saturating_add\<close>.\<close>

definition credit :: "system_state \<Rightarrow> account_owner option \<Rightarrow> amount \<Rightarrow> system_state" where
  "credit self receiver amount =
     (case receiver of
        None \<Rightarrow> self\<lparr>sys_balance := saturating_add (sys_balance self) amount\<rparr>
      | Some own \<Rightarrow>
          let balance = (case sys_balances self own of Some b \<Rightarrow> b | None \<Rightarrow> 0)
          in self\<lparr>sys_balances := (sys_balances self)(own := Some (saturating_add balance amount))\<rparr>)"

definition check_transfer_owner ::
  "system_state \<Rightarrow> owner option \<Rightarrow> application_id option \<Rightarrow> account_owner option \<Rightarrow> (system_execution_error, unit) res" where
  "check_transfer_owner self authenticated_signer authenticated_application_id source =
     (case (source, authenticated_signer, authenticated_application_id) of
        (Some (AccountUser own), Some signer, _) \<Rightarrow> ensure (signer = own) UnauthenticatedTransferOwner
      | (Some (AccountApplication account_application), _, Some authorized_application) \<Rightarrow>
          ensure (account_application = authorized_application) UnauthenticatedTransferOwner
      | (None, Some signer, _) \<Rightarrow>
          ensure (ownership_verify_owner (sys_ownership self) signer \<noteq> None) UnauthenticatedTransferOwner
      | (_, _, _) \<Rightarrow> Inl UnauthenticatedTransferOwner)"

text \<open>The message that carries tokens to a recipient; nothing is sent for burned tokens.\<close>

definition credit_message :: "account_owner option \<Rightarrow> recipient \<Rightarrow> amount \<Rightarrow> system_outgoing list" where
  "credit_message source recipient amount =
     (case recipient of
        RecipientAccount acc \<Rightarrow>
          [system_message_to (Recipient (account_chain_id acc)) False Tracked
             (Credit (account_owner_of acc) amount source)]
      | Burn \<Rightarrow> [])"

definition transfer ::
  "system_state \<Rightarrow> owner option \<Rightarrow> application_id option \<Rightarrow> account_owner option \<Rightarrow> recipient \<Rightarrow> amount
     \<Rightarrow> (system_execution_error, system_state \<times> system_outgoing list) res" where
  "transfer self authenticated_signer authenticated_application_id source recipient amount =
     and_then (check_transfer_owner self authenticated_signer authenticated_application_id source) (\<lambda>_.
     and_then (ensure (0 < amount) IncorrectTransferAmount) (\<lambda>_.
     and_then (debit self source amount) (\<lambda>self.
       Inr (self, credit_message source recipient amount))))"

definition claim ::
  "owner option \<Rightarrow> application_id option \<Rightarrow> account_owner \<Rightarrow> chain_id \<Rightarrow> recipient \<Rightarrow> amount
     \<Rightarrow> (system_execution_error, system_outgoing) res" where
  "claim authenticated_signer authenticated_application_id source target_id recipient amount =
     and_then (case source of
         AccountUser own \<Rightarrow> ensure (authenticated_signer = Some own) UnauthenticatedClaimOwner
       | AccountApplication own \<Rightarrow> ensure (authenticated_application_id = Some own) UnauthenticatedClaimOwner) (\<lambda>_.
     and_then (ensure (0 < amount) IncorrectClaimAmount) (\<lambda>_.
       Inr (system_message_to (Recipient target_id) True Simple (Withdraw source amount recipient))))"

subsection \<open>Opening and closing chains, creating applications\<close>

definition open_chain ::
  "system_env \<Rightarrow> system_state \<Rightarrow> open_chain_config \<Rightarrow> message_id
     \<Rightarrow> (system_execution_error, system_state \<times> system_outgoing list) res" where
  "open_chain env self config next_id =
     (let child_id = chain_id_child (se_description_hash env) next_id;
          admin_id = occ_admin_id config
      in and_then (ensure (sys_admin_id self = Some admin_id) (InvalidNewChainAdminId child_id)) (\<lambda>_.
         and_then (ensure (sys_committees self = occ_committees config) InvalidCommittees) (\<lambda>_.
         and_then (ensure (sys_epoch self = Some (occ_epoch config)) (InvalidEpoch child_id (occ_epoch config))) (\<lambda>_.
         and_then (debit self None (occ_balance config)) (\<lambda>self.
           Inr (self,
             [system_message_to (Recipient child_id) False Protected (OpenChain config),
              system_message_to (Recipient admin_id) False Protected
                (Subscribe child_id (ChannelSubscription admin_id (system_channel_name AdminChannel)))]))))))"

definition initialize_chain ::
  "system_env \<Rightarrow> system_state \<Rightarrow> message_id \<Rightarrow> timestamp \<Rightarrow> open_chain_config
     \<Rightarrow> (system_execution_error, system_state) res" where
  "initialize_chain env self mid timestamp config =
     and_then (ensure (sys_description self = None \<and> \<not> ownership_is_active (sys_ownership self)
         \<and> sys_committees self = []) SysPanicked) (\<lambda>_.
       Inr (self\<lparr>sys_description := Some (Child mid),
         sys_epoch := Some (occ_epoch config),
         sys_committees := occ_committees config,
         sys_admin_id := Some (occ_admin_id config),
         sys_subscriptions := insert_subscription env
           (ChannelSubscription (occ_admin_id config) (system_channel_name AdminChannel)) (sys_subscriptions self),
         sys_ownership := occ_ownership config,
         sys_timestamp := timestamp,
         sys_balance := occ_balance config,
         sys_application_permissions := occ_application_permissions config\<rparr>))"

definition close_chain :: "system_state \<Rightarrow> chain_id \<Rightarrow> system_state \<times> system_outgoing list" where
  "close_chain self cid =
     (self\<lparr>sys_subscriptions := [], sys_closed := True\<rparr>,
      map (\<lambda>subscription. system_message_to (Recipient (subscription_chain_id subscription)) False Protected
        (Unsubscribe cid subscription)) (sys_subscriptions self))"

fun bytecode_blobs_to_register ::
  "system_env \<Rightarrow> system_state \<Rightarrow> application_id list \<Rightarrow> (system_execution_error, blob_id list) res" where
  "bytecode_blobs_to_register env self [] = Inr []"
| "bytecode_blobs_to_register env self (application # applications) =
     and_then (check_bytecode_blobs env (app_bytecode_id application)) (\<lambda>(contract_id, service_id).
     and_then (bytecode_blobs_to_register env self applications) (\<lambda>rest.
       Inr (filter (\<lambda>bid. bid \<notin> sys_used_blobs self) [contract_id, service_id] @ rest)))"

definition create_application ::
  "system_env \<Rightarrow> system_state \<Rightarrow> message_id \<Rightarrow> bytecode_id \<Rightarrow> bytes \<Rightarrow> application_id list
     \<Rightarrow> (system_execution_error, system_state \<times> application_id \<times> system_outgoing \<times> blob_id list) res" where
  "create_application env self next_id bytecode parameters required_application_ids =
     (let app_id = ApplicationId bytecode next_id
      in and_then (bytecode_blobs_to_register env self (required_application_ids @ [app_id])) (\<lambda>blobs_to_register.
         and_then (register_new_application (sys_registry self) app_id parameters required_application_ids) (\<lambda>registry.
           Inr (self\<lparr>sys_registry := registry\<rparr>, app_id,
             system_message_to (Recipient (mid_chain_id next_id)) False Protected ApplicationCreated,
             blobs_to_register))))"

subsection \<open>Operations\<close>

text \<open>An operation yields the new state and tracker, the messages to send and a new application to instantiate;
  in the end the messages become one outcome of the tracker.\<close>

type_synonym op_effect =
  "system_state \<times> transaction_tracker \<times> system_outgoing list \<times> (application_id \<times> bytes) option"

definition execute_admin_operation ::
  "system_state \<Rightarrow> admin_operation \<Rightarrow> (system_execution_error, system_state \<times> system_outgoing list) res" where
  "execute_admin_operation self op =
     (case op of
        AdminCreateCommittee epoch committee \<Rightarrow>
          and_then (ok_or (sys_epoch self) SysPanicked) (\<lambda>current.
          and_then (map_err SysArithmeticError (try_add_one current)) (\<lambda>next_epoch.
          and_then (ensure (epoch = next_epoch) InvalidCommitteeCreation) (\<lambda>_.
            Inr (self\<lparr>sys_committees := bt_insert epoch committee (sys_committees self), sys_epoch := Some epoch\<rparr>,
              [system_message_to (Subscribers (system_channel_name AdminChannel)) False Protected
                 (CreateCommittee epoch committee)]))))
      | AdminRemoveCommittee epoch \<Rightarrow>
          and_then (ensure (bt_contains (sys_committees self) epoch) InvalidCommitteeRemoval) (\<lambda>_.
            Inr (self\<lparr>sys_committees := bt_remove epoch (sys_committees self)\<rparr>,
              [system_message_to (Subscribers (system_channel_name AdminChannel)) False Protected
                 (RemoveCommittee epoch)])))"

definition execute_subscribe ::
  "system_env \<Rightarrow> system_state \<Rightarrow> chain_id \<Rightarrow> chain_id \<Rightarrow> system_channel
     \<Rightarrow> (system_execution_error, system_state \<times> system_outgoing list) res" where
  "execute_subscribe env self own_id cid channel =
     and_then (ensure (own_id \<noteq> cid) (SelfSubscription own_id channel)) (\<lambda>_.
     and_then (if channel = AdminChannel
         then ensure (sys_admin_id self = Some cid) (InvalidAdminSubscription own_id channel) else Inr ()) (\<lambda>_.
     let subscription = ChannelSubscription cid (system_channel_name channel)
     in and_then (ensure (subscription \<notin> set (sys_subscriptions self)) (AlreadySubscribedToChannel own_id channel)) (\<lambda>_.
          Inr (self\<lparr>sys_subscriptions := insert_subscription env subscription (sys_subscriptions self)\<rparr>,
            [system_message_to (Recipient cid) False Protected (Subscribe own_id subscription)]))))"

definition execute_unsubscribe ::
  "system_state \<Rightarrow> chain_id \<Rightarrow> chain_id \<Rightarrow> system_channel
     \<Rightarrow> (system_execution_error, system_state \<times> system_outgoing list) res" where
  "execute_unsubscribe self own_id cid channel =
     (let subscription = ChannelSubscription cid (system_channel_name channel)
      in and_then (ensure (subscription \<in> set (sys_subscriptions self)) (InvalidUnsubscription own_id channel)) (\<lambda>_.
           Inr (self\<lparr>sys_subscriptions := remove1 subscription (sys_subscriptions self)\<rparr>,
             [system_message_to (Recipient cid) False Protected (Unsubscribe own_id subscription)])))"

definition no_application ::
  "transaction_tracker \<Rightarrow> system_state \<times> system_outgoing list \<Rightarrow> op_effect" where
  "no_application tracker effect = (fst effect, tracker, snd effect, None)"

definition operation_effect ::
  "system_env \<Rightarrow> system_state \<Rightarrow> operation_context \<Rightarrow> system_operation \<Rightarrow> transaction_tracker
     \<Rightarrow> (system_execution_error, op_effect) res" where
  "operation_effect env self context op tracker =
     (let quiet = (\<lambda>self. Inr (self, tracker, [], None));
          plain = (\<lambda>r. and_then r (\<lambda>e. Inr (no_application tracker e)));
          next_id = next_message_id context (next_message_index tracker)
      in case op of
        OpOpenChain config \<Rightarrow> plain (open_chain env self config next_id)
      | OpChangeOwnership super_keys weighted_keys rounds config \<Rightarrow>
          quiet (self\<lparr>sys_ownership :=
            \<lparr>super_owners = bt_collect (map (\<lambda>key. (se_owner_of env key, key)) super_keys),
             owners = bt_collect (map (\<lambda>(key, weight). (se_owner_of env key, (key, weight))) weighted_keys),
             multi_leader_rounds = rounds, ownership_timeout_config = config\<rparr>\<rparr>)
      | OpChangeApplicationPermissions permissions \<Rightarrow>
          quiet (self\<lparr>sys_application_permissions := permissions\<rparr>)
      | OpCloseChain \<Rightarrow> Inr (no_application tracker (close_chain self (oc_chain_id context)))
      | OpTransfer own recipient amount \<Rightarrow>
          plain (transfer self (oc_authenticated_signer context) None (map_option AccountUser own) recipient amount)
      | OpClaim own target_id recipient amount \<Rightarrow>
          and_then (claim (oc_authenticated_signer context) None (AccountUser own) target_id recipient amount) (\<lambda>msg.
            Inr (self, tracker, [msg], None))
      | OpAdmin admin_op \<Rightarrow>
          and_then (ensure (sys_admin_id self = Some (oc_chain_id context)) AdminOperationOnNonAdminChain) (\<lambda>_.
            plain (execute_admin_operation self admin_op))
      | OpSubscribe cid channel \<Rightarrow> plain (execute_subscribe env self (oc_chain_id context) cid channel)
      | OpUnsubscribe cid channel \<Rightarrow> plain (execute_unsubscribe self (oc_chain_id context) cid channel)
      | OpPublishBytecode bytecode \<Rightarrow>
          quiet (blob_published (blob_published self (BlobId BlobContractBytecode (contract_blob_hash bytecode)))
            (BlobId BlobServiceBytecode (service_blob_hash bytecode)))
      | OpCreateApplication bytecode parameters argument required_application_ids \<Rightarrow>
          and_then (create_application env self next_id bytecode parameters required_application_ids)
            (\<lambda>(self, app_id, msg, blobs_to_register).
          and_then (record_bytecode_blobs self blobs_to_register tracker) (\<lambda>(self, tracker).
            Inr (self, tracker, [msg], Some (app_id, argument))))
      | OpRequestApplication cid app_id \<Rightarrow>
          Inr (self, tracker, [system_message_to (Recipient cid) False Simple (RequestApplication app_id)], None)
      | OpPublishDataBlob hash \<Rightarrow> quiet (blob_published self (BlobId BlobData hash))
      | OpReadBlob bid \<Rightarrow>
          and_then (read_blob_content env bid) (\<lambda>_.
          and_then (blob_used self (Some tracker) bid) (\<lambda>(self, tracker', _).
            Inr (self, the tracker', [], None))))"

definition system_execute_operation ::
  "system_env \<Rightarrow> system_state \<Rightarrow> operation_context \<Rightarrow> system_operation \<Rightarrow> transaction_tracker
     \<Rightarrow> (system_execution_error, system_state \<times> transaction_tracker \<times> (application_id \<times> bytes) option) res" where
  "system_execute_operation env self context op tracker =
     and_then (operation_effect env self context op tracker) (\<lambda>(self, tracker, msgs, new_application).
     and_then (map_err SysArithmeticError (add_system_outcome tracker
         (outcome_default\<lparr>reo_authenticated_signer := oc_authenticated_signer context,
            reo_refund_grant_to := oc_refund_grant_to context, reo_messages := msgs\<rparr>))) (\<lambda>tracker.
       Inr (self, tracker, new_application)))"

subsection \<open>Messages\<close>

fun execute_register_applications ::
  "system_env \<Rightarrow> system_state \<Rightarrow> user_application_description list \<Rightarrow> transaction_tracker
     \<Rightarrow> (system_execution_error, system_state \<times> transaction_tracker) res" where
  "execute_register_applications env self [] tracker = Inr (self, tracker)"
| "execute_register_applications env self (application # applications) tracker =
     and_then (check_and_record_bytecode_blobs env self (uad_bytecode_id application) tracker) (\<lambda>(self, tracker).
     and_then (register_application (sys_registry self) application) (\<lambda>(_, registry).
       execute_register_applications env (self\<lparr>sys_registry := registry\<rparr>) applications tracker))"

definition system_execute_message ::
  "system_env \<Rightarrow> system_state \<Rightarrow> message_context \<Rightarrow> system_message \<Rightarrow> transaction_tracker
     \<Rightarrow> (system_execution_error, system_state \<times> transaction_tracker \<times> system_outcome) res" where
  "system_execute_message env self context msg tracker =
     (case msg of
        Credit target_account amount source \<Rightarrow>
          Inr (credit self (if mc_is_bouncing context then source else target_account) amount, tracker, outcome_default)
      | Withdraw own amount recipient \<Rightarrow>
          and_then (debit self (Some own) amount) (\<lambda>self.
            Inr (self, tracker, outcome_default\<lparr>reo_messages := credit_message (Some own) recipient amount\<rparr>))
      | CreateCommittee epoch committee \<Rightarrow>
          and_then (ok_or (sys_epoch self) SysPanicked) (\<lambda>current.
          and_then (map_err SysArithmeticError (try_add_one current)) (\<lambda>chain_next_epoch.
          and_then (ensure (epoch \<le> chain_next_epoch) InvalidCommitteeCreation) (\<lambda>_.
            Inr (if epoch = chain_next_epoch
                 then self\<lparr>sys_committees := bt_insert epoch committee (sys_committees self), sys_epoch := Some epoch\<rparr>
                 else self, tracker, outcome_default))))
      | RemoveCommittee epoch \<Rightarrow>
          Inr (self\<lparr>sys_committees := bt_remove epoch (sys_committees self)\<rparr>, tracker, outcome_default)
      | RegisterApplications applications \<Rightarrow>
          and_then (execute_register_applications env self applications tracker) (\<lambda>(self, tracker).
            Inr (self, tracker, outcome_default))
      | RequestApplication app_id \<Rightarrow>
          and_then (describe_applications_with_dependencies (sys_registry self) [app_id] []) (\<lambda>applications.
            Inr (self, tracker, outcome_default\<lparr>reo_messages :=
              [system_message_to (Recipient (mid_chain_id (mc_message_id context))) False Simple
                 (RegisterApplications applications)]\<rparr>))
      | Subscribe _ _ \<Rightarrow> Inr (self, tracker, outcome_default)
      | Unsubscribe _ _ \<Rightarrow> Inr (self, tracker, outcome_default)
      | OpenChain _ \<Rightarrow> Inr (self, tracker, outcome_default)
      | ApplicationCreated \<Rightarrow> Inr (self, tracker, outcome_default))"

text \<open>\<open>handle_query\<close>: the chain and its balance.\<close>

definition handle_query :: "system_state \<Rightarrow> chain_id \<Rightarrow> chain_id \<times> amount" where
  "handle_query self cid = (cid, sys_balance self)"

subsection \<open>What the parts do\<close>

lemma system_message_to_simps [simp]:
  "rom_message (system_message_to d a k msg) = msg" "rom_grant (system_message_to d a k msg) = 0"
  "rom_destination (system_message_to d a k msg) = d"
  by (simp_all add: system_message_to_def)

text \<open>Each step changes only some fields.\<close>

lemma blob_used_frame:
  assumes "blob_used self tracker bid = Inr (self', tracker', fresh)"
  shows "self' = self\<lparr>sys_used_blobs := sys_used_blobs self'\<rparr>"
  using assms by (cases tracker) (auto simp: blob_used_def Let_def split: if_splits)

lemma record_bytecode_blobs_frame:
  "record_bytecode_blobs self bids tracker = Inr (self', tracker') \<Longrightarrow>
     self' = self\<lparr>sys_used_blobs := sys_used_blobs self'\<rparr>"
proof (induction bids arbitrary: self tracker)
  case (Cons bid bids)
  then obtain self1 t b where r: "blob_used self (Some tracker) bid = Inr (self1, t, b)"
    "record_bytecode_blobs self1 bids (the t) = Inr (self', tracker')" by auto
  have s1: "self1 = self\<lparr>sys_used_blobs := sys_used_blobs self1\<rparr>" using blob_used_frame [OF r(1)] .
  show ?case using Cons.IH [OF r(2)] by (subst (asm) s1) simp
qed simp

lemma debit_frame:
  assumes "debit self acc amount = Inr self'"
  shows "self' = self\<lparr>sys_balance := sys_balance self', sys_balances := sys_balances self'\<rparr>"
  using assms by (cases acc) (auto simp: debit_def)

lemma execute_register_applications_frame:
  "execute_register_applications env self apps tracker = Inr (self', tracker') \<Longrightarrow>
     self' = self\<lparr>sys_registry := sys_registry self', sys_used_blobs := sys_used_blobs self'\<rparr>"
proof (induction apps arbitrary: self tracker)
  case (Cons app apps)
  then obtain self1 tracker1 app_id registry where
    r: "check_and_record_bytecode_blobs env self (uad_bytecode_id app) tracker = Inr (self1, tracker1)"
    "execute_register_applications env (self1\<lparr>sys_registry := registry\<rparr>) apps tracker1 = Inr (self', tracker')"
    by auto
  have s1: "self1 = self\<lparr>sys_used_blobs := sys_used_blobs self1\<rparr>"
    using r(1) by (auto simp: check_and_record_bytecode_blobs_def simp del: record_bytecode_blobs.simps
        dest: record_bytecode_blobs_frame)
  have "self' = self1\<lparr>sys_registry := sys_registry self', sys_used_blobs := sys_used_blobs self'\<rparr>"
    using Cons.IH [OF r(2)] by simp
  then show ?case by (subst (asm) s1) simp
qed simp

lemma execute_admin_operation_frame:
  assumes "execute_admin_operation self op = Inr (self', msgs)"
  shows "self' = self\<lparr>sys_committees := sys_committees self', sys_epoch := sys_epoch self'\<rparr>"
  using assms by (cases op) (auto simp: execute_admin_operation_def)

lemma create_application_frame:
  assumes "create_application env self next_id bytecode parameters required = Inr (self', app_id, msg, blobs)"
  shows "self' = self\<lparr>sys_registry := sys_registry self'\<rparr> \<and> rom_message msg = ApplicationCreated \<and> rom_grant msg = 0"
  using assms by (auto simp: create_application_def Let_def)

end
