(* ===== verification/System_Accounts.thy ===== *)
theory System_Accounts
  imports System_Execution
begin

section \<open>Tokens, authority and well-formedness of the system state\<close>

text \<open>
  What the operations and messages of theory \<open>System_Execution\<close> do to the accounts of a chain: the tokens a chain
  holds and those its messages carry are conserved, an account loses tokens only by an operation its owner signed,
  and the state keeps its invariants.
\<close>

subsection \<open>Tokens\<close>

text \<open>The tokens of the accounts of a chain.\<close>

definition account_tokens :: "(account_owner \<Rightarrow> amount option) \<Rightarrow> nat" where
  "account_tokens balances = (\<Sum>own \<in> dom balances. unat (the (balances own)))"

definition held :: "system_state \<Rightarrow> nat" where
  "held self = unat (sys_balance self) + account_tokens (sys_balances self)"

fun carried :: "system_message \<Rightarrow> nat" where
  "carried (Credit _ amount _) = unat amount"
| "carried (OpenChain config) = unat (occ_balance config)"
| "carried _ = 0"

definition carried_by :: "system_outgoing list \<Rightarrow> nat" where
  "carried_by msgs = sum_list (map (carried \<circ> rom_message) msgs)"

fun burned_by_recipient :: "recipient \<Rightarrow> amount \<Rightarrow> nat" where
  "burned_by_recipient Burn amount = unat amount"
| "burned_by_recipient (RecipientAccount _) amount = 0"

fun burned_by_operation :: "system_operation \<Rightarrow> nat" where
  "burned_by_operation (OpTransfer _ recipient amount) = burned_by_recipient recipient amount"
| "burned_by_operation _ = 0"

fun burned_by_message :: "system_message \<Rightarrow> nat" where
  "burned_by_message (Withdraw _ amount recipient) = burned_by_recipient recipient amount"
| "burned_by_message _ = 0"

lemma carried_by_simps [simp]:
  "carried_by [] = 0" "carried_by (msg # msgs) = carried (rom_message msg) + carried_by msgs"
  by (simp_all add: carried_by_def)

lemma account_tokens_upd:
  assumes "finite (dom balances)"
  shows "account_tokens (balances(own := b)) + (case balances own of None \<Rightarrow> 0 | Some c \<Rightarrow> unat c)
    = account_tokens balances + (case b of None \<Rightarrow> 0 | Some c \<Rightarrow> unat c)"
proof -
  let ?rest = "\<Sum>x \<in> dom balances - {own}. unat (the (balances x))"
  have *: "account_tokens m = ?rest + (case m own of None \<Rightarrow> 0 | Some c \<Rightarrow> unat c)"
    if "\<And>x. x \<noteq> own \<Longrightarrow> m x = balances x" for m
  proof -
    have d: "dom m - {own} = dom balances - {own}" using that by auto
    then have fin: "finite (dom m)" using assms by (metis finite_Diff finite.emptyI finite_insert finite_Diff2)
    have "account_tokens m = (\<Sum>x \<in> dom m - {own}. unat (the (m x))) + (case m own of None \<Rightarrow> 0 | Some c \<Rightarrow> unat c)"
    proof (cases "m own")
      case (Some c)
      then have "own \<in> dom m" by blast
      then show ?thesis
        using sum.remove [OF fin, of own "\<lambda>x. unat (the (m x))"] Some by (simp add: account_tokens_def)
    qed (auto simp: account_tokens_def domIff)
    also have "(\<Sum>x \<in> dom m - {own}. unat (the (m x))) = ?rest"
      unfolding d by (rule sum.cong) (use that in auto)
    finally show ?thesis .
  qed
  show ?thesis using * [of balances] * [of "balances(own := b)"] by simp
qed

lemma debit_tokens:
  assumes "debit self acc amount = Inr self'" "finite (dom (sys_balances self))"
  shows "held self = held self' + unat amount \<and> finite (dom (sys_balances self'))"
proof (cases acc)
  case None
  then show ?thesis using assms by (auto simp: debit_def held_def)
next
  case (Some own)
  obtain b c where b: "sys_balances self own = Some b" "unat b = unat amount + unat c"
    "self' = self\<lparr>sys_balances := (sys_balances self)(own := if c = 0 then None else Some c)\<rparr>"
    using assms(1) Some by (auto simp: debit_def)
  show ?thesis
    using account_tokens_upd [OF assms(2), of own "if c = 0 then None else Some c"] b assms(2)
    by (auto simp: held_def split: if_splits)
qed

lemma credit_tokens:
  assumes "finite (dom (sys_balances self))" "held self + unat amount < 2 ^ 128"
  shows "held (credit self receiver amount) = held self + unat amount
    \<and> finite (dom (sys_balances (credit self receiver amount)))"
proof (cases receiver)
  case None
  have "unat (saturating_add (sys_balance self) amount) = unat (sys_balance self) + unat amount"
    using assms(2) by (simp add: unat_saturating_add held_def)
  then show ?thesis using None assms by (simp add: credit_def held_def)
next
  case (Some own)
  let ?b = "case sys_balances self own of Some b \<Rightarrow> b | None \<Rightarrow> 0"
  have "unat ?b \<le> account_tokens (sys_balances self)"
  proof (cases "sys_balances self own")
    case (Some b)
    then show ?thesis using assms(1) member_le_sum [of own "dom (sys_balances self)" "\<lambda>x. unat (the (sys_balances self x))"]
      by (auto simp: account_tokens_def)
  qed simp
  then have "unat (saturating_add ?b amount) = unat ?b + unat amount"
    using assms(2) by (simp add: unat_saturating_add held_def)
  then show ?thesis
    using Some assms account_tokens_upd [OF assms(1), of own "Some (saturating_add ?b amount)"]
    by (auto simp: credit_def held_def Let_def split: option.splits)
qed

lemma credit_message_tokens [simp]:
  "carried_by (credit_message source recipient amount) + burned_by_recipient recipient amount = unat amount"
  by (cases recipient) (simp_all add: credit_message_def)

lemma close_chain_tokens:
  "sys_balance (fst (close_chain self cid)) = sys_balance self"
  "sys_balances (fst (close_chain self cid)) = sys_balances self"
  "carried_by (snd (close_chain self cid)) = 0"
  by (simp_all add: close_chain_def carried_by_def comp_def)

definition same_accounts :: "system_state \<Rightarrow> system_state \<Rightarrow> bool" where
  "same_accounts self self' \<longleftrightarrow> sys_balance self' = sys_balance self \<and> sys_balances self' = sys_balances self"

lemma same_accounts_frames:
  "self' = self\<lparr>sys_used_blobs := blobs\<rparr> \<Longrightarrow> same_accounts self self'"
  "self' = self\<lparr>sys_registry := registry\<rparr> \<Longrightarrow> same_accounts self self'"
  "self' = self\<lparr>sys_registry := registry, sys_used_blobs := blobs\<rparr> \<Longrightarrow> same_accounts self self'"
  "self' = self\<lparr>sys_committees := committees, sys_epoch := epoch\<rparr> \<Longrightarrow> same_accounts self self'"
  by (simp_all add: same_accounts_def)

lemma same_accounts_trans: "same_accounts s1 s2 \<Longrightarrow> same_accounts s2 s3 \<Longrightarrow> same_accounts s1 s3"
  by (simp add: same_accounts_def)

lemma held_cong:
  "sys_balance self' = sys_balance self \<Longrightarrow> sys_balances self' = sys_balances self \<Longrightarrow> held self' = held self"
  by (simp add: held_def)

lemma quiet_operation:
  assumes "operation_effect env self context op tracker = Inr (self', tracker', msgs, app)"
    and "\<And>own r a. op \<noteq> OpTransfer own r a" "\<And>config. op \<noteq> OpOpenChain config"
  shows "same_accounts self self' \<and> carried_by msgs = 0"
proof (cases op)
  case OpCloseChain
  then show ?thesis
    using assms(1) close_chain_tokens by (auto simp: operation_effect_def no_application_def same_accounts_def)
next
  case (OpAdmin admin_op)
  then obtain r where r: "execute_admin_operation self admin_op = Inr r" "self' = fst r" "msgs = snd r"
    using assms(1) by (auto simp: operation_effect_def no_application_def)
  have "carried_by (snd r) = 0"
    using r(1) by (cases admin_op) (auto simp: execute_admin_operation_def)
  moreover have "execute_admin_operation self admin_op = Inr (self', msgs)" using r by simp
  ultimately show ?thesis
    using r(3) same_accounts_frames(4) [OF execute_admin_operation_frame] by blast
next
  case (OpCreateApplication bytecode parameters argument required)
  then obtain self1 app_id msg blobs where
    r: "create_application env self (next_message_id context (next_message_index tracker)) bytecode parameters required
      = Inr (self1, app_id, msg, blobs)"
    "record_bytecode_blobs self1 blobs tracker = Inr (self', tracker')" "msgs = [msg]"
    using assms(1) by (auto simp: operation_effect_def)
  have "same_accounts self self1" using create_application_frame [OF r(1)] same_accounts_frames(2) by blast
  moreover have "carried_by msgs = 0" using create_application_frame [OF r(1)] r(3) by simp
  ultimately show ?thesis
    using same_accounts_trans same_accounts_frames(1) [OF record_bytecode_blobs_frame [OF r(2)]] by blast
next
  case (OpReadBlob bid)
  then obtain t f where "blob_used self (Some tracker) bid = Inr (self', t, f)" "msgs = []"
    using assms(1) by (auto simp: operation_effect_def)
  then show ?thesis using same_accounts_frames(1) [OF blob_used_frame] by simp
qed (use assms in \<open>auto simp: operation_effect_def no_application_def Let_def blob_published_def claim_def
    execute_subscribe_def execute_unsubscribe_def same_accounts_def split: if_splits\<close>)

lemma operation_tokens:
  assumes "operation_effect env self context op tracker = Inr (self', tracker', msgs, app)"
    and fin: "finite (dom (sys_balances self))"
  shows "held self = held self' + carried_by msgs + burned_by_operation op \<and> finite (dom (sys_balances self'))"
proof -
  consider (transfer) own r a where "op = OpTransfer own r a" | (open_op) config where "op = OpOpenChain config"
    | (quiet) "\<And>own r a. op \<noteq> OpTransfer own r a" "\<And>config. op \<noteq> OpOpenChain config"
    by blast
  then show ?thesis
  proof cases
    case transfer
    then obtain d where "debit self (map_option AccountUser own) a = Inr self'"
      "msgs = credit_message (map_option AccountUser own) r a"
      using assms(1) by (auto simp: operation_effect_def no_application_def transfer_def)
    then show ?thesis using debit_tokens [OF _ fin] transfer by fastforce
  next
    case open_op
    then have "debit self None (occ_balance config) = Inr self'" "carried_by msgs = unat (occ_balance config)"
      using assms(1) by (auto simp: operation_effect_def no_application_def open_chain_def Let_def)
    then show ?thesis using debit_tokens [OF _ fin] open_op by fastforce
  next
    case quiet
    from quiet_operation [OF assms(1) this] show ?thesis
      using fin quiet by (cases op) (auto simp: same_accounts_def held_def)
  qed
qed

lemma message_tokens:
  assumes "system_execute_message env self context msg tracker = Inr (self', tracker', outcome)"
    and fin: "finite (dom (sys_balances self))" and "held self + carried msg < 2 ^ 128"
    and no_open: "\<And>config. msg \<noteq> OpenChain config"
  shows "held self + carried msg = held self' + carried_by (reo_messages outcome) + burned_by_message msg
    \<and> finite (dom (sys_balances self'))"
proof (cases msg)
  case (Credit target_account a source)
  then show ?thesis
    using assms credit_tokens [OF fin] by (auto simp: system_execute_message_def outcome_default_def)
next
  case (Withdraw own a r)
  then have "debit self (Some own) a = Inr self'" "reo_messages outcome = credit_message (Some own) r a"
    using assms(1) by (auto simp: system_execute_message_def)
  then show ?thesis using debit_tokens [OF _ fin] Withdraw by fastforce
next
  case (RegisterApplications apps)
  then have "execute_register_applications env self apps tracker = Inr (self', tracker')" "reo_messages outcome = []"
    using assms(1) by (auto simp: system_execute_message_def outcome_default_def)
  then show ?thesis
    using same_accounts_frames(3) [OF execute_register_applications_frame] RegisterApplications fin
    by (auto simp: same_accounts_def held_def)
qed (use assms in \<open>auto simp: system_execute_message_def outcome_default_def held_def\<close>)

lemma initialize_chain_tokens:
  assumes "initialize_chain env self mid timestamp config = Inr self'"
  shows "held self' + unat (sys_balance self) = held self + unat (occ_balance config)
    \<and> sys_balances self' = sys_balances self"
  using assms by (auto simp: initialize_chain_def held_def)

end
