(* ===== verification/Resources.thy ===== *)
theory Resources
  imports Execution_Types
begin

section \<open>Charging for resources (linera-execution)\<close>

text \<open>
  \<open>linera-execution/src/resources.rs\<close>: the controller that counts the resources of a block and charges for
  them. The trait \<open>BalanceHolder\<close> is a record of functions; a subtraction returns the holder it leaves
  behind also when it fails, because the error reports the balance of that holder. An operation of the
  controller that fails returns only the error. \<open>bytes_stored\<close>, an \<open>i32\<close>, is an integer within bounds.

  \<open>balance_holder\<close> is the contract of a holder: its worth as a number, which a subtraction that succeeds
  lowers by exactly the amount. The laws of the controller are proved once from it.
\<close>

subsection \<open>Holders of a balance\<close>

record 'a balance_holder_ops =
  bh_balance :: "'a \<Rightarrow> (arithmetic_error, amount) res"
  bh_try_add_assign :: "'a \<Rightarrow> amount \<Rightarrow> (arithmetic_error, 'a) res"
  bh_try_sub_assign :: "'a \<Rightarrow> amount \<Rightarrow> 'a \<times> (arithmetic_error, unit) res"

definition amount_holder :: "amount balance_holder_ops" where
  "amount_holder = \<lparr>bh_balance = Inr, bh_try_add_assign = try_add_assign,
     bh_try_sub_assign = (\<lambda>self other. case try_sub_assign self other of
        Inr a \<Rightarrow> (a, Inr ()) | Inl e \<Rightarrow> (self, Inl e))\<rparr>"

fun sources_balance :: "amount \<Rightarrow> amount list \<Rightarrow> (arithmetic_error, amount) res" where
  "sources_balance amount [] = Inr amount"
| "sources_balance amount (source # sources) =
     and_then (try_add_assign amount source) (\<lambda>amount. sources_balance amount sources)"

text \<open>The last source is credited; there is always one.\<close>

definition sources_try_add_assign :: "amount list \<Rightarrow> amount \<Rightarrow> (arithmetic_error, amount list) res" where
  "sources_try_add_assign sources other =
     and_then (try_add_assign (last sources) other) (\<lambda>a. Inr (butlast sources @ [a]))"

fun sources_try_sub_assign :: "amount list \<Rightarrow> amount \<Rightarrow> amount list \<times> (arithmetic_error, unit) res" where
  "sources_try_sub_assign [] other = ([], if 0 < other then Inl Underflow else Inr ())"
| "sources_try_sub_assign (source # sources) other =
     (case try_sub_assign source other of
        Inr a \<Rightarrow> (a # sources, Inr ())
      | Inl _ \<Rightarrow>
          let (rest, result) = sources_try_sub_assign sources (other - source)
          in (0 # rest, result))"

definition sources_holder :: "amount list balance_holder_ops" where
  "sources_holder = \<lparr>bh_balance = sources_balance 0, bh_try_add_assign = sources_try_add_assign,
     bh_try_sub_assign = sources_try_sub_assign\<rparr>"

subsection \<open>The controller\<close>

record resource_tracker =
  rt_blocks :: u32
  rt_executed_block_size :: u64
  rt_fuel :: u64
  rt_read_operations :: u32
  rt_write_operations :: u32
  rt_bytes_read :: u64
  rt_bytes_written :: u64
  rt_bytes_stored :: int
  rt_operations :: u32
  rt_operation_bytes :: u64
  rt_messages :: u32
  rt_message_bytes :: u64
  rt_grants :: amount

definition tracker_default :: resource_tracker where
  "tracker_default = \<lparr>rt_blocks = 0, rt_executed_block_size = 0, rt_fuel = 0, rt_read_operations = 0,
     rt_write_operations = 0, rt_bytes_read = 0, rt_bytes_written = 0, rt_bytes_stored = 0, rt_operations = 0,
     rt_operation_bytes = 0, rt_messages = 0, rt_message_bytes = 0, rt_grants = 0\<rparr>"

record 'a resource_controller =
  rc_policy :: resource_control_policy
  rc_tracker :: resource_tracker
  rc_account :: 'a

definition overflow :: "(arithmetic_error, 'b) res \<Rightarrow> (execution_error, 'b) res" where
  "overflow r = map_err ExArithmeticError r"

definition rc_balance :: "'a balance_holder_ops \<Rightarrow> 'a \<Rightarrow> amount" where
  "rc_balance bh account = (case bh_balance bh account of Inr b \<Rightarrow> b | Inl _ \<Rightarrow> max_value)"

definition update_balance ::
  "'a balance_holder_ops \<Rightarrow> 'a resource_controller \<Rightarrow> amount \<Rightarrow> (execution_error, 'a resource_controller) res" where
  "update_balance bh self fees =
     (case bh_try_sub_assign bh (rc_account self) fees of
        (account, Inr _) \<Rightarrow> Inr (self\<lparr>rc_account := account\<rparr>)
      | (account, Inl _) \<Rightarrow> Inl (ExSystemError (InsufficientFundingForFees (rc_balance bh account))))"

definition merge_balance ::
  "'a balance_holder_ops \<Rightarrow> 'a resource_controller \<Rightarrow> amount \<Rightarrow> amount
     \<Rightarrow> (execution_error, 'a resource_controller) res" where
  "merge_balance bh self initial other =
     (if other \<le> initial then update_balance bh self (initial - other)
      else and_then (overflow (bh_try_add_assign bh (rc_account self) (other - initial))) (\<lambda>account.
        Inr (self\<lparr>rc_account := account\<rparr>)))"

definition rc_remaining_fuel :: "'a balance_holder_ops \<Rightarrow> 'a resource_controller \<Rightarrow> u64" where
  "rc_remaining_fuel bh self =
     min (remaining_fuel (rc_policy self) (rc_balance bh (rc_account self)))
       (saturating_sub (maximum_fuel_per_block (rc_policy self)) (rt_fuel (rc_tracker self)))"

definition track_grant ::
  "'a balance_holder_ops \<Rightarrow> 'a resource_controller \<Rightarrow> amount \<Rightarrow> (execution_error, 'a resource_controller) res" where
  "track_grant bh self grant =
     and_then (overflow (try_add_assign (rt_grants (rc_tracker self)) grant)) (\<lambda>grants.
       update_balance bh (self\<lparr>rc_tracker := (rc_tracker self)\<lparr>rt_grants := grants\<rparr>\<rparr>) grant)"

definition track_block ::
  "'a balance_holder_ops \<Rightarrow> 'a resource_controller \<Rightarrow> (execution_error, 'a resource_controller) res" where
  "track_block bh self =
     and_then (overflow (try_add (rt_blocks (rc_tracker self)) 1)) (\<lambda>n.
       update_balance bh (self\<lparr>rc_tracker := (rc_tracker self)\<lparr>rt_blocks := n\<rparr>\<rparr>) (price_block (rc_policy self)))"

definition track_operation ::
  "'a balance_holder_ops \<Rightarrow> 'a resource_controller \<Rightarrow> operation \<Rightarrow> (execution_error, 'a resource_controller) res" where
  "track_operation bh self op =
     and_then (overflow (try_add (rt_operations (rc_tracker self)) 1)) (\<lambda>n.
     and_then (update_balance bh (self\<lparr>rc_tracker := (rc_tracker self)\<lparr>rt_operations := n\<rparr>\<rparr>)
         (price_operation (rc_policy self))) (\<lambda>self.
       case op of
         SystemOp _ \<Rightarrow> Inr self
       | UserOp _ bytes \<Rightarrow>
           (let size = of_nat (length bytes)
            in and_then (overflow (try_add (rt_operation_bytes (rc_tracker self)) size)) (\<lambda>n.
               and_then (overflow (operation_bytes_price (rc_policy self) size)) (\<lambda>fee.
                 update_balance bh (self\<lparr>rc_tracker := (rc_tracker self)\<lparr>rt_operation_bytes := n\<rparr>\<rparr>) fee)))))"

definition track_message ::
  "'a balance_holder_ops \<Rightarrow> 'a resource_controller \<Rightarrow> message \<Rightarrow> (execution_error, 'a resource_controller) res" where
  "track_message bh self msg =
     and_then (overflow (try_add (rt_messages (rc_tracker self)) 1)) (\<lambda>n.
     and_then (update_balance bh (self\<lparr>rc_tracker := (rc_tracker self)\<lparr>rt_messages := n\<rparr>\<rparr>)
         (price_message (rc_policy self))) (\<lambda>self.
       case msg of
         SystemMsg _ \<Rightarrow> Inr self
       | UserMsg _ bytes \<Rightarrow>
           (let size = of_nat (length bytes)
            in and_then (overflow (try_add (rt_message_bytes (rc_tracker self)) size)) (\<lambda>n.
               and_then (overflow (message_bytes_price (rc_policy self) size)) (\<lambda>fee.
                 update_balance bh (self\<lparr>rc_tracker := (rc_tracker self)\<lparr>rt_message_bytes := n\<rparr>\<rparr>) fee)))))"

definition track_fuel ::
  "'a balance_holder_ops \<Rightarrow> 'a resource_controller \<Rightarrow> u64 \<Rightarrow> (execution_error, 'a resource_controller) res" where
  "track_fuel bh self fuel =
     and_then (overflow (try_add (rt_fuel (rc_tracker self)) fuel)) (\<lambda>n.
     and_then (ensure (n \<le> maximum_fuel_per_block (rc_policy self)) MaximumFuelExceeded) (\<lambda>_.
     and_then (overflow (fuel_price (rc_policy self) fuel)) (\<lambda>fee.
       update_balance bh (self\<lparr>rc_tracker := (rc_tracker self)\<lparr>rt_fuel := n\<rparr>\<rparr>) fee)))"

definition track_read_operations ::
  "'a balance_holder_ops \<Rightarrow> 'a resource_controller \<Rightarrow> u32 \<Rightarrow> (execution_error, 'a resource_controller) res" where
  "track_read_operations bh self cnt =
     and_then (overflow (try_add (rt_read_operations (rc_tracker self)) cnt)) (\<lambda>n.
     and_then (overflow (read_operations_price (rc_policy self) cnt)) (\<lambda>fee.
       update_balance bh (self\<lparr>rc_tracker := (rc_tracker self)\<lparr>rt_read_operations := n\<rparr>\<rparr>) fee))"

definition track_write_operations ::
  "'a balance_holder_ops \<Rightarrow> 'a resource_controller \<Rightarrow> u32 \<Rightarrow> (execution_error, 'a resource_controller) res" where
  "track_write_operations bh self cnt =
     and_then (overflow (try_add (rt_write_operations (rc_tracker self)) cnt)) (\<lambda>n.
     and_then (overflow (write_operations_price (rc_policy self) cnt)) (\<lambda>fee.
       update_balance bh (self\<lparr>rc_tracker := (rc_tracker self)\<lparr>rt_write_operations := n\<rparr>\<rparr>) fee))"

definition track_bytes_read ::
  "'a balance_holder_ops \<Rightarrow> 'a resource_controller \<Rightarrow> u64 \<Rightarrow> (execution_error, 'a resource_controller) res" where
  "track_bytes_read bh self cnt =
     and_then (overflow (try_add (rt_bytes_read (rc_tracker self)) cnt)) (\<lambda>n.
     and_then (ensure (n < maximum_bytes_read_per_block (rc_policy self)) ExcessiveRead) (\<lambda>_.
     and_then (overflow (bytes_read_price (rc_policy self) cnt)) (\<lambda>fee.
       update_balance bh (self\<lparr>rc_tracker := (rc_tracker self)\<lparr>rt_bytes_read := n\<rparr>\<rparr>) fee)))"

definition track_bytes_written ::
  "'a balance_holder_ops \<Rightarrow> 'a resource_controller \<Rightarrow> u64 \<Rightarrow> (execution_error, 'a resource_controller) res" where
  "track_bytes_written bh self cnt =
     and_then (overflow (try_add (rt_bytes_written (rc_tracker self)) cnt)) (\<lambda>n.
     and_then (ensure (n < maximum_bytes_written_per_block (rc_policy self)) ExcessiveWrite) (\<lambda>_.
     and_then (overflow (bytes_written_price (rc_policy self) cnt)) (\<lambda>fee.
       update_balance bh (self\<lparr>rc_tracker := (rc_tracker self)\<lparr>rt_bytes_written := n\<rparr>\<rparr>) fee)))"

definition track_stored_bytes ::
  "'a resource_controller \<Rightarrow> int \<Rightarrow> (execution_error, 'a resource_controller) res" where
  "track_stored_bytes self delta =
     (let n = rt_bytes_stored (rc_tracker self) + delta
      in and_then (ensure (- (2 ^ 31) \<le> n \<and> n < 2 ^ 31) (ExArithmeticError Overflow)) (\<lambda>_.
           Inr (self\<lparr>rc_tracker := (rc_tracker self)\<lparr>rt_bytes_stored := n\<rparr>\<rparr>)))"

definition track_executed_block_size ::
  "'a resource_controller \<Rightarrow> nat \<Rightarrow> (execution_error, 'a resource_controller) res" where
  "track_executed_block_size self data_size =
     and_then (ok_or (Option.bind (try_from_nat data_size) (checked_add (rt_executed_block_size (rc_tracker self))))
         ExecutedBlockTooLarge) (\<lambda>n.
     and_then (ensure (n \<le> maximum_executed_block_size (rc_policy self)) ExecutedBlockTooLarge) (\<lambda>_.
       Inr (self\<lparr>rc_tracker := (rc_tracker self)\<lparr>rt_executed_block_size := n\<rparr>\<rparr>)))"

text \<open>\<open>usize::BITS - n.leading_zeros()\<close> is the number of binary digits.\<close>

fun bit_width :: "nat \<Rightarrow> nat" where
  "bit_width n = (if n = 0 then 0 else Suc (bit_width (n div 2)))"

declare bit_width.simps [simp del]

definition sequence_len_size :: "nat \<Rightarrow> nat" where
  "sequence_len_size n = max (bit_width n div 7) 1"

definition track_executed_block_size_sequence_extension ::
  "'a resource_controller \<Rightarrow> nat \<Rightarrow> nat \<Rightarrow> (execution_error, 'a resource_controller) res" where
  "track_executed_block_size_sequence_extension self old_len delta =
     (if delta = 0 then Inr self
      else let new_len = old_len + delta;
               old_size = sequence_len_size old_len;
               new_size = sequence_len_size new_len
           in if new_size > old_size then track_executed_block_size self (new_size - old_size) else Inr self)"

subsection \<open>The exact effect of charging\<close>

text \<open>The calls that charge, and one after the other.\<close>

datatype charge =
    ChargeGrant amount
  | ChargeBlock
  | ChargeOperation operation
  | ChargeMessage message
  | ChargeFuel u64
  | ChargeReadOperations u32
  | ChargeWriteOperations u32
  | ChargeBytesRead u64
  | ChargeBytesWritten u64

fun track ::
  "'a balance_holder_ops \<Rightarrow> 'a resource_controller \<Rightarrow> charge \<Rightarrow> (execution_error, 'a resource_controller) res" where
  "track bh self (ChargeGrant grant) = track_grant bh self grant"
| "track bh self ChargeBlock = track_block bh self"
| "track bh self (ChargeOperation op) = track_operation bh self op"
| "track bh self (ChargeMessage msg) = track_message bh self msg"
| "track bh self (ChargeFuel fuel) = track_fuel bh self fuel"
| "track bh self (ChargeReadOperations cnt) = track_read_operations bh self cnt"
| "track bh self (ChargeWriteOperations cnt) = track_write_operations bh self cnt"
| "track bh self (ChargeBytesRead cnt) = track_bytes_read bh self cnt"
| "track bh self (ChargeBytesWritten cnt) = track_bytes_written bh self cnt"

fun track_all ::
  "'a balance_holder_ops \<Rightarrow> 'a resource_controller \<Rightarrow> charge list \<Rightarrow> (execution_error, 'a resource_controller) res" where
  "track_all bh self [] = Inr self"
| "track_all bh self (c # cs) = and_then (track bh self c) (\<lambda>self. track_all bh self cs)"

text \<open>The reference: the fee of a charge over the natural numbers, and the tracker after it, if the counters
  do not overflow and the limits are respected.\<close>

fun user_operation_bytes :: "operation \<Rightarrow> u64" where
  "user_operation_bytes (UserOp _ bytes) = of_nat (length bytes)"
| "user_operation_bytes (SystemOp _) = 0"

fun user_message_bytes :: "message \<Rightarrow> u64" where
  "user_message_bytes (UserMsg _ bytes) = of_nat (length bytes)"
| "user_message_bytes (SystemMsg _) = 0"

fun exact_fee :: "resource_control_policy \<Rightarrow> charge \<Rightarrow> nat" where
  "exact_fee p (ChargeGrant grant) = unat grant"
| "exact_fee p ChargeBlock = unat (price_block p)"
| "exact_fee p (ChargeOperation op) =
     unat (price_operation p) + unat (price_operation_byte p) * unat (user_operation_bytes op)"
| "exact_fee p (ChargeMessage msg) =
     unat (price_message p) + unat (price_message_byte p) * unat (user_message_bytes msg)"
| "exact_fee p (ChargeFuel fuel) = unat (price_fuel_unit p) * unat fuel"
| "exact_fee p (ChargeReadOperations cnt) = unat (price_read_operation p) * unat cnt"
| "exact_fee p (ChargeWriteOperations cnt) = unat (price_write_operation p) * unat cnt"
| "exact_fee p (ChargeBytesRead cnt) = unat (price_byte_read p) * unat cnt"
| "exact_fee p (ChargeBytesWritten cnt) = unat (price_byte_written p) * unat cnt"

definition fits :: "'w::len word \<Rightarrow> 'w word \<Rightarrow> bool" where
  "fits a b \<longleftrightarrow> unat a + unat b < 2 ^ LENGTH('w)"

fun within_limits :: "resource_control_policy \<Rightarrow> resource_tracker \<Rightarrow> charge \<Rightarrow> bool" where
  "within_limits p t (ChargeGrant grant) = fits (rt_grants t) grant"
| "within_limits p t ChargeBlock = fits (rt_blocks t) 1"
| "within_limits p t (ChargeOperation op) =
     (fits (rt_operations t) 1 \<and> fits (rt_operation_bytes t) (user_operation_bytes op))"
| "within_limits p t (ChargeMessage msg) =
     (fits (rt_messages t) 1 \<and> fits (rt_message_bytes t) (user_message_bytes msg))"
| "within_limits p t (ChargeFuel fuel) = (unat (rt_fuel t) + unat fuel \<le> unat (maximum_fuel_per_block p))"
| "within_limits p t (ChargeReadOperations cnt) = fits (rt_read_operations t) cnt"
| "within_limits p t (ChargeWriteOperations cnt) = fits (rt_write_operations t) cnt"
| "within_limits p t (ChargeBytesRead cnt) =
     (unat (rt_bytes_read t) + unat cnt < unat (maximum_bytes_read_per_block p))"
| "within_limits p t (ChargeBytesWritten cnt) =
     (unat (rt_bytes_written t) + unat cnt < unat (maximum_bytes_written_per_block p))"

fun counted :: "resource_tracker \<Rightarrow> charge \<Rightarrow> resource_tracker" where
  "counted t (ChargeGrant grant) = t\<lparr>rt_grants := rt_grants t + grant\<rparr>"
| "counted t ChargeBlock = t\<lparr>rt_blocks := rt_blocks t + 1\<rparr>"
| "counted t (ChargeOperation op) =
     t\<lparr>rt_operations := rt_operations t + 1, rt_operation_bytes := rt_operation_bytes t + user_operation_bytes op\<rparr>"
| "counted t (ChargeMessage msg) =
     t\<lparr>rt_messages := rt_messages t + 1, rt_message_bytes := rt_message_bytes t + user_message_bytes msg\<rparr>"
| "counted t (ChargeFuel fuel) = t\<lparr>rt_fuel := rt_fuel t + fuel\<rparr>"
| "counted t (ChargeReadOperations cnt) = t\<lparr>rt_read_operations := rt_read_operations t + cnt\<rparr>"
| "counted t (ChargeWriteOperations cnt) = t\<lparr>rt_write_operations := rt_write_operations t + cnt\<rparr>"
| "counted t (ChargeBytesRead cnt) = t\<lparr>rt_bytes_read := rt_bytes_read t + cnt\<rparr>"
| "counted t (ChargeBytesWritten cnt) = t\<lparr>rt_bytes_written := rt_bytes_written t + cnt\<rparr>"

fun all_within_limits :: "resource_control_policy \<Rightarrow> resource_tracker \<Rightarrow> charge list \<Rightarrow> bool" where
  "all_within_limits p t [] = True"
| "all_within_limits p t (c # cs) = (within_limits p t c \<and> all_within_limits p (counted t c) cs)"

abbreviation exact_fees :: "resource_control_policy \<Rightarrow> charge list \<Rightarrow> nat" where
  "exact_fees p cs \<equiv> sum_list (map (exact_fee p) cs)"

definition funds :: "amount list \<Rightarrow> nat" where
  "funds sources = sum_list (map unat sources)"

lemma overflow_Inr_iff [simp]: "overflow r = Inr x \<longleftrightarrow> r = Inr x"
  by (simp add: overflow_def)

lemma checked_sum_iff: "unat c = unat a + unat b \<longleftrightarrow> fits a b \<and> c = a + (b :: 'w::len word)"
  by (metis fits_def unat_add_exact unat_bound word_unat_eq_iff)

lemma try_add_checked:
  "try_add a b = Inr c \<longleftrightarrow> fits a b \<and> c = a + b"
  "try_add_assign a b = Inr c \<longleftrightarrow> fits a b \<and> c = a + b"
  by (simp_all only: try_add_Inr_iff try_add_assign_Inr_iff checked_sum_iff)

lemma fits_0 [simp]: "fits a 0"
  using unat_bound [of a] by (simp add: fits_def)

lemma fits_within:
  "unat a + unat b \<le> unat (m :: 'w::len word) \<longleftrightarrow> fits a b \<and> a + b \<le> m"
proof (cases "fits a b")
  case True
  then show ?thesis by (simp add: fits_def unat_add_exact word_le_nat_alt)
next
  case False
  then show ?thesis unfolding fits_def by (meson le_less_trans unat_bound)
qed

lemma fits_below:
  "unat a + unat b < unat (m :: 'w::len word) \<longleftrightarrow> fits a b \<and> a + b < m"
proof (cases "fits a b")
  case True
  then show ?thesis by (simp add: fits_def unat_add_exact word_less_nat_alt)
next
  case False
  then show ?thesis unfolding fits_def by (meson less_trans unat_bound)
qed

locale balance_holder =
  fixes bh :: "'a balance_holder_ops"
    and worth :: "'a \<Rightarrow> nat"
    and holds :: "'a \<Rightarrow> bool"
  assumes sub_iff: "bh_try_sub_assign bh a x = (a', r) \<Longrightarrow> (r = Inr ()) = (unat x \<le> worth a)"
    and sub_worth: "bh_try_sub_assign bh a x = (a', Inr ()) \<Longrightarrow> worth a = worth a' + unat x"
    and sub_holds: "holds a \<Longrightarrow> bh_try_sub_assign bh a x = (a', r) \<Longrightarrow> holds a'"
    and sub_failed: "bh_try_sub_assign bh a x = (a', Inl e) \<Longrightarrow> worth a' \<le> worth a"
    and add_worth: "holds a \<Longrightarrow> bh_try_add_assign bh a x = Inr a' \<Longrightarrow> holds a' \<and> worth a' = worth a + unat x"
    and balance_exact: "bh_balance bh a = fit_amount (worth a)"
begin

lemma update_balance_Inr:
  assumes "update_balance bh rc fee = Inr rc'"
  shows "rc_policy rc' = rc_policy rc \<and> rc_tracker rc' = rc_tracker rc
    \<and> worth (rc_account rc) = worth (rc_account rc') + unat fee"
proof -
  obtain a r where sub: "bh_try_sub_assign bh (rc_account rc) fee = (a, r)" by fastforce
  then have r: "r = Inr ()" "rc' = rc\<lparr>rc_account := a\<rparr>"
    using assms by (auto simp: update_balance_def split: sum.splits)
  then show ?thesis
    using sub_worth sub by simp
qed

lemma update_balance_ok:
  "(\<exists>rc'. update_balance bh rc fee = Inr rc') \<longleftrightarrow> unat fee \<le> worth (rc_account rc)"
proof -
  obtain a r where sub: "bh_try_sub_assign bh (rc_account rc) fee = (a, r)" by fastforce
  show ?thesis
    using sub_iff [OF sub] sub by (cases r) (auto simp: update_balance_def)
qed

lemma track_Inr:
  assumes "track bh rc c = Inr rc'"
  shows "rc_policy rc' = rc_policy rc \<and> within_limits (rc_policy rc) (rc_tracker rc) c
    \<and> rc_tracker rc' = counted (rc_tracker rc) c
    \<and> worth (rc_account rc) = worth (rc_account rc') + exact_fee (rc_policy rc) c"
proof (cases c)
  case (ChargeOperation op)
  then show ?thesis
    using assms
    by (cases op)
      (auto simp: track_operation_def price_defs try_add_checked Let_def simp del: try_add_Inr_iff
        dest!: update_balance_Inr)
next
  case (ChargeMessage msg)
  then show ?thesis
    using assms
    by (cases msg)
      (auto simp: track_message_def price_defs try_add_checked Let_def simp del: try_add_Inr_iff
        dest!: update_balance_Inr)
qed (use assms in \<open>auto simp: track_grant_def track_block_def track_fuel_def track_read_operations_def
      track_write_operations_def track_bytes_read_def track_bytes_written_def price_defs
      try_add_checked fits_within fits_below
    simp del: try_add_Inr_iff try_add_assign_Inr_iff dest!: update_balance_Inr\<close>)

lemma charge_ok:
  fixes n :: "'w::len word"
  assumes "unat p * unat n \<le> worth (rc_account rc)" "worth (rc_account rc) < 2 ^ 128" "LENGTH('w) \<le> 128"
  shows "\<exists>rc' fee. try_mul (p :: amount) (ucast n) = Inr fee \<and> update_balance bh rc fee = Inr rc'"
proof -
  have "unat p * unat n < 2 ^ LENGTH(128)" using assms by simp
  from unat_ex_less [OF this] obtain fee :: amount where "unat fee = unat p * unat n" by blast
  then show ?thesis
    using assms update_balance_ok [of rc fee] by auto
qed

lemma charge_twice_ok:
  fixes n :: "'w::len word"
  assumes "unat p + unat q * unat n \<le> worth (rc_account rc)" "worth (rc_account rc) < 2 ^ 128" "LENGTH('w) \<le> 128"
  shows "\<exists>rc1. update_balance bh rc p = Inr rc1 \<and> rc_policy rc1 = rc_policy rc \<and> rc_tracker rc1 = rc_tracker rc
    \<and> (\<forall>t. \<exists>rc' fee. try_mul (q :: amount) (ucast n) = Inr fee
        \<and> update_balance bh (rc1\<lparr>rc_tracker := t\<rparr>) fee = Inr rc')"
proof -
  obtain rc1 where rc1: "update_balance bh rc p = Inr rc1"
    using update_balance_ok [of rc p] assms(1) by auto
  note f = update_balance_Inr [OF rc1]
  have "\<exists>rc' fee. try_mul q (ucast n) = Inr fee \<and> update_balance bh (rc1\<lparr>rc_tracker := t\<rparr>) fee = Inr rc'" for t
    by (rule charge_ok) (use f assms in auto)
  then show ?thesis using rc1 f by blast
qed

lemma track_operation_ok:
  assumes "within_limits (rc_policy rc) (rc_tracker rc) (ChargeOperation op)"
    "exact_fee (rc_policy rc) (ChargeOperation op) \<le> worth (rc_account rc)" "worth (rc_account rc) < 2 ^ 128"
  shows "\<exists>rc'. track_operation bh rc op = Inr rc'"
  using assms
    charge_twice_ok [of "price_operation (rc_policy rc)" "price_operation_byte (rc_policy rc)" "user_operation_bytes op"
      "rc\<lparr>rc_tracker := (rc_tracker rc)\<lparr>rt_operations := rt_operations (rc_tracker rc) + 1\<rparr>\<rparr>"]
  by (cases op) (auto simp: track_operation_def try_add_checked price_defs Let_def
      simp del: try_add_Inr_iff try_mul_ucast_Inr_iff)

lemma track_message_ok:
  assumes "within_limits (rc_policy rc) (rc_tracker rc) (ChargeMessage msg)"
    "exact_fee (rc_policy rc) (ChargeMessage msg) \<le> worth (rc_account rc)" "worth (rc_account rc) < 2 ^ 128"
  shows "\<exists>rc'. track_message bh rc msg = Inr rc'"
  using assms
    charge_twice_ok [of "price_message (rc_policy rc)" "price_message_byte (rc_policy rc)" "user_message_bytes msg"
      "rc\<lparr>rc_tracker := (rc_tracker rc)\<lparr>rt_messages := rt_messages (rc_tracker rc) + 1\<rparr>\<rparr>"]
  by (cases msg) (auto simp: track_message_def try_add_checked price_defs Let_def
      simp del: try_add_Inr_iff try_mul_ucast_Inr_iff)

lemma track_ok:
  assumes "within_limits (rc_policy rc) (rc_tracker rc) c" "exact_fee (rc_policy rc) c \<le> worth (rc_account rc)"
    "worth (rc_account rc) < 2 ^ 128"
  shows "\<exists>rc'. track bh rc c = Inr rc'"
proof (cases c)
  case (ChargeOperation op)
  then show ?thesis using assms track_operation_ok by simp
next
  case (ChargeMessage msg)
  then show ?thesis using assms track_message_ok by simp
next
  case (ChargeGrant g)
  then show ?thesis using assms
    by (auto simp: track_grant_def try_add_checked update_balance_ok simp del: try_add_assign_Inr_iff)
next
  case ChargeBlock
  then show ?thesis using assms
    by (auto simp: track_block_def try_add_checked update_balance_ok simp del: try_add_Inr_iff)
qed (use assms in
    \<open>auto simp: track_fuel_def track_read_operations_def
      track_write_operations_def track_bytes_read_def track_bytes_written_def price_defs
      try_add_checked fits_within fits_below
    simp del: try_add_Inr_iff try_mul_ucast_Inr_iff intro!: charge_ok\<close>)

lemma track_all_Inr:
  assumes "track_all bh rc cs = Inr rc'"
  shows "rc_policy rc' = rc_policy rc \<and> all_within_limits (rc_policy rc) (rc_tracker rc) cs
    \<and> rc_tracker rc' = foldl counted (rc_tracker rc) cs
    \<and> worth (rc_account rc) = worth (rc_account rc') + exact_fees (rc_policy rc) cs"
  using assms
proof (induction cs arbitrary: rc)
  case (Cons c cs)
  then obtain rc1 where rc1: "track bh rc c = Inr rc1" "track_all bh rc1 cs = Inr rc'" by auto
  show ?case using track_Inr [OF rc1(1)] Cons.IH [OF rc1(2)] by simp
qed simp

lemma track_all_ok:
  assumes "all_within_limits (rc_policy rc) (rc_tracker rc) cs"
    "exact_fees (rc_policy rc) cs \<le> worth (rc_account rc)" "worth (rc_account rc) < 2 ^ 128"
  shows "\<exists>rc'. track_all bh rc cs = Inr rc'"
  using assms
proof (induction cs arbitrary: rc)
  case (Cons c cs)
  then obtain rc1 where rc1: "track bh rc c = Inr rc1" using track_ok [of rc c] by auto
  then show ?case using Cons.IH [of rc1] Cons.prems track_Inr [OF rc1] by simp
qed simp

lemma track_all_iff:
  "worth (rc_account rc) < 2 ^ 128 \<Longrightarrow> (\<exists>rc'. track_all bh rc cs = Inr rc') \<longleftrightarrow>
     all_within_limits (rc_policy rc) (rc_tracker rc) cs \<and> exact_fees (rc_policy rc) cs \<le> worth (rc_account rc)"
  using track_all_Inr track_all_ok by fastforce

lemma update_balance_holds:
  assumes "update_balance bh rc fee = Inr rc'" "holds (rc_account rc)"
  shows "holds (rc_account rc')"
proof -
  obtain a r where sub: "bh_try_sub_assign bh (rc_account rc) fee = (a, r)" by fastforce
  then have "rc' = rc\<lparr>rc_account := a\<rparr>"
    using assms(1) by (auto simp: update_balance_def split: sum.splits)
  then show ?thesis using sub_holds [OF assms(2) sub] by simp
qed

lemma track_holds:
  assumes "track bh rc c = Inr rc'" "holds (rc_account rc)"
  shows "holds (rc_account rc')"
proof (cases c)
  case (ChargeOperation op)
  then show ?thesis
    using assms by (cases op) (auto simp: track_operation_def Let_def dest!: update_balance_holds)
next
  case (ChargeMessage msg)
  then show ?thesis
    using assms by (cases msg) (auto simp: track_message_def Let_def dest!: update_balance_holds)
qed (use assms in \<open>auto simp: track_grant_def track_block_def track_fuel_def track_read_operations_def
      track_write_operations_def track_bytes_read_def track_bytes_written_def dest!: update_balance_holds\<close>)

lemma track_all_holds:
  "track_all bh rc cs = Inr rc' \<Longrightarrow> holds (rc_account rc) \<Longrightarrow> holds (rc_account rc')"
  by (induction cs arbitrary: rc) (auto dest!: track_holds)

text \<open>Merging back a balance moves exactly the difference.\<close>

lemma merge_balance_worth:
  assumes "merge_balance bh rc initial other = Inr rc'" "holds (rc_account rc)"
  shows "worth (rc_account rc') + unat initial = worth (rc_account rc) + unat other"
proof (cases "other \<le> initial")
  case True
  then have "update_balance bh rc (initial - other) = Inr rc'" using assms by (simp add: merge_balance_def)
  from update_balance_Inr [OF this] show ?thesis
    using True by (simp add: unat_sub_exact word_le_nat_alt)
next
  case False
  then obtain a where a: "bh_try_add_assign bh (rc_account rc) (other - initial) = Inr a" "rc' = rc\<lparr>rc_account := a\<rparr>"
    using assms by (auto simp: merge_balance_def)
  show ?thesis
    using add_worth [OF assms(2) a(1)] a(2) False by (simp add: unat_sub_exact word_le_nat_alt)
qed

end

subsection \<open>The two holders\<close>

lemma funds_simps [simp]: "funds [] = 0" "funds (s # sources) = unat s + funds sources"
  by (simp_all add: funds_def)

lemma sources_balance_exact: "sources_balance a sources = fit_amount (unat a + funds sources)"
proof (induction sources arbitrary: a)
  case Nil
  have "unat a < 2 ^ 128" using unat_bound [of a] by simp
  then show ?case by (simp add: fit_amount_def)
next
  case (Cons s sources)
  show ?case
  proof (cases "fits a s")
    case True
    then have "try_add_assign a s = Inr (a + s)" using try_add_checked(2) by blast
    moreover have "unat (a + s) = unat a + unat s" using True by (simp add: fits_def unat_add_exact)
    ultimately show ?thesis using Cons.IH by (simp add: add.assoc del: try_add_assign_Inr_iff)
  next
    case False
    then show ?thesis
      by (simp add: try_add_assign_def checked_add_def fits_def fit_amount_def)
  qed
qed

lemma sources_sub_worth:
  "sources_try_sub_assign sources x = (sources', r) \<Longrightarrow>
     length sources' = length sources
     \<and> (r = Inr () \<longrightarrow> funds sources = funds sources' + unat x)
     \<and> (r = Inr () \<longleftrightarrow> unat x \<le> funds sources)
     \<and> (r \<noteq> Inr () \<longrightarrow> funds sources' = 0)"
proof (induction sources arbitrary: x sources' r)
  case Nil
  then show ?case by (auto simp: word_less_nat_alt split: if_splits)
next
  case (Cons s sources)
  show ?case
  proof (cases "x \<le> s")
    case True
    then have "try_sub_assign s x = Inr (s - x)" by (simp add: try_sub_assign_def checked_sub_def)
    then show ?thesis using Cons.prems True
      by (auto simp: unat_sub_exact word_le_nat_alt simp del: try_sub_assign_Inr_iff)
  next
    case False
    then have e: "try_sub_assign s x = Inl Underflow" by (simp add: try_sub_assign_def checked_sub_def)
    obtain rest q where rest: "sources_try_sub_assign sources (x - s) = (rest, q)" by fastforce
    have u: "unat (x - s) = unat x - unat s" "unat s < unat x"
      using False by (simp_all add: unat_sub_exact word_le_nat_alt)
    have "sources' = 0 # rest" "r = q" using Cons.prems e rest by simp_all
    moreover have "unat x - unat s \<le> funds sources \<longleftrightarrow> unat x \<le> unat s + funds sources" by linarith
    ultimately show ?thesis
      using Cons.IH [OF rest, unfolded u(1)] u(2) by (cases "q = Inr ()") simp_all
  qed
qed

lemma funds_add_last: "sources \<noteq> [] \<Longrightarrow> unat a = unat (last sources) + unat x \<Longrightarrow>
    funds (butlast sources @ [a]) = funds sources + unat x"
  by (induction sources rule: rev_induct) (auto simp: funds_def)

interpretation amt: balance_holder amount_holder unat "\<lambda>_. True"
proof
  fix a :: amount
  have "unat a < 2 ^ 128" using unat_bound [of a] by simp
  then show "bh_balance amount_holder a = fit_amount (unat a)"
    by (simp add: amount_holder_def fit_amount_def)
qed (auto simp: amount_holder_def try_sub_assign_def checked_sub_def word_le_nat_alt unat_sub_exact
    split: sum.splits if_splits)

interpretation srcs: balance_holder sources_holder funds "\<lambda>sources. length sources = Suc n" for n
proof unfold_locales
  fix sources sources' :: "amount list" and x
  assume "length sources = Suc n" "bh_try_add_assign sources_holder sources x = Inr sources'"
  moreover from this have "sources \<noteq> []" by auto
  ultimately show "length sources' = Suc n \<and> funds sources' = funds sources + unat x"
    by (auto simp: sources_holder_def sources_try_add_assign_def funds_add_last)
qed (auto simp: sources_holder_def sources_balance_exact dest!: sources_sub_worth)

subsection \<open>What charging does\<close>

text \<open>C36: Charging is exact. Any sequence of calls that charge the funding sources of a block succeeds if and
  only if every counter and limit of the policy is respected and the sum of the fees, over the natural
  numbers, is at most the sum of the sources. Then the sources have lost exactly that sum, and the tracker
  has counted exactly those resources.
\<close>

theorem charging_exact:
  assumes "funds (rc_account rc) < 2 ^ 128"
  shows "((\<exists>rc'. track_all sources_holder rc cs = Inr rc') \<longleftrightarrow>
      all_within_limits (rc_policy rc) (rc_tracker rc) cs \<and> exact_fees (rc_policy rc) cs \<le> funds (rc_account rc))
    \<and> (\<forall>rc'. track_all sources_holder rc cs = Inr rc' \<longrightarrow>
        rc_policy rc' = rc_policy rc \<and> rc_tracker rc' = foldl counted (rc_tracker rc) cs
        \<and> funds (rc_account rc) = funds (rc_account rc') + exact_fees (rc_policy rc) cs)"
  using srcs.track_all_iff [OF assms] srcs.track_all_Inr by blast

definition example_controller :: "amount list resource_controller" where
  "example_controller = \<lparr>rc_policy = policy_default\<lparr>price_block := 4, price_operation := 2, price_operation_byte := 1\<rparr>,
     rc_tracker = tracker_default, rc_account = [3, 10]\<rparr>"

definition example_charges :: "charge list" where
  "example_charges = [ChargeOperation (UserOp (ApplicationId (BytecodeId 1 2) (MessageId 3 0 0)) [7, 8]), ChargeBlock]"

text \<open>Witness: a user operation with two bytes and a block use up the first source and half of the second.\<close>

theorem charging_exact_witness:
  "\<exists>rc'. track_all sources_holder example_controller example_charges = Inr rc' \<and> funds (rc_account rc') = 5"
proof -
  have "funds (rc_account example_controller) < 2 ^ 128" by (simp add: example_controller_def)
  note exact = charging_exact [OF this, of example_charges]
  have fees: "exact_fees (rc_policy example_controller) example_charges = 8"
    "all_within_limits (rc_policy example_controller) (rc_tracker example_controller) example_charges"
    "funds (rc_account example_controller) = 13"
    by (simp_all add: example_controller_def example_charges_def policy_default_def tracker_default_def fits_def)
  then obtain rc' where rc': "track_all sources_holder example_controller example_charges = Inr rc'"
    using exact [THEN conjunct1] by (simp only: fees) auto
  then have "13 = funds (rc_account rc') + 8"
    using exact [THEN conjunct2, rule_format, OF rc'] by (simp only: fees)
  then show ?thesis using rc' by auto
qed

text \<open>C37: A fee that exceeds the funding sources is refused, but the balance reported with the error is always
  zero, because the sources have been emptied before the failure is noticed; a controller whose account is
  an amount reports the balance that was insufficient.
\<close>

theorem insufficient_fees_error:
  assumes "funds (rc_account rc) < unat fee" "rc_account rc' < fee"
  shows "update_balance sources_holder rc fee = Inl (ExSystemError (InsufficientFundingForFees 0))
    \<and> update_balance amount_holder rc' fee = Inl (ExSystemError (InsufficientFundingForFees (rc_account rc')))"
proof -
  obtain sources r where sub: "sources_try_sub_assign (rc_account rc) fee = (sources, r)" by fastforce
  then obtain e where "r = Inl e" "funds sources = 0"
    using sources_sub_worth [OF sub] assms(1) by (cases r) auto
  moreover have "\<not> fee \<le> rc_account rc'" using assms(2) by simp
  ultimately show ?thesis
    using sub by (simp add: update_balance_def sources_holder_def amount_holder_def rc_balance_def
        sources_balance_exact fit_amount_def try_sub_assign_def checked_sub_def)
qed

text \<open>Witness: thirteen tokens do not pay a fee of twenty.\<close>

theorem insufficient_fees_error_witness:
  "update_balance sources_holder example_controller 20 = Inl (ExSystemError (InsufficientFundingForFees 0))
    \<and> update_balance amount_holder \<lparr>rc_policy = policy_default, rc_tracker = tracker_default, rc_account = 13\<rparr> 20
      = Inl (ExSystemError (InsufficientFundingForFees 13))"
  using insufficient_fees_error [of example_controller 20
      "\<lparr>rc_policy = policy_default, rc_tracker = tracker_default, rc_account = 13\<rparr>"]
  by (simp add: example_controller_def)

end
