(* ===== verification/Execution_State.thy ===== *)
theory Execution_State
  imports System_Accounts Resources
begin

section \<open>The execution state of a chain (linera-execution/src/execution.rs)\<close>

text \<open>
  The execution state: the system application and the states of the user applications, with the execution of
  operations and messages, and the connection of the resource controller to the accounts that pay
  (\<open>ResourceController::with_state_and_grant\<close>).

  Running the bytecode of a user application is a parameter, \<open>run_contract\<close>: it gets the action, a controller
  whose account is the balance available, the transaction tracker and the execution state, and returns them
  updated, or an error. The states of the user applications are of a type of their own, \<open>'u\<close>.
\<close>

subsection \<open>The order of applications and destinations\<close>

definition app_key :: "application_id \<Rightarrow> nat list" where
  "app_key a = [unat (contract_blob_hash (app_bytecode_id a)), unat (service_blob_hash (app_bytecode_id a)),
     unat (mid_chain_id (app_creation a)), unat (mid_height (app_creation a)), unat (mid_index (app_creation a))]"

lemma app_key_inj: "app_key a = app_key b \<longleftrightarrow> a = b"
  by (cases a; cases b)
    (auto simp: app_key_def intro: bytecode_id.expand message_id.expand dest: word_unat_eq_iff [THEN iffD2])

instantiation application_id :: linorder
begin

definition less_eq_application_id :: "application_id \<Rightarrow> application_id \<Rightarrow> bool" where
  "less_eq_application_id a b \<longleftrightarrow> app_key a \<le> app_key b"

definition less_application_id :: "application_id \<Rightarrow> application_id \<Rightarrow> bool" where
  "less_application_id a b \<longleftrightarrow> app_key a < app_key b"

instance
  by standard (auto simp: less_eq_application_id_def less_application_id_def order_less_le app_key_inj)

end

fun dest_key :: "destination \<Rightarrow> nat list" where
  "dest_key (Recipient cid) = [0, unat cid]"
| "dest_key (Subscribers name) = 1 # map unat name"

lemma dest_key_inj: "dest_key a = dest_key b \<longleftrightarrow> a = b"
  by (cases a; cases b) (auto simp: word_unat_eq_iff inj_map_eq_map inj_def)

instantiation destination :: linorder
begin

definition less_eq_destination :: "destination \<Rightarrow> destination \<Rightarrow> bool" where
  "less_eq_destination a b \<longleftrightarrow> dest_key a \<le> dest_key b"

definition less_destination :: "destination \<Rightarrow> destination \<Rightarrow> bool" where
  "less_destination a b \<longleftrightarrow> dest_key a < dest_key b"

instance
  by standard (auto simp: less_eq_destination_def less_destination_def order_less_le dest_key_inj)

end

subsection \<open>Paying from the state\<close>

record 'u execution_state =
  es_chain_id :: chain_id
  es_system :: system_state
  es_users :: 'u

text \<open>The sources of \<open>with_state_and_grant\<close>, the grant or the chain balance first, and their values after use.\<close>

definition owner_source :: "system_state \<Rightarrow> owner option \<Rightarrow> amount option" where
  "owner_source system payer = Option.bind payer (\<lambda>own. sys_balances system (AccountUser own))"

definition funding_sources :: "system_state \<Rightarrow> owner option \<Rightarrow> amount option \<Rightarrow> amount list" where
  "funding_sources system payer grant =
     (case grant of Some g \<Rightarrow> g | None \<Rightarrow> sys_balance system) #
     (case owner_source system payer of Some b \<Rightarrow> [b] | None \<Rightarrow> [])"

definition put_sources ::
  "system_state \<Rightarrow> owner option \<Rightarrow> amount option \<Rightarrow> amount list \<Rightarrow> system_state \<times> amount option" where
  "put_sources system payer grant sources =
     (let system = (if grant = None then system\<lparr>sys_balance := hd sources\<rparr> else system);
          system = (case owner_source system payer of
              Some _ \<Rightarrow> system\<lparr>sys_balances := (sys_balances system)(AccountUser (the payer) \<mapsto> sources ! 1)\<rparr>
            | None \<Rightarrow> system)
      in (system, map_option (\<lambda>_. hd sources) grant))"

type_synonym payer_controller = "owner option resource_controller"

definition with_state_and_grant ::
  "payer_controller \<Rightarrow> 'u execution_state \<Rightarrow> amount option
     \<Rightarrow> (amount list resource_controller \<Rightarrow> (execution_error, amount list resource_controller) res)
     \<Rightarrow> (execution_error, payer_controller \<times> 'u execution_state \<times> amount option) res" where
  "with_state_and_grant rc self grant action =
     and_then (action \<lparr>rc_policy = rc_policy rc, rc_tracker = rc_tracker rc,
         rc_account = funding_sources (es_system self) (rc_account rc) grant\<rparr>) (\<lambda>rc'.
       let (system, grant) = put_sources (es_system self) (rc_account rc) grant (rc_account rc')
       in Inr (rc\<lparr>rc_tracker := rc_tracker rc'\<rparr>, self\<lparr>es_system := system\<rparr>, grant))"

definition with_state ::
  "payer_controller \<Rightarrow> 'u execution_state
     \<Rightarrow> (amount list resource_controller \<Rightarrow> (execution_error, amount list resource_controller) res)
     \<Rightarrow> (execution_error, payer_controller \<times> 'u execution_state) res" where
  "with_state rc self action =
     and_then (with_state_and_grant rc self None action) (\<lambda>(rc, self, _). Inr (rc, self))"

subsection \<open>User actions\<close>

datatype user_action =
    UserInstantiate operation_context bytes
  | UserOperation operation_context bytes
  | UserMessage message_context bytes

fun user_action_signer :: "user_action \<Rightarrow> owner option" where
  "user_action_signer (UserInstantiate context _) = oc_authenticated_signer context"
| "user_action_signer (UserOperation context _) = oc_authenticated_signer context"
| "user_action_signer (UserMessage context _) = mc_authenticated_signer context"

fun user_action_height :: "user_action \<Rightarrow> block_height" where
  "user_action_height (UserInstantiate context _) = oc_height context"
| "user_action_height (UserOperation context _) = oc_height context"
| "user_action_height (UserMessage context _) = mc_height context"

record 'u exec_env =
  ev_system :: system_env
  run_contract :: "application_id \<Rightarrow> chain_id \<Rightarrow> timestamp \<Rightarrow> user_action \<Rightarrow> account option
    \<Rightarrow> amount resource_controller \<Rightarrow> transaction_tracker \<Rightarrow> 'u execution_state
    \<Rightarrow> (execution_error, 'u execution_state \<times> amount resource_controller \<times> transaction_tracker) res"

type_synonym 'u exec_state = "'u execution_state \<times> transaction_tracker \<times> payer_controller"

definition run_user_action ::
  "'u exec_env \<Rightarrow> application_id \<Rightarrow> chain_id \<Rightarrow> timestamp \<Rightarrow> user_action \<Rightarrow> account option \<Rightarrow> amount option
     \<Rightarrow> 'u exec_state \<Rightarrow> (execution_error, 'u exec_state \<times> amount option) res" where
  "run_user_action env app_id cid local_time action refund_grant_to grant st =
     (let (self, tracker, rc) = st
      in and_then (overflow (sources_balance 0 (funding_sources (es_system self) (rc_account rc) grant))) (\<lambda>initial_balance.
         and_then (run_contract env app_id cid local_time action refund_grant_to
             \<lparr>rc_policy = rc_policy rc, rc_tracker = rc_tracker rc, rc_account = initial_balance\<rparr> tracker self)
           (\<lambda>(self, controller, tracker).
         and_then (with_state_and_grant rc self grant
             (\<lambda>rc. merge_balance sources_holder rc initial_balance (rc_account controller))) (\<lambda>(rc, self, grant).
           Inr ((self, tracker, rc\<lparr>rc_tracker := rc_tracker controller\<rparr>), grant)))))"

subsection \<open>Registering applications with the recipients\<close>

text \<open>The applications to register per destination, in the order of a \<open>BTreeMap\<close> of \<open>BTreeSet\<close>s.\<close>

definition add_registration ::
  "application_id \<Rightarrow> (bytes, amount) raw_outgoing_message \<Rightarrow> (destination, application_id list) btree_map
     \<Rightarrow> (destination, application_id list) btree_map" where
  "add_registration app_id msg per_destination =
     (let apps = (case bt_get per_destination (rom_destination msg) of Some apps \<Rightarrow> apps | None \<Rightarrow> [])
      in bt_insert (rom_destination msg) (if app_id \<in> set apps then apps else insort app_id apps) per_destination)"

fun registrations_per_destination :: "execution_outcome list \<Rightarrow> (destination, application_id list) btree_map" where
  "registrations_per_destination outcomes =
     foldl (\<lambda>per_destination outcome. case outcome of
         SystemOutcome _ \<Rightarrow> per_destination
       | UserOutcome app_id out \<Rightarrow> foldl (\<lambda>m msg. add_registration app_id msg m) per_destination (reo_messages out))
       [] outcomes"

fun is_user_outcome :: "execution_outcome \<Rightarrow> bool" where
  "is_user_outcome (UserOutcome _ _) = True"
| "is_user_outcome (SystemOutcome _) = False"

definition update_execution_outcomes_with_app_registrations ::
  "'u execution_state \<Rightarrow> transaction_tracker \<Rightarrow> (execution_error, transaction_tracker) res" where
  "update_execution_outcomes_with_app_registrations self tracker =
     (let outcomes = tt_outcomes tracker;
          per_destination = registrations_per_destination outcomes
      in if per_destination = [] then Inr tracker
         else and_then (collect_results (\<lambda>(dest, apps).
             and_then (map_err execution_error_from_system
                 (describe_applications_with_dependencies (sys_registry (es_system self)) apps [])) (\<lambda>applications.
               Inr (system_message_to dest False Simple (RegisterApplications applications)))) per_destination) (\<lambda>msgs.
           Inr (tracker\<lparr>tt_outcomes := takeWhile (\<lambda>out. \<not> is_user_outcome out) outcomes
             @ SystemOutcome (outcome_default\<lparr>reo_messages := msgs\<rparr>)
             # dropWhile (\<lambda>out. \<not> is_user_outcome out) outcomes\<rparr>)))"

subsection \<open>Operations and messages\<close>

definition exec_execute_operation ::
  "'u exec_env \<Rightarrow> operation_context \<Rightarrow> timestamp \<Rightarrow> operation \<Rightarrow> 'u exec_state
     \<Rightarrow> (execution_error, 'u exec_state) res" where
  "exec_execute_operation env context local_time op st =
     (let (self, tracker, rc) = st
      in and_then (ensure (oc_chain_id context = es_chain_id self) (ExSystemError SysPanicked)) (\<lambda>_.
         case op of
           SystemOp sys_op \<Rightarrow>
             and_then (map_err execution_error_from_system
                 (system_execute_operation (ev_system env) (es_system self) context sys_op tracker))
               (\<lambda>(system, tracker, new_application).
             let self = self\<lparr>es_system := system\<rparr>
             in case new_application of
                  Some (app_id, argument) \<Rightarrow>
                    and_then (run_user_action env app_id (oc_chain_id context) local_time (UserInstantiate context argument)
                        (oc_refund_grant_to context) None (self, tracker, rc)) (\<lambda>(st, _). Inr st)
                | None \<Rightarrow> Inr (self, tracker, rc))
         | UserOp app_id bytes \<Rightarrow>
             and_then (run_user_action env app_id (oc_chain_id context) local_time (UserOperation context bytes)
                 (oc_refund_grant_to context) None (self, tracker, rc)) (\<lambda>(st, _). Inr st)))"

definition exec_execute_message ::
  "'u exec_env \<Rightarrow> message_context \<Rightarrow> timestamp \<Rightarrow> message \<Rightarrow> amount option \<Rightarrow> 'u exec_state
     \<Rightarrow> (execution_error, 'u exec_state \<times> amount option) res" where
  "exec_execute_message env context local_time msg grant st =
     (let (self, tracker, rc) = st
      in and_then (ensure (mc_chain_id context = es_chain_id self) (ExSystemError SysPanicked)) (\<lambda>_.
         case msg of
           SystemMsg sys_msg \<Rightarrow>
             and_then (map_err execution_error_from_system
                 (system_execute_message (ev_system env) (es_system self) context sys_msg tracker))
               (\<lambda>(system, tracker, outcome).
             and_then (overflow (add_system_outcome tracker outcome)) (\<lambda>tracker.
               Inr ((self\<lparr>es_system := system\<rparr>, tracker, rc), grant)))
         | UserMsg app_id bytes \<Rightarrow>
             run_user_action env app_id (mc_chain_id context) local_time (UserMessage context bytes)
               (mc_refund_grant_to context) grant st))"

definition bounced ::
  "message_context \<Rightarrow> amount \<Rightarrow> 'm \<Rightarrow> ('m, amount) raw_execution_outcome" where
  "bounced context grant msg =
     outcome_default\<lparr>reo_authenticated_signer := mc_authenticated_signer context,
       reo_refund_grant_to := mc_refund_grant_to context,
       reo_messages := [\<lparr>rom_destination = Recipient (mid_chain_id (mc_message_id context)), rom_authenticated = True,
         rom_grant = grant, rom_kind = Bouncing, rom_message = msg\<rparr>]\<rparr>"

definition bounce_message ::
  "'u execution_state \<Rightarrow> message_context \<Rightarrow> amount \<Rightarrow> message \<Rightarrow> transaction_tracker
     \<Rightarrow> (execution_error, transaction_tracker) res" where
  "bounce_message self context grant msg tracker =
     and_then (ensure (mc_chain_id context = es_chain_id self) (ExSystemError SysPanicked)) (\<lambda>_.
       case msg of
         SystemMsg sys_msg \<Rightarrow> overflow (add_system_outcome tracker (bounced context grant sys_msg))
       | UserMsg app_id bytes \<Rightarrow> overflow (add_user_outcome tracker app_id (bounced context grant bytes)))"

definition send_refund ::
  "'u execution_state \<Rightarrow> message_context \<Rightarrow> amount \<Rightarrow> account \<Rightarrow> transaction_tracker
     \<Rightarrow> (execution_error, transaction_tracker) res" where
  "send_refund self context amount acc tracker =
     and_then (ensure (mc_chain_id context = es_chain_id self) (ExSystemError SysPanicked)) (\<lambda>_.
       overflow (add_system_outcome tracker (outcome_default\<lparr>reo_messages :=
         [system_message_to (Recipient (account_chain_id acc)) False Tracked
            (Credit (account_owner_of acc) amount (map_option AccountUser (mc_authenticated_signer context)))]\<rparr>)))"

end
