(* ===== verification/Token_Ledger.thy ===== *)
theory Token_Ledger
  imports Execution_State "HOL-Library.Multiset"
begin

section \<open>Many chains: tokens, authority and well-formed states\<close>

text \<open>
  A network of chains that execute system operations and messages (theory \<open>System_Execution\<close>) and charge fees
  (theories \<open>Resources\<close> and \<open>Execution_State\<close>), in any order. The messages that have been sent and not been
  received are a multiset; \<open>lg_gone\<close> counts the tokens that were burned, paid as fees or in a message that was
  rejected; \<open>lg_log\<close> records on which chain what was executed and received, and who paid which fees. A message
  that bounces back to its sender stays in flight and is then executed in a bouncing context. A chain takes part once it has a committee; it is
  initialised by the message that opens it.
\<close>

subsection \<open>Well-formed states\<close>

definition ownership_wf :: "chain_ownership \<Rightarrow> bool" where
  "ownership_wf own \<longleftrightarrow> bt_wf (super_owners own) \<and> bt_wf (owners own)"

definition committees_wf :: "(epoch, committee) btree_map \<Rightarrow> epoch option \<Rightarrow> bool" where
  "committees_wf committees epoch \<longleftrightarrow>
     bt_wf committees \<and> (\<forall>e \<in> fst ` set committees. epoch \<noteq> None \<and> e \<le> the epoch)"

definition config_wf :: "open_chain_config \<Rightarrow> bool" where
  "config_wf config \<longleftrightarrow>
     ownership_wf (occ_ownership config) \<and> committees_wf (occ_committees config) (Some (occ_epoch config))"

definition subscriptions_wf :: "system_env \<Rightarrow> channel_subscription list \<Rightarrow> bool" where
  "subscriptions_wf env subs \<longleftrightarrow> distinct subs \<and> sorted (map (se_subscription_key env) subs)"

definition registry_wf :: "app_registry \<Rightarrow> bool" where
  "registry_wf registry \<longleftrightarrow> distinct (map fst registry) \<and> registry_consistent registry"

definition system_wf :: "system_env \<Rightarrow> system_state \<Rightarrow> bool" where
  "system_wf env self \<longleftrightarrow>
     ownership_wf (sys_ownership self) \<and> committees_wf (sys_committees self) (sys_epoch self)
     \<and> subscriptions_wf env (sys_subscriptions self) \<and> registry_wf (sys_registry self)
     \<and> finite (dom (sys_balances self))"

fun message_wf :: "system_message \<Rightarrow> bool" where
  "message_wf (OpenChain config) = config_wf config"
| "message_wf _ = True"

text \<open>The maps in an operation are maps.\<close>

fun operation_wf :: "system_operation \<Rightarrow> bool" where
  "operation_wf (OpOpenChain config) = ownership_wf (occ_ownership config)"
| "operation_wf _ = True"

lemma committees_wf_insert:
  assumes "committees_wf committees (Some current)" "try_add_one current = Inr epoch"
  shows "committees_wf (bt_insert epoch committee committees) (Some epoch)"
proof -
  have "current < epoch" using assms(2) by (rule try_add_one_less)
  then show ?thesis
    using assms(1) by (auto simp: committees_wf_def set_bt_insert simp flip: image_iff intro: order_trans less_imp_le)
qed

lemma committees_wf_remove: "committees_wf committees epoch \<Longrightarrow> committees_wf (bt_remove e committees) epoch"
  using set_bt_remove [of e committees] by (auto simp: committees_wf_def)

lemma subscriptions_wf_insert:
  "subscriptions_wf env subs \<Longrightarrow> subscriptions_wf env (insert_subscription env sub subs)"
  by (auto simp: subscriptions_wf_def insert_subscription_def distinct_insort sorted_insort_key)

lemma subscriptions_wf_remove: "subscriptions_wf env subs \<Longrightarrow> subscriptions_wf env (remove1 sub subs)"
  by (auto simp: subscriptions_wf_def sorted_map_remove1)

lemma registry_wf_update:
  "registry_wf registry \<Longrightarrow> application_id_from_description app = app_id \<Longrightarrow> registry_wf (AList.update app_id app registry)"
  by (auto simp: registry_wf_def registry_consistent_def distinct_update update_conv')

text \<open>What a step that changes only some fields keeps.\<close>

lemma wf_frames:
  assumes "system_wf env self"
  shows "self' = self\<lparr>sys_used_blobs := blobs\<rparr> \<Longrightarrow> system_wf env self'"
    "self' = self\<lparr>sys_balance := b, sys_balances := m\<rparr> \<Longrightarrow> finite (dom m) \<Longrightarrow> system_wf env self'"
    "self' = self\<lparr>sys_registry := registry\<rparr> \<Longrightarrow> registry_wf registry \<Longrightarrow> system_wf env self'"
  using assms by (simp_all add: system_wf_def)

lemma description_frames:
  "self' = self\<lparr>sys_used_blobs := blobs\<rparr> \<Longrightarrow> sys_description self' = sys_description self"
  "self' = self\<lparr>sys_balance := b, sys_balances := m\<rparr> \<Longrightarrow> sys_description self' = sys_description self"
  "self' = self\<lparr>sys_registry := registry\<rparr> \<Longrightarrow> sys_description self' = sys_description self"
  "self' = self\<lparr>sys_registry := registry, sys_used_blobs := blobs\<rparr> \<Longrightarrow> sys_description self' = sys_description self"
  "self' = self\<lparr>sys_committees := committees, sys_epoch := epoch\<rparr> \<Longrightarrow> sys_description self' = sys_description self"
  by simp_all

lemma debit_wf:
  assumes "debit self acc amount = Inr self'" "system_wf env self"
  shows "system_wf env self'"
  by (rule wf_frames(2) [OF assms(2) debit_frame [OF assms(1)]])
    (use assms(2) debit_tokens [OF assms(1)] in \<open>simp add: system_wf_def\<close>)

lemma admin_operation_wf:
  assumes "execute_admin_operation self op = Inr (self', msgs)" "system_wf env self"
  shows "system_wf env self' \<and> (\<forall>msg \<in> set msgs. message_wf (rom_message msg))"
  using assms committees_wf_insert committees_wf_remove
  by (cases op) (auto simp: execute_admin_operation_def system_wf_def)

lemma create_application_wf:
  assumes "create_application env self next_id bytecode parameters required = Inr (self', app_id, msg, blobs)"
    "system_wf env' self"
  shows "system_wf env' self'"
  using assms registry_wf_update
  by (auto simp: create_application_def Let_def register_new_application_def system_wf_def
      application_id_from_description_def)

lemma register_applications_wf:
  "execute_register_applications env self apps tracker = Inr (self', tracker') \<Longrightarrow> system_wf env' self
     \<Longrightarrow> system_wf env' self'"
proof (induction apps arbitrary: self tracker)
  case (Cons app apps)
  then obtain self1 tracker1 app_id registry where
    r: "check_and_record_bytecode_blobs env self (uad_bytecode_id app) tracker = Inr (self1, tracker1)"
    "register_application (sys_registry self1) app = Inr (app_id, registry)"
    "execute_register_applications env (self1\<lparr>sys_registry := registry\<rparr>) apps tracker1 = Inr (self', tracker')"
    by auto
  have "self1 = self\<lparr>sys_used_blobs := sys_used_blobs self1\<rparr>"
    using r(1) by (auto simp: check_and_record_bytecode_blobs_def simp del: record_bytecode_blobs.simps
        dest: record_bytecode_blobs_frame)
  then have "system_wf env' self1" using wf_frames(1) Cons.prems(2) by blast
  then have "system_wf env' (self1\<lparr>sys_registry := registry\<rparr>)"
    using r(2) registry_wf_update by (auto simp: system_wf_def register_application_Inr)
  then show ?case using Cons.IH [OF r(3)] by simp
qed simp

definition keeps :: "system_env \<Rightarrow> system_operation \<Rightarrow> system_state \<Rightarrow> system_state \<Rightarrow> system_outgoing list \<Rightarrow> bool" where
  "keeps env op self self' msgs \<longleftrightarrow> sys_description self' = sys_description self \<and>
     (system_wf env self \<and> operation_wf op \<longrightarrow>
       system_wf env self' \<and> (\<forall>msg \<in> set msgs. message_wf (rom_message msg)))"

lemma transfer_keeps:
  assumes "transfer self signer app source r a = Inr (self', msgs)"
  shows "keeps env op self self' msgs"
proof -
  have d: "debit self source a = Inr self'" and "msgs = credit_message source r a"
    using assms by (auto simp: transfer_def)
  then show ?thesis
    using debit_wf [OF d] description_frames(2) [OF debit_frame [OF d]]
    by (cases r) (auto simp: keeps_def credit_message_def)
qed

lemma open_chain_keeps:
  assumes "open_chain env self config next_id = Inr (self', msgs)"
  shows "keeps env (OpOpenChain config) self self' msgs"
proof -
  have d: "debit self None (occ_balance config) = Inr self'"
    and m: "sys_committees self = occ_committees config" "sys_epoch self = Some (occ_epoch config)"
    "rom_message ` set msgs \<subseteq> {OpenChain config, Subscribe (chain_id_child (se_description_hash env) next_id)
        (ChannelSubscription (occ_admin_id config) (system_channel_name AdminChannel))}"
    using assms by (auto simp: open_chain_def Let_def)
  have "message_wf (rom_message msg)"
    if "system_wf env self" "ownership_wf (occ_ownership config)" "msg \<in> set msgs" for msg
  proof -
    have "config_wf config" using that(1,2) m(1,2) by (simp add: config_wf_def system_wf_def)
    then show ?thesis using m(3) that(3) by auto
  qed
  then show ?thesis
    using debit_wf [OF d] description_frames(2) [OF debit_frame [OF d]] by (simp add: keeps_def)
qed

lemma create_application_keeps:
  assumes r: "create_application env self next_id bytecode parameters required = Inr (self1, app_id, msg, blobs)"
    "record_bytecode_blobs self1 blobs tracker = Inr (self', tracker')"
  shows "keeps env op self self' [msg]"
proof -
  note frames = create_application_frame [OF r(1)] record_bytecode_blobs_frame [OF r(2)]
  have "sys_description self' = sys_description self"
    using description_frames(1) [OF frames(2)] description_frames(3) [OF conjunct1 [OF frames(1)]] by simp
  moreover have "system_wf env self'" if "system_wf env self"
    using wf_frames(1) [OF create_application_wf [OF r(1) that] frames(2)] .
  ultimately show ?thesis using frames(1) by (simp add: keeps_def)
qed

lemma operation_keeps:
  assumes "operation_effect env self context op tracker = Inr (self', tracker', msgs, app)"
  shows "keeps env op self self' msgs"
proof (cases op)
  case (OpTransfer own r a)
  then show ?thesis
    using assms transfer_keeps by (auto simp: operation_effect_def no_application_def)
next
  case (OpOpenChain config)
  then show ?thesis
    using assms open_chain_keeps by (auto simp: operation_effect_def no_application_def)
next
  case (OpAdmin admin_op)
  then have "execute_admin_operation self admin_op = Inr (self', msgs)"
    using assms by (auto simp: operation_effect_def no_application_def)
  then show ?thesis
    using admin_operation_wf description_frames(5) [OF execute_admin_operation_frame] unfolding keeps_def by blast
next
  case (OpCreateApplication bytecode parameters argument required)
  then show ?thesis
    using assms create_application_keeps by (auto simp: operation_effect_def)
next
  case (OpReadBlob bid)
  then obtain t f where b: "blob_used self (Some tracker) bid = Inr (self', t, f)" and "msgs = []"
    using assms by (auto simp: operation_effect_def)
  then show ?thesis
    using wf_frames(1) [OF _ blob_used_frame [OF b]] description_frames(1) [OF blob_used_frame [OF b]]
    by (simp add: keeps_def)
qed (use assms in \<open>auto simp: operation_effect_def no_application_def Let_def blob_published_def claim_def keeps_def
    execute_subscribe_def execute_unsubscribe_def close_chain_def system_wf_def ownership_wf_def
    subscriptions_wf_insert subscriptions_wf_remove subscriptions_wf_def [of _ "[]"] split: if_splits\<close>)

lemma message_keeps:
  assumes "system_execute_message env self context msg tracker = Inr (self', tracker', outcome)"
  shows "sys_description self' = sys_description self
    \<and> (system_wf env self \<longrightarrow> system_wf env self' \<and> (\<forall>msg \<in> set (reo_messages outcome). message_wf (rom_message msg)))"
proof (cases msg)
  case (Withdraw own a r)
  then have d: "debit self (Some own) a = Inr self'" and "reo_messages outcome = credit_message (Some own) r a"
    using assms(1) by (auto simp: system_execute_message_def)
  then show ?thesis
    using debit_wf [OF d] description_frames(2) [OF debit_frame [OF d]] by (cases r) (auto simp: credit_message_def)
next
  case (RegisterApplications apps)
  then have r: "execute_register_applications env self apps tracker = Inr (self', tracker')"
    and "reo_messages outcome = []"
    using assms(1) by (auto simp: system_execute_message_def outcome_default_def)
  then show ?thesis
    using register_applications_wf [OF r] description_frames(4) [OF execute_register_applications_frame [OF r]] by simp
next
  case (Credit target_account a source)
  then show ?thesis
    using assms by (auto simp: system_execute_message_def credit_def system_wf_def Let_def outcome_default_def
        split: option.splits)
qed (use assms committees_wf_insert committees_wf_remove in \<open>auto simp: system_execute_message_def outcome_default_def
    system_wf_def\<close>)

lemma initialize_chain_keeps:
  assumes "initialize_chain env self mid timestamp config = Inr self'" "system_wf env self" "config_wf config"
  shows "system_wf env self'"
  using assms by (auto simp: initialize_chain_def system_wf_def config_wf_def subscriptions_wf_insert)

subsection \<open>Fees\<close>

lemma put_sources_frame:
  "fst (put_sources system payer grant sources)
    = system\<lparr>sys_balance := sys_balance (fst (put_sources system payer grant sources)),
        sys_balances := sys_balances (fst (put_sources system payer grant sources))\<rparr>"
  by (simp add: put_sources_def Let_def split: option.splits)

lemma put_sources_tokens:
  assumes "finite (dom (sys_balances system))" "length sources = length (funding_sources system payer None)"
  shows "held (fst (put_sources system payer None sources)) + funds (funding_sources system payer None)
      = held system + funds sources
    \<and> finite (dom (sys_balances (fst (put_sources system payer None sources))))"
proof (cases "owner_source system payer")
  case None
  then obtain x where "sources = [x]"
    using assms(2) by (cases sources) (auto simp: funding_sources_def)
  moreover have "owner_source (system\<lparr>sys_balance := x\<rparr>) payer = None" using None by (simp add: owner_source_def)
  ultimately show ?thesis
    using None assms(1) by (simp add: put_sources_def funding_sources_def held_def Let_def)
next
  case (Some b)
  then obtain own where own: "payer = Some own" "sys_balances system (AccountUser own) = Some b"
    by (cases payer) (auto simp: owner_source_def)
  from Some obtain x y where xy: "sources = [x, y]"
    using assms(2) by (cases sources; cases "tl sources") (auto simp: funding_sources_def)
  have "owner_source (system\<lparr>sys_balance := x\<rparr>) payer = Some b" using Some by (simp add: owner_source_def)
  then show ?thesis
    using Some own xy assms(1) account_tokens_upd [OF assms(1), of "AccountUser own" "Some y"]
    by (simp add: put_sources_def funding_sources_def held_def Let_def)
qed

lemma with_state_Inr:
  assumes "with_state rc self action = Inr (rc', self')"
  shows "\<exists>c. action \<lparr>rc_policy = rc_policy rc, rc_tracker = rc_tracker rc,
        rc_account = funding_sources (es_system self) (rc_account rc) None\<rparr> = Inr c
      \<and> es_system self' = fst (put_sources (es_system self) (rc_account rc) None (rc_account c))
      \<and> rc' = rc\<lparr>rc_tracker := rc_tracker c\<rparr>"
  using assms by (auto simp: with_state_def with_state_and_grant_def Let_def case_prod_beta)

lemma charged_length:
  assumes "track_all sources_holder c cs = Inr c'" "length (rc_account c) \<noteq> 0"
  shows "length (rc_account c') = length (rc_account c)"
proof -
  obtain n where "length (rc_account c) = Suc n" using assms(2) by (cases "length (rc_account c)") auto
  then show ?thesis using srcs.track_all_holds [OF assms(1), of n] by simp
qed

lemma fees_tokens:
  assumes "with_state rc self (\<lambda>c. track_all sources_holder c cs) = Inr (rc', self')"
    and "finite (dom (sys_balances (es_system self)))"
  shows "held (es_system self) = held (es_system self') + exact_fees (rc_policy rc) cs
    \<and> finite (dom (sys_balances (es_system self')))"
proof -
  let ?c = "\<lparr>rc_policy = rc_policy rc, rc_tracker = rc_tracker rc,
        rc_account = funding_sources (es_system self) (rc_account rc) None\<rparr>"
  obtain c where c: "track_all sources_holder ?c cs = Inr c"
    "es_system self' = fst (put_sources (es_system self) (rc_account rc) None (rc_account c))"
    using with_state_Inr [OF assms(1)] by auto
  have "length (rc_account c) = length (funding_sources (es_system self) (rc_account rc) None)"
    using charged_length [OF c(1)] by (simp add: funding_sources_def)
  then show ?thesis
    using srcs.track_all_Inr [OF c(1)] put_sources_tokens [OF assms(2)] c(2) by fastforce
qed

lemma fees_keep:
  assumes "with_state rc self (\<lambda>c. track_all sources_holder c cs) = Inr (rc', self')"
  shows "sys_description (es_system self') = sys_description (es_system self)"
    and "system_wf env (es_system self) \<Longrightarrow> system_wf env (es_system self')"
proof -
  obtain c :: "amount list resource_controller" where c: "es_system self' = fst (put_sources (es_system self) (rc_account rc) None (rc_account c))"
    using with_state_Inr [OF assms] by auto
  note frame = put_sources_frame [of "es_system self" "rc_account rc" None "rc_account c", folded c]
  show "sys_description (es_system self') = sys_description (es_system self)"
    by (rule description_frames(2) [OF frame])
  show "system_wf env (es_system self')" if "system_wf env (es_system self)"
    by (rule wf_frames(2) [OF that frame]) (use fees_tokens [OF assms] that in \<open>simp add: system_wf_def\<close>)
qed

subsection \<open>The network\<close>

datatype log_entry =
    Executed chain_id operation_context system_operation
  | Received chain_id system_message
  | Charged chain_id "owner option" nat

record ledger =
  lg_chains :: "chain_id \<Rightarrow> system_state"
  lg_flight :: "system_message multiset"
  lg_gone :: nat
  lg_log :: "log_entry list"

definition sent :: "system_outgoing list \<Rightarrow> system_message multiset" where
  "sent msgs = mset (map rom_message msgs)"

inductive ledger_step :: "system_env \<Rightarrow> ledger \<Rightarrow> ledger \<Rightarrow> bool" for env where
  operation:
    "ledger_step env L (L\<lparr>lg_chains := (lg_chains L)(c := self'), lg_flight := lg_flight L + sent msgs,
       lg_gone := lg_gone L + burned_by_operation op, lg_log := Executed c context op # lg_log L\<rparr>)"
  if "current_committee (lg_chains L c) \<noteq> None" "operation_wf op"
    "operation_effect env (lg_chains L c) context op tracker = Inr (self', tracker', msgs, app)"
| message:
    "ledger_step env L (L\<lparr>lg_chains := (lg_chains L)(c := self'),
       lg_flight := lg_flight L - {#msg#} + sent (reo_messages outcome),
       lg_gone := lg_gone L + burned_by_message msg, lg_log := Received c msg # lg_log L\<rparr>)"
  if "current_committee (lg_chains L c) \<noteq> None" "msg \<in># lg_flight L" "\<And>config. msg \<noteq> OpenChain config"
    "system_execute_message env (lg_chains L c) context msg tracker = Inr (self', tracker', outcome)"
| "initialize":
    "ledger_step env L (L\<lparr>lg_chains := (lg_chains L)(c := self'), lg_flight := lg_flight L - {#OpenChain config#}\<rparr>)"
  if "OpenChain config \<in># lg_flight L" "initialize_chain env (lg_chains L c) mid timestamp config = Inr self'"
| reject:
    "ledger_step env L (L\<lparr>lg_flight := lg_flight L - {#msg#}, lg_gone := lg_gone L + carried msg\<rparr>)"
  if "msg \<in># lg_flight L"
| charge:
    "ledger_step env L (L\<lparr>lg_chains := (lg_chains L)(c := es_system self'),
       lg_gone := lg_gone L + exact_fees (rc_policy rc) cs,
       lg_log := Charged c (rc_account rc) (exact_fees (rc_policy rc) cs) # lg_log L\<rparr>)"
  if "current_committee (lg_chains L c) \<noteq> None" "es_system (self :: unit execution_state) = lg_chains L c"
    "with_state rc self (\<lambda>controller. track_all sources_holder controller cs) = Inr (rc', self')"

inductive ledger_run :: "system_env \<Rightarrow> ledger \<Rightarrow> ledger \<Rightarrow> bool" for env L0 where
  start: "ledger_run env L0 L0"
| step: "ledger_run env L0 L \<Longrightarrow> ledger_step env L L' \<Longrightarrow> ledger_run env L0 L'"

text \<open>All the tokens there are, and the invariant of the network: every state and message is well formed, and a
  chain that has not been opened has no committees and no balance.\<close>

definition total_supply :: "ledger \<Rightarrow> nat" where
  "total_supply L = (\<Sum>c \<in> UNIV. held (lg_chains L c)) + (\<Sum>msg \<in># lg_flight L. carried msg) + lg_gone L"

definition unopened_wf :: "system_state \<Rightarrow> bool" where
  "unopened_wf self \<longleftrightarrow> (sys_description self = None \<longrightarrow> sys_balance self = 0 \<and> sys_committees self = [])"

definition ledger_inv :: "system_env \<Rightarrow> ledger \<Rightarrow> bool" where
  "ledger_inv env L \<longleftrightarrow> (\<forall>c. system_wf env (lg_chains L c) \<and> unopened_wf (lg_chains L c))
     \<and> (\<forall>msg \<in># lg_flight L. message_wf msg)"

lemma ledger_inv_wf: "ledger_inv env L \<Longrightarrow> system_wf env (lg_chains L c)"
  by (simp add: ledger_inv_def)

lemma opened:
  assumes "ledger_inv env L" "current_committee (lg_chains L c) \<noteq> None"
  shows "sys_description (lg_chains L c) \<noteq> None"
  using assms by (force simp: ledger_inv_def unopened_wf_def current_committee_def)

lemma ledger_inv_upd:
  assumes "ledger_inv env L" "lg_chains L' = (lg_chains L)(c := self')" "system_wf env self'" "unopened_wf self'"
    "\<And>msg. msg \<in># lg_flight L' \<Longrightarrow> message_wf msg"
  shows "ledger_inv env L'"
  using assms by (simp add: ledger_inv_def)

lemma ledger_inv_step:
  assumes "ledger_step env L L'" "ledger_inv env L"
  shows "ledger_inv env L'"
  using assms(1)
proof cases
  case (operation c op ctx tracker self' tracker' msgs app)
  note k = operation_keeps [OF operation(4), unfolded keeps_def]
  have wf: "system_wf env (lg_chains L c)" using assms(2) by (rule ledger_inv_wf)
  have "sys_description self' \<noteq> None" using k opened [OF assms(2) operation(2)] by simp
  then have "unopened_wf self'" by (auto simp: unopened_wf_def)
  moreover have "message_wf msg" if "msg \<in># lg_flight L + sent msgs" for msg
    using that k wf operation(3) assms(2) by (auto simp: sent_def ledger_inv_def)
  ultimately show ?thesis
    using operation(1,3) k wf by (intro ledger_inv_upd [OF assms(2), of L' c self']) simp_all
next
  case (message c msg ctx tracker self' tracker' outcome)
  note k = message_keeps [OF message(5)]
  have wf: "system_wf env (lg_chains L c)" using assms(2) by (rule ledger_inv_wf)
  have "sys_description self' \<noteq> None" using k opened [OF assms(2) message(2)] by simp
  then have "unopened_wf self'" by (auto simp: unopened_wf_def)
  moreover have "message_wf m" if "m \<in># lg_flight L - {#msg#} + sent (reo_messages outcome)" for m
    using that k wf assms(2) by (auto simp: sent_def ledger_inv_def dest: in_diffD)
  ultimately show ?thesis
    using message(1) k wf by (intro ledger_inv_upd [OF assms(2), of L' c self']) simp_all
next
  case (initialize config c mid timestamp self')
  have "config_wf config" using initialize(2) assms(2) by (auto simp: ledger_inv_def)
  then have "system_wf env self'"
    using initialize_chain_keeps [OF initialize(3) ledger_inv_wf [OF assms(2)]] by simp
  moreover have "unopened_wf self'" using initialize(3) by (auto simp: initialize_chain_def unopened_wf_def)
  moreover have "message_wf m" if "m \<in># lg_flight L - {#OpenChain config#}" for m
    using that assms(2) by (auto simp: ledger_inv_def dest: in_diffD)
  ultimately show ?thesis
    using initialize(1) by (intro ledger_inv_upd [OF assms(2), of L' c self']) simp_all
next
  case (reject msg)
  then show ?thesis using assms(2) by (auto simp: ledger_inv_def dest: in_diffD)
next
  case (charge c self rc cs rc' self')
  have "system_wf env (es_system self')"
    using fees_keep(2) [OF charge(4)] charge(3) ledger_inv_wf [OF assms(2)] by simp
  moreover have "unopened_wf (es_system self')"
    using fees_keep(1) [OF charge(4)] charge(3) opened [OF assms(2) charge(2)] by (auto simp: unopened_wf_def)
  ultimately show ?thesis
    using charge(1) assms(2) by (intro ledger_inv_upd [OF assms(2), of L' c "es_system self'"])
      (simp_all add: ledger_inv_def)
qed

lemma ledger_inv_run: "ledger_run env L0 L \<Longrightarrow> ledger_inv env L0 \<Longrightarrow> ledger_inv env L"
  by (induction rule: ledger_run.induct) (auto intro: ledger_inv_step)

subsection \<open>The supply\<close>

lemma chains_upd:
  "(\<Sum>x \<in> UNIV. held ((chains(c := self')) x)) + held (chains c) = (\<Sum>x \<in> UNIV. held (chains x)) + held self'"
  for chains :: "chain_id \<Rightarrow> system_state"
proof -
  have split: "(\<Sum>x \<in> UNIV. held (f x)) = held (f c) + (\<Sum>x \<in> UNIV - {c}. held (f x))" for f :: "chain_id \<Rightarrow> system_state"
    by (rule sum.remove) simp_all
  have rest: "(\<Sum>x \<in> UNIV - {c}. held ((chains(c := self')) x)) = (\<Sum>x \<in> UNIV - {c}. held (chains x))"
    by (rule sum.cong) auto
  show ?thesis using split [of "chains(c := self')", unfolded fun_upd_same rest] split [of chains] by linarith
qed

lemma sent_carried: "(\<Sum>msg \<in># sent msgs. carried msg) = carried_by msgs"
  by (induction msgs) (simp_all add: sent_def)

lemma flight_remove:
  "msg \<in># flight \<Longrightarrow> (\<Sum>m \<in># flight. carried m) = (\<Sum>m \<in># flight - {#msg#}. carried m) + carried msg"
  by (metis add.commute image_mset_add_mset insert_DiffM sum_mset.add_mset)

lemma held_le_supply:
  assumes "msg \<in># lg_flight L"
  shows "held (lg_chains L c) + carried msg \<le> total_supply L"
proof -
  have "held (lg_chains L c) \<le> (\<Sum>c \<in> UNIV. held (lg_chains L c))"
    by (rule member_le_sum) simp_all
  then show ?thesis using flight_remove [OF assms] by (simp add: total_supply_def)
qed

lemma total_supply_step:
  assumes "ledger_step env L L'" "ledger_inv env L" "total_supply L < 2 ^ 128"
  shows "total_supply L' = total_supply L"
  using assms(1)
proof cases
  case (operation c op ctx tracker self' tracker' msgs app)
  have "finite (dom (sys_balances (lg_chains L c)))" using ledger_inv_wf [OF assms(2)] by (simp add: system_wf_def)
  then have "held (lg_chains L c) = held self' + carried_by msgs + burned_by_operation op"
    using operation_tokens [OF operation(4)] by simp
  then show ?thesis
    using chains_upd [of "lg_chains L" c self'] operation(1) by (simp add: total_supply_def sent_carried del: fun_upd_apply)
next
  case (message c msg ctx tracker self' tracker' outcome)
  have fin: "finite (dom (sys_balances (lg_chains L c)))" using ledger_inv_wf [OF assms(2)] by (simp add: system_wf_def)
  have "held (lg_chains L c) + carried msg < 2 ^ 128" using held_le_supply [OF message(3)] assms(3) by (rule le_less_trans)
  then have "held (lg_chains L c) + carried msg
      = held self' + carried_by (reo_messages outcome) + burned_by_message msg"
    using message_tokens [OF message(5) fin] message(4) by simp
  then show ?thesis
    using chains_upd [of "lg_chains L" c self'] flight_remove [OF message(3)] message(1)
    by (simp add: total_supply_def sent_carried del: fun_upd_apply)
next
  case (initialize config c mid timestamp self')
  have "sys_balance (lg_chains L c) = 0"
    using assms(2) initialize(3) by (auto simp: ledger_inv_def unopened_wf_def initialize_chain_def)
  then have "held self' = held (lg_chains L c) + unat (occ_balance config)"
    using initialize_chain_tokens [OF initialize(3)] by simp
  then show ?thesis
    using chains_upd [of "lg_chains L" c self'] flight_remove [OF initialize(2)] initialize(1)
    by (simp add: total_supply_def del: fun_upd_apply)
next
  case (reject msg)
  then show ?thesis using flight_remove [OF reject(2)] by (simp add: total_supply_def)
next
  case (charge c self rc cs rc' self')
  have "finite (dom (sys_balances (es_system self)))"
    using ledger_inv_wf [OF assms(2)] charge(3) by (simp add: system_wf_def)
  then have "held (lg_chains L c) = held (es_system self') + exact_fees (rc_policy rc) cs"
    using fees_tokens [OF charge(4)] charge(3) by simp
  then show ?thesis
    using chains_upd [of "lg_chains L" c "es_system self'"] charge(1) by (simp add: total_supply_def del: fun_upd_apply)
qed

text \<open>C30: Tokens are conserved. However chains transfer, claim, open other chains, receive or reject the messages
  and charge fees, the tokens in their accounts, those that the messages in flight carry, and those burned, paid as
  fees or in rejected messages always add up to the initial supply, as long as that fits in an amount.\<close>

theorem tokens_conserved:
  assumes "ledger_run env L0 L" "ledger_inv env L0" "total_supply L0 < 2 ^ 128"
  shows "total_supply L = total_supply L0"
  using assms
proof (induction rule: ledger_run.induct)
  case (step L L')
  then have "total_supply L = total_supply L0" by simp
  then show ?case
    using total_supply_step [OF step.hyps(2) ledger_inv_run [OF step.hyps(1) step.prems(1)]] step.prems(2) by simp
qed simp

text \<open>C33: The system state of every chain stays well formed: its maps are sorted, no committee is from an epoch later
  than the current one, subscriptions are distinct and in the order of their keys, every application is filed once,
  under its own identifier, and finitely many accounts exist; and every message that opens a chain has a well-formed
  configuration.\<close>

theorem system_states_well_formed:
  assumes "ledger_run env L0 L" "ledger_inv env L0"
  shows "system_wf env (lg_chains L c) \<and> (\<forall>config. OpenChain config \<in># lg_flight L \<longrightarrow> config_wf config)"
  using ledger_inv_run [OF assms] by (auto simp: ledger_inv_def)

subsection \<open>Authority\<close>

definition user_tokens :: "system_state \<Rightarrow> owner \<Rightarrow> nat" where
  "user_tokens self own = (case sys_balances self (AccountUser own) of Some b \<Rightarrow> unat b | None \<Rightarrow> 0)"

text \<open>The entry of the log that accounts for the tokens \<open>d\<close> that user \<open>own\<close> lost on chain \<open>c\<close>: a transfer of that amount
  that the user signed, a claim of that amount that arrived, or the fees of a block of which the user is the payer.\<close>

fun accounts_for :: "log_entry \<Rightarrow> chain_id \<Rightarrow> owner \<Rightarrow> nat \<Rightarrow> bool" where
  "accounts_for (Executed c' context op) c own d \<longleftrightarrow> c' = c \<and> oc_authenticated_signer context = Some own
     \<and> (\<exists>r a. op = OpTransfer (Some own) r a \<and> unat a = d)"
| "accounts_for (Received c' msg) c own d \<longleftrightarrow> c' = c \<and> (\<exists>r a. msg = Withdraw (AccountUser own) a r \<and> unat a = d)"
| "accounts_for (Charged c' payer fee) c own d \<longleftrightarrow> c' = c \<and> payer = Some own \<and> d \<le> fee"

text \<open>Claims that the user signed, and claims that arrived, of one amount for one recipient.\<close>

fun signed_claim :: "owner \<Rightarrow> amount \<Rightarrow> recipient \<Rightarrow> log_entry \<Rightarrow> bool" where
  "signed_claim own a r (Executed _ context op) \<longleftrightarrow>
     oc_authenticated_signer context = Some own \<and> (\<exists>target. op = OpClaim own target r a)"
| "signed_claim own a r _ \<longleftrightarrow> False"

fun received_claim :: "owner \<Rightarrow> amount \<Rightarrow> recipient \<Rightarrow> log_entry \<Rightarrow> bool" where
  "received_claim own a r (Received _ msg) \<longleftrightarrow> msg = Withdraw (AccountUser own) a r"
| "received_claim own a r _ \<longleftrightarrow> False"

definition claims_balanced :: "ledger \<Rightarrow> bool" where
  "claims_balanced L \<longleftrightarrow> (\<forall>own a r.
     length (filter (received_claim own a r) (lg_log L)) + count (lg_flight L) (Withdraw (AccountUser own) a r)
       \<le> length (filter (signed_claim own a r) (lg_log L)))"

lemma debit_user:
  assumes "debit self acc a = Inr self'" "acc \<noteq> Some (AccountUser own)"
  shows "user_tokens self' own = user_tokens self own"
  using assms by (cases acc) (auto simp: debit_def user_tokens_def)

lemma debit_user_amount:
  assumes "debit self (Some (AccountUser own)) a = Inr self'"
  shows "user_tokens self own = user_tokens self' own + unat a"
  using assms by (auto simp: debit_def user_tokens_def split: option.splits if_splits)

lemma operation_spends:
  assumes "operation_effect env self ctx op tracker = Inr (self', tracker', msgs, app)"
    "user_tokens self' own < user_tokens self own"
  shows "accounts_for (Executed c ctx op) c own (user_tokens self own - user_tokens self' own)"
proof -
  consider (transfer) src r a where "op = OpTransfer src r a" | (open_op) config where "op = OpOpenChain config"
    | (quiet) "\<And>own r a. op \<noteq> OpTransfer own r a" "\<And>config. op \<noteq> OpOpenChain config"
    by blast
  then show ?thesis
  proof cases
    case transfer
    then have d: "debit self (map_option AccountUser src) a = Inr self'"
      and check: "check_transfer_owner self (oc_authenticated_signer ctx) None (map_option AccountUser src) = Inr ()"
      using assms(1) by (auto simp: operation_effect_def no_application_def transfer_def)
    have src: "src = Some own" using debit_user [OF d, of own] assms(2) by (cases src) auto
    then have "oc_authenticated_signer ctx = Some own"
      using check by (cases "oc_authenticated_signer ctx") (auto simp: check_transfer_owner_def)
    then show ?thesis
      using transfer src debit_user_amount [of self own a self'] d by simp
  next
    case open_op
    then have "debit self None (occ_balance config) = Inr self'"
      using assms(1) by (auto simp: operation_effect_def no_application_def open_chain_def Let_def)
    from debit_user [OF this, of own] show ?thesis using assms(2) by simp
  next
    case quiet
    from quiet_operation [OF assms(1) this] show ?thesis
      using assms(2) by (simp add: same_accounts_def user_tokens_def)
  qed
qed

lemma operation_withdraws:
  assumes "operation_effect env self ctx op tracker = Inr (self', tracker', msgs, app)"
  shows "count (sent msgs) (Withdraw (AccountUser own) a r) \<le> (if signed_claim own a r (Executed c ctx op) then 1 else 0)"
proof (cases op)
  case (OpTransfer src rec x)
  then show ?thesis
    using assms by (cases rec) (auto simp: operation_effect_def no_application_def transfer_def credit_message_def sent_def)
next
  case (OpAdmin admin_op)
  then show ?thesis
    using assms by (cases admin_op) (auto simp: operation_effect_def no_application_def execute_admin_operation_def sent_def)
next
  case (OpCreateApplication bytecode parameters argument required)
  then show ?thesis using assms create_application_frame by (fastforce simp: operation_effect_def sent_def)
next
  case OpCloseChain
  then show ?thesis
    using assms by (auto simp: operation_effect_def no_application_def close_chain_def sent_def Let_def simp flip: not_in_iff)
qed (use assms in \<open>auto simp: operation_effect_def no_application_def Let_def claim_def sent_def open_chain_def
    execute_subscribe_def execute_unsubscribe_def split: if_splits\<close>)

lemma credit_user: "user_tokens self own \<le> user_tokens (credit self receiver a) own"
proof -
  have "unat b \<le> unat (saturating_add b a)" for b
    using unat_bound [of b] by (simp add: unat_saturating_add)
  then show ?thesis
    by (cases receiver) (auto simp: credit_def user_tokens_def Let_def split: option.splits)
qed

lemma message_spends:
  assumes "system_execute_message env self ctx msg tracker = Inr (self', tracker', outcome)"
    "user_tokens self' own < user_tokens self own"
  shows "accounts_for (Received c msg) c own (user_tokens self own - user_tokens self' own)"
proof (cases msg)
  case (Withdraw src a r)
  then have d: "debit self (Some src) a = Inr self'" using assms(1) by (auto simp: system_execute_message_def)
  then have "src = AccountUser own" using debit_user [OF d, of own] assms(2) by auto
  then show ?thesis using Withdraw debit_user_amount [of self own a self'] d by simp
next
  case (RegisterApplications apps)
  then have "execute_register_applications env self apps tracker = Inr (self', tracker')"
    using assms(1) by (auto simp: system_execute_message_def)
  from same_accounts_frames(3) [OF execute_register_applications_frame [OF this]] show ?thesis
    using assms(2) by (simp add: same_accounts_def user_tokens_def)
next
  case (Credit receiver a source)
  then have "self' = credit self (if mc_is_bouncing ctx then source else receiver) a"
    using assms(1) by (simp add: system_execute_message_def)
  then show ?thesis using assms(2) credit_user [of self own] by (metis leD)
qed (use assms in \<open>auto simp: system_execute_message_def user_tokens_def split: if_splits\<close>)

lemma message_withdraws:
  assumes "system_execute_message env self ctx msg tracker = Inr (self', tracker', outcome)"
  shows "Withdraw own a r \<notin># sent (reo_messages outcome)"
proof (cases msg)
  case (Withdraw src x rec)
  then show ?thesis using assms by (cases rec) (auto simp: system_execute_message_def credit_message_def sent_def)
qed (use assms in \<open>auto simp: system_execute_message_def outcome_default_def sent_def\<close>)

text \<open>Fees are taken from the chain's balance first: it never grows, so the payer loses at most the fees.\<close>

lemma two_sources: "length xs = 2 \<Longrightarrow> \<exists>a b. xs = [a, b]"
  by (cases xs; cases "tl xs") auto

lemma sources_sub_capped:
  "sources_try_sub_assign sources x = (sources', r) \<Longrightarrow> hd sources' \<le> hd sources"
  by (cases sources) (auto simp: try_sub_assign_def checked_sub_def word_le_nat_alt unat_sub_exact Let_def
      split: if_splits prod.splits)

interpretation capped: balance_holder sources_holder funds "\<lambda>sources. length sources = 2 \<and> hd sources \<le> x" for x
proof unfold_locales
  fix sources sources' :: "amount list" and y
  assume s: "length sources = 2 \<and> hd sources \<le> x" and add: "bh_try_add_assign sources_holder sources y = Inr sources'"
  then obtain a b where "sources = [a, b]" using two_sources by blast
  then show "(length sources' = 2 \<and> hd sources' \<le> x) \<and> funds sources' = funds sources + unat y"
    using s add srcs.add_worth [of sources 1 y sources']
    by (auto simp: sources_holder_def sources_try_add_assign_def)
next
  fix sources sources' :: "amount list" and y and r
  assume "length sources = 2 \<and> hd sources \<le> x" "bh_try_sub_assign sources_holder sources y = (sources', r)"
  then show "length sources' = 2 \<and> hd sources' \<le> x"
    using sources_sub_worth [of sources y sources' r] sources_sub_capped [of sources y sources' r]
    by (auto simp: sources_holder_def)
qed (rule srcs.sub_iff srcs.sub_worth srcs.sub_failed srcs.balance_exact; assumption?)+

lemma put_sources_user:
  "payer \<noteq> Some own \<Longrightarrow> user_tokens (fst (put_sources system payer grant sources)) own = user_tokens system own"
  by (cases payer) (auto simp: put_sources_def Let_def owner_source_def user_tokens_def split: option.splits)

lemma fees_spend:
  assumes "with_state rc self (\<lambda>c. track_all sources_holder c cs) = Inr (rc', self')"
    "user_tokens (es_system self') own < user_tokens (es_system self) own"
  shows "accounts_for (Charged c (rc_account rc) (exact_fees (rc_policy rc) cs)) c own
    (user_tokens (es_system self) own - user_tokens (es_system self') own)"
proof -
  let ?sys = "es_system self"
  obtain k where k: "track_all sources_holder \<lparr>rc_policy = rc_policy rc, rc_tracker = rc_tracker rc,
        rc_account = funding_sources ?sys (rc_account rc) None\<rparr> cs = Inr k"
    and put: "es_system self' = fst (put_sources ?sys (rc_account rc) None (rc_account k))"
    using with_state_Inr [OF assms(1)] by auto
  have payer: "rc_account rc = Some own"
    using put_sources_user [of "rc_account rc" own] assms(2) put by (metis less_irrefl)
  then obtain b where b: "sys_balances ?sys (AccountUser own) = Some b"
    using assms(2) put by (cases "sys_balances ?sys (AccountUser own)")
      (auto simp: put_sources_def Let_def owner_source_def user_tokens_def)
  then have src: "funding_sources ?sys (rc_account rc) None = [sys_balance ?sys, b]"
    by (simp add: funding_sources_def owner_source_def payer)
  have "length (rc_account k) = 2 \<and> hd (rc_account k) \<le> sys_balance ?sys"
    using capped.track_all_holds [OF k, of "sys_balance ?sys"] by (simp add: src)
  then obtain x y where xy: "rc_account k = [x, y]" "x \<le> sys_balance ?sys"
    using two_sources [of "rc_account k"] by auto
  have "funds [sys_balance ?sys, b] = funds [x, y] + exact_fees (rc_policy rc) cs"
    using srcs.track_all_Inr [OF k] by (simp add: src xy)
  then have "unat b \<le> unat y + exact_fees (rc_policy rc) cs"
    using xy(2) by (simp add: funds_def word_le_nat_alt)
  moreover have "user_tokens (es_system self') own = unat y" "user_tokens ?sys own = unat b"
    using b by (simp_all add: put put_sources_def payer owner_source_def user_tokens_def xy)
  ultimately show ?thesis using payer by simp
qed

lemma claims_balanced_step:
  assumes "ledger_step env L L'" "claims_balanced L"
  shows "claims_balanced L'"
  unfolding claims_balanced_def
proof (intro allI)
  fix own a r
  let ?w = "Withdraw (AccountUser own) a r"
  have old: "length (filter (received_claim own a r) (lg_log L)) + count (lg_flight L) ?w
      \<le> length (filter (signed_claim own a r) (lg_log L))"
    using assms(2) by (simp add: claims_balanced_def)
  show "length (filter (received_claim own a r) (lg_log L')) + count (lg_flight L') ?w
      \<le> length (filter (signed_claim own a r) (lg_log L'))"
    using assms(1)
  proof cases
    case (operation c op ctx tracker self' tracker' msgs app)
    then show ?thesis
      using old operation_withdraws [OF operation(4), of own a r c] by (auto split: if_splits)
  next
    case (message c msg ctx tracker self' tracker' outcome)
    have "count (sent (reo_messages outcome)) ?w = 0"
      using message_withdraws [OF message(5), of "AccountUser own" a r] by (simp add: not_in_iff)
    moreover have "msg = ?w \<Longrightarrow> 0 < count (lg_flight L) ?w"
      using message(3) by simp
    ultimately show ?thesis
      using old message(1) by (cases "msg = ?w") auto
  next
    case (reject msg)
    have "count (lg_flight L') ?w \<le> count (lg_flight L) ?w"
      by (simp add: reject(1))
    then show ?thesis using old reject(1) by simp
  qed (use old in simp_all)
qed

lemma claims_balanced_run: "ledger_run env L0 L \<Longrightarrow> claims_balanced L0 \<Longrightarrow> claims_balanced L"
  by (induction rule: ledger_run.induct) (auto intro: claims_balanced_step)


subsection \<open>An example\<close>

definition example_env :: system_env where
  "example_env = \<lparr>se_description_hash = (\<lambda>_. 9), se_owner_of = id, se_subscription_key = subscription_name,
     se_get_blob = (\<lambda>_. Inr None), se_contains_blob = (\<lambda>_. Inr False)\<rparr>"

definition fresh_system :: system_state where
  "fresh_system = \<lparr>sys_description = None, sys_epoch = None, sys_admin_id = None, sys_subscriptions = [],
     sys_committees = [], sys_ownership = chain_ownership_default, sys_balance = 0, sys_balances = Map.empty,
     sys_timestamp = 0, sys_registry = [], sys_closed = False, sys_application_permissions = permissions_default,
     sys_used_blobs = {}\<rparr>"

definition example_system :: system_state where
  "example_system = fresh_system\<lparr>sys_description := Some (Root 0), sys_epoch := Some 0, sys_admin_id := Some 1,
     sys_committees := [(0, committee_new [] policy_default)], sys_balance := 100,
     sys_balances := [AccountUser 7 \<mapsto> 5]\<rparr>"

definition example_ledger :: ledger where
  "example_ledger = \<lparr>lg_chains = (\<lambda>_. fresh_system)(1 := example_system), lg_flight = {#}, lg_gone = 0, lg_log = []\<rparr>"

definition example_context :: operation_context where
  "example_context = \<lparr>oc_chain_id = 1, oc_authenticated_signer = Some 7, oc_authenticated_caller_id = None,
     oc_height = 0, oc_index = Some 0\<rparr>"

text \<open>User 7 sends three of five tokens to chain 2.\<close>

definition example_transfer :: system_operation where
  "example_transfer = OpTransfer (Some 7) (RecipientAccount (Account 2 None)) 3"

definition example_ledger_after :: ledger where
  "example_ledger_after = example_ledger
     \<lparr>lg_chains := (lg_chains example_ledger)(1 := example_system\<lparr>sys_balances := [AccountUser 7 \<mapsto> 2]\<rparr>),
      lg_flight := lg_flight example_ledger
        + sent [system_message_to (Recipient 2) False Tracked (Credit None 3 (Some (AccountUser 7)))],
      lg_gone := lg_gone example_ledger + burned_by_operation example_transfer,
      lg_log := Executed 1 example_context example_transfer # lg_log example_ledger\<rparr>"

lemma example_step: "ledger_step example_env example_ledger example_ledger_after"
proof -
  have committee: "current_committee (lg_chains example_ledger 1) \<noteq> None"
    by (simp add: example_ledger_def example_system_def current_committee_def bt_get_def)
  have wf: "operation_wf example_transfer" by (simp add: example_transfer_def)
  have sub: "try_sub_assign (5 :: amount) 3 = Inr 2" by simp
  have "debit example_system (Some (AccountUser 7)) 3 = Inr (example_system\<lparr>sys_balances := [AccountUser 7 \<mapsto> 2]\<rparr>)"
    unfolding debit_def by (simp add: example_system_def sub del: try_sub_assign_Inr_iff)
  then have "operation_effect example_env (lg_chains example_ledger 1) example_context example_transfer
      (transaction_tracker_new 0 None)
    = Inr (example_system\<lparr>sys_balances := [AccountUser 7 \<mapsto> 2]\<rparr>, transaction_tracker_new 0 None,
        [system_message_to (Recipient 2) False Tracked (Credit None 3 (Some (AccountUser 7)))], None)"
    by (simp add: operation_effect_def example_transfer_def transfer_def check_transfer_owner_def example_context_def
        example_ledger_def no_application_def credit_message_def)
  from ledger_step.operation [OF committee wf this] show ?thesis
    by (simp add: example_ledger_after_def)
qed

lemma example_run: "ledger_run example_env example_ledger example_ledger_after"
  using ledger_run.step [OF ledger_run.start example_step] .

lemma example_supply: "total_supply example_ledger = 105"
proof -
  have held: "held fresh_system = 0" "held example_system = 105"
    by (simp_all add: held_def account_tokens_def fresh_system_def example_system_def)
  show ?thesis
    using chains_upd [of "\<lambda>_. fresh_system" 1 example_system]
    by (simp add: total_supply_def example_ledger_def held del: fun_upd_apply)
qed

lemma example_inv: "ledger_inv example_env example_ledger"
  by (auto simp: ledger_inv_def example_ledger_def system_wf_def unopened_wf_def fresh_system_def example_system_def
      ownership_wf_def chain_ownership_default_def bt_empty_def committees_wf_def subscriptions_wf_def registry_wf_def
      registry_consistent_def)

text \<open>Witness: after the transfer the supply is what it was.\<close>

theorem tokens_conserved_witness:
  "Credit None 3 (Some (AccountUser 7)) \<in># lg_flight example_ledger_after
    \<and> total_supply example_ledger_after = total_supply example_ledger"
  using tokens_conserved [OF example_run example_inv] example_supply
  by (simp add: example_ledger_after_def example_ledger_def sent_def)

text \<open>Witness: the state of the sending chain after the transfer.\<close>

theorem system_states_well_formed_witness:
  "sys_balances (lg_chains example_ledger_after 1) = [AccountUser 7 \<mapsto> 2]
    \<and> system_wf example_env (lg_chains example_ledger_after 1)"
  using system_states_well_formed [OF example_run example_inv, of 1] by (simp add: example_ledger_after_def)


end
