(* ===== verification/Chain_Execution.thy ===== *)
theory Chain_Execution
  imports Chain_Inboxes Token_Ledger
begin

section \<open>Executing blocks (linera-chain/src/chain.rs)\<close>

text \<open>
  The operations of a chain that use its execution state: receiving a bundle of messages from another chain,
  initialising a chain that was opened, and executing a block, transaction by transaction. What the code gets from
  elsewhere is a parameter, \<open>chain_env\<close>: running user applications, the election of leaders, the hash of the
  execution state, and the serialised sizes that count against the limit of a block. A panic is the error
  \<open>chain_panic\<close>.
\<close>

record 'u chain_env =
  ce_exec :: "'u exec_env"
  ce_election :: leader_election
  ce_state_hash :: "'u execution_state \<Rightarrow> crypto_hash"
  ce_bundle_size :: "incoming_bundle \<Rightarrow> nat"
  ce_operation_size :: "operation \<Rightarrow> nat"
  ce_outcome_size :: "oracle_response list \<times> outgoing_message list \<times> event_record list \<Rightarrow> nat"

type_synonym 'u chain = "'u execution_state chain_state_view"

definition chain_panic :: chain_error where
  "chain_panic = ExecutionError (ExSystemError SysPanicked) ContextBlock"

definition with_execution_context ::
  "(execution_error, 'a) res \<Rightarrow> chain_execution_context \<Rightarrow> (chain_error, 'a) res" where
  "with_execution_context r ctx = map_err (\<lambda>e. ExecutionError e ctx) r"

definition chain_system :: "'u chain \<Rightarrow> system_state" where
  "chain_system self = es_system (execution_state self)"

definition is_active :: "'u chain \<Rightarrow> bool" where
  "is_active self = system_is_active (chain_system self)"

definition is_closed :: "'u chain \<Rightarrow> bool" where
  "is_closed self = sys_closed (chain_system self)"

definition ensure_is_active :: "'u chain \<Rightarrow> (chain_error, unit) res" where
  "ensure_is_active self = ensure (is_active self) (InactiveChain (cs_chain_id self))"

subsection \<open>Receiving messages\<close>

text \<open>Recomputing the hash of the execution state and resetting the consensus state for the next height.\<close>

definition reset_manager ::
  "'u chain_env \<Rightarrow> 'u chain \<Rightarrow> block_height \<Rightarrow> timestamp \<Rightarrow> (chain_error, 'u chain) res" where
  "reset_manager env self height local_time =
     and_then (manager_reset (ce_election env) (se_owner_of (ev_system (ce_exec env))) (cs_manager self)
         (sys_ownership (chain_system self)) height local_time
         (case current_committee (chain_system self) of Some (_, c) \<Rightarrow> keys_and_weights c | None \<Rightarrow> [])) (\<lambda>manager.
       Inr (self\<lparr>cs_manager := manager\<rparr>))"

definition execute_init_message ::
  "'u chain_env \<Rightarrow> 'u chain \<Rightarrow> message_id \<Rightarrow> open_chain_config \<Rightarrow> timestamp \<Rightarrow> timestamp
     \<Rightarrow> (chain_error, 'u chain) res" where
  "execute_init_message env self mid config timestamp local_time =
     and_then (map_err (\<lambda>_. chain_panic)
         (initialize_chain (ev_system (ce_exec env)) (chain_system self) mid timestamp config)) (\<lambda>system.
     let exec = (execution_state self)\<lparr>es_system := system\<rparr>
     in reset_manager env
          (self\<lparr>execution_state := exec, execution_state_hash := Some (ce_state_hash env exec)\<rparr>) 0 local_time)"

text \<open>The loop over the messages of a bundle, with the subscriptions and the unsubscriptions it collects.\<close>

fun handle_immediate_messages ::
  "'u chain_env \<Rightarrow> chain_and_height \<Rightarrow> timestamp \<Rightarrow> timestamp \<Rightarrow> posted_message list \<Rightarrow> 'u chain
     \<Rightarrow> (chain_error, 'u chain \<times> (channel_name \<times> chain_id) list \<times> (channel_name \<times> chain_id) list) res" where
  "handle_immediate_messages env source timestamp local_time [] self = Inr (self, [], [])"
| "handle_immediate_messages env source timestamp local_time (posted # rest) self =
     and_then (case matches_open_chain (pm_message posted) of
         Some config \<Rightarrow>
           if sys_description (chain_system self) = None
           then execute_init_message env self (to_message_id source (pm_index posted)) config timestamp local_time
           else Inr self
       | None \<Rightarrow> Inr self) (\<lambda>self.
     and_then (handle_immediate_messages env source timestamp local_time rest self) (\<lambda>(self, subs, unsubs).
       Inr (self,
         (if matches_open_chain (pm_message posted) \<noteq> None then []
          else case matches_subscribe (pm_message posted) of
            Some (cid, subscription) \<Rightarrow> [(subscription_name subscription, cid)] | None \<Rightarrow> []) @ subs,
         (case matches_unsubscribe (pm_message posted) of
            Some (cid, subscription) \<Rightarrow> [(subscription_name subscription, cid)] | None \<Rightarrow> []) @ unsubs)))"

definition receive_message_bundle ::
  "'u chain_env \<Rightarrow> 'u chain \<Rightarrow> origin \<Rightarrow> message_bundle \<Rightarrow> timestamp \<Rightarrow> bool \<Rightarrow> (chain_error, 'u chain \<times> bool) res" where
  "receive_message_bundle env self orig bundle local_time add_to_received_log =
     and_then (ensure (mb_messages bundle \<noteq> []) chain_panic) (\<lambda>_.
     let source = ChainAndHeight (origin_sender orig) (mb_height bundle)
     in and_then (handle_immediate_messages env source (mb_timestamp bundle) local_time (mb_messages bundle) self)
          (\<lambda>(self, subs, unsubs).
        and_then (process_unsubscribes self unsubs SystemApp) (\<lambda>self.
        and_then (process_subscribes self subs SystemApp) (\<lambda>(self, new_outbox_entries).
        and_then (if mb_goes_to_inbox bundle then receive_in_inbox self orig bundle local_time else Inr self) (\<lambda>self.
          Inr (if add_to_received_log then self\<lparr>received_log := received_log self @ [source]\<rparr> else self,
            new_outbox_entries))))))"

subsection \<open>Messages in a block\<close>

type_synonym 'u txn_state = "'u chain \<times> transaction_tracker \<times> payer_controller"

definition block_message_context :: "block \<Rightarrow> incoming_bundle \<Rightarrow> message_id \<Rightarrow> posted_message \<Rightarrow> message_context" where
  "block_message_context blk in_bundle mid posted =
     \<lparr>mc_chain_id = block_chain_id blk, mc_is_bouncing = pm_is_bouncing posted,
      mc_authenticated_signer = pm_authenticated_signer posted, mc_refund_grant_to = pm_refund_grant_to posted,
      mc_height = block_height_of blk, mc_certificate_hash = mb_certificate_hash (ib_bundle in_bundle),
      mc_message_id = mid\<rparr>"

definition accept_message ::
  "'u chain_env \<Rightarrow> message_context \<Rightarrow> posted_message \<Rightarrow> u32 \<Rightarrow> timestamp \<Rightarrow> 'u txn_state
     \<Rightarrow> (chain_error, 'u txn_state) res" where
  "accept_message env context posted txn_index local_time st =
     (let (self, tracker, rc) = st; grant = pm_grant posted
      in and_then (ensure (\<not> is_closed self) ClosedChain) (\<lambda>_.
         and_then (with_execution_context
             (exec_execute_message (ce_exec env) context local_time (pm_message posted)
               (if 0 < grant then Some grant else None) (execution_state self, tracker, rc))
             (ContextIncomingBundle txn_index)) (\<lambda>((exec, tracker, rc), grant_left).
         let self = self\<lparr>execution_state := exec\<rparr>; grant = (case grant_left of Some g \<Rightarrow> g | None \<Rightarrow> grant)
         in case pm_refund_grant_to posted of
              Some refund_grant_to \<Rightarrow>
                if 0 < grant
                then and_then (with_execution_context (send_refund exec context grant refund_grant_to tracker)
                       (ContextIncomingBundle txn_index)) (\<lambda>tracker. Inr (self, tracker, rc))
                else Inr (self, tracker, rc)
            | None \<Rightarrow> Inr (self, tracker, rc))))"

definition reject_message ::
  "message_context \<Rightarrow> incoming_bundle \<Rightarrow> posted_message \<Rightarrow> 'u txn_state \<Rightarrow> (chain_error, 'u txn_state) res" where
  "reject_message context in_bundle posted st =
     (let (self, tracker, rc) = st; grant = pm_grant posted
      in and_then (ensure (\<not> pm_is_protected posted \<or> is_closed self)
             (CannotRejectMessage (mc_chain_id context) (ib_origin in_bundle) posted)) (\<lambda>_.
         if pm_is_tracked posted
         then and_then (with_execution_context
                (bounce_message (execution_state self) context grant (pm_message posted) tracker) ContextBlock) (\<lambda>tracker.
              Inr (self, tracker, rc))
         else if 0 < grant
         then (case pm_refund_grant_to posted of
                 None \<Rightarrow> Inl (InternalError ''Messages with grants should have a non-empty `refund_grant_to`'')
               | Some refund_grant_to \<Rightarrow>
                   and_then (with_execution_context
                     (send_refund (execution_state self) context (pm_grant posted) refund_grant_to tracker) ContextBlock)
                     (\<lambda>tracker. Inr (self, tracker, rc)))
         else Inr (self, tracker, rc)))"

definition execute_message_in_block ::
  "'u chain_env \<Rightarrow> message_id \<Rightarrow> posted_message \<Rightarrow> incoming_bundle \<Rightarrow> block \<Rightarrow> u32 \<Rightarrow> timestamp \<Rightarrow> 'u txn_state
     \<Rightarrow> (chain_error, 'u txn_state) res" where
  "execute_message_in_block env mid posted in_bundle blk txn_index local_time st =
     (let context = block_message_context blk in_bundle mid posted
      in case ib_action in_bundle of
           Accept \<Rightarrow> accept_message env context posted txn_index local_time st
         | Reject \<Rightarrow> reject_message context in_bundle posted st)"

fun execute_messages_in_block ::
  "'u chain_env \<Rightarrow> (message_id \<times> posted_message) list \<Rightarrow> incoming_bundle \<Rightarrow> block \<Rightarrow> u32 \<Rightarrow> timestamp \<Rightarrow> 'u txn_state
     \<Rightarrow> (chain_error, 'u txn_state) res" where
  "execute_messages_in_block env [] in_bundle blk txn_index local_time st = Inr st"
| "execute_messages_in_block env ((mid, posted) # rest) in_bundle blk txn_index local_time st =
     and_then (execute_message_in_block env mid posted in_bundle blk txn_index local_time st)
       (execute_messages_in_block env rest in_bundle blk txn_index local_time)"

subsection \<open>Transactions\<close>

fun transaction_context :: "u32 \<Rightarrow> transaction \<Rightarrow> chain_execution_context" where
  "transaction_context txn_index (ReceiveMessages _) = ContextIncomingBundle txn_index"
| "transaction_context txn_index (ExecuteOperation _) = ContextOperation txn_index"

fun pays_for_messages :: "transaction \<Rightarrow> bool" where
  "pays_for_messages (ReceiveMessages in_bundle) = (ib_action in_bundle = Accept)"
| "pays_for_messages (ExecuteOperation _) = True"

definition with_chain_state ::
  "payer_controller \<Rightarrow> 'u chain
     \<Rightarrow> (amount list resource_controller \<Rightarrow> (execution_error, amount list resource_controller) res)
     \<Rightarrow> (execution_error, payer_controller \<times> 'u chain) res" where
  "with_chain_state rc self action =
     and_then (with_state rc (execution_state self) action) (\<lambda>(rc, exec).
       Inr (rc, self\<lparr>execution_state := exec\<rparr>))"

definition run_transaction ::
  "'u chain_env \<Rightarrow> block \<Rightarrow> timestamp \<Rightarrow> u32 \<Rightarrow> transaction \<Rightarrow> 'u txn_state \<Rightarrow> (chain_error, 'u txn_state) res" where
  "run_transaction env blk local_time txn_index txn st =
     (let (self, tracker, rc) = st; ctx = transaction_context txn_index txn
      in case txn of
           ReceiveMessages in_bundle \<Rightarrow>
             and_then (with_execution_context (track_executed_block_size rc (ce_bundle_size env in_bundle)) ctx) (\<lambda>rc.
               execute_messages_in_block env (messages_and_ids in_bundle) in_bundle blk txn_index local_time
                 (self, tracker, rc))
         | ExecuteOperation op \<Rightarrow>
             and_then (with_execution_context (track_executed_block_size rc (ce_operation_size env op)) ctx) (\<lambda>rc.
             and_then (with_execution_context (exec_execute_operation (ce_exec env)
                 \<lparr>oc_chain_id = cs_chain_id self, oc_authenticated_signer = block_authenticated_signer blk,
                  oc_authenticated_caller_id = None, oc_height = block_height_of blk, oc_index = Some txn_index\<rparr>
                 local_time op (execution_state self, tracker, rc)) ctx) (\<lambda>(exec, tracker, rc).
             and_then (with_execution_context (with_chain_state rc (self\<lparr>execution_state := exec\<rparr>)
                 (\<lambda>c. track_operation sources_holder c op)) ctx) (\<lambda>(rc, self).
               Inr (self, tracker, rc)))))"

fun charge_messages ::
  "outgoing_message list \<Rightarrow> payer_controller \<times> 'u chain \<Rightarrow> (execution_error, payer_controller \<times> 'u chain) res" where
  "charge_messages [] st = Inr st"
| "charge_messages (msg # msgs) (rc, self) =
     and_then (with_chain_state rc self (\<lambda>c. track_message sources_holder c (om_message msg))) (charge_messages msgs)"

text \<open>What the loop over the transactions carries along.\<close>

record 'u block_state =
  bs_chain :: "'u chain"
  bs_controller :: payer_controller
  bs_next_index :: u32
  bs_replaying :: "oracle_response list list option"
  bs_responses :: "oracle_response list list"
  bs_messages :: "outgoing_message list list"
  bs_events :: "event_record list list"

text \<open>The sizes of a transaction's outcome and of the three lists it is appended to.\<close>

definition track_outcome_size ::
  "'u chain_env \<Rightarrow> 'u block_state \<Rightarrow> oracle_response list \<Rightarrow> outgoing_message list \<Rightarrow> event_record list
     \<Rightarrow> payer_controller \<Rightarrow> (execution_error, payer_controller) res" where
  "track_outcome_size env st responses msgs events rc =
     and_then (track_executed_block_size rc (ce_outcome_size env (responses, msgs, events))) (\<lambda>rc.
     and_then (track_executed_block_size_sequence_extension rc (length (bs_responses st)) 1) (\<lambda>rc.
     and_then (track_executed_block_size_sequence_extension rc (length (bs_messages st)) 1) (\<lambda>rc.
       track_executed_block_size_sequence_extension rc (length (bs_events st)) 1)))"

definition execute_transaction ::
  "'u chain_env \<Rightarrow> block \<Rightarrow> timestamp \<Rightarrow> u32 \<times> transaction \<Rightarrow> 'u block_state \<Rightarrow> (chain_error, 'u block_state) res" where
  "execute_transaction env blk local_time indexed st =
     (let (txn_index, txn) = indexed; ctx = transaction_context txn_index txn
      in and_then (case bs_replaying st of
             Some (responses # rest) \<Rightarrow> Inr (Some responses, Some rest)
           | Some [] \<Rightarrow> Inl MissingOracleResponseList
           | None \<Rightarrow> Inr (None, None)) (\<lambda>(maybe_responses, replaying).
         and_then (run_transaction env blk local_time txn_index txn
             (bs_chain st, transaction_tracker_new (bs_next_index st) maybe_responses, bs_controller st))
           (\<lambda>(self, tracker, rc).
         and_then (with_execution_context
             (update_execution_outcomes_with_app_registrations (execution_state self) tracker) ctx) (\<lambda>tracker.
         and_then (with_execution_context (destructure tracker) ctx) (\<lambda>(outcomes, responses, next_index).
         and_then (process_execution_outcomes self (block_height_of blk) outcomes) (\<lambda>(self, msgs, events).
         and_then (if pays_for_messages txn then with_execution_context (charge_messages msgs (rc, self)) ctx
             else Inr (rc, self)) (\<lambda>(rc, self).
         and_then (with_execution_context (track_outcome_size env st responses msgs events rc) ctx) (\<lambda>rc.
           Inr \<lparr>bs_chain = self, bs_controller = rc, bs_next_index = next_index, bs_replaying = replaying,
                bs_responses = bs_responses st @ [responses], bs_messages = bs_messages st @ [msgs],
                bs_events = bs_events st @ [events]\<rparr>))))))))"

fun execute_transactions ::
  "'u chain_env \<Rightarrow> block \<Rightarrow> timestamp \<Rightarrow> (u32 \<times> transaction) list \<Rightarrow> 'u block_state \<Rightarrow> (chain_error, 'u block_state) res" where
  "execute_transactions env blk local_time [] st = Inr st"
| "execute_transactions env blk local_time (txn # txns) st =
     and_then (execute_transaction env blk local_time txn st) (execute_transactions env blk local_time txns)"

subsection \<open>Blocks\<close>

text \<open>Which applications may run operations, and which must appear. The code collects the missing ones from a hash set;
  here they are listed in the order of the permissions.\<close>

definition check_application_permissions :: "application_permissions \<Rightarrow> block \<Rightarrow> (chain_error, unit) res" where
  "check_application_permissions permissions blk =
     (if list_all (\<lambda>op. can_execute_operations permissions (operation_application_id op)) (operations blk)
      then let present = map operation_application_id (operations blk)
                 @ map (message_application_id \<circ> pm_message) (incoming_messages blk);
               missing = filter (\<lambda>app. UserApp app \<notin> set present) (remdups (mandatory_applications permissions))
           in ensure (missing = []) (MissingMandatoryApplications missing)
      else Inl (AuthorizedApplications (the (execute_operations permissions))))"

definition empty_executed_block_size :: nat where
  "empty_executed_block_size = 91"

definition track_block_start ::
  "block \<Rightarrow> payer_controller \<Rightarrow> (execution_error, payer_controller) res" where
  "track_block_start blk rc =
     and_then (track_executed_block_size rc empty_executed_block_size) (\<lambda>rc.
     and_then (track_executed_block_size_sequence_extension rc 0 (length (incoming_bundles blk))) (\<lambda>rc.
       track_executed_block_size_sequence_extension rc 0 (length (operations blk))))"

definition init_if_opened ::
  "'u chain_env \<Rightarrow> 'u chain \<Rightarrow> block \<Rightarrow> timestamp \<Rightarrow> (chain_error, 'u chain) res" where
  "init_if_opened env self blk local_time =
     (if block_height_of blk = 0
        \<and> (case sys_description (chain_system self) of None \<Rightarrow> True | Some description \<Rightarrow> is_child description)
      then and_then (ok_or (starts_with_open_chain_message blk) (InactiveChain (cs_chain_id self)))
             (\<lambda>(in_bundle, posted, config).
           if is_active self then Inr self
           else execute_init_message env self
             (MessageId (origin_sender (ib_origin in_bundle)) (mb_height (ib_bundle in_bundle)) (pm_index posted))
             config (block_timestamp blk) local_time)
      else Inr self)"

definition set_block_timestamp :: "'u chain \<Rightarrow> timestamp \<Rightarrow> 'u chain" where
  "set_block_timestamp self timestamp =
     self\<lparr>execution_state := (execution_state self)\<lparr>es_system := (chain_system self)\<lparr>sys_timestamp := timestamp\<rparr>\<rparr>\<rparr>"

definition execute_block ::
  "'u chain_env \<Rightarrow> 'u chain \<Rightarrow> block \<Rightarrow> timestamp \<Rightarrow> oracle_response list list option
     \<Rightarrow> (chain_error, 'u chain \<times> block_execution_outcome) res" where
  "execute_block env self blk local_time replaying =
     and_then (ensure (block_chain_id blk = cs_chain_id self) chain_panic) (\<lambda>_.
     and_then (init_if_opened env self blk local_time) (\<lambda>self.
     and_then (ensure (sys_timestamp (chain_system self) \<le> block_timestamp blk) InvalidBlockTimestamp) (\<lambda>_.
     let self = set_block_timestamp self (block_timestamp blk)
     in and_then (ok_or (current_committee (chain_system self)) (InactiveChain (cs_chain_id self))) (\<lambda>(_, committee).
     and_then (with_execution_context (track_block_start blk
         \<lparr>rc_policy = committee_policy committee, rc_tracker = tracker_default,
          rc_account = block_authenticated_signer blk\<rparr>) ContextBlock) (\<lambda>rc.
     and_then (if is_closed self
         then ensure (incoming_bundles blk \<noteq> [] \<and> has_only_rejected_messages blk) ClosedChain else Inr ()) (\<lambda>_.
     and_then (check_application_permissions (sys_application_permissions (chain_system self)) blk) (\<lambda>_.
     and_then (execute_transactions env blk local_time (transactions blk)
         \<lparr>bs_chain = self, bs_controller = rc, bs_next_index = 0, bs_replaying = replaying, bs_responses = [],
          bs_messages = [], bs_events = []\<rparr>) (\<lambda>st.
     let self = bs_chain st
     in and_then (if is_closed self then Inr (bs_controller st, self)
         else with_execution_context (with_chain_state (bs_controller st) self (track_block sources_holder)) ContextBlock)
       (\<lambda>(_, self).
     let state_hash' = ce_state_hash env (execution_state self);
         self = self\<lparr>execution_state_hash := Some state_hash'\<rparr>
     in and_then (map_err ChainArithmeticError (try_add_one (block_height_of blk))) (\<lambda>next_height.
     and_then (reset_manager env self next_height local_time) (\<lambda>self.
     and_then (ensure (length (bs_messages st) = length (incoming_bundles blk) + length (operations blk)) chain_panic) (\<lambda>_.
       Inr (self, \<lparr>beo_messages = bs_messages st, state_hash = state_hash', oracle_responses = bs_responses st,
         beo_events = bs_events st\<rparr>)))))))))))))"

subsection \<open>The parts that leave the execution state alone\<close>

lemma process_unsubscribes_state:
  "process_unsubscribes self names app = Inr self' \<Longrightarrow> execution_state self' = execution_state self"
  by (auto simp: process_unsubscribes_def split: if_splits)

lemma process_subscribes_state:
  "process_subscribes self names app = Inr (self', b) \<Longrightarrow> execution_state self' = execution_state self"
  by (auto simp: process_subscribes_def Let_def case_prod_beta split: if_splits)

lemma process_raw_execution_outcome_state:
  "process_raw_execution_outcome self app lift height raw = Inr (self', msgs, events) \<Longrightarrow>
     execution_state self' = execution_state self"
  by (auto simp: process_raw_execution_outcome_def Let_def case_prod_beta
      dest!: process_unsubscribes_state process_subscribes_state)

lemma process_execution_outcomes_state:
  "process_execution_outcomes self height outcomes = Inr (self', msgs, events) \<Longrightarrow>
     execution_state self' = execution_state self"
  by (induction outcomes arbitrary: self msgs events)
    (fastforce split: execution_outcome.splits dest: process_raw_execution_outcome_state)+

lemma reset_manager_state: "reset_manager env self height local_time = Inr self' \<Longrightarrow> execution_state self' = execution_state self"
  by (auto simp: reset_manager_def)

lemma reject_message_state:
  "reject_message context in_bundle posted (self, tracker, rc) = Inr (self', tracker', rc') \<Longrightarrow> self' = self \<and> rc' = rc"
  by (auto simp: reject_message_def Let_def split: if_splits option.splits)

lemma execute_messages_rejected:
  "execute_messages_in_block env msgs in_bundle blk i local_time (self, tracker, rc) = Inr (self', tracker', rc') \<Longrightarrow>
     ib_action in_bundle = Reject \<Longrightarrow> self' = self \<and> rc' = rc"
proof (induction msgs arbitrary: tracker)
  case (Cons msg msgs)
  obtain mid posted where msg: "msg = (mid, posted)" by (cases msg)
  obtain st where st: "reject_message (block_message_context blk in_bundle mid posted) in_bundle posted (self, tracker, rc) = Inr st"
    "execute_messages_in_block env msgs in_bundle blk i local_time st = Inr (self', tracker', rc')"
    using Cons.prems msg by (auto simp: execute_message_in_block_def)
  obtain t where "st = (self, t, rc)" using reject_message_state st(1) by (cases st) blast
  then show ?case using Cons.IH st(2) Cons.prems(2) by simp
qed simp

lemma execute_transaction_rejected:
  assumes "execute_transaction env blk local_time (i, ReceiveMessages in_bundle) st = Inr st'" "ib_action in_bundle = Reject"
  shows "execution_state (bs_chain st') = execution_state (bs_chain st)"
proof -
  obtain maybe rc self tracker rc' outcomes msgs events where
    r: "execute_messages_in_block env (messages_and_ids in_bundle) in_bundle blk i local_time
        (bs_chain st, transaction_tracker_new (bs_next_index st) maybe, rc) = Inr (self, tracker, rc')"
    and p: "process_execution_outcomes self (block_height_of blk) outcomes = Inr (bs_chain st', msgs, events)"
    using assms by (auto simp: execute_transaction_def run_transaction_def Let_def case_prod_beta)
  then show ?thesis
    using execute_messages_rejected [OF r assms(2)] process_execution_outcomes_state [OF p] by simp
qed

lemma execute_transactions_rejected:
  assumes "execute_transactions env blk local_time txns st = Inr st'"
    "list_all (\<lambda>txn. \<exists>in_bundle. snd txn = ReceiveMessages in_bundle \<and> ib_action in_bundle = Reject) txns"
  shows "execution_state (bs_chain st') = execution_state (bs_chain st)"
  using assms
proof (induction txns arbitrary: st)
  case (Cons txn txns)
  then obtain st1 where st1: "execute_transaction env blk local_time txn st = Inr st1"
    "execute_transactions env blk local_time txns st1 = Inr st'" by auto
  obtain i in_bundle where "txn = (i, ReceiveMessages in_bundle)" "ib_action in_bundle = Reject"
    using Cons.prems(2) by (cases txn) auto
  then show ?case
    using execute_transaction_rejected st1(1) Cons.IH [OF st1(2)] Cons.prems(2) by auto
qed simp

lemma only_rejected_transactions:
  assumes "has_only_rejected_messages blk"
  shows "list_all (\<lambda>txn. \<exists>in_bundle. snd txn = ReceiveMessages in_bundle \<and> ib_action in_bundle = Reject) (transactions blk)"
proof -
  have "snd ` set (zip_from i xs) = set xs" for i and xs :: "transaction list"
    by (induction xs arbitrary: i) auto
  then have "snd ` set (transactions blk) = ReceiveMessages ` set (incoming_bundles blk)"
    using assms by (simp add: transactions_def has_only_rejected_messages_def)
  then show ?thesis
    using assms unfolding list_all_iff has_only_rejected_messages_def by (metis (no_types, lifting) imageE image_eqI)
qed

lemma set_block_timestamp_state [simp]:
  "chain_system (set_block_timestamp self t) = (chain_system self)\<lparr>sys_timestamp := t\<rparr>"
  "es_users (execution_state (set_block_timestamp self t)) = es_users (execution_state self)"
  by (simp_all add: set_block_timestamp_def chain_system_def)

text \<open>C38: A closed chain can only reject messages. If a block is executed on a closed chain, then it has no operation and
  at least one incoming bundle, all of its bundles are rejected, and afterwards the state of the system and of the
  applications is what it was, but for the timestamp: no token has moved and no fee was charged.\<close>

theorem closed_chain_only_rejects:
  assumes "is_closed self" "execute_block env self blk local_time replaying = Inr (self', outcome)"
  shows "operations blk = [] \<and> incoming_bundles blk \<noteq> []
    \<and> list_all (\<lambda>in_bundle. ib_action in_bundle = Reject) (incoming_bundles blk)
    \<and> chain_system self' = (chain_system self)\<lparr>sys_timestamp := block_timestamp blk\<rparr>
    \<and> es_users (execution_state self') = es_users (execution_state self)"
proof -
  obtain self1 where init: "init_if_opened env self blk local_time = Inr self1"
    using assms(2) by (auto simp: execute_block_def)
  have closed1: "is_closed self1"
    using init assms(1)
    by (auto simp: init_if_opened_def execute_init_message_def initialize_chain_def is_closed_def chain_system_def Let_def
        split: if_splits prod.splits dest!: reset_manager_state)
  let ?self2 = "set_block_timestamp self1 (block_timestamp blk)"
  have closed2: "is_closed ?self2" using closed1 by (simp add: is_closed_def)
  obtain st rc rc2 self3 h where
    rejected: "incoming_bundles blk \<noteq> []" "has_only_rejected_messages blk"
    and run: "execute_transactions env blk local_time (transactions blk)
      \<lparr>bs_chain = ?self2, bs_controller = rc, bs_next_index = 0, bs_replaying = replaying, bs_responses = [],
       bs_messages = [], bs_events = []\<rparr> = Inr st"
    and fee: "(if is_closed (bs_chain st) then Inr (bs_controller st, bs_chain st)
      else with_execution_context (with_chain_state (bs_controller st) (bs_chain st) (track_block sources_holder)) ContextBlock)
      = Inr (rc2, self3)"
    and final: "reset_manager env (self3\<lparr>execution_state_hash := Some (ce_state_hash env (execution_state self3))\<rparr>) h local_time = Inr self'"
    using assms(2) init closed2 by (auto simp: execute_block_def Let_def case_prod_beta)
  have "execution_state (bs_chain st) = execution_state ?self2"
    using execute_transactions_rejected [OF run only_rejected_transactions [OF rejected(2)]] by simp
  moreover have "is_closed (bs_chain st)" using calculation closed2 by (simp add: is_closed_def chain_system_def)
  moreover have "self1 = self"
    using init rejected by (auto simp: init_if_opened_def starts_with_open_chain_message_def has_only_rejected_messages_def
        split: if_splits list.splits)
  ultimately have "execution_state self' = execution_state (set_block_timestamp self (block_timestamp blk))"
    using fee reset_manager_state [OF final] by simp
  then show ?thesis
    using rejected by (auto simp: chain_system_def has_only_rejected_messages_def set_block_timestamp_def)
qed

subsection \<open>Message identifiers\<close>

definition user_destinations :: "execution_outcome list \<Rightarrow> destination set" where
  "user_destinations outcomes =
     (\<Union>outcome \<in> set outcomes. case outcome of
        UserOutcome _ out \<Rightarrow> rom_destination ` set (reo_messages out) | SystemOutcome _ \<Rightarrow> {})"

lemma add_registrations:
  "bt_wf m \<Longrightarrow> bt_wf (foldl (\<lambda>m msg. add_registration app msg m) m msgs)
    \<and> fst ` set (foldl (\<lambda>m msg. add_registration app msg m) m msgs) = fst ` set m \<union> rom_destination ` set msgs"
proof (induction msgs arbitrary: m)
  case (Cons msg msgs)
  then have "bt_wf (add_registration app msg m)"
    "fst ` set (add_registration app msg m) = insert (rom_destination msg) (fst ` set m)"
    by (simp_all add: add_registration_def Let_def set_bt_insert)
  then show ?case using Cons.IH [of "add_registration app msg m"] by auto
qed simp

lemma registrations_keys:
  "bt_wf (registrations_per_destination outcomes)
    \<and> fst ` set (registrations_per_destination outcomes) = user_destinations outcomes"
proof -
  let ?f = "\<lambda>per_destination outcome. case outcome of
         SystemOutcome _ \<Rightarrow> per_destination
       | UserOutcome app_id out \<Rightarrow> foldl (\<lambda>m msg. add_registration app_id msg m) per_destination (reo_messages out)"
  have "bt_wf m \<Longrightarrow> bt_wf (foldl ?f m outcomes) \<and> fst ` set (foldl ?f m outcomes) = fst ` set m \<union> user_destinations outcomes" for m
  proof (induction outcomes arbitrary: m)
    case (Cons outcome outcomes)
    show ?case
    proof (cases outcome)
      case (SystemOutcome out)
      then show ?thesis using Cons by (simp add: user_destinations_def)
    next
      case (UserOutcome app out)
      then show ?thesis
        using Cons.IH [of "?f m outcome"] add_registrations [OF Cons.prems, of app "reo_messages out"]
        by (auto simp: user_destinations_def)
    qed
  qed (simp add: user_destinations_def)
  from this [of "[]"] show ?thesis by simp
qed

lemma registrations_length: "length (registrations_per_destination outcomes) = card (user_destinations outcomes)"
  using registrations_keys [of outcomes] bt_wf_distinct distinct_card [of "map fst (registrations_per_destination outcomes)"]
  by (metis length_map list.set_map)

lemma collect_messages_length:
  "collect_messages lift raw msgs = Inr (rs, bs, out) \<Longrightarrow> length out = length msgs"
  by (induction msgs arbitrary: rs bs out) auto

lemma process_raw_execution_outcome_count:
  "process_raw_execution_outcome self app lift height raw = Inr (self', msgs, events) \<Longrightarrow> length msgs = length (reo_messages raw)"
  by (auto simp: process_raw_execution_outcome_def Let_def case_prod_beta dest!: collect_messages_length)

lemma process_execution_outcomes_count:
  "process_execution_outcomes self height outcomes = Inr (self', msgs, events) \<Longrightarrow>
     length msgs = outcomes_message_count outcomes"
  by (induction outcomes arbitrary: self msgs events)
    (fastforce simp: outcomes_message_count_def split: execution_outcome.splits
      dest: process_raw_execution_outcome_count)+

lemma app_registrations_count:
  assumes "update_execution_outcomes_with_app_registrations exec tracker = Inr tracker'"
  shows "outcomes_message_count (tt_outcomes tracker')
      = outcomes_message_count (tt_outcomes tracker) + card (user_destinations (tt_outcomes tracker))
    \<and> next_message_index tracker' = next_message_index tracker"
proof (cases "registrations_per_destination (tt_outcomes tracker) = []")
  case True
  then show ?thesis
    using assms registrations_length [of "tt_outcomes tracker"]
    by (auto simp: update_execution_outcomes_with_app_registrations_def Let_def)
next
  case False
  let ?outcomes = "tt_outcomes tracker" and ?sys = "\<lambda>out. \<not> is_user_outcome out"
  obtain msgs where msgs: "length msgs = length (registrations_per_destination ?outcomes)"
    "tracker' = tracker\<lparr>tt_outcomes := takeWhile ?sys ?outcomes
       @ SystemOutcome (outcome_default\<lparr>reo_messages := msgs\<rparr>) # dropWhile ?sys ?outcomes\<rparr>"
    using assms False
    by (auto simp: update_execution_outcomes_with_app_registrations_def Let_def collect_results_Inr_iff
        dest: list_all2_lengthD)
  have "outcomes_message_count (takeWhile ?sys ?outcomes) + outcomes_message_count (dropWhile ?sys ?outcomes)
      = outcomes_message_count ?outcomes"
    by (simp add: outcomes_message_count_def flip: sum_list_append map_append)
  then show ?thesis
    using msgs registrations_length [of ?outcomes] by (simp add: outcomes_message_count_def)
qed

text \<open>C39: Registering applications shifts the identifiers of messages. When a transaction has sent messages of user
  applications, one message per destination is added that registers the applications there, but the index of the next
  message does not count these: it falls behind the number of messages in the block by exactly the number of
  destinations. The identifier from which a later transaction of the block derives the identifier of a new chain or
  application is then not that of its message.\<close>

theorem registrations_shift_message_ids:
  assumes "update_execution_outcomes_with_app_registrations (execution_state self) tracker = Inr tracker'"
    and "destructure tracker' = Inr (outcomes, responses, next_index)"
    and "process_execution_outcomes self height outcomes = Inr (self', msgs, events)"
    and "unat (next_message_index tracker) = start + outcomes_message_count (tt_outcomes tracker)"
  shows "start + length msgs = unat next_index + card (user_destinations (tt_outcomes tracker))"
proof -
  have "outcomes = tt_outcomes tracker'" "next_index = next_message_index tracker'"
    using assms(2) by (auto simp: destructure_def)
  then show ?thesis
    using app_registrations_count [OF assms(1)] process_execution_outcomes_count [OF assms(3)] assms(4) by simp
qed

subsection \<open>Examples\<close>

definition example_chain_env :: "unit chain_env" where
  "example_chain_env = \<lparr>ce_exec = \<lparr>ev_system = example_env, run_contract = (\<lambda>_ _ _ _ _ _ _ _. Inl RuntimeError)\<rparr>,
     ce_election = \<lparr>weights_ok = (\<lambda>_. True), sample_index = (\<lambda>_ _. 0)\<rparr>, ce_state_hash = (\<lambda>_. 5),
     ce_bundle_size = (\<lambda>_. 1), ce_operation_size = (\<lambda>_. 1), ce_outcome_size = (\<lambda>_. 3)\<rparr>"

definition block_chain :: "chain_manager \<Rightarrow> system_state \<Rightarrow> unit chain" where
  "block_chain mgr system =
     \<lparr>cs_chain_id = 1, execution_state = \<lparr>es_chain_id = 1, es_system = system, es_users = ()\<rparr>,
      execution_state_hash = None,
      tip_state = \<lparr>tip_block_hash = None, next_block_height = 0, num_incoming_bundles = 0, num_operations = 0,
        num_outgoing_messages = 0\<rparr>,
      cs_manager = mgr, confirmed_log = [], received_log = [], received_certificate_trackers = Map.empty,
      inboxes = Map.empty, unskippable_bundles = [], removed_unskippable_bundles = {},
      outboxes = Map.empty, outbox_counters = [], channels = Map.empty\<rparr>"

definition example_tracker :: transaction_tracker where
  "example_tracker = (transaction_tracker_new 1 None)\<lparr>tt_outcomes := [UserOutcome (example_app 3)
     (outcome_default\<lparr>reo_messages := [\<lparr>rom_destination = Recipient 2, rom_authenticated = False, rom_grant = 0,
        rom_kind = Simple, rom_message = [7]\<rparr>]\<rparr>)]\<rparr>"

text \<open>Witness: one message of a user application, and one that registers the application.\<close>

theorem registrations_shift_message_ids_witness:
  "\<exists>mgr tracker' outcomes responses next_index self' msgs events.
     update_execution_outcomes_with_app_registrations
       (execution_state (block_chain mgr (example_system\<lparr>sys_registry := example_registry\<rparr>))) example_tracker = Inr tracker'
     \<and> destructure tracker' = Inr (outcomes, responses, next_index)
     \<and> process_execution_outcomes (block_chain mgr (example_system\<lparr>sys_registry := example_registry\<rparr>)) 0 outcomes
       = Inr (self', msgs, events)
     \<and> length msgs = unat next_index + 1"
proof -
  fix mgr
  let ?chain = "block_chain mgr (example_system\<lparr>sys_registry := example_registry\<rparr>)"
  have described: "describe_applications_with_dependencies example_registry [example_app 3] []
      = Inr [example_description 1 [], example_description 2 [1], example_description 3 [1, 2]]"
    by (simp add: describe_applications_with_dependencies_def find_dependencies_def lookup_application_def
        describe_application_def example_registry_def example_description_def)
  obtain tracker' where u: "update_execution_outcomes_with_app_registrations (execution_state ?chain) example_tracker = Inr tracker'"
    and t: "tracker' = example_tracker\<lparr>tt_outcomes := [SystemOutcome (outcome_default\<lparr>reo_messages :=
        [system_message_to (Recipient 2) False Simple (RegisterApplications
          [example_description 1 [], example_description 2 [1], example_description 3 [1, 2]])]\<rparr>),
        UserOutcome (example_app 3) (outcome_default\<lparr>reo_messages := [\<lparr>rom_destination = Recipient 2,
          rom_authenticated = False, rom_grant = 0, rom_kind = Simple, rom_message = [7]\<rparr>]\<rparr>)]\<rparr>"
    by (simp add: update_execution_outcomes_with_app_registrations_def example_tracker_def outcome_default_def
        add_registration_def block_chain_def described)
  have d: "destructure tracker' = Inr (tt_outcomes tracker', [], 1)"
    by (simp add: t destructure_def example_tracker_def transaction_tracker_new_def)
  have "\<exists>self' msgs events. process_execution_outcomes ?chain 0 (tt_outcomes tracker') = Inr (self', msgs, events)"
    by (simp add: t outcome_default_def process_raw_execution_outcome_def try_load_entries_mut_def block_chain_def
        schedule_message_def outbox_new_def try_add_one_def checked_add_def counter_increment_def
        process_unsubscribes_def process_subscribes_def system_message_to_def)
  then obtain self' msgs events where
    p: "process_execution_outcomes ?chain 0 (tt_outcomes tracker') = Inr (self', msgs, events)" by blast
  have "unat (next_message_index example_tracker) = 0 + outcomes_message_count (tt_outcomes example_tracker)"
    "card (user_destinations (tt_outcomes example_tracker)) = 1"
    by (simp_all add: example_tracker_def transaction_tracker_new_def outcomes_message_count_def user_destinations_def)
  with registrations_shift_message_ids [OF u d p this(1)] have "length msgs = unat (1 :: 32 word) + 1" by simp
  with u d p show ?thesis by blast
qed

text \<open>A block of a closed chain.\<close>

definition closing_block :: block where
  "closing_block = \<lparr>block_chain_id = 1, block_epoch = 0, incoming_bundles = [\<lparr>ib_origin = origin_chain 2,
       ib_bundle = \<lparr>mb_height = 0, mb_timestamp = 0, mb_certificate_hash = 8, mb_transaction_index = 0,
         mb_messages = [\<lparr>pm_authenticated_signer = None, pm_grant = 0, pm_refund_grant_to = None, pm_kind = Simple,
           pm_index = 0, pm_message = SystemMsg ApplicationCreated\<rparr>]\<rparr>, ib_action = Reject\<rparr>],
     operations = [], block_height_of = 1, block_timestamp = 4, block_authenticated_signer = None,
     previous_block_hash = Some 3\<rparr>"

definition sized_controller :: "u64 \<Rightarrow> payer_controller" where
  "sized_controller n = \<lparr>rc_policy = policy_default, rc_tracker = tracker_default\<lparr>rt_executed_block_size := n\<rparr>,
     rc_account = None\<rparr>"

lemma track_sized:
  assumes "unat k + n < 2 ^ 64"
  shows "track_executed_block_size (sized_controller k) n = Inr (sized_controller (k + of_nat n))"
proof -
  have n: "(try_from_nat n :: u64 option) = Some (of_nat n)" using assms by (simp add: try_from_nat_def)
  have "unat (of_nat n :: u64) = n" using assms by (simp add: unat_of_nat take_bit_nat_eq_self)
  then have "checked_add k (of_nat n :: u64) = Some (k + of_nat n)" using assms by (simp add: checked_add_def)
  then show ?thesis
    by (simp add: track_executed_block_size_def sized_controller_def n policy_default_def max_value_def)
qed

lemma track_same_size:
  "track_executed_block_size_sequence_extension rc 0 (Suc 0) = Inr rc"
  "track_executed_block_size_sequence_extension rc 0 0 = Inr rc"
  by (simp_all add: track_executed_block_size_sequence_extension_def sequence_len_size_def
      bit_width.simps [of 0] bit_width.simps [of "Suc 0"])

lemma closing_block_starts:
  "track_block_start closing_block (sized_controller 0) = Inr (sized_controller 91)"
  by (simp add: track_block_start_def track_sized empty_executed_block_size_def track_same_size closing_block_def)

lemma closing_transaction:
  assumes "is_closed self"
  shows "\<exists>st. execute_transactions example_chain_env closing_block 0 (transactions closing_block)
     \<lparr>bs_chain = self, bs_controller = sized_controller 91, bs_next_index = 0, bs_replaying = None, bs_responses = [],
      bs_messages = [], bs_events = []\<rparr> = Inr st \<and> bs_chain st = self \<and> length (bs_messages st) = 1"
  using assms
  by (simp add: transactions_def closing_block_def execute_transaction_def run_transaction_def track_sized
      example_chain_env_def messages_and_ids_def execute_message_in_block_def reject_message_def pm_is_protected_def
      pm_is_tracked_def update_execution_outcomes_with_app_registrations_def transaction_tracker_new_def
      destructure_def with_execution_context_def track_outcome_size_def track_same_size)

lemma closing_block_runs:
  "\<exists>mgr self' outcome. execute_block example_chain_env (block_chain mgr (example_system\<lparr>sys_closed := True\<rparr>))
     closing_block 0 None = Inr (self', outcome)"
proof -
  fix mgr
  let ?chain = "block_chain mgr (example_system\<lparr>sys_closed := True\<rparr>)"
  let ?self = "set_block_timestamp ?chain 4"
  have closed: "is_closed ?self"
    by (simp add: is_closed_def chain_system_def block_chain_def set_block_timestamp_def)
  have committee: "current_committee (chain_system ?self) = Some (0, committee_new [] policy_default)"
    by (simp add: chain_system_def block_chain_def set_block_timestamp_def example_system_def current_committee_def bt_get_def)
  obtain st where st: "execute_transactions example_chain_env closing_block 0 (transactions closing_block)
     \<lparr>bs_chain = ?self, bs_controller = sized_controller 91, bs_next_index = 0, bs_replaying = None, bs_responses = [],
      bs_messages = [], bs_events = []\<rparr> = Inr st" "bs_chain st = ?self" "length (bs_messages st) = 1"
    using closing_transaction [OF closed] by blast
  have start: "track_block_start closing_block
      \<lparr>rc_policy = policy_default, rc_tracker = tracker_default,
        rc_account = block_authenticated_signer closing_block\<rparr> = Inr (sized_controller 91)"
    using closing_block_starts by (simp add: sized_controller_def closing_block_def tracker_default_def)
  have weights: "alias_new (ce_election example_chain_env) w = Inr (if w = [] then None else Some w)" for w
    by (simp add: alias_new_def example_chain_env_def)
  have manager: "\<exists>self'. reset_manager example_chain_env (?self\<lparr>execution_state_hash := h\<rparr>) 2 0 = Inr self'" for h
    by (simp add: reset_manager_def manager_reset_def manager_new_def weights Let_def)
  have height: "try_add_one (1 :: u64) = Inr 2" by (simp add: try_add_one_def checked_add_def)
  have init: "init_if_opened example_chain_env ?chain closing_block 0 = Inr ?chain"
    by (simp add: init_if_opened_def closing_block_def)
  have checks: "block_chain_id closing_block = cs_chain_id ?chain" "block_timestamp closing_block = 4"
    "sys_timestamp (chain_system ?chain) \<le> 4" "block_height_of closing_block = 1"
    "incoming_bundles closing_block \<noteq> []" "has_only_rejected_messages closing_block"
    "length (incoming_bundles closing_block) + length (operations closing_block) = 1"
    "check_application_permissions (sys_application_permissions (chain_system ?self)) closing_block = Inr ()"
    by (simp_all add: closing_block_def block_chain_def chain_system_def set_block_timestamp_def example_system_def
        fresh_system_def has_only_rejected_messages_def check_application_permissions_def permissions_default_def)
  from manager obtain self' where
    "reset_manager example_chain_env (?self\<lparr>execution_state_hash := Some 5\<rparr>) 2 0 = Inr self'" by blast
  moreover have "ce_state_hash example_chain_env e = 5" for e by (simp add: example_chain_env_def)
  ultimately have "\<exists>outcome. execute_block example_chain_env ?chain closing_block 0 None = Inr (self', outcome)"
    unfolding execute_block_def
    by (simp add: init checks closed committee start st height Let_def with_execution_context_def del: set_block_timestamp_state)
  then show ?thesis by blast
qed

text \<open>Witness: a closed chain executes a block that rejects a message.\<close>

theorem closed_chain_only_rejects_witness:
  "\<exists>mgr self' outcome. execute_block example_chain_env (block_chain mgr (example_system\<lparr>sys_closed := True\<rparr>))
     closing_block 0 None = Inr (self', outcome)
     \<and> chain_system self' = example_system\<lparr>sys_closed := True, sys_timestamp := 4\<rparr>"
proof -
  obtain mgr self' outcome where
    r: "execute_block example_chain_env (block_chain mgr (example_system\<lparr>sys_closed := True\<rparr>))
     closing_block 0 None = Inr (self', outcome)"
    using closing_block_runs by blast
  have "is_closed (block_chain mgr (example_system\<lparr>sys_closed := True\<rparr>))"
    by (simp add: is_closed_def chain_system_def block_chain_def)
  from closed_chain_only_rejects [OF this r]
  have "chain_system self' = example_system\<lparr>sys_closed := True, sys_timestamp := 4\<rparr>"
    by (simp add: chain_system_def block_chain_def closing_block_def)
  with r show ?thesis by blast
qed


end
