(* ===== verification/Block_Spending.thy ===== *)
theory Block_Spending
  imports Chain_Execution
begin

section \<open>Whose tokens a block can spend (linera-chain/src/chain.rs)\<close>

text \<open>
  A block names the owner who authorises it; \<open>execute_block\<close> makes that owner the signer of the operations and the payer
  of the fees. What another user can lose in the block are the claims the user has sent from elsewhere, and what
  applications do in handling messages that carry the user's signature. Applications are the parameter
  \<open>run_contract\<close>; the interface they use checks the signer of the action they handle (\<open>contracts_respect\<close>).
\<close>

definition contracts_respect :: "'u exec_env \<Rightarrow> owner \<Rightarrow> bool" where
  "contracts_respect env own \<longleftrightarrow>
     (\<forall>app cid t action refund rc tracker st st' rc' tracker'.
        run_contract env app cid t action refund rc tracker st = Inr (st', rc', tracker')
        \<and> user_action_signer action \<noteq> Some own
        \<longrightarrow> user_tokens (es_system st) own \<le> user_tokens (es_system st') own)"

lemma contracts_respectD:
  "contracts_respect env own \<Longrightarrow> run_contract env app cid t action refund rc tracker st = Inr (st', rc', tracker')
   \<Longrightarrow> user_action_signer action \<noteq> Some own \<Longrightarrow> user_tokens (es_system st) own \<le> user_tokens (es_system st') own"
  unfolding contracts_respect_def by blast

text \<open>The claims of a user that a block accepts.\<close>

fun withdrawn_by :: "owner \<Rightarrow> message \<Rightarrow> nat" where
  "withdrawn_by own (SystemMsg (Withdraw (AccountUser source) a _)) = (if source = own then unat a else 0)"
| "withdrawn_by own _ = 0"

fun withdrawn_in :: "owner \<Rightarrow> transaction \<Rightarrow> nat" where
  "withdrawn_in own (ReceiveMessages in_bundle) =
     (if ib_action in_bundle = Accept
      then sum_list (map (withdrawn_by own \<circ> pm_message) (mb_messages (ib_bundle in_bundle))) else 0)"
| "withdrawn_in own (ExecuteOperation _) = 0"

definition accepted_claims :: "owner \<Rightarrow> block \<Rightarrow> nat" where
  "accepted_claims own blk = sum_list (map (withdrawn_in own \<circ> ReceiveMessages) (incoming_bundles blk))"

text \<open>No accepted message to an application carries the user's signature.\<close>

fun foreign :: "owner \<Rightarrow> transaction \<Rightarrow> bool" where
  "foreign own (ReceiveMessages in_bundle) \<longleftrightarrow>
     (ib_action in_bundle = Accept \<longrightarrow> list_all (\<lambda>posted.
        case pm_message posted of SystemMsg _ \<Rightarrow> True | UserMsg _ _ \<Rightarrow> pm_authenticated_signer posted \<noteq> Some own)
        (mb_messages (ib_bundle in_bundle)))"
| "foreign own (ExecuteOperation _) \<longleftrightarrow> True"

subsection \<open>What each part of a block costs a user\<close>

type_synonym paying = "system_state \<times> owner option"

text \<open>The payer stays, and a user who is not the payer loses at most \<open>k\<close>.\<close>

definition costs :: "owner \<Rightarrow> nat \<Rightarrow> paying \<Rightarrow> paying \<Rightarrow> bool" where
  "costs own k st st' \<longleftrightarrow>
     snd st' = snd st \<and> (snd st \<noteq> Some own \<longrightarrow> user_tokens (fst st) own \<le> user_tokens (fst st') own + k)"

lemma costs_refl [simp]: "costs own k st st"
  by (simp add: costs_def)

lemma costs_trans: "costs own j st1 st2 \<Longrightarrow> costs own k st2 st3 \<Longrightarrow> costs own (j + k) st1 st3"
  by (auto simp: costs_def)

lemma costs_trans0: "costs own j st1 st2 \<Longrightarrow> costs own 0 st2 st3 \<Longrightarrow> costs own j st1 st3"
  using costs_trans [of own j st1 st2 0 st3] by simp

lemma costs_trans1: "costs own 0 st1 st2 \<Longrightarrow> costs own k st2 st3 \<Longrightarrow> costs own k st1 st3"
  using costs_trans [of own 0 st1 st2 k st3] by simp

lemma with_state_and_grant_costs:
  assumes "with_state_and_grant rc self grant action = Inr (rc', self', grant')"
  shows "costs own 0 (es_system self, rc_account rc) (es_system self', rc_account rc')"
  using assms put_sources_user [of "rc_account rc" own]
  by (auto simp: with_state_and_grant_def Let_def case_prod_beta costs_def)

lemma with_chain_state_costs:
  assumes "with_chain_state rc self action = Inr (rc', self')"
  shows "costs own 0 (chain_system self, rc_account rc) (chain_system self', rc_account rc')"
  using assms with_state_and_grant_costs [of rc "execution_state self" None action _ _ _ own]
  by (auto simp: with_chain_state_def with_state_def chain_system_def)

lemma block_size_account:
  "track_executed_block_size rc n = Inr rc' \<Longrightarrow> rc_account rc' = rc_account rc"
  "track_executed_block_size_sequence_extension rc i j = Inr rc' \<Longrightarrow> rc_account rc' = rc_account rc"
  by (auto simp: track_executed_block_size_def track_executed_block_size_sequence_extension_def Let_def split: if_splits)

lemma run_user_action_costs:
  assumes "run_user_action env app cid t action refund grant (self, tracker, rc) = Inr ((self', tracker', rc'), grant')"
    and "contracts_respect env own" and "rc_account rc \<noteq> Some own \<Longrightarrow> user_action_signer action \<noteq> Some own"
  shows "costs own 0 (es_system self, rc_account rc) (es_system self', rc_account rc')"
proof -
  obtain i self1 controller rc1 where
    run: "run_contract env app cid t action refund
      \<lparr>rc_policy = rc_policy rc, rc_tracker = rc_tracker rc, rc_account = i\<rparr> tracker self = Inr (self1, controller, tracker')"
    and pay: "with_state_and_grant rc self1 grant
      (\<lambda>rc. merge_balance sources_holder rc i (rc_account controller)) = Inr (rc1, self', grant')"
    and rc': "rc_account rc' = rc_account rc1"
    using assms(1) by (auto simp: run_user_action_def Let_def)
  have "costs own 0 (es_system self, rc_account rc) (es_system self1, rc_account rc)"
    using contracts_respectD [OF assms(2) run] assms(3) by (simp add: costs_def)
  from costs_trans0 [OF this with_state_and_grant_costs [OF pay]] show ?thesis by (simp add: rc')
qed

lemma exec_execute_operation_costs:
  assumes "exec_execute_operation env context t op (self, tracker, rc) = Inr (self', tracker', rc')"
    and "contracts_respect env own" and "oc_authenticated_signer context = rc_account rc"
  shows "costs own 0 (es_system self, rc_account rc) (es_system self', rc_account rc')"
proof (cases op)
  case (UserOp app_id bytes)
  then show ?thesis
    using assms run_user_action_costs [of env app_id _ _ "UserOperation context bytes"]
    by (fastforce simp: exec_execute_operation_def)
next
  case (SystemOp sys_op)
  then obtain system tracker1 new where
    sys: "system_execute_operation (ev_system env) (es_system self) context sys_op tracker = Inr (system, tracker1, new)"
    and rest: "(case new of
        Some (app_id, argument) \<Rightarrow>
          and_then (run_user_action env app_id (oc_chain_id context) t (UserInstantiate context argument)
            (oc_refund_grant_to context) None (self\<lparr>es_system := system\<rparr>, tracker1, rc)) (\<lambda>(st, _). Inr st)
      | None \<Rightarrow> Inr (self\<lparr>es_system := system\<rparr>, tracker1, rc)) = Inr (self', tracker', rc')"
    using assms(1) by (auto simp: exec_execute_operation_def Let_def)
  obtain tracker2 msgs where "operation_effect (ev_system env) (es_system self) context sys_op tracker = Inr (system, tracker2, msgs, new)"
    using sys by (auto simp: system_execute_operation_def)
  from operation_spends [OF this, of own 0]
  have "costs own 0 (es_system self, rc_account rc) (system, rc_account rc)"
    using assms(3) by (fastforce simp: costs_def not_le)
  moreover have "costs own 0 (system, rc_account rc) (es_system self', rc_account rc')"
  proof (cases new)
    case (Some x)
    then show ?thesis
      using rest assms(2,3) run_user_action_costs [of env "fst x" _ _ "UserInstantiate context (snd x)" _ None
          "self\<lparr>es_system := system\<rparr>" tracker1 rc self' tracker' rc' _ own]
      by (cases x) auto
  qed (use rest in auto)
  ultimately show ?thesis by (rule costs_trans0)
qed

lemma exec_execute_message_costs:
  assumes "exec_execute_message env context t msg grant (self, tracker, rc) = Inr ((self', tracker', rc'), grant')"
    and "contracts_respect env own"
    and "case msg of SystemMsg _ \<Rightarrow> True | UserMsg _ _ \<Rightarrow> mc_authenticated_signer context \<noteq> Some own"
  shows "costs own (withdrawn_by own msg) (es_system self, rc_account rc) (es_system self', rc_account rc')"
proof (cases msg)
  case (UserMsg app_id bytes)
  then show ?thesis
    using assms run_user_action_costs [of env app_id _ _ "UserMessage context bytes"]
    by (fastforce simp: exec_execute_message_def)
next
  case (SystemMsg sys_msg)
  then obtain tracker1 outcome where
    sys: "system_execute_message (ev_system env) (es_system self) context sys_msg tracker = Inr (es_system self', tracker1, outcome)"
    and rc: "rc' = rc"
    using assms(1) by (auto simp: exec_execute_message_def Let_def)
  show ?thesis
  proof (cases "user_tokens (es_system self') own < user_tokens (es_system self) own")
    case True
    from message_spends [OF sys True, of 0] show ?thesis by (auto simp: costs_def rc SystemMsg)
  qed (simp add: costs_def rc)
qed

text \<open>The payer of a transaction's state.\<close>

fun paying_of :: "'u txn_state \<Rightarrow> paying" where
  "paying_of (self, tracker, rc) = (chain_system self, rc_account rc)"

lemma accept_message_costs:
  assumes "accept_message env ctx posted i t st = Inr st'" and "contracts_respect (ce_exec env) own"
    and "case pm_message posted of SystemMsg _ \<Rightarrow> True | UserMsg _ _ \<Rightarrow> mc_authenticated_signer ctx \<noteq> Some own"
  shows "costs own (withdrawn_by own (pm_message posted)) (paying_of st) (paying_of st')"
proof -
  obtain self tracker rc where st: "st = (self, tracker, rc)" by (cases st)
  obtain exec tracker1 rc1 left tracker2 where
    run: "exec_execute_message (ce_exec env) ctx t (pm_message posted)
        (if 0 < pm_grant posted then Some (pm_grant posted) else None) (execution_state self, tracker, rc)
      = Inr ((exec, tracker1, rc1), left)"
    and st': "st' = (self\<lparr>execution_state := exec\<rparr>, tracker2, rc1)"
    using assms(1) by (auto simp: accept_message_def st with_execution_context_def Let_def split: option.splits if_splits)
  show ?thesis
    using exec_execute_message_costs [OF run assms(2,3)] by (simp add: st st' chain_system_def)
qed

lemma execute_messages_in_block_costs:
  assumes "execute_messages_in_block env msgs in_bundle blk i t st = Inr st'" and "contracts_respect (ce_exec env) own"
    and "ib_action in_bundle = Accept \<Longrightarrow> list_all (\<lambda>(_, posted).
        case pm_message posted of SystemMsg _ \<Rightarrow> True | UserMsg _ _ \<Rightarrow> pm_authenticated_signer posted \<noteq> Some own) msgs"
  shows "costs own (if ib_action in_bundle = Accept then sum_list (map (withdrawn_by own \<circ> pm_message \<circ> snd) msgs) else 0)
    (paying_of st) (paying_of st')"
  using assms
proof (induction msgs arbitrary: st)
  case (Cons msg msgs)
  obtain mid posted where msg: "msg = (mid, posted)" by (cases msg)
  let ?ctx = "block_message_context blk in_bundle mid posted"
  obtain st1 where st1: "execute_message_in_block env mid posted in_bundle blk i t st = Inr st1"
    and rest: "execute_messages_in_block env msgs in_bundle blk i t st1 = Inr st'"
    using Cons.prems(1) by (auto simp: msg)
  have tail: "costs own (if ib_action in_bundle = Accept then sum_list (map (withdrawn_by own \<circ> pm_message \<circ> snd) msgs) else 0)
      (paying_of st1) (paying_of st')"
    using Cons.IH [OF rest Cons.prems(2)] Cons.prems(3) by simp
  show ?case
  proof (cases "ib_action in_bundle")
    case Accept
    then have "accept_message env ?ctx posted i t st = Inr st1"
      using st1 by (simp add: execute_message_in_block_def)
    moreover have signer: "mc_authenticated_signer ?ctx = pm_authenticated_signer posted"
      by (simp add: block_message_context_def)
    ultimately have "costs own (withdrawn_by own (pm_message posted)) (paying_of st) (paying_of st1)"
      using accept_message_costs [OF _ Cons.prems(2), where ctx = ?ctx, unfolded signer] Cons.prems(3) [OF Accept]
      by (simp add: msg)
    from costs_trans [OF this tail] show ?thesis by (simp add: Accept msg)
  next
    case Reject
    then have "paying_of st1 = paying_of st"
      using st1 reject_message_state by (cases st; cases st1) (fastforce simp: execute_message_in_block_def)
    then show ?thesis using tail Reject by simp
  qed
qed simp

lemma charge_messages_costs:
  "charge_messages msgs (rc, self) = Inr (rc', self') \<Longrightarrow>
     costs own 0 (chain_system self, rc_account rc) (chain_system self', rc_account rc')"
proof (induction msgs arbitrary: rc self)
  case (Cons msg msgs)
  then obtain rc1 self1 where
    one: "with_chain_state rc self (\<lambda>c. track_message sources_holder c (om_message msg)) = Inr (rc1, self1)"
    and rest: "charge_messages msgs (rc1, self1) = Inr (rc', self')"
    by auto
  from costs_trans0 [OF with_chain_state_costs [OF one] Cons.IH [OF rest]] show ?case .
qed simp

lemma run_transaction_costs:
  assumes "run_transaction env blk t i txn st = Inr st'" and "contracts_respect (ce_exec env) own"
    and "foreign own txn" and "snd (paying_of st) = block_authenticated_signer blk"
  shows "costs own (withdrawn_in own txn) (paying_of st) (paying_of st')"
proof -
  obtain self tracker rc where st: "st = (self, tracker, rc)" by (cases st)
  show ?thesis
  proof (cases txn)
    case (ReceiveMessages in_bundle)
    then obtain rc1 where size: "rc_account rc1 = rc_account rc"
      and run: "execute_messages_in_block env (messages_and_ids in_bundle) in_bundle blk i t (self, tracker, rc1) = Inr st'"
      using assms(1) by (auto simp: run_transaction_def st with_execution_context_def dest: block_size_account(1))
    have "map (withdrawn_by own \<circ> pm_message \<circ> snd) (messages_and_ids in_bundle)
        = map (withdrawn_by own \<circ> pm_message) (mb_messages (ib_bundle in_bundle))"
      by (simp add: messages_and_ids_def Let_def comp_def)
    moreover have "list_all (\<lambda>(_, posted).
        case pm_message posted of SystemMsg _ \<Rightarrow> True | UserMsg _ _ \<Rightarrow> pm_authenticated_signer posted \<noteq> Some own)
        (messages_and_ids in_bundle)" if "ib_action in_bundle = Accept"
      using assms(3) that by (simp add: ReceiveMessages messages_and_ids_def Let_def list.pred_map comp_def)
    ultimately show ?thesis
      using execute_messages_in_block_costs [OF run assms(2)] size
      by (cases "ib_action in_bundle") (simp_all add: ReceiveMessages st)
  next
    case (ExecuteOperation op)
    then obtain rc1 exec tracker1 rc2 self2 rc3 where size: "rc_account rc1 = rc_account rc"
      and run: "exec_execute_operation (ce_exec env)
        \<lparr>oc_chain_id = cs_chain_id self, oc_authenticated_signer = block_authenticated_signer blk,
         oc_authenticated_caller_id = None, oc_height = block_height_of blk, oc_index = Some i\<rparr>
        t op (execution_state self, tracker, rc1) = Inr (exec, tracker1, rc2)"
      and fee: "with_chain_state rc2 (self\<lparr>execution_state := exec\<rparr>) (\<lambda>c. track_operation sources_holder c op) = Inr (rc3, self2)"
      and st': "st' = (self2, tracker1, rc3)"
      using assms(1) by (auto simp: run_transaction_def st with_execution_context_def Let_def dest: block_size_account(1))
    have "costs own 0 (es_system (execution_state self), rc_account rc1) (es_system exec, rc_account rc2)"
      using exec_execute_operation_costs [OF run assms(2)] assms(4) by (simp add: st size)
    from costs_trans0 [OF this with_chain_state_costs [OF fee, of own, unfolded chain_system_def, simplified]]
    show ?thesis by (simp add: st st' ExecuteOperation chain_system_def size)
  qed
qed

text \<open>The same for the state of the loop over the transactions.\<close>

definition paying_block :: "'u block_state \<Rightarrow> paying" where
  "paying_block st = (chain_system (bs_chain st), rc_account (bs_controller st))"

lemma execute_transaction_costs:
  assumes "execute_transaction env blk t (i, txn) st = Inr st'" and "contracts_respect (ce_exec env) own"
    and "foreign own txn" and "snd (paying_block st) = block_authenticated_signer blk"
  shows "costs own (withdrawn_in own txn) (paying_block st) (paying_block st')"
proof -
  obtain maybe self1 tracker1 rc1 outcomes self2 msgs events rc3 rc4 responses where
    run: "run_transaction env blk t i txn
      (bs_chain st, transaction_tracker_new (bs_next_index st) maybe, bs_controller st) = Inr (self1, tracker1, rc1)"
    and outs: "process_execution_outcomes self1 (block_height_of blk) outcomes = Inr (self2, msgs, events)"
    and pay: "(if pays_for_messages txn
      then with_execution_context (charge_messages msgs (rc1, self2)) (transaction_context i txn)
      else Inr (rc1, self2)) = Inr (rc3, bs_chain st')"
    and size: "track_outcome_size env st responses msgs events rc3 = Inr rc4" "bs_controller st' = rc4"
    using assms(1)
    by (auto simp: execute_transaction_def Let_def with_execution_context_def)
  have "costs own (withdrawn_in own txn) (paying_block st) (chain_system self1, rc_account rc1)"
    using run_transaction_costs [OF run assms(2,3)] assms(4) by (simp add: paying_block_def)
  moreover have "chain_system self2 = chain_system self1"
    using process_execution_outcomes_state [OF outs] by (simp add: chain_system_def)
  moreover have "costs own 0 (chain_system self2, rc_account rc1) (chain_system (bs_chain st'), rc_account rc3)"
    using pay charge_messages_costs [of msgs rc1 self2 rc3 "bs_chain st'" own] 
    by (cases "pays_for_messages txn") (auto simp: with_execution_context_def)
  moreover have "rc_account rc4 = rc_account rc3"
    using size(1) by (auto simp: track_outcome_size_def dest!: block_size_account)
  ultimately show ?thesis
    using costs_trans0 by (fastforce simp: paying_block_def size(2))
qed

lemma execute_transactions_costs:
  assumes "execute_transactions env blk t txns st = Inr st'" and "contracts_respect (ce_exec env) own"
    and "list_all (\<lambda>(_, txn). foreign own txn) txns" and "snd (paying_block st) = block_authenticated_signer blk"
  shows "costs own (sum_list (map (\<lambda>x. withdrawn_in own (snd x)) txns)) (paying_block st) (paying_block st')"
  using assms
proof (induction txns arbitrary: st)
  case (Cons txn txns)
  obtain i x where txn: "txn = (i, x)" by (cases txn)
  obtain st1 where one: "execute_transaction env blk t (i, x) st = Inr st1"
    and rest: "execute_transactions env blk t txns st1 = Inr st'"
    using Cons.prems(1) by (auto simp: txn)
  have c: "costs own (withdrawn_in own x) (paying_block st) (paying_block st1)"
    using execute_transaction_costs [OF one Cons.prems(2) _ Cons.prems(4)] Cons.prems(3) by (simp add: txn)
  then have "snd (paying_block st1) = block_authenticated_signer blk"
    using Cons.prems(4) by (simp add: costs_def)
  then have "costs own (sum_list (map (\<lambda>x. withdrawn_in own (snd x)) txns)) (paying_block st1) (paying_block st')"
    using Cons.IH [OF rest Cons.prems(2)] Cons.prems(3) by simp
  from costs_trans [OF c this] show ?case by (simp add: txn)
qed simp

lemma transactions_sum:
  "sum_list (map (\<lambda>x. withdrawn_in own (snd x)) (transactions blk)) = accepted_claims own blk"
proof -
  have "map (\<lambda>x. f (snd x)) (zip_from i xs) = map f xs" for f :: "transaction \<Rightarrow> nat" and i xs
    by (induction xs arbitrary: i) auto
  then show ?thesis by (simp add: transactions_def accepted_claims_def comp_def)
qed

lemma transactions_foreign:
  "list_all (\<lambda>(_, txn). foreign own txn) (transactions blk) \<longleftrightarrow>
     list_all (\<lambda>in_bundle. foreign own (ReceiveMessages in_bundle)) (incoming_bundles blk)"
proof -
  have "list_all (\<lambda>(_, txn). P txn) (zip_from i xs) = list_all P xs" for P :: "transaction \<Rightarrow> bool" and i xs
    by (induction xs arbitrary: i) auto
  then show ?thesis by (simp add: transactions_def list.pred_map comp_def list.pred_True)
qed

lemma init_if_opened_tokens:
  "init_if_opened env self blk t = Inr self' \<Longrightarrow> user_tokens (chain_system self') own = user_tokens (chain_system self) own"
  by (auto simp: init_if_opened_def execute_init_message_def initialize_chain_def chain_system_def user_tokens_def Let_def
      split: if_splits prod.splits dest!: reset_manager_state)


subsection \<open>A block that accepts a claim\<close>

definition claim_bundle :: incoming_bundle where
  "claim_bundle = \<lparr>ib_origin = origin_chain 2,
     ib_bundle = \<lparr>mb_height = 0, mb_timestamp = 0, mb_certificate_hash = 8, mb_transaction_index = 0,
       mb_messages = [\<lparr>pm_authenticated_signer = Some 7, pm_grant = 0, pm_refund_grant_to = None, pm_kind = Simple,
         pm_index = 0, pm_message = SystemMsg (Withdraw (AccountUser 7) 3 Burn)\<rparr>]\<rparr>, ib_action = Accept\<rparr>"

definition claim_block :: block where
  "claim_block = \<lparr>block_chain_id = 1, block_epoch = 0, incoming_bundles = [claim_bundle], operations = [],
     block_height_of = 1, block_timestamp = 4, block_authenticated_signer = None, previous_block_hash = Some 3\<rparr>"

lemma claim_transaction:
  assumes "chain_system self = example_system\<lparr>sys_timestamp := 4\<rparr>" "es_chain_id (execution_state self) = 1"
  shows "\<exists>st. execute_transactions example_chain_env claim_block 0 (transactions claim_block)
     \<lparr>bs_chain = self, bs_controller = sized_controller 91, bs_next_index = 0, bs_replaying = None, bs_responses = [],
      bs_messages = [], bs_events = []\<rparr> = Inr st
     \<and> chain_system (bs_chain st) = example_system\<lparr>sys_timestamp := 4, sys_balances := [AccountUser 7 \<mapsto> 2]\<rparr>
     \<and> bs_controller st = sized_controller 95 \<and> length (bs_messages st) = 1"
proof -
  have sub: "try_sub_assign (5 :: amount) 3 = Inr 2" by simp
  have d: "debit (es_system (execution_state self)) (Some (AccountUser 7)) 3
      = Inr (example_system\<lparr>sys_timestamp := 4, sys_balances := [AccountUser 7 \<mapsto> 2]\<rparr>)"
    using assms unfolding debit_def by (simp add: chain_system_def example_system_def sub del: try_sub_assign_Inr_iff)
  have sys: "\<not> sys_closed example_system" "chain_system (self\<lparr>execution_state := e\<rparr>) = es_system e" for e
    by (simp_all add: example_system_def fresh_system_def chain_system_def)
  show ?thesis
    using assms(2)
    by (simp add: sys transactions_def claim_block_def claim_bundle_def execute_transaction_def run_transaction_def track_sized
        example_chain_env_def messages_and_ids_def execute_message_in_block_def accept_message_def block_message_context_def
        is_closed_def assms(1) exec_execute_message_def system_execute_message_def d credit_message_def
        with_execution_context_def Let_def add_system_outcome_def add_outcome_def outcome_default_def destructure_def
        update_execution_outcomes_with_app_registrations_def transaction_tracker_new_def process_raw_execution_outcome_def
        try_load_entries_mut_def process_unsubscribes_def process_subscribes_def track_outcome_size_def track_same_size
        checked_add_def try_from_nat_def)
qed

lemma track_block_free:
  assumes "chain_system self = example_system\<lparr>sys_timestamp := a, sys_balances := b\<rparr>"
  shows "\<exists>rc self'. with_chain_state (sized_controller n) self (track_block sources_holder) = Inr (rc, self')
    \<and> chain_system self' = chain_system self \<and> cs_chain_id self' = cs_chain_id self"
  using assms
  by (simp add: with_chain_state_def with_state_def with_state_and_grant_def track_block_def sized_controller_def
      tracker_default_def funding_sources_def owner_source_def put_sources_def chain_system_def update_balance_def
      sources_holder_def policy_default_def try_add_def try_sub_assign_def checked_add_def checked_sub_def
      example_system_def Let_def)

lemma claim_block_runs:
  "\<exists>self' outcome. execute_block example_chain_env (block_chain mgr example_system) claim_block 0 None = Inr (self', outcome)
     \<and> chain_system self' = example_system\<lparr>sys_timestamp := 4, sys_balances := [AccountUser 7 \<mapsto> 2]\<rparr>"
proof -
  let ?chain = "block_chain mgr example_system"
  let ?self = "set_block_timestamp ?chain 4"
  have sys: "chain_system (block_chain mgr s) = s" "cs_chain_id (block_chain mgr s) = 1" for s
    by (simp_all add: chain_system_def block_chain_def)
  have closed: "\<not> is_closed ?self"
    by (simp add: is_closed_def sys example_system_def fresh_system_def)
  have committee: "current_committee (chain_system ?self) = Some (0, committee_new [] policy_default)"
    by (simp add: sys example_system_def current_committee_def bt_get_def)
  obtain st where st: "execute_transactions example_chain_env claim_block 0 (transactions claim_block)
     \<lparr>bs_chain = ?self, bs_controller = sized_controller 91, bs_next_index = 0, bs_replaying = None, bs_responses = [],
      bs_messages = [], bs_events = []\<rparr> = Inr st"
    "chain_system (bs_chain st) = example_system\<lparr>sys_timestamp := 4, sys_balances := [AccountUser 7 \<mapsto> 2]\<rparr>"
    "bs_controller st = sized_controller 95" "length (bs_messages st) = 1"
    using claim_transaction [of ?self] by (auto simp: sys set_block_timestamp_def chain_system_def block_chain_def)
  obtain rc self2 where fee: "with_chain_state (sized_controller 95) (bs_chain st) (track_block sources_holder) = Inr (rc, self2)"
    "chain_system self2 = chain_system (bs_chain st)"
    using track_block_free [OF st(2)] by blast
  have start: "track_block_start claim_block
      \<lparr>rc_policy = policy_default, rc_tracker = tracker_default,
        rc_account = block_authenticated_signer claim_block\<rparr> = Inr (sized_controller 91)"
    using closing_block_starts
    by (simp add: sized_controller_def claim_block_def closing_block_def tracker_default_def track_block_start_def)
  have open_st: "\<not> is_closed (bs_chain st)"
    by (simp add: is_closed_def st(2) example_system_def fresh_system_def)
  have height: "try_add_one (1 :: u64) = Inr 2" by (simp add: try_add_one_def checked_add_def)
  have init: "init_if_opened example_chain_env ?chain claim_block 0 = Inr ?chain"
    by (simp add: init_if_opened_def claim_block_def)
  have checks: "block_chain_id claim_block = cs_chain_id ?chain" "block_timestamp claim_block = 4"
    "sys_timestamp (chain_system ?chain) \<le> 4" "block_height_of claim_block = 1"
    "length (incoming_bundles claim_block) + length (operations claim_block) = 1"
    "check_application_permissions (sys_application_permissions (chain_system ?self)) claim_block = Inr ()"
    by (simp_all add: claim_block_def sys example_system_def fresh_system_def check_application_permissions_def
        permissions_default_def)
  have weights: "alias_new (ce_election example_chain_env) w = Inr (if w = [] then None else Some w)" for w
    by (simp add: alias_new_def example_chain_env_def)
  have "\<exists>self'. reset_manager example_chain_env (self2\<lparr>execution_state_hash := Some 5\<rparr>) 2 0 = Inr self'"
    by (simp add: reset_manager_def manager_reset_def manager_new_def weights Let_def)
  then obtain self' where reset: "reset_manager example_chain_env (self2\<lparr>execution_state_hash := Some 5\<rparr>) 2 0 = Inr self'"
    by blast
  moreover have "ce_state_hash example_chain_env e = 5" for e by (simp add: example_chain_env_def)
  ultimately have "\<exists>outcome. execute_block example_chain_env ?chain claim_block 0 None = Inr (self', outcome)"
    unfolding execute_block_def
    by (simp add: init checks closed committee start st open_st fee height Let_def with_execution_context_def
        del: set_block_timestamp_state)
  moreover have "chain_system self' = chain_system self2"
    using reset_manager_state [OF reset] by (simp add: chain_system_def)
  ultimately show ?thesis using fee(2) st(2) by auto
qed


end
