(* ===== verification/Chain_Info.thy ===== *)
theory Chain_Info
  imports Chain_Execution
begin

section \<open>Information about a chain (linera-core/src/data_types.rs)\<close>

text \<open>
  The queries a validator answers, the information it returns and signs, and the requests its chains send each other.
\<close>

record block_height_range =
  range_start :: block_height
  range_limit :: "u64 option"

definition range_single :: "block_height \<Rightarrow> block_height_range" where
  "range_single start = \<lparr>range_start = start, range_limit = Some 1\<rparr>"

definition range_multi :: "block_height \<Rightarrow> u64 \<Rightarrow> block_height_range" where
  "range_multi start limit = \<lparr>range_start = start, range_limit = Some limit\<rparr>"

text \<open>Unchecked arithmetic, which wraps around.\<close>

definition range_highest :: "block_height_range \<Rightarrow> block_height" where
  "range_highest self =
     (case range_limit self of None \<Rightarrow> range_start self | Some limit \<Rightarrow> range_start self + limit - 1)"

record chain_info_query =
  query_chain_id :: chain_id
  test_next_block_height :: "block_height option"
  request_owner_balance :: "account_owner option"
  request_committees :: bool
  request_pending_message_bundles :: bool
  request_sent_certificate_hashes_in_range :: "block_height_range option"
  request_received_log_excluding_first_n :: "u64 option"
  request_manager_values :: bool
  request_leader_timeout :: bool
  request_fallback :: bool

definition chain_info_query_new :: "chain_id \<Rightarrow> chain_info_query" where
  "chain_info_query_new cid =
     \<lparr>query_chain_id = cid, test_next_block_height = None, request_owner_balance = None, request_committees = False,
      request_pending_message_bundles = False, request_sent_certificate_hashes_in_range = None,
      request_received_log_excluding_first_n = None, request_manager_values = False, request_leader_timeout = False,
      request_fallback = False\<rparr>"

record chain_info =
  info_chain_id :: chain_id
  info_epoch :: "epoch option"
  info_description :: "chain_description option"
  info_manager :: chain_manager_info
  info_chain_balance :: amount
  info_block_hash :: "crypto_hash option"
  info_timestamp :: timestamp
  info_next_block_height :: block_height
  info_state_hash :: "crypto_hash option"
  requested_owner_balance :: "amount option"
  requested_committees :: "(epoch, committee) btree_map option"
  requested_pending_message_bundles :: "incoming_bundle list"
  requested_sent_certificate_hashes :: "crypto_hash list"
  count_received_log :: nat
  requested_received_log :: "chain_and_height list"

definition chain_info_from :: "leader_election \<Rightarrow> 'u chain \<Rightarrow> chain_info" where
  "chain_info_from le view =
     \<lparr>info_chain_id = cs_chain_id view, info_epoch = sys_epoch (chain_system view),
      info_description = sys_description (chain_system view), info_manager = manager_info_from le (cs_manager view),
      info_chain_balance = sys_balance (chain_system view), info_block_hash = tip_block_hash (tip_state view),
      info_timestamp = sys_timestamp (chain_system view), info_next_block_height = next_block_height (tip_state view),
      info_state_hash = execution_state_hash view, requested_owner_balance = None, requested_committees = None,
      requested_pending_message_bundles = [], requested_sent_certificate_hashes = [],
      count_received_log = length (received_log view), requested_received_log = []\<rparr>"

record chain_info_response =
  response_info :: chain_info
  response_signature :: "signature option"

text \<open>The function that signs stands for the key pairs.\<close>

definition chain_info_response_new :: "(chain_info \<Rightarrow> public_key \<Rightarrow> signature) \<Rightarrow> chain_info \<Rightarrow> public_key option \<Rightarrow> chain_info_response" where
  "chain_info_response_new sign info key_pair =
     \<lparr>response_info = info, response_signature = map_option (sign info) key_pair\<rparr>"

definition latest_committee :: "chain_info_response \<Rightarrow> committee option" where
  "latest_committee self =
     Option.bind (requested_committees (response_info self)) (\<lambda>committees.
     Option.bind (info_epoch (response_info self)) (bt_get committees))"

datatype round_timeout_info =
  RoundTimeout (rt_timestamp: timestamp) (rt_current_round: round) (rt_next_block_height: block_height)

definition info_round_timeout_at :: "chain_info \<Rightarrow> round_timeout_info option" where
  "info_round_timeout_at self =
     map_option (\<lambda>t. RoundTimeout t (info_current_round (info_manager self)) (info_next_block_height self))
       (info_round_timeout (info_manager self))"

subsection \<open>Requests between chains\<close>

datatype cross_chain_request =
    UpdateRecipient (ccr_sender: chain_id) (ccr_recipient: chain_id)
      (bundle_vecs: "(medium \<times> (epoch \<times> message_bundle) list) list")
  | ConfirmUpdatedRecipient (ccr_sender: chain_id) (ccr_recipient: chain_id)
      (latest_heights: "(medium \<times> block_height) list")

fun target_chain_id :: "cross_chain_request \<Rightarrow> chain_id" where
  "target_chain_id (UpdateRecipient sender recipient _) = recipient"
| "target_chain_id (ConfirmUpdatedRecipient sender recipient _) = sender"

fun has_messages_lower_or_equal_than :: "cross_chain_request \<Rightarrow> block_height \<Rightarrow> bool" where
  "has_messages_lower_or_equal_than (UpdateRecipient _ _ vecs) height =
     list_ex (\<lambda>(_, bundles). case bundles of (_, b) # _ \<Rightarrow> mb_height b \<le> height | [] \<Rightarrow> False) vecs"
| "has_messages_lower_or_equal_than (ConfirmUpdatedRecipient _ _ _) height = False"

datatype notification_reason =
    NewBlock block_height crypto_hash
  | NewIncomingBundle origin block_height
  | NewRound block_height round

datatype notification = Notification (notification_chain_id: chain_id) (notification_reason: notification_reason)

record network_actions =
  cross_chain_requests :: "cross_chain_request list"
  notifications :: "notification list"

definition network_actions_default :: network_actions where
  "network_actions_default = \<lparr>cross_chain_requests = [], notifications = []\<rparr>"

definition network_actions_extend :: "network_actions \<Rightarrow> network_actions \<Rightarrow> network_actions" where
  "network_actions_extend self other =
     \<lparr>cross_chain_requests = cross_chain_requests self @ cross_chain_requests other,
      notifications = notifications self @ notifications other\<rparr>"

definition notify :: "network_actions \<Rightarrow> chain_id \<Rightarrow> notification_reason \<Rightarrow> network_actions" where
  "notify self cid reason = self\<lparr>notifications := notifications self @ [Notification cid reason]\<rparr>"

end
