(* ===== verification/Db_Storage.thy ===== *)
theory Db_Storage
  imports Certificates
begin

section \<open>Storage of certificates and blobs (linera-storage/src/db_storage.rs)\<close>

text \<open>
  What a validator keeps beside the states of its chains: certificates, confirmed blocks, blobs and the states of blobs.
  The keys of the database are encodings of \<open>BaseKey\<close>, which are different for different keys; each kind of entry is a
  map of its own. A batch of writes is applied as a whole. Failures of the database are not modelled.

  A certificate is stored in two entries, without its value and the value alone, and put together again when it is read.
\<close>

datatype storage_error = NotFound | StorageBlobsNotFound "blob_id list" | InconsistentEntries

record blob_state =
  last_used_by :: crypto_hash
  bst_chain_id :: chain_id
  bst_block_height :: block_height
  bst_epoch :: epoch

record db_storage =
  db_certificates :: "crypto_hash \<Rightarrow> lite_certificate option"
  db_confirmed_blocks :: "crypto_hash \<Rightarrow> confirmed_block option"
  db_blobs :: "blob_id \<Rightarrow> bytes option"
  db_blob_states :: "blob_id \<Rightarrow> blob_state option"

subsection \<open>Entries of a batch\<close>

definition add_blob :: "blob \<Rightarrow> db_storage \<Rightarrow> db_storage" where
  "add_blob b self = self\<lparr>db_blobs := (db_blobs self)(blob_id b \<mapsto> bc_bytes (blob_content_of b))\<rparr>"

definition add_blob_state :: "blob_id \<Rightarrow> blob_state \<Rightarrow> db_storage \<Rightarrow> db_storage" where
  "add_blob_state bid state self = self\<lparr>db_blob_states := (db_blob_states self)(bid \<mapsto> state)\<rparr>"

definition add_certificate :: "confirmed_block generic_certificate \<Rightarrow> db_storage \<Rightarrow> db_storage" where
  "add_certificate certificate self =
     (let hash = gc_hash certificate
      in self\<lparr>db_certificates := (db_certificates self)(hash \<mapsto> gc_lite_certificate confirmed_cv certificate),
              db_confirmed_blocks := (db_confirmed_blocks self)(hash \<mapsto> hashed_value (gc_value certificate))\<rparr>)"

subsection \<open>Blobs\<close>

definition new_with_id_unchecked :: "blob_id \<Rightarrow> bytes \<Rightarrow> blob" where
  "new_with_id_unchecked bid b =
     \<lparr>blob_hash = blob_id_hash bid, blob_content_of = \<lparr>bc_blob_type = blob_id_type bid, bc_bytes = b\<rparr>\<rparr>"

definition contains_blob :: "db_storage \<Rightarrow> blob_id \<Rightarrow> bool" where
  "contains_blob self bid \<longleftrightarrow> db_blobs self bid \<noteq> None"

definition missing_blobs :: "db_storage \<Rightarrow> blob_id list \<Rightarrow> blob_id list" where
  "missing_blobs self bids = filter (\<lambda>bid. \<not> contains_blob self bid) bids"

definition read_blob :: "db_storage \<Rightarrow> blob_id \<Rightarrow> (storage_error, blob) res" where
  "read_blob self bid = map_err (\<lambda>_. StorageBlobsNotFound [bid])
     (ok_or (map_option (new_with_id_unchecked bid) (db_blobs self bid)) ())"

definition read_blobs :: "db_storage \<Rightarrow> blob_id list \<Rightarrow> blob option list" where
  "read_blobs self bids = map (\<lambda>bid. map_option (new_with_id_unchecked bid) (db_blobs self bid)) bids"

definition write_blob :: "blob \<Rightarrow> db_storage \<Rightarrow> db_storage" where
  "write_blob b self = add_blob b self"

definition write_blobs :: "blob list \<Rightarrow> db_storage \<Rightarrow> db_storage" where
  "write_blobs bs self = fold add_blob bs self"

definition contains_blob_state :: "db_storage \<Rightarrow> blob_id \<Rightarrow> bool" where
  "contains_blob_state self bid \<longleftrightarrow> db_blob_states self bid \<noteq> None"

definition read_blob_state :: "db_storage \<Rightarrow> blob_id \<Rightarrow> (storage_error, blob_state) res" where
  "read_blob_state self bid = ok_or (db_blob_states self bid) NotFound"

definition read_blob_states :: "db_storage \<Rightarrow> blob_id list \<Rightarrow> (storage_error, blob_state list) res" where
  "read_blob_states self bids = collect_results (read_blob_state self) bids"

text \<open>Blobs are only written when their state is known.\<close>

definition maybe_write_blobs :: "blob list \<Rightarrow> db_storage \<Rightarrow> db_storage \<times> bool list" where
  "maybe_write_blobs bs self =
     (let states = map (\<lambda>b. contains_blob_state self (blob_id b)) bs
      in (fold add_blob (map fst (filter snd (zip bs states))) self, states))"

definition write_blob_state :: "blob_id \<Rightarrow> blob_state \<Rightarrow> db_storage \<Rightarrow> db_storage" where
  "write_blob_state bid state self = add_blob_state bid state self"

definition maybe_write_blob_state :: "blob_id \<Rightarrow> blob_state \<Rightarrow> db_storage \<Rightarrow> db_storage \<times> epoch" where
  "maybe_write_blob_state bid state self =
     (case read_blob_state self bid of
        Inr current \<Rightarrow>
          (if bst_epoch current < bst_epoch state then write_blob_state bid state self else self,
           max (bst_epoch current) (bst_epoch state))
      | Inl _ \<Rightarrow> (write_blob_state bid state self, bst_epoch state))"

text \<open>All states are read before the batch is written.\<close>

definition blob_state_update :: "db_storage \<Rightarrow> blob_state \<Rightarrow> bool \<Rightarrow> blob_id \<Rightarrow> bool \<times> epoch" where
  "blob_state_update self state overwrite bid =
     (case db_blob_states self bid of
        None \<Rightarrow> (True, bst_epoch state)
      | Some current \<Rightarrow>
          (overwrite \<and> bst_epoch current < bst_epoch state, max (bst_epoch current) (bst_epoch state)))"

definition maybe_write_blob_states :: "blob_id list \<Rightarrow> blob_state \<Rightarrow> bool \<Rightarrow> db_storage \<Rightarrow> db_storage \<times> epoch list" where
  "maybe_write_blob_states bids state overwrite self =
     (fold (\<lambda>bid. add_blob_state bid state) (filter (\<lambda>bid. fst (blob_state_update self state overwrite bid)) bids) self,
      map (\<lambda>bid. snd (blob_state_update self state overwrite bid)) bids)"

subsection \<open>Certificates\<close>

definition write_blobs_and_certificate ::
  "blob list \<Rightarrow> confirmed_block generic_certificate \<Rightarrow> db_storage \<Rightarrow> db_storage" where
  "write_blobs_and_certificate bs certificate self = add_certificate certificate (fold add_blob bs self)"

definition contains_certificate :: "db_storage \<Rightarrow> crypto_hash \<Rightarrow> bool" where
  "contains_certificate self hash \<longleftrightarrow> db_certificates self hash \<noteq> None \<and> db_confirmed_blocks self hash \<noteq> None"

definition deserialize_certificate ::
  "lite_certificate option \<times> confirmed_block option \<Rightarrow> crypto_hash
     \<Rightarrow> (storage_error, confirmed_block generic_certificate) res" where
  "deserialize_certificate entries hash =
     and_then (ok_or (fst entries) NotFound) (\<lambda>cert.
     and_then (ok_or (snd entries) NotFound) (\<lambda>value.
       ok_or (lc_with_value confirmed_cv cert \<lparr>hashed_value = value, hashed_hash = hash\<rparr>) InconsistentEntries))"

definition read_certificate :: "db_storage \<Rightarrow> crypto_hash \<Rightarrow> (storage_error, confirmed_block generic_certificate) res" where
  "read_certificate self hash = deserialize_certificate (db_certificates self hash, db_confirmed_blocks self hash) hash"

definition read_certificates ::
  "db_storage \<Rightarrow> crypto_hash list \<Rightarrow> (storage_error, confirmed_block generic_certificate list) res" where
  "read_certificates self hashes = collect_results (read_certificate self) hashes"

definition read_hashed_confirmed_block :: "db_storage \<Rightarrow> crypto_hash \<Rightarrow> (storage_error, confirmed_block hashed) res" where
  "read_hashed_confirmed_block self hash =
     map_err (\<lambda>_. NotFound) (ok_or (map_option (\<lambda>value. \<lparr>hashed_value = value, hashed_hash = hash\<rparr>)
       (db_confirmed_blocks self hash)) ())"

text \<open>The loop runs at most \<open>limit\<close> times.\<close>

fun confirmed_blocks_downward ::
  "db_storage \<Rightarrow> crypto_hash option \<Rightarrow> nat \<Rightarrow> (storage_error, confirmed_block hashed list) res" where
  "confirmed_blocks_downward self hash 0 = Inr []"
| "confirmed_blocks_downward self None (Suc n) = Inr []"
| "confirmed_blocks_downward self (Some hash) (Suc n) =
     and_then (read_hashed_confirmed_block self hash) (\<lambda>value.
     and_then (confirmed_blocks_downward self
         (previous_block_hash (eb_block (confirmed_executed_block (hashed_value value)))) n) (\<lambda>values.
       Inr (value # values)))"

definition read_hashed_confirmed_blocks_downward ::
  "db_storage \<Rightarrow> crypto_hash \<Rightarrow> u32 \<Rightarrow> (storage_error, confirmed_block hashed list) res" where
  "read_hashed_confirmed_blocks_downward self start limit = confirmed_blocks_downward self (Some start) (unat limit)"

subsection \<open>Lemmas\<close>

lemma fold_add_blob_fields [simp]:
  "db_certificates (fold add_blob bs self) = db_certificates self"
  "db_confirmed_blocks (fold add_blob bs self) = db_confirmed_blocks self"
  "db_blob_states (fold add_blob bs self) = db_blob_states self"
  by (induction bs arbitrary: self) (simp_all add: add_blob_def)

lemma write_certificate_fields [simp]:
  "db_certificates (write_blobs_and_certificate bs c self)
     = (db_certificates self)(gc_hash c \<mapsto> gc_lite_certificate confirmed_cv c)"
  "db_confirmed_blocks (write_blobs_and_certificate bs c self)
     = (db_confirmed_blocks self)(gc_hash c \<mapsto> hashed_value (gc_value c))"
  by (simp_all add: write_blobs_and_certificate_def add_certificate_def Let_def)

lemma maybe_write_blob_states_fields [simp]:
  "db_certificates (fst (maybe_write_blob_states bids state overwrite self)) = db_certificates self"
  "db_confirmed_blocks (fst (maybe_write_blob_states bids state overwrite self)) = db_confirmed_blocks self"
  "db_blobs (fst (maybe_write_blob_states bids state overwrite self)) = db_blobs self"
proof -
  have "db_certificates (fold (\<lambda>bid. add_blob_state bid state) xs self) = db_certificates self
    \<and> db_confirmed_blocks (fold (\<lambda>bid. add_blob_state bid state) xs self) = db_confirmed_blocks self
    \<and> db_blobs (fold (\<lambda>bid. add_blob_state bid state) xs self) = db_blobs self" for xs
    by (induction xs arbitrary: self) (simp_all add: add_blob_state_def)
  then show "db_certificates (fst (maybe_write_blob_states bids state overwrite self)) = db_certificates self"
    "db_confirmed_blocks (fst (maybe_write_blob_states bids state overwrite self)) = db_confirmed_blocks self"
    "db_blobs (fst (maybe_write_blob_states bids state overwrite self)) = db_blobs self"
    by (simp_all add: maybe_write_blob_states_def)
qed

text \<open>A certificate whose signatures are in order is read back as it was written.\<close>

lemma read_written_certificate:
  assumes "sorted (map fst (gc_signatures c))"
  shows "read_certificate (write_blobs_and_certificate bs c self) (gc_hash c) = Inr c"
proof -
  have "sort_key fst (gc_signatures c) = gc_signatures c" using assms by (rule sort_key_id_if_sorted)
  then show ?thesis
    by (simp add: read_certificate_def deserialize_certificate_def lc_with_value_def gc_lite_certificate_def
        lite_value_new_def gc_new_def gc_hash_def)
qed

end
