(* ===== verification/Stateful_Results.thy ===== *)
theory Stateful_Results
  imports Linera_Prelude
begin

section \<open>Fallible code with effects that survive an error\<close>

text \<open>
  An \<open>action\<close> is fallible code on a state that keeps the effects it had before an error, as code on \<open>&mut self\<close> that
  returns a \<open>Result\<close>. \<open>act_bind\<close> is the operator \<open>?\<close> followed by the rest of the code.
\<close>

type_synonym ('s, 'e, 'a) action = "'s \<Rightarrow> ('e, 'a) res \<times> 's"

definition act_return :: "'a \<Rightarrow> ('s, 'e, 'a) action" where
  "act_return x s = (Inr x, s)"

definition act_lift :: "('e, 'a) res \<Rightarrow> ('s, 'e, 'a) action" where
  "act_lift r s = (r, s)"

definition act_get :: "('s \<Rightarrow> 'a) \<Rightarrow> ('s, 'e, 'a) action" where
  "act_get f s = (Inr (f s), s)"

definition act_modify :: "('s \<Rightarrow> 's) \<Rightarrow> ('s, 'e, unit) action" where
  "act_modify f s = (Inr (), f s)"

definition act_bind :: "('s, 'e, 'a) action \<Rightarrow> ('a \<Rightarrow> ('s, 'e, 'b) action) \<Rightarrow> ('s, 'e, 'b) action" where
  "act_bind m f s = (case m s of (Inl e, s1) \<Rightarrow> (Inl e, s1) | (Inr x, s1) \<Rightarrow> f x s1)"

text \<open>A loop.\<close>

fun act_fold :: "('a \<Rightarrow> 'b \<Rightarrow> ('s, 'e, 'b) action) \<Rightarrow> 'a list \<Rightarrow> 'b \<Rightarrow> ('s, 'e, 'b) action" where
  "act_fold f [] acc = act_return acc"
| "act_fold f (x # xs) acc = act_bind (f x acc) (act_fold f xs)"

lemma act_simps [simp]:
  "act_return x s = (Inr x, s)" "act_lift r s = (r, s)" "act_get f s = (Inr (f s), s)" "act_modify g s = (Inr (), g s)"
  by (simp_all add: act_return_def act_lift_def act_get_def act_modify_def)

lemma act_bind_simps [simp]:
  "act_bind (act_return x) f s = f x s"
  "act_bind (act_get g) f s = f (g s) s"
  "act_bind (act_modify h) k s = k () (h s)"
  "act_bind (act_lift (Inr x)) f s = f x s"
  "act_bind (act_lift (Inl e)) f s = (Inl e, s)"
  by (simp_all add: act_bind_def)

lemma act_bind_Inr: "m s = (Inr x, s1) \<Longrightarrow> act_bind m f s = f x s1"
  by (simp add: act_bind_def)

lemma act_bind_Inl: "m s = (Inl e, s1) \<Longrightarrow> act_bind m f s = (Inl e, s1)"
  by (simp add: act_bind_def)

lemma act_bindE:
  assumes "act_bind m f s = (r, s')"
  obtains (fails) e where "m s = (Inl e, s')" "r = Inl e"
    | (continues) x s1 where "m s = (Inr x, s1)" "f x s1 = (r, s')"
  using assms by (auto simp: act_bind_def split: prod.splits sum.splits)

lemma act_liftE:
  assumes "act_bind (act_lift q) f s = (r, s')"
  obtains (fails) e where "q = Inl e" "s' = s" "r = Inl e"
    | (continues) x where "q = Inr x" "f x s = (r, s')"
  using assms by (auto simp: act_bind_def split: prod.splits sum.splits)

text \<open>What an action keeps of the state, whether it fails or not.\<close>

definition keeps :: "('s \<Rightarrow> 'c) \<Rightarrow> ('s, 'e, 'a) action \<Rightarrow> bool" where
  "keeps f m \<longleftrightarrow> (\<forall>s. f (snd (m s)) = f s)"

lemma keepsD: "keeps f m \<Longrightarrow> m s = (r, s') \<Longrightarrow> f s' = f s"
  by (metis keeps_def snd_conv)

lemma keepsI: "(\<And>s r s'. m s = (r, s') \<Longrightarrow> f s' = f s) \<Longrightarrow> keeps f m"
  unfolding keeps_def by (metis prod.collapse)

lemma keeps_pure [simp, intro!]:
  "keeps f (act_return x)" "keeps f (act_lift r)" "keeps f (act_get g)"
  by (simp_all add: keeps_def)

lemma keeps_modify: "(\<And>s. f (h s) = f s) \<Longrightarrow> keeps f (act_modify h)"
  by (simp add: keeps_def)

lemma keeps_bind: "keeps f m \<Longrightarrow> (\<And>x. keeps f (k x)) \<Longrightarrow> keeps f (act_bind m k)"
  unfolding keeps_def act_bind_def by (auto split: prod.splits sum.splits) (metis snd_conv)+

lemma keeps_fold: "(\<And>x acc. keeps f (k x acc)) \<Longrightarrow> keeps f (act_fold k xs acc)"
  by (induction xs arbitrary: acc) (auto intro: keeps_bind)

end
