(* ===== verification/Chain_Worker.thy ===== *)
theory Chain_Worker
  imports Chain_Info Db_Storage Stateful_Results "HOL-Library.Option_ord"
begin

section \<open>The worker of a chain (linera-core/src/chain_worker)\<close>

text \<open>
  A validator runs one worker per chain. The worker handles one request at a time: it loads the state of the chain,
  works on it, and either saves it or drops the changes (\<open>ChainWorkerStateWithAttemptedChanges\<close>,
  \<open>ChainWorkerStateWithTemporaryChanges\<close>). The state \<open>worker_state\<close> holds the chain as stored and the chain the code
  works on; what is outside the chain - the storage, the cache of blocks, the tracked chains, the listeners and the
  flag that the chain is active - is not rolled back.

  The readings of the clock during one call are an argument, \<open>clock\<close>; a lock or a channel is not modelled beyond the
  order of the calls. \<open>worker_env\<close> collects what the code gets from other libraries: the checks of signatures, sizes of
  serialised values, decompression, the order in which a database lists its keys, and the cache. A panic is the error
  \<open>WorkerPanic\<close>.
\<close>

subsection \<open>The order of blobs and media\<close>

fun blob_type_rank :: "blob_type \<Rightarrow> nat" where
  "blob_type_rank BlobData = 0"
| "blob_type_rank BlobContractBytecode = 1"
| "blob_type_rank BlobServiceBytecode = 2"

definition blob_key :: "blob_id \<Rightarrow> nat list" where
  "blob_key b = [blob_type_rank (blob_id_type b), unat (blob_id_hash b)]"

lemma blob_type_rank_inj: "blob_type_rank a = blob_type_rank b \<longleftrightarrow> a = b"
  by (cases a; cases b) simp_all

lemma blob_key_inj: "blob_key a = blob_key b \<longleftrightarrow> a = b"
  by (auto simp: blob_key_def blob_type_rank_inj intro: blob_id.expand dest: word_unat_eq_iff [THEN iffD2])

instantiation blob_id :: linorder
begin

definition less_eq_blob_id :: "blob_id \<Rightarrow> blob_id \<Rightarrow> bool" where
  "less_eq_blob_id a b \<longleftrightarrow> blob_key a \<le> blob_key b"

definition less_blob_id :: "blob_id \<Rightarrow> blob_id \<Rightarrow> bool" where
  "less_blob_id a b \<longleftrightarrow> blob_key a < blob_key b"

instance
  by standard (auto simp: less_eq_blob_id_def less_blob_id_def order_less_le blob_key_inj)

end

fun generic_app_key :: "generic_application_id \<Rightarrow> nat list" where
  "generic_app_key SystemApp = [0]"
| "generic_app_key (UserApp app) = 1 # app_key app"

fun medium_key :: "medium \<Rightarrow> nat list" where
  "medium_key Direct = [0]"
| "medium_key (Channel name) = 1 # generic_app_key (channel_application_id name) @ map unat (channel_name_of name)"

lemma medium_key_inj: "medium_key a = medium_key b \<longleftrightarrow> a = b"
proof -
  have "generic_app_key p @ u = generic_app_key q @ v \<longleftrightarrow> p = q \<and> u = v" for p q u v
    by (cases p; cases q) (auto simp: app_key_def simp flip: app_key_inj)
  moreover have "map unat u = map unat v \<longleftrightarrow> u = v" for u v :: bytes
    by (simp add: inj_map_eq_map inj_def word_unat_eq_iff)
  ultimately show ?thesis
    by (cases a; cases b) (auto intro: channel_full_name.expand)
qed

instantiation medium :: linorder
begin

definition less_eq_medium :: "medium \<Rightarrow> medium \<Rightarrow> bool" where
  "less_eq_medium a b \<longleftrightarrow> medium_key a \<le> medium_key b"

definition less_medium :: "medium \<Rightarrow> medium \<Rightarrow> bool" where
  "less_medium a b \<longleftrightarrow> medium_key a < medium_key b"

instance
  by standard (auto simp: less_eq_medium_def less_medium_def order_less_le medium_key_inj)

end

subsection \<open>Errors\<close>

datatype worker_error =
    WorkerCryptoError
  | WorkerArithmeticError arithmetic_error
  | WorkerViewError storage_error
  | WorkerChainError chain_error
  | InvalidOwner
  | WorkerInvalidSigner owner
  | WorkerUnexpectedBlockHeight block_height block_height
  | WorkerMissingEarlierBlocks block_height
  | InvalidEpoch chain_id epoch epoch
  | InvalidCrossChainRequest
  | InvalidBlockChaining
  | IncorrectOutcome block_execution_outcome block_execution_outcome
  | InvalidTimestamp
  | MissingCertificateValue
  | InvalidLiteCertificate
  | UnneededBlob blob_id
  | WrongBlobsInProposal
  | FastBlockUsingOracles
  | WorkerBlobsNotFound "blob_id list"
  | InvalidBlockProposal string
  | FullChainWorkerCache
  | JoinError
  | BlobTooLarge
  | BytecodeTooLarge
  | Decompression
  | WorkerPanic

fun worker_error_from_chain :: "chain_error \<Rightarrow> worker_error" where
  "worker_error_from_chain (ChainBlobsNotFound bids) = WorkerBlobsNotFound bids"
| "worker_error_from_chain (ExecutionError (ExBlobsNotFound bids) ctx) = WorkerBlobsNotFound bids"
| "worker_error_from_chain err = WorkerChainError err"

fun worker_error_from_view :: "storage_error \<Rightarrow> worker_error" where
  "worker_error_from_view (StorageBlobsNotFound bids) = WorkerBlobsNotFound bids"
| "worker_error_from_view err = WorkerViewError err"

definition from_chain :: "(chain_error, 'a) res \<Rightarrow> (worker_error, 'a) res" where
  "from_chain r = map_err worker_error_from_chain r"

definition from_view :: "(storage_error, 'a) res \<Rightarrow> (worker_error, 'a) res" where
  "from_view r = map_err worker_error_from_view r"

subsection \<open>The state of a worker\<close>

text \<open>Durations of the standard library are counted in nanoseconds.\<close>

record worker_config =
  key_pair :: "public_key option"
  allow_inactive_chains :: bool
  allow_messages_from_deprecated_epochs :: bool
  long_lived_services :: bool
  grace_period :: nat

type_synonym value_cache = "(crypto_hash \<times> executed_block hashed) list"

type_synonym delivery_notifiers = "(block_height, nat list) btree_map"

record 'u worker_env =
  we_chain :: "'u chain_env"
  we_scheme :: sig_scheme
  we_hashers :: hashers
  we_proposal_verify :: "proposal_content \<Rightarrow> public_key \<Rightarrow> signature \<Rightarrow> bool"
  we_sign_info :: "chain_info \<Rightarrow> public_key \<Rightarrow> signature"
  we_proposal_size :: "block \<times> blob list \<Rightarrow> nat"
  we_decompressed_size_at_most :: "bytes \<Rightarrow> u64 \<Rightarrow> (unit, bool) res"
  we_targets :: "target set \<Rightarrow> target list"
  we_origins :: "origin set \<Rightarrow> origin list"
  we_lru_promote :: "crypto_hash \<Rightarrow> value_cache \<Rightarrow> value_cache"
  we_lru_push :: "crypto_hash \<Rightarrow> executed_block hashed \<Rightarrow> value_cache \<Rightarrow> value_cache"

text \<open>\<open>ws_notified\<close> are the listeners that have been told that their messages are delivered.\<close>

record 'u worker_state =
  ws_config :: worker_config
  ws_storage :: db_storage
  ws_chain :: "'u chain"
  ws_stored :: "'u chain"
  ws_succeeded :: bool
  ws_values :: value_cache
  ws_tracked :: "chain_id set option"
  ws_notifier :: delivery_notifiers
  ws_notified :: "nat list"
  ws_knows_active :: bool

type_synonym ('u, 'a) work = "('u worker_state, worker_error, 'a) action"

text \<open>The execution of a block reads blobs from the storage.\<close>

definition chain_env_at :: "'u worker_env \<Rightarrow> db_storage \<Rightarrow> 'u chain_env" where
  "chain_env_at env storage =
     (we_chain env)\<lparr>ce_exec := (ce_exec (we_chain env))\<lparr>ev_system := (ev_system (ce_exec (we_chain env)))
       \<lparr>se_get_blob := (\<lambda>bid. Inr (map_option (new_with_id_unchecked bid) (db_blobs storage bid))),
        se_contains_blob := (\<lambda>bid. Inr (contains_blob storage bid))\<rparr>\<rparr>\<rparr>"

definition info_response :: "'u worker_env \<Rightarrow> 'u worker_state \<Rightarrow> chain_info_response" where
  "info_response env s =
     chain_info_response_new (we_sign_info env) (chain_info_from (ce_election (we_chain env)) (ws_chain s))
       (key_pair (ws_config s))"

definition set_chain :: "'u chain \<Rightarrow> ('u, unit) work" where
  "set_chain chain = act_modify (\<lambda>s. s\<lparr>ws_chain := chain\<rparr>)"

definition update_manager :: "(chain_manager \<Rightarrow> chain_manager) \<Rightarrow> ('u, unit) work" where
  "update_manager f = act_modify (\<lambda>s. s\<lparr>ws_chain := (ws_chain s)\<lparr>cs_manager := f (cs_manager (ws_chain s))\<rparr>\<rparr>)"

definition save :: "('u, unit) work" where
  "save = act_modify (\<lambda>s. s\<lparr>ws_stored := ws_chain s, ws_succeeded := True\<rparr>)"

definition rollback :: "'u worker_state \<Rightarrow> 'u worker_state" where
  "rollback s = s\<lparr>ws_chain := ws_stored s\<rparr>"

definition has_pending_changes :: "'u worker_state \<Rightarrow> bool" where
  "has_pending_changes s \<longleftrightarrow> ws_chain s \<noteq> ws_stored s"

text \<open>The two wrappers, with what happens when they are dropped.\<close>

definition attempted_changes :: "('u, 'a) work \<Rightarrow> ('u, 'a) work" where
  "attempted_changes work s =
     (if has_pending_changes s then (Inl WorkerPanic, s)
      else let (r, s1) = work (s\<lparr>ws_succeeded := False\<rparr>) in (r, if ws_succeeded s1 then s1 else rollback s1))"

definition temporary_changes :: "('u, 'a) work \<Rightarrow> ('u, 'a) work" where
  "temporary_changes work s =
     (if has_pending_changes s then (Inl WorkerPanic, s) else let (r, s1) = work s in (r, rollback s1))"

subsection \<open>The cache of blocks and the listeners\<close>

text \<open>\<open>ValueCache::insert\<close> (linera-core/src/value_cache.rs), over the operations of the cache.\<close>

definition value_cache_insert :: "'u worker_env \<Rightarrow> executed_block hashed \<Rightarrow> value_cache \<Rightarrow> value_cache \<times> bool" where
  "value_cache_insert env value cache =
     (let hash = hashed_hash value
      in if map_of cache hash \<noteq> None then (we_lru_promote env hash cache, False)
         else (we_lru_push env hash value cache, True))"

definition cache_value :: "'u worker_env \<Rightarrow> executed_block hashed \<Rightarrow> ('u, unit) work" where
  "cache_value env value = act_modify (\<lambda>s. s\<lparr>ws_values := fst (value_cache_insert env value (ws_values s))\<rparr>)"

text \<open>\<open>DeliveryNotifier\<close>; \<open>split_off\<close> keeps the entries from a key on.\<close>

definition notifier_register :: "block_height \<Rightarrow> nat \<Rightarrow> delivery_notifiers \<Rightarrow> delivery_notifiers" where
  "notifier_register height listener ns =
     bt_insert height ((case bt_get ns height of Some ls \<Rightarrow> ls | None \<Rightarrow> []) @ [listener]) ns"

definition notifier_notify :: "block_height \<Rightarrow> delivery_notifiers \<Rightarrow> delivery_notifiers \<times> nat list" where
  "notifier_notify height ns =
     (case try_add_one height of
        Inr first_still_undelivered_height \<Rightarrow>
          (filter (\<lambda>(h, _). first_still_undelivered_height \<le> h) ns,
           concat (map snd (filter (\<lambda>(h, _). \<not> first_still_undelivered_height \<le> h) ns)))
      | Inl _ \<Rightarrow> ([], concat (map snd ns)))"

subsection \<open>Helpers\<close>

definition worker_ensure_is_active :: "('u, unit) work" where
  "worker_ensure_is_active s =
     (if ws_knows_active s then (Inr (), s)
      else case from_chain (ensure_is_active (ws_chain s)) of
             Inl e \<Rightarrow> (Inl e, s)
           | Inr _ \<Rightarrow> (Inr (), s\<lparr>ws_knows_active := True\<rparr>))"

text \<open>\<open>current_committee().expect("chain is active")\<close>.\<close>

definition expect_committee :: "('u, epoch \<times> committee) work" where
  "expect_committee s = (ok_or (current_committee (chain_system (ws_chain s))) WorkerPanic, s)"

definition check_block_epoch :: "epoch \<Rightarrow> block \<Rightarrow> (worker_error, unit) res" where
  "check_block_epoch chain_epoch blk =
     ensure (block_epoch blk = chain_epoch) (InvalidEpoch (block_chain_id blk) chain_epoch (block_epoch blk))"

definition check_for_unneeded_blobs :: "blob_id set \<Rightarrow> blob list \<Rightarrow> (worker_error, unit) res" where
  "check_for_unneeded_blobs required blobs =
     and_then (collect_results (\<lambda>b. ensure (blob_id b \<in> required) (UnneededBlob (blob_id b))) blobs) (\<lambda>_. Inr ())"

fun take_provided ::
  "blob list \<Rightarrow> blob_id set \<times> (blob_id, blob) btree_map \<Rightarrow> blob_id set \<times> (blob_id, blob) btree_map" where
  "take_provided [] st = st"
| "take_provided (b # bs) (bids, found) =
     take_provided bs (if blob_id b \<in> bids then (bids - {blob_id b}, bt_insert (blob_id b) b found) else (bids, found))"

text \<open>The sets of identifiers are traversed in increasing order; the code uses hash sets, whose order only decides the
  order in which missing blobs are reported.\<close>

definition get_required_blobs ::
  "'u worker_state \<Rightarrow> executed_block \<Rightarrow> blob list \<Rightarrow> (worker_error, (blob_id, blob) btree_map) res" where
  "get_required_blobs s eb blobs =
     (let manager = cs_manager (ws_chain s);
          proposed = (case mgr_proposed manager of Some proposal \<Rightarrow> bp_blobs proposal | None \<Rightarrow> []);
          (bids, found) = take_provided (proposed @ blobs) (required_blob_ids eb, bt_empty);
          locked = List.map_filter (\<lambda>bid. map_option (Pair bid) (bt_get (mgr_locked_blobs manager) bid)) (sorted_list_of_set bids);
          found = bt_extend found locked;
          missing = filter (\<lambda>bid. bt_get (mgr_locked_blobs manager) bid = None) (sorted_list_of_set bids);
          from_storage = zip missing (read_blobs (ws_storage s) missing);
          found = bt_extend found (List.map_filter (\<lambda>(bid, maybe). map_option (Pair bid) maybe) from_storage);
          not_found = map fst (filter (\<lambda>(_, maybe). maybe = None) from_storage)
      in and_then (ensure (not_found = []) (WorkerBlobsNotFound not_found)) (\<lambda>_. Inr found))"

definition open_chain_message_ids :: "executed_block \<Rightarrow> message_id list" where
  "open_chain_message_ids eb =
     map (\<lambda>(i, _). eb_message_id eb i)
       (filter (\<lambda>(_, msg). matches_open_chain (om_message msg) \<noteq> None) (zip_from 0 (concat (beo_messages (eb_outcome eb)))))"

definition track_newly_created_chains :: "'u worker_env \<Rightarrow> executed_block \<Rightarrow> chain_id set option \<Rightarrow> chain_id set option" where
  "track_newly_created_chains env eb tracked =
     map_option (\<lambda>chains.
       if block_chain_id (eb_block eb) \<notin> chains then chains
       else chains \<union> (chain_id_child (se_description_hash (ev_system (ce_exec (we_chain env)))) ` set (open_chain_message_ids eb)))
       tracked"

text \<open>The outboxes whose messages are sent: all of them, or those to chains that are tracked or subscribed to.\<close>

definition relevant_targets :: "'u worker_env \<Rightarrow> 'u worker_state \<Rightarrow> target list" where
  "relevant_targets env s =
     (let targets = we_targets env (dom (outboxes (ws_chain s)))
      in case ws_tracked s of
           None \<Rightarrow> targets
         | Some tracked \<Rightarrow>
             let publishers = subscription_chain_id ` set (sys_subscriptions (chain_system (ws_chain s)))
             in filter (\<lambda>t. target_recipient t \<in> tracked \<or> target_recipient t \<in> publishers) targets)"

definition outbox_heights :: "'u worker_state \<Rightarrow> target \<Rightarrow> block_height list" where
  "outbox_heights s t = (case outboxes (ws_chain s) t of Some ob \<Rightarrow> outbox_queue ob | None \<Rightarrow> [])"

type_synonym heights_by_recipient = "(chain_id, (medium, block_height list) btree_map) btree_map"

definition collect_heights :: "'u worker_state \<Rightarrow> target list \<Rightarrow> heights_by_recipient" where
  "collect_heights s targets =
     foldl (\<lambda>m t. bt_insert (target_recipient t)
         (bt_insert (target_medium t) (outbox_heights s t)
           (case bt_get m (target_recipient t) of Some hs \<Rightarrow> hs | None \<Rightarrow> bt_empty)) m) bt_empty targets"

definition bundles_at_heights ::
  "(block_height \<Rightarrow> confirmed_block generic_certificate option) \<Rightarrow> chain_id \<Rightarrow> medium \<Rightarrow> block_height list
     \<Rightarrow> (worker_error, (epoch \<times> message_bundle) list) res" where
  "bundles_at_heights certificates recipient medium heights =
     and_then (collect_results (\<lambda>h.
         and_then (ok_or (certificates h) (WorkerChainError (InternalError ''missing certificates''))) (\<lambda>cert.
           Inr (message_bundles_for (confirmed_executed_block (hashed_value (gc_value cert))) medium recipient
             (gc_hash cert)))) heights) (\<lambda>bundles. Inr (concat bundles))"

definition recipient_request ::
  "chain_id \<Rightarrow> (block_height \<Rightarrow> confirmed_block generic_certificate option)
     \<Rightarrow> chain_id \<times> (medium, block_height list) btree_map \<Rightarrow> (worker_error, cross_chain_request) res" where
  "recipient_request sender certificates entry =
     and_then (collect_results (\<lambda>(medium, heights).
         and_then (bundles_at_heights certificates (fst entry) medium heights) (\<lambda>bundles. Inr (medium, bundles)))
         (snd entry)) (\<lambda>vecs.
       Inr (UpdateRecipient sender (fst entry) (filter (\<lambda>(_, bundles). bundles \<noteq> []) vecs)))"

definition create_cross_chain_requests :: "'u worker_state \<Rightarrow> heights_by_recipient \<Rightarrow> (worker_error, network_actions) res" where
  "create_cross_chain_requests s heights_map =
     (let heights = sorted_list_of_set (set (concat (map snd (concat (map snd heights_map)))))
      in and_then (collect_results (\<lambda>h. ok_or (get_at (confirmed_log (ws_chain s)) (unat h)) (WorkerViewError NotFound)) heights)
           (\<lambda>hashes.
         and_then (from_view (read_certificates (ws_storage s) hashes)) (\<lambda>certs.
         and_then (collect_results (recipient_request (cs_chain_id (ws_chain s)) (map_of (zip heights certs))) heights_map)
           (\<lambda>requests. Inr (network_actions_default\<lparr>cross_chain_requests := requests\<rparr>)))))"

definition create_network_actions :: "'u worker_env \<Rightarrow> 'u worker_state \<Rightarrow> (worker_error, network_actions) res" where
  "create_network_actions env s = create_cross_chain_requests s (collect_heights s (relevant_targets env s))"

definition network_actions_now :: "'u worker_env \<Rightarrow> ('u, network_actions) work" where
  "network_actions_now env s = (create_network_actions env s, s)"

text \<open>The second half of the code repeats the choice of the outboxes.\<close>

definition all_messages_to_tracked_chains_delivered_up_to :: "'u worker_env \<Rightarrow> 'u worker_state \<Rightarrow> block_height \<Rightarrow> bool" where
  "all_messages_to_tracked_chains_delivered_up_to env s height =
     (if all_messages_delivered_up_to (ws_chain s) height then True
      else if ws_tracked s = None then False
      else list_all (\<lambda>t. case outbox_heights s t of h # _ \<Rightarrow> \<not> h \<le> height | [] \<Rightarrow> True) (relevant_targets env s))"

definition download_pending_blob :: "'u worker_state \<Rightarrow> blob_id \<Rightarrow> (worker_error, blob) res" where
  "download_pending_blob s bid =
     (let manager = cs_manager (ws_chain s)
      in ok_or (case Option.bind (mgr_proposed manager) (\<lambda>proposal. find (\<lambda>b. blob_id b = bid) (bp_blobs proposal)) of
           Some b \<Rightarrow> Some b
         | None \<Rightarrow> bt_get (mgr_locked_blobs manager) bid) (WorkerBlobsNotFound [bid]))"

subsection \<open>Operations that save their changes (attempted_changes.rs)\<close>

definition new_round_notifications :: "chain_id \<Rightarrow> block_height \<Rightarrow> round \<Rightarrow> round \<Rightarrow> network_actions" where
  "new_round_notifications cid height old_round r =
     (if old_round < r then notify network_actions_default cid (NewRound height r) else network_actions_default)"

definition process_timeout ::
  "'u worker_env \<Rightarrow> (nat \<Rightarrow> timestamp) \<Rightarrow> timeout_value generic_certificate
     \<Rightarrow> ('u, chain_info_response \<times> network_actions) work" where
  "process_timeout env clock certificate =
     (let value = hashed_value (gc_value certificate)
      in act_bind worker_ensure_is_active (\<lambda>_.
         act_bind expect_committee (\<lambda>(chain_epoch, committee).
         act_bind (act_lift (ensure (timeout_epoch value = chain_epoch)
             (InvalidEpoch (timeout_chain_id value) chain_epoch (timeout_epoch value)))) (\<lambda>_.
         act_bind (act_lift (from_chain (gc_check (we_scheme env) timeout_cv certificate committee))) (\<lambda>_.
         act_bind (act_get ws_chain) (\<lambda>chain.
         act_bind (act_lift (from_chain (already_validated_block (tip_state chain) (timeout_height value)))) (\<lambda>already.
         if already then act_bind (act_get (info_response env)) (\<lambda>info. act_return (info, network_actions_default))
         else
           act_bind (update_manager (\<lambda>m. handle_timeout_certificate m certificate (clock 0))) (\<lambda>_.
           act_bind (act_get (\<lambda>s. mgr_current_round (cs_manager (ws_chain s)))) (\<lambda>r.
           act_bind (act_get (info_response env)) (\<lambda>info.
           act_bind save (\<lambda>_.
             act_return (info, new_round_notifications (timeout_chain_id value) (timeout_height value)
               (mgr_current_round (cs_manager chain)) r))))))))))))"

definition vote_for_block_proposal ::
  "'u worker_env \<Rightarrow> block_proposal \<Rightarrow> block_execution_outcome \<Rightarrow> timestamp \<Rightarrow> ('u, unit) work" where
  "vote_for_block_proposal env proposal outcome local_time =
     (let eb = \<lparr>eb_block = pc_block (bp_content proposal), eb_outcome = outcome\<rparr>
      in act_bind (\<lambda>s. (if bp_validated_block_certificate proposal \<noteq> None
             then get_required_blobs s eb (bp_blobs proposal) else Inr bt_empty, s)) (\<lambda>blobs.
         act_bind (act_get (\<lambda>s. create_vote (we_scheme env) (we_hashers env) (cs_manager (ws_chain s)) proposal eb
             (key_pair (ws_config s)) local_time blobs)) (\<lambda>(manager, vote).
         act_bind (update_manager (\<lambda>_. manager)) (\<lambda>_.
         act_bind (case vote of
             Some (Inl v) \<Rightarrow> cache_value env (validated_inner (hashed_value (vote_value_of v)))
           | Some (Inr v) \<Rightarrow> cache_value env (confirmed_inner (hashed_value (vote_value_of v)))
           | None \<Rightarrow> act_return ()) (\<lambda>_. save)))))"

definition process_validated_block ::
  "'u worker_env \<Rightarrow> (nat \<Rightarrow> timestamp) \<Rightarrow> validated_block generic_certificate \<Rightarrow> blob list
     \<Rightarrow> ('u, chain_info_response \<times> network_actions \<times> bool) work" where
  "process_validated_block env clock certificate blobs =
     (let eb = validated_executed_block (hashed_value (gc_value certificate)); blk = eb_block eb
      in act_bind worker_ensure_is_active (\<lambda>_.
         act_bind expect_committee (\<lambda>(epoch, committee).
         act_bind (act_lift (check_block_epoch epoch blk)) (\<lambda>_.
         act_bind (act_lift (from_chain (gc_check (we_scheme env) validated_cv certificate committee))) (\<lambda>_.
         act_bind (act_get ws_chain) (\<lambda>chain.
         act_bind (act_lift (from_chain (already_validated_block (tip_state chain) (block_height_of blk)))) (\<lambda>already.
         act_bind (if already then act_return True
             else act_lift (from_chain (and_then (check_validated_block (cs_manager chain) certificate)
               (\<lambda>outcome. Inr (outcome = OutcomeSkip))))) (\<lambda>skip.
         if skip then act_bind (act_get (info_response env)) (\<lambda>info. act_return (info, network_actions_default, True))
         else
           act_bind (cache_value env (validated_inner (hashed_value (gc_value certificate)))) (\<lambda>_.
           act_bind (act_lift (check_for_unneeded_blobs (required_blob_ids eb) blobs)) (\<lambda>_.
           act_bind (\<lambda>s. (get_required_blobs s eb blobs, s)) (\<lambda>found.
           act_bind (act_get (\<lambda>s. key_pair (ws_config s))) (\<lambda>key.
           act_bind (update_manager (\<lambda>m. create_final_vote (we_scheme env) (we_hashers env) m certificate key (clock 0) found)) (\<lambda>_.
           act_bind (act_get (info_response env)) (\<lambda>info.
           act_bind save (\<lambda>_.
           act_bind (act_get (\<lambda>s. mgr_current_round (cs_manager (ws_chain s)))) (\<lambda>r.
             act_return (info, new_round_notifications (cs_chain_id chain) (block_height_of blk)
               (mgr_current_round (cs_manager chain)) r, False)))))))))))))))))"

text \<open>The initialisation of a chain that is not active yet, before its first block is confirmed.\<close>

definition init_before_confirmation :: "'u worker_env \<Rightarrow> timestamp \<Rightarrow> block \<Rightarrow> ('u, unit) work" where
  "init_before_confirmation env local_time blk =
     act_bind (act_get ws_chain) (\<lambda>chain.
       if is_first_block (tip_state chain) \<and> \<not> is_active chain
       then (case starts_with_open_chain_message blk of
               Some (in_bundle, posted, config) \<Rightarrow>
                 act_bind (\<lambda>s. (from_chain (execute_init_message (chain_env_at env (ws_storage s)) chain
                     (MessageId (origin_sender (ib_origin in_bundle)) (mb_height (ib_bundle in_bundle)) (pm_index posted))
                     config (mb_timestamp (ib_bundle in_bundle)) local_time), s)) set_chain
             | None \<Rightarrow> act_return ())
       else act_return ())"

text \<open>The certificate and the blobs are only written when all required blobs are there; the states of the blobs are
  written in either case.\<close>

definition store_confirmed :: "confirmed_block generic_certificate \<Rightarrow> ('u, unit) work" where
  "store_confirmed certificate =
     (let eb = confirmed_executed_block (hashed_value (gc_value certificate)); blk = eb_block eb;
          state = \<lparr>last_used_by = gc_hash certificate, bst_chain_id = block_chain_id blk,
            bst_block_height = block_height_of blk, bst_epoch = block_epoch blk\<rparr>
      in act_bind (act_get (\<lambda>s. get_required_blobs s eb [])) (\<lambda>blobs_result.
         act_bind (case blobs_result of
             Inr found \<Rightarrow> act_modify (\<lambda>s. s\<lparr>ws_storage :=
               write_blobs_and_certificate (bt_values found) certificate (ws_storage s)\<rparr>)
           | Inl _ \<Rightarrow> act_return ()) (\<lambda>_.
         act_bind (act_modify (\<lambda>s. s\<lparr>ws_storage := fst (maybe_write_blob_states
             (sorted_list_of_set (required_blob_ids eb)) state (\<not> isl blobs_result) (ws_storage s))\<rparr>)) (\<lambda>_.
           act_lift (and_then blobs_result (\<lambda>_. Inr ()))))))"

definition advance_tip :: "confirmed_block generic_certificate \<Rightarrow> 'u chain \<Rightarrow> (worker_error, 'u chain) res" where
  "advance_tip certificate chain =
     (let eb = confirmed_executed_block (hashed_value (gc_value certificate)); tip = tip_state chain
      in and_then (map_err WorkerArithmeticError (try_add_one (next_block_height tip))) (\<lambda>next_height.
           Inr (chain\<lparr>tip_state := \<lparr>tip_block_hash = Some (gc_hash certificate), next_block_height = next_height,
               num_incoming_bundles = num_incoming_bundles tip + of_nat (length (incoming_bundles (eb_block eb))),
               num_operations = num_operations tip + of_nat (length (operations (eb_block eb))),
               num_outgoing_messages = num_outgoing_messages tip + of_nat (length (beo_messages (eb_outcome eb)))\<rparr>,
             confirmed_log := confirmed_log chain @ [gc_hash certificate]\<rparr>)))"

definition register_delivery_notifier :: "block_height \<Rightarrow> network_actions \<Rightarrow> nat option \<Rightarrow> ('u, unit) work" where
  "register_delivery_notifier height actions listener =
     act_modify (\<lambda>s. case listener of
         None \<Rightarrow> s
       | Some l \<Rightarrow>
           if list_ex (\<lambda>request. has_messages_lower_or_equal_than request height) (cross_chain_requests actions)
           then s\<lparr>ws_notifier := notifier_register height l (ws_notifier s)\<rparr>
           else s\<lparr>ws_notified := ws_notified s @ [l]\<rparr>)"

text \<open>The execution of the block and the new tip of the chain.\<close>

definition apply_confirmed :: "'u worker_env \<Rightarrow> timestamp \<Rightarrow> confirmed_block generic_certificate \<Rightarrow> ('u, unit) work" where
  "apply_confirmed env local_time certificate =
     (let eb = confirmed_executed_block (hashed_value (gc_value certificate))
      in act_bind (act_get ws_chain) (\<lambda>chain.
         act_bind (act_lift (from_chain (remove_bundles_from_inboxes chain (eb_block eb)))) (\<lambda>chain.
         act_bind (\<lambda>s. (from_chain (execute_block (chain_env_at env (ws_storage s)) chain (eb_block eb) local_time
             (Some (oracle_responses (eb_outcome eb)))), s)) (\<lambda>(chain, verified_outcome).
         act_bind (act_lift (ensure (eb_outcome eb = verified_outcome)
             (IncorrectOutcome verified_outcome (eb_outcome eb)))) (\<lambda>_.
         act_bind (act_lift (advance_tip certificate chain)) set_chain)))))"

text \<open>The checks of the certificate, against the tip the chain had at the start.\<close>

definition check_confirmed ::
  "'u worker_env \<Rightarrow> timestamp \<Rightarrow> chain_tip_state \<Rightarrow> confirmed_block generic_certificate \<Rightarrow> ('u, unit) work" where
  "check_confirmed env local_time tip certificate =
     (let blk = eb_block (confirmed_executed_block (hashed_value (gc_value certificate)))
      in act_bind (init_before_confirmation env local_time blk) (\<lambda>_.
         act_bind worker_ensure_is_active (\<lambda>_.
         act_bind expect_committee (\<lambda>(epoch, committee).
         act_bind (act_lift (check_block_epoch epoch blk)) (\<lambda>_.
         act_bind (act_lift (from_chain (gc_check (we_scheme env) confirmed_cv certificate committee))) (\<lambda>_.
           act_lift (ensure (tip_block_hash tip = previous_block_hash blk) InvalidBlockChaining)))))))"

text \<open>The execution of the block, the new state and what follows from it.\<close>

definition finish_confirmed ::
  "'u worker_env \<Rightarrow> timestamp \<Rightarrow> confirmed_block generic_certificate \<Rightarrow> nat option
     \<Rightarrow> ('u, chain_info_response \<times> network_actions) work" where
  "finish_confirmed env local_time certificate listener =
     (let eb = confirmed_executed_block (hashed_value (gc_value certificate)); blk = eb_block eb; height = block_height_of blk
      in act_bind (apply_confirmed env local_time certificate) (\<lambda>_.
         act_bind (act_get (info_response env)) (\<lambda>info.
         act_bind (act_modify (\<lambda>s. s\<lparr>ws_tracked := track_newly_created_chains env eb (ws_tracked s)\<rparr>)) (\<lambda>_.
         act_bind (network_actions_now env) (\<lambda>actions.
         act_bind save (\<lambda>_.
         act_bind (cache_value env (confirmed_inner (hashed_value (gc_value certificate)))) (\<lambda>_.
         act_bind (register_delivery_notifier height (notify actions (block_chain_id blk) (NewBlock height (gc_hash certificate)))
             listener) (\<lambda>_.
           act_return (info, notify actions (block_chain_id blk) (NewBlock height (gc_hash certificate)))))))))))"

definition process_confirmed_block ::
  "'u worker_env \<Rightarrow> (nat \<Rightarrow> timestamp) \<Rightarrow> confirmed_block generic_certificate \<Rightarrow> nat option
     \<Rightarrow> ('u, chain_info_response \<times> network_actions) work" where
  "process_confirmed_block env clock certificate listener =
     (let height = block_height_of (eb_block (confirmed_executed_block (hashed_value (gc_value certificate))))
      in act_bind (act_get (\<lambda>s. tip_state (ws_chain s))) (\<lambda>tip.
         if next_block_height tip < height then act_lift (Inl (WorkerMissingEarlierBlocks (next_block_height tip)))
         else if next_block_height tip > height then
           act_bind (act_get (info_response env)) (\<lambda>info.
           act_bind (network_actions_now env) (\<lambda>actions. act_return (info, actions)))
         else
           act_bind (check_confirmed env (clock 0) tip certificate) (\<lambda>_.
           act_bind (store_confirmed certificate) (\<lambda>_. finish_confirmed env (clock 1) certificate listener))))"

subsection \<open>Cross-chain updates\<close>

record update_helper =
  uh_allow_messages_from_deprecated_epochs :: bool
  uh_current_epoch :: "epoch option"
  uh_committees :: "(epoch, committee) btree_map"

definition update_helper_new :: "worker_config \<Rightarrow> 'u chain \<Rightarrow> update_helper" where
  "update_helper_new config chain =
     \<lparr>uh_allow_messages_from_deprecated_epochs = allow_messages_from_deprecated_epochs config,
      uh_current_epoch = sys_epoch (chain_system chain), uh_committees = sys_committees (chain_system chain)\<rparr>"

definition bundle_trusted :: "update_helper \<Rightarrow> block_height option \<Rightarrow> epoch \<times> message_bundle \<Rightarrow> bool" where
  "bundle_trusted self last_anticipated entry \<longleftrightarrow>
     uh_allow_messages_from_deprecated_epochs self
     \<or> Some (mb_height (snd entry)) \<le> last_anticipated
     \<or> Some (fst entry) \<ge> uh_current_epoch self
     \<or> bt_contains (uh_committees self) (fst entry)"

fun select_loop ::
  "update_helper \<Rightarrow> block_height \<Rightarrow> block_height option \<Rightarrow> nat \<Rightarrow> (epoch \<times> message_bundle) list
     \<Rightarrow> block_height option \<times> nat \<times> nat \<Rightarrow> (worker_error, nat \<times> nat) res" where
  "select_loop self next_height last_anticipated i [] (latest_height, skipped_len, trusted_len) = Inr (skipped_len, trusted_len)"
| "select_loop self next_height last_anticipated i (entry # pairs) (latest_height, skipped_len, trusted_len) =
     and_then (ensure (latest_height \<le> Some (mb_height (snd entry))) InvalidCrossChainRequest) (\<lambda>_.
       select_loop self next_height last_anticipated (i + 1) pairs
         (Some (mb_height (snd entry)),
          if mb_height (snd entry) < next_height then i + 1 else skipped_len,
          if bundle_trusted self last_anticipated entry then i + 1 else trusted_len))"

definition select_message_bundles ::
  "update_helper \<Rightarrow> block_height \<Rightarrow> block_height option \<Rightarrow> (epoch \<times> message_bundle) list
     \<Rightarrow> (worker_error, message_bundle list) res" where
  "select_message_bundles self next_height_to_receive last_anticipated pairs =
     and_then (select_loop self next_height_to_receive last_anticipated 0 pairs (None, 0, 0)) (\<lambda>(skipped_len, trusted_len).
       Inr (if skipped_len < trusted_len then map snd (drop skipped_len (take trusted_len pairs)) else []))"

text \<open>The loop over the bundles carries the height of the previous one and whether outboxes got new entries.\<close>

definition receive_bundle ::
  "'u worker_env \<Rightarrow> origin \<Rightarrow> timestamp \<Rightarrow> message_bundle \<Rightarrow> block_height option \<times> bool \<Rightarrow> ('u, block_height option \<times> bool) work" where
  "receive_bundle env orig local_time bundle acc =
     act_bind (\<lambda>s. (from_chain (receive_message_bundle (chain_env_at env (ws_storage s)) (ws_chain s) orig bundle local_time
         (fst acc \<noteq> Some (mb_height bundle))), s)) (\<lambda>(chain, new_outbox_entries).
     act_bind (set_chain chain) (\<lambda>_. act_return (Some (mb_height bundle), new_outbox_entries \<or> snd acc)))"

definition process_cross_chain_update ::
  "'u worker_env \<Rightarrow> (nat \<Rightarrow> timestamp) \<Rightarrow> origin \<Rightarrow> (epoch \<times> message_bundle) list
     \<Rightarrow> ('u, (block_height \<times> network_actions) option) work" where
  "process_cross_chain_update env clock orig pairs =
     act_bind (act_get ws_chain) (\<lambda>chain.
     act_bind (act_lift (from_chain (next_block_height_to_receive chain orig))) (\<lambda>next_height.
     act_bind (act_get (\<lambda>s. update_helper_new (ws_config s) chain)) (\<lambda>helper.
     act_bind (act_lift (select_message_bundles helper next_height (last_anticipated_block_height chain orig) pairs)) (\<lambda>bundles.
     if bundles = [] then act_return None
     else
       act_bind (act_fold (receive_bundle env orig (clock 0)) bundles (None, False)) (\<lambda>(_, new_outbox_entries).
       act_bind (act_get (\<lambda>s. allow_inactive_chains (ws_config s) \<or> is_active (ws_chain s))) (\<lambda>accepted.
       if \<not> accepted then act_return None
       else
         act_bind (if new_outbox_entries then network_actions_now env else act_return network_actions_default) (\<lambda>actions.
         act_bind save (\<lambda>_. act_return (Some (mb_height (last bundles), actions))))))))))"

definition mark_delivered ::
  "'u worker_env \<Rightarrow> target \<times> block_height \<Rightarrow> block_height \<Rightarrow> ('u, block_height) work" where
  "mark_delivered env entry delivered =
     act_bind (\<lambda>s. (ok_or (mark_messages_as_received (ws_chain s) (fst entry) (snd entry)) WorkerPanic, s)) (\<lambda>(chain, updated).
     act_bind (set_chain chain) (\<lambda>_.
     act_bind (act_get (\<lambda>s. updated \<and> all_messages_to_tracked_chains_delivered_up_to env s (snd entry))) (\<lambda>fully_delivered.
       act_return (if fully_delivered \<and> snd entry > delivered then snd entry else delivered))))"

definition confirm_updated_recipient :: "'u worker_env \<Rightarrow> (target \<times> block_height) list \<Rightarrow> ('u, unit) work" where
  "confirm_updated_recipient env heights =
     act_bind (act_fold (mark_delivered env) heights 0) (\<lambda>delivered.
     act_bind save (\<lambda>_.
       act_modify (\<lambda>s. let (pending, told) = notifier_notify delivered (ws_notifier s)
         in s\<lparr>ws_notifier := pending, ws_notified := ws_notified s @ told\<rparr>)))"

definition worker_update_received_certificate_trackers :: "(validator_name, u64) btree_map \<Rightarrow> ('u, unit) work" where
  "worker_update_received_certificate_trackers trackers =
     act_bind (act_modify (\<lambda>s. s\<lparr>ws_chain := update_received_certificate_trackers (ws_chain s) trackers\<rparr>)) (\<lambda>_. save)"

definition vote_for_leader_timeout :: "'u worker_env \<Rightarrow> timestamp \<Rightarrow> ('u, unit) work" where
  "vote_for_leader_timeout env local_time =
     act_bind (act_get ws_chain) (\<lambda>chain.
       case sys_epoch (chain_system chain) of
         None \<Rightarrow> act_return ()
       | Some epoch \<Rightarrow>
           act_bind (act_get (\<lambda>s. vote_timeout (we_scheme env) (we_hashers env) (cs_manager chain) (cs_chain_id chain)
               (next_block_height (tip_state chain)) epoch (key_pair (ws_config s)) local_time)) (\<lambda>(manager, voted).
           act_bind (update_manager (\<lambda>_. manager)) (\<lambda>_. if voted then save else act_return ())))"

definition vote_for_fallback :: "'u worker_env \<Rightarrow> timestamp \<Rightarrow> ('u, unit) work" where
  "vote_for_fallback env local_time =
     act_bind (act_get ws_chain) (\<lambda>chain.
       case (sys_epoch (chain_system chain), unskippable_bundles chain) of
         (Some epoch, entry # _) \<Rightarrow>
           if delta_since local_time (tb_seen entry)
               \<ge> fallback_duration (ownership_timeout_config (sys_ownership (chain_system chain)))
           then
             act_bind (act_get (\<lambda>s. vote_fallback (we_scheme env) (we_hashers env) (cs_manager chain) (cs_chain_id chain)
                 (next_block_height (tip_state chain)) epoch (key_pair (ws_config s)))) (\<lambda>(manager, voted).
             act_bind (update_manager (\<lambda>_. manager)) (\<lambda>_. if voted then save else act_return ()))
           else act_return ()
       | _ \<Rightarrow> act_return ())"

subsection \<open>Operations that drop their changes (temporary_changes.rs)\<close>

definition worker_describe_application :: "application_id \<Rightarrow> ('u, user_application_description) work" where
  "worker_describe_application app_id =
     act_bind worker_ensure_is_active (\<lambda>_ s.
       (from_chain (with_execution_context (map_err execution_error_from_system
          (describe_application (sys_registry (chain_system (ws_chain s))) app_id)) ContextDescribeApplication), s))"

definition stage_block_execution ::
  "'u worker_env \<Rightarrow> (nat \<Rightarrow> timestamp) \<Rightarrow> block \<Rightarrow> ('u, executed_block \<times> chain_info_response) work" where
  "stage_block_execution env clock blk =
     act_bind (\<lambda>s. (from_chain (execute_block (chain_env_at env (ws_storage s)) (ws_chain s) blk (clock 0) None), s))
       (\<lambda>(chain, outcome).
     act_bind (set_chain chain) (\<lambda>_.
       let response = chain_info_response_new (we_sign_info env) (chain_info_from (ce_election (we_chain env)) chain) None
       in act_return (\<lparr>eb_block = blk, eb_outcome = outcome\<rparr>,
            case block_authenticated_signer blk of
              Some signer \<Rightarrow> response\<lparr>response_info := (response_info response)
                \<lparr>requested_owner_balance := sys_balances (chain_system chain) (AccountUser signer)\<rparr>\<rparr>
            | None \<Rightarrow> response)))"

definition check_blob_size :: "'u worker_env \<Rightarrow> resource_control_policy \<Rightarrow> blob_content \<Rightarrow> (worker_error, unit) res" where
  "check_blob_size env policy content =
     and_then (ensure (case (try_from_nat (length (bc_bytes content)) :: u64 option) of
         Some n \<Rightarrow> n \<le> maximum_blob_size policy | None \<Rightarrow> False) BlobTooLarge) (\<lambda>_.
       case bc_blob_type content of
         BlobData \<Rightarrow> Inr ()
       | _ \<Rightarrow> and_then (map_err (\<lambda>_. Decompression)
             (we_decompressed_size_at_most env (bc_bytes content) (maximum_bytecode_size policy))) (\<lambda>small.
           ensure small BytecodeTooLarge))"

definition check_proposal_size :: "'u worker_env \<Rightarrow> block \<Rightarrow> u64 \<Rightarrow> blob list \<Rightarrow> (chain_error, unit) res" where
  "check_proposal_size env blk maximum_size blobs =
     ensure (we_proposal_size env (blk, blobs) \<le> unat maximum_size) BlockProposalTooLarge"

text \<open>Who proposed the block: the owner, its signature, and the signer of the operations unless the block was validated
  before.\<close>

definition check_proposal_authentication ::
  "'u worker_env \<Rightarrow> 'u chain \<Rightarrow> committee \<Rightarrow> block_proposal \<Rightarrow> (worker_error, unit) res" where
  "check_proposal_authentication env chain committee proposal =
     and_then (ok_or (verify_owner (ce_election (we_chain env)) (cs_manager chain) proposal) InvalidOwner) (\<lambda>pub_key.
     and_then (ensure (we_proposal_verify env (bp_content proposal) pub_key (bp_signature proposal)) WorkerCryptoError) (\<lambda>_.
       case bp_validated_block_certificate proposal of
         Some lite_cert \<Rightarrow> and_then (from_chain (lc_check (we_scheme env) lite_cert committee)) (\<lambda>_. Inr ())
       | None \<Rightarrow>
           (case block_authenticated_signer (pc_block (bp_content proposal)) of
              Some signer \<Rightarrow> ensure (signer = bp_owner proposal) (WorkerInvalidSigner signer)
            | None \<Rightarrow> Inr ())))"

text \<open>The blobs of the proposal and its timestamp.\<close>

definition check_proposal_contents ::
  "'u worker_env \<Rightarrow> worker_config \<Rightarrow> resource_control_policy \<Rightarrow> timestamp \<Rightarrow> block_proposal \<Rightarrow> (worker_error, unit) res" where
  "check_proposal_contents env config policy local_time proposal =
     (let blk = pc_block (bp_content proposal)
      in and_then (ensure (sorted_list_of_set (published_blob_ids blk) = map blob_id (bp_blobs proposal)) WrongBlobsInProposal) (\<lambda>_.
         and_then (collect_results (\<lambda>b. check_blob_size env policy (blob_content_of b)) (bp_blobs proposal)) (\<lambda>_.
           ensure (unat (saturating_sub (block_timestamp blk) local_time) * 1000 \<le> grace_period config) InvalidTimestamp)))"

text \<open>The checks of the executed block.\<close>

definition check_executed_block ::
  "'u worker_env \<Rightarrow> resource_control_policy \<Rightarrow> block_proposal \<Rightarrow> executed_block \<Rightarrow> ('u, unit) work" where
  "check_executed_block env policy proposal eb =
     act_bind (\<lambda>s. (get_required_blobs s eb (bp_blobs proposal), s)) (\<lambda>required.
     act_bind (act_lift (from_chain (check_proposal_size env (eb_block eb) (maximum_block_proposal_size policy)
         (bt_values required)))) (\<lambda>_.
     act_bind (act_lift (case bp_validated_block_certificate proposal of
         Some lite_cert \<Rightarrow> ensure (lc_with_value validated_cv lite_cert
           (hashed_new (hash_validated (we_hashers env)) (validated_block_new (we_hashers env) eb)) \<noteq> None) InvalidLiteCertificate
       | None \<Rightarrow> Inr ())) (\<lambda>_.
     act_bind (act_lift (ensure (\<not> is_fast (pc_round (bp_content proposal)) \<or> \<not> has_oracle_responses (eb_outcome eb))
         FastBlockUsingOracles)) (\<lambda>_ s.
       (from_chain (and_then (verify_counters (tip_state (ws_chain s)) (eb_block eb) (eb_outcome eb)) (\<lambda>_.
          validate_incoming_bundles (ws_chain s) (we_origins env (dom (inboxes (ws_chain s)))))), s)))))"

definition validate_block ::
  "'u worker_env \<Rightarrow> (nat \<Rightarrow> timestamp) \<Rightarrow> block_proposal \<Rightarrow> ('u, (block_execution_outcome \<times> timestamp) option) work" where
  "validate_block env clock proposal =
     (let content = bp_content proposal; blk = pc_block content
      in act_bind (act_lift (ensure ((bp_validated_block_certificate proposal \<noteq> None) = (pc_outcome content \<noteq> None))
             (InvalidBlockProposal ''Must contain a validation certificate if and only if it contains the execution outcome from a previous round''))) (\<lambda>_.
         act_bind worker_ensure_is_active (\<lambda>_.
         act_bind expect_committee (\<lambda>(epoch, committee).
         act_bind (act_lift (check_block_epoch epoch blk)) (\<lambda>_.
         act_bind (act_get ws_chain) (\<lambda>chain.
         act_bind (act_lift (check_proposal_authentication env chain committee proposal)) (\<lambda>_.
         act_bind (act_lift (from_chain (verify_block_chaining (tip_state chain) blk))) (\<lambda>_.
         act_bind (act_lift (from_chain (check_proposed_block (cs_manager chain) proposal))) (\<lambda>checked.
         if checked = OutcomeSkip then act_return None
         else
           act_bind (act_lift (from_chain (remove_bundles_from_inboxes chain blk))) (\<lambda>chain.
           act_bind (set_chain chain) (\<lambda>_.
           act_bind (\<lambda>s. (check_proposal_contents env (ws_config s) (committee_policy committee) (clock 0) proposal, s)) (\<lambda>_.
           act_bind (case pc_outcome content of
               Some outcome \<Rightarrow> act_return outcome
             | None \<Rightarrow>
                 act_bind (\<lambda>s. (from_chain (execute_block (chain_env_at env (ws_storage s)) chain blk (clock 1) None), s))
                   (\<lambda>(chain, outcome). act_bind (set_chain chain) (\<lambda>_. act_return outcome))) (\<lambda>outcome.
           act_bind (check_executed_block env (committee_policy committee) proposal \<lparr>eb_block = blk, eb_outcome = outcome\<rparr>) (\<lambda>_.
             act_return (Some (outcome, clock 1))))))))))))))))"

text \<open>The bundles that wait in the inboxes; those of channels the chain is not subscribed to are left out.\<close>

definition pending_message_bundles :: "'u worker_env \<Rightarrow> 'u chain \<Rightarrow> incoming_bundle list" where
  "pending_message_bundles env chain =
     (let action = (if is_closed chain then Reject else Accept);
          subscribed = (\<lambda>orig. case origin_medium orig of
            Channel (ChannelFullName SystemApp name) \<Rightarrow>
              ChannelSubscription (origin_sender orig) name \<in> set (sys_subscriptions (chain_system chain))
          | _ \<Rightarrow> True)
      in concat (map (\<lambda>orig. case inboxes chain orig of
             Some inbox \<Rightarrow> map (\<lambda>b. \<lparr>ib_origin = orig, ib_bundle = b, ib_action = action\<rparr>) (added_bundles inbox)
           | None \<Rightarrow> []) (filter subscribed (we_origins env (dom (inboxes chain))))))"

definition sent_certificate_hashes :: "'u chain \<Rightarrow> block_height_range \<Rightarrow> (worker_error, crypto_hash list) res" where
  "sent_certificate_hashes chain heights =
     and_then (case range_limit heights of
         None \<Rightarrow> Inr (length (confirmed_log chain))
       | Some limit \<Rightarrow> and_then (ok_or (checked_add (range_start heights) limit) (WorkerArithmeticError Overflow)) (\<lambda>end_of_range.
           Inr (min (unat end_of_range) (length (confirmed_log chain))))) (\<lambda>end_of_range.
       Inr (drop (unat (range_start heights)) (take end_of_range (confirmed_log chain))))"

definition prepare_chain_info_response :: "'u worker_env \<Rightarrow> chain_info_query \<Rightarrow> ('u, chain_info_response) work" where
  "prepare_chain_info_response env query =
     act_bind (act_get ws_chain) (\<lambda>chain.
     act_bind (act_lift (case test_next_block_height query of
         Some height \<Rightarrow> ensure (next_block_height (tip_state chain) = height)
           (WorkerUnexpectedBlockHeight height (next_block_height (tip_state chain)))
       | None \<Rightarrow> Inr ())) (\<lambda>_.
     act_bind (act_lift (case request_sent_certificate_hashes_in_range query of
         Some heights \<Rightarrow> sent_certificate_hashes chain heights | None \<Rightarrow> Inr [])) (\<lambda>hashes.
     act_bind (act_get (\<lambda>s. key_pair (ws_config s))) (\<lambda>key.
       let system = chain_system chain; info = chain_info_from (ce_election (we_chain env)) chain
       in act_return (chain_info_response_new (we_sign_info env) (info
            \<lparr>requested_committees := (if request_committees query then Some (sys_committees system) else None),
             requested_owner_balance := Option.bind (request_owner_balance query) (sys_balances system),
             requested_pending_message_bundles :=
               (if request_pending_message_bundles query then pending_message_bundles env chain else []),
             requested_sent_certificate_hashes := hashes,
             requested_received_log := (case request_received_log_excluding_first_n query of
               Some start \<Rightarrow> drop (unat start) (received_log chain) | None \<Rightarrow> []),
             info_manager := (if request_manager_values query then info_add_values (info_manager info) (cs_manager chain)
               else info_manager info)\<rparr>) key)))))"

subsection \<open>Requests (state/mod.rs and actor.rs)\<close>

definition handle_block_proposal ::
  "'u worker_env \<Rightarrow> (nat \<Rightarrow> timestamp) \<Rightarrow> block_proposal \<Rightarrow> ('u, chain_info_response \<times> network_actions) work" where
  "handle_block_proposal env clock proposal =
     act_bind (temporary_changes (validate_block env clock proposal)) (\<lambda>validation_outcome.
     act_bind (case validation_outcome of
         Some (outcome, local_time) \<Rightarrow>
           act_bind (attempted_changes (vote_for_block_proposal env proposal outcome local_time)) (\<lambda>_. network_actions_now env)
       | None \<Rightarrow> act_return network_actions_default) (\<lambda>actions.
     act_bind (act_get (info_response env)) (\<lambda>info. act_return (info, actions))))"

definition handle_chain_info_query ::
  "'u worker_env \<Rightarrow> (nat \<Rightarrow> timestamp) \<Rightarrow> chain_info_query \<Rightarrow> ('u, chain_info_response \<times> network_actions) work" where
  "handle_chain_info_query env clock query =
     act_bind (if request_leader_timeout query then attempted_changes (vote_for_leader_timeout env (clock 0)) else act_return ()) (\<lambda>_.
     act_bind (if request_fallback query then attempted_changes (vote_for_fallback env (clock 1)) else act_return ()) (\<lambda>_.
     act_bind (temporary_changes (prepare_chain_info_response env query)) (\<lambda>response.
     act_bind (network_actions_now env) (\<lambda>actions. act_return (response, actions)))))"

text \<open>The requests of \<open>ChainWorkerRequest\<close>, but for the query of an application and those only used by tests.\<close>

datatype chain_worker_request =
    DescribeApplication application_id
  | StageBlockExecution block
  | ProcessTimeout "timeout_value generic_certificate"
  | HandleBlockProposal block_proposal
  | ProcessValidatedBlock "validated_block generic_certificate" "blob list"
  | ProcessConfirmedBlock "confirmed_block generic_certificate" "nat option"
  | ProcessCrossChainUpdate origin "(epoch \<times> message_bundle) list"
  | ConfirmRecipient "(target \<times> block_height) list"
  | HandleChainInfoQuery chain_info_query
  | DownloadPendingBlob blob_id
  | UpdateReceivedCertificateTrackers "(validator_name, u64) btree_map"

datatype worker_answer =
    DescriptionAnswer user_application_description
  | StagedAnswer executed_block chain_info_response
  | InfoAnswer chain_info_response network_actions
  | ValidatedAnswer chain_info_response network_actions bool
  | UpdateAnswer "(block_height \<times> network_actions) option"
  | BlobAnswer blob
  | UnitAnswer

definition answer :: "('a \<Rightarrow> worker_answer) \<Rightarrow> ('u, 'a) work \<Rightarrow> ('u, worker_answer) work" where
  "answer f work = act_bind work (\<lambda>x. act_return (f x))"

fun handle_request ::
  "'u worker_env \<Rightarrow> (nat \<Rightarrow> timestamp) \<Rightarrow> chain_worker_request \<Rightarrow> ('u, worker_answer) work" where
  "handle_request env clock (DescribeApplication app_id) =
     answer DescriptionAnswer (temporary_changes (worker_describe_application app_id))"
| "handle_request env clock (StageBlockExecution blk) =
     answer (\<lambda>(eb, response). StagedAnswer eb response) (temporary_changes (stage_block_execution env clock blk))"
| "handle_request env clock (ProcessTimeout certificate) =
     answer (\<lambda>(info, actions). InfoAnswer info actions) (attempted_changes (process_timeout env clock certificate))"
| "handle_request env clock (HandleBlockProposal proposal) =
     answer (\<lambda>(info, actions). InfoAnswer info actions) (handle_block_proposal env clock proposal)"
| "handle_request env clock (ProcessValidatedBlock certificate blobs) =
     answer (\<lambda>(info, actions, duplicated). ValidatedAnswer info actions duplicated)
       (attempted_changes (process_validated_block env clock certificate blobs))"
| "handle_request env clock (ProcessConfirmedBlock certificate listener) =
     answer (\<lambda>(info, actions). InfoAnswer info actions) (attempted_changes (process_confirmed_block env clock certificate listener))"
| "handle_request env clock (ProcessCrossChainUpdate orig pairs) =
     answer UpdateAnswer (attempted_changes (process_cross_chain_update env clock orig pairs))"
| "handle_request env clock (ConfirmRecipient heights) =
     answer (\<lambda>_. UnitAnswer) (attempted_changes (confirm_updated_recipient env heights))"
| "handle_request env clock (HandleChainInfoQuery query) =
     answer (\<lambda>(info, actions). InfoAnswer info actions) (handle_chain_info_query env clock query)"
| "handle_request env clock (DownloadPendingBlob bid) =
     answer BlobAnswer (\<lambda>s. (download_pending_blob s bid, s))"
| "handle_request env clock (UpdateReceivedCertificateTrackers trackers) =
     answer (\<lambda>_. UnitAnswer) (attempted_changes (worker_update_received_certificate_trackers trackers))"

text \<open>A worker is loaded from storage.\<close>

definition worker_load ::
  "worker_config \<Rightarrow> db_storage \<Rightarrow> value_cache \<Rightarrow> chain_id set option \<Rightarrow> delivery_notifiers \<Rightarrow> 'u chain \<Rightarrow> 'u worker_state" where
  "worker_load config storage cache tracked notifier chain =
     \<lparr>ws_config = config, ws_storage = storage, ws_chain = chain, ws_stored = chain, ws_succeeded = False,
      ws_values = cache, ws_tracked = tracked, ws_notifier = notifier, ws_notified = [], ws_knows_active = False\<rparr>"

end
