(* ===== verification/Worker_Requests.thy ===== *)
theory Worker_Requests
  imports Chain_Worker Consensus
begin

section \<open>What the requests to a worker save\<close>

text \<open>
  For each operation of the chain worker, what it saves: a new consensus state (proposals, votes, timeouts), the chain with
  one more confirmed block, or a chain with the same trunk (cross-chain updates and confirmations). Whatever an operation
  does not save is rolled back, so these lemmas say what a request does to the stored chain.
\<close>

subsection \<open>The trunk of a chain\<close>

text \<open>What only a confirmed block changes.\<close>

definition trunk :: "'x chain_state_view \<Rightarrow> chain_id \<times> chain_tip_state \<times> crypto_hash list" where
  "trunk c = (cs_chain_id c, tip_state c, confirmed_log c)"

lemma trunk_updates [simp]:
  "trunk (c\<lparr>execution_state := e\<rparr>) = trunk c" "trunk (c\<lparr>execution_state_hash := h\<rparr>) = trunk c"
  "trunk (c\<lparr>cs_manager := m\<rparr>) = trunk c" "trunk (c\<lparr>received_log := l\<rparr>) = trunk c"
  "trunk (c\<lparr>inboxes := i\<rparr>) = trunk c" "trunk (c\<lparr>unskippable_bundles := q\<rparr>) = trunk c"
  "trunk (c\<lparr>removed_unskippable_bundles := r\<rparr>) = trunk c" "trunk (c\<lparr>outboxes := ob\<rparr>) = trunk c"
  "trunk (c\<lparr>outbox_counters := k\<rparr>) = trunk c" "trunk (c\<lparr>channels := ch\<rparr>) = trunk c"
  "trunk (c\<lparr>received_certificate_trackers := t\<rparr>) = trunk c"
  by (simp_all add: trunk_def)

lemma with_execution_context_Inr [simp]: "with_execution_context r ctx = Inr x \<longleftrightarrow> r = Inr x"
  by (simp add: with_execution_context_def)

lemma reset_manager_trunk: "reset_manager env c h t = Inr d \<Longrightarrow> trunk d = trunk c"
  by (auto simp: reset_manager_def)

lemma execute_init_message_trunk: "execute_init_message env c mid config t u = Inr d \<Longrightarrow> trunk d = trunk c"
  by (auto simp: execute_init_message_def Let_def dest!: reset_manager_trunk)

lemma init_if_opened_trunk: "init_if_opened env c blk t = Inr d \<Longrightarrow> trunk d = trunk c"
  by (auto simp: init_if_opened_def split: if_splits prod.splits dest!: execute_init_message_trunk)

lemma process_unsubscribes_trunk: "process_unsubscribes c names app = Inr d \<Longrightarrow> trunk d = trunk c"
  by (auto simp: process_unsubscribes_def split: if_splits)

lemma process_subscribes_trunk: "process_subscribes c names app = Inr (d, b) \<Longrightarrow> trunk d = trunk c"
  by (auto simp: process_subscribes_def Let_def case_prod_beta split: if_splits)

lemma process_raw_execution_outcome_trunk:
  "process_raw_execution_outcome c app lift height raw = Inr (d, msgs, events) \<Longrightarrow> trunk d = trunk c"
  by (auto simp: process_raw_execution_outcome_def Let_def case_prod_beta
      dest!: process_unsubscribes_trunk process_subscribes_trunk)

lemma process_execution_outcomes_trunk:
  "process_execution_outcomes c height outcomes = Inr (d, msgs, events) \<Longrightarrow> trunk d = trunk c"
  by (induction outcomes arbitrary: c msgs events)
    (fastforce split: execution_outcome.splits dest: process_raw_execution_outcome_trunk)+

lemma with_chain_state_trunk: "with_chain_state rc c action = Inr (rc', d) \<Longrightarrow> trunk d = trunk c"
  by (auto simp: with_chain_state_def)

lemma charge_messages_trunk: "charge_messages msgs (rc, c) = Inr (rc', d) \<Longrightarrow> trunk d = trunk c"
proof (induction msgs arbitrary: rc c)
  case (Cons msg msgs)
  then obtain rc1 c1 where "with_chain_state rc c (\<lambda>k. track_message sources_holder k (om_message msg)) = Inr (rc1, c1)"
    "charge_messages msgs (rc1, c1) = Inr (rc', d)" by auto
  then show ?case using Cons.IH with_chain_state_trunk by metis
qed simp

lemma accept_message_trunk:
  "accept_message env ctx posted i t (c, tr, rc) = Inr (d, tr', rc') \<Longrightarrow> trunk d = trunk c"
  by (auto simp: accept_message_def Let_def case_prod_beta split: option.splits if_splits)

lemma execute_message_in_block_trunk:
  "execute_message_in_block env mid posted b blk i t (c, tr, rc) = Inr (d, tr', rc') \<Longrightarrow> trunk d = trunk c"
  by (auto simp: execute_message_in_block_def Let_def split: message_action.splits
      dest: accept_message_trunk reject_message_state)

lemma execute_messages_in_block_trunk:
  "execute_messages_in_block env msgs b blk i t (c, tr, rc) = Inr (d, tr', rc') \<Longrightarrow> trunk d = trunk c"
proof (induction msgs arbitrary: c tr rc)
  case (Cons msg msgs)
  obtain mid posted where "msg = (mid, posted)" by (cases msg)
  with Cons.prems obtain c1 tr1 rc1 where
    "execute_message_in_block env mid posted b blk i t (c, tr, rc) = Inr (c1, tr1, rc1)"
    "execute_messages_in_block env msgs b blk i t (c1, tr1, rc1) = Inr (d, tr', rc')" by auto
  then show ?case using Cons.IH execute_message_in_block_trunk by metis
qed simp

lemma run_transaction_trunk:
  assumes "run_transaction env blk t i txn (c, tr, rc) = Inr (d, tr', rc')"
  shows "trunk d = trunk c"
proof (cases txn)
  case (ReceiveMessages b)
  with assms show ?thesis
    by (auto simp: run_transaction_def Let_def dest: execute_messages_in_block_trunk)
next
  case (ExecuteOperation op)
  with assms show ?thesis
    by (auto simp: run_transaction_def Let_def case_prod_beta dest!: with_chain_state_trunk)
qed

lemma execute_transaction_trunk:
  assumes "execute_transaction env blk t txn st = Inr st'"
  shows "trunk (bs_chain st') = trunk (bs_chain st)"
proof -
  obtain i x where txn: "txn = (i, x)" by (cases txn)
  obtain tr d tr' rc' d2 height outcomes msgs events rc2 where
    r: "run_transaction env blk t i x (bs_chain st, tr, bs_controller st) = Inr (d, tr', rc')"
    and p: "process_execution_outcomes d height outcomes = Inr (d2, msgs, events)"
    and q: "(if pays_for_messages x then with_execution_context (charge_messages msgs (rc', d2)) (transaction_context i x)
        else Inr (rc', d2)) = Inr (rc2, bs_chain st')"
    using assms unfolding execute_transaction_def Let_def txn by (auto split: prod.splits)
  have "trunk (bs_chain st') = trunk d2"
    using q by (auto split: if_splits dest!: charge_messages_trunk)
  then show ?thesis
    using run_transaction_trunk [OF r] process_execution_outcomes_trunk [OF p] by simp
qed

lemma execute_transactions_trunk:
  "execute_transactions env blk t txns st = Inr st' \<Longrightarrow> trunk (bs_chain st') = trunk (bs_chain st)"
  by (induction txns arbitrary: st) (auto dest!: execute_transaction_trunk)

lemma execute_block_trunk:
  assumes "execute_block env c blk t replaying = Inr (d, outcome)"
  shows "trunk d = trunk c"
proof -
  obtain c1 rc st rc2 c2 h where i: "init_if_opened env c blk t = Inr c1"
    and run: "execute_transactions env blk t (transactions blk)
      \<lparr>bs_chain = set_block_timestamp c1 (block_timestamp blk), bs_controller = rc, bs_next_index = 0,
       bs_replaying = replaying, bs_responses = [], bs_messages = [], bs_events = []\<rparr> = Inr st"
    and fee: "(if is_closed (bs_chain st) then Inr (bs_controller st, bs_chain st)
      else with_execution_context (with_chain_state (bs_controller st) (bs_chain st) (track_block sources_holder)) ContextBlock)
      = Inr (rc2, c2)"
    and final: "reset_manager env (c2\<lparr>execution_state_hash := Some (ce_state_hash env (execution_state c2))\<rparr>) h t = Inr d"
    using assms unfolding execute_block_def Let_def by (auto split: prod.splits)
  have "trunk c2 = trunk (bs_chain st)" using fee by (auto split: if_splits dest!: with_chain_state_trunk)
  then show ?thesis
    using init_if_opened_trunk [OF i] execute_transactions_trunk [OF run] reset_manager_trunk [OF final]
    by (simp add: set_block_timestamp_def)
qed

lemma remove_from_inboxes_fields:
  "remove_from_inboxes groups c = Inr (d, removed) \<Longrightarrow> trunk d = trunk c"
  by (induction groups arbitrary: c removed) (fastforce simp: set_inbox_def)+

lemma remove_bundles_trunk: "remove_bundles_from_inboxes c blk = Inr d \<Longrightarrow> trunk d = trunk c"
  by (auto simp: remove_bundles_from_inboxes_def Let_def case_prod_beta split: if_splits dest!: remove_from_inboxes_fields)

lemma receive_in_inbox_trunk: "receive_in_inbox c orig b t = Inr d \<Longrightarrow> trunk d = trunk c"
  by (auto simp: receive_in_inbox_def set_inbox_def Let_def case_prod_beta split: if_splits)

lemma handle_immediate_messages_trunk:
  "handle_immediate_messages env source t u msgs c = Inr (d, x, y) \<Longrightarrow> trunk d = trunk c"
  by (induction msgs arbitrary: c x y)
    (fastforce split: option.splits if_splits dest: execute_init_message_trunk)+

lemma receive_message_bundle_trunk:
  assumes "receive_message_bundle env c orig b t add = Inr (d, new)"
  shows "trunk d = trunk c"
proof -
  obtain c1 x y d1 d2 d3 where h: "handle_immediate_messages env (ChainAndHeight (origin_sender orig) (mb_height b))
      (mb_timestamp b) t (mb_messages b) c = Inr (c1, x, y)"
    and d: "process_unsubscribes c1 y SystemApp = Inr d1" "process_subscribes d1 x SystemApp = Inr (d2, new)"
    "(if mb_goes_to_inbox b then receive_in_inbox d2 orig b t else Inr d2) = Inr d3"
    "d = (if add then d3\<lparr>received_log := received_log d3 @ [ChainAndHeight (origin_sender orig) (mb_height b)]\<rparr> else d3)"
    using assms unfolding receive_message_bundle_def Let_def by (auto split: prod.splits)
  have "trunk d3 = trunk d2" using d(3) by (auto split: if_splits dest: receive_in_inbox_trunk)
  then show ?thesis
    using handle_immediate_messages_trunk [OF h] process_unsubscribes_trunk [OF d(1)] process_subscribes_trunk [OF d(2)] d(4)
    by simp
qed

subsection \<open>Single actions\<close>

lemma from_chain_Inr_iff [simp]: "from_chain r = Inr x \<longleftrightarrow> r = Inr x"
  by (simp add: from_chain_def)

lemma from_view_Inr_iff [simp]: "from_view r = Inr x \<longleftrightarrow> r = Inr x"
  by (simp add: from_view_def)

lemma save_simps [simp]: "save s = (Inr (), s\<lparr>ws_stored := ws_chain s, ws_succeeded := True\<rparr>)"
  by (simp add: save_def)

lemma set_chain_simps [simp]: "set_chain chain s = (Inr (), s\<lparr>ws_chain := chain\<rparr>)"
  by (simp add: set_chain_def)

definition with_manager :: "'u chain \<Rightarrow> chain_manager \<Rightarrow> 'u chain" where
  "with_manager chain m = chain\<lparr>cs_manager := m\<rparr>"

lemma with_manager_simps [simp]:
  "cs_manager (with_manager chain m) = m" "execution_state (with_manager chain m) = execution_state chain"
  "tip_state (with_manager chain m) = tip_state chain" "confirmed_log (with_manager chain m) = confirmed_log chain"
  by (simp_all add: with_manager_def)

lemma update_manager_simps [simp]:
  "update_manager f s = (Inr (), s\<lparr>ws_chain := with_manager (ws_chain s) (f (cs_manager (ws_chain s)))\<rparr>)"
  by (simp add: update_manager_def with_manager_def)

lemma cache_value_simps [simp]:
  "cache_value env v s = (Inr (), s\<lparr>ws_values := fst (value_cache_insert env v (ws_values s))\<rparr>)"
  by (simp add: cache_value_def)

lemma act_bind_done [simp]:
  "act_bind save k s = k () (s\<lparr>ws_stored := ws_chain s, ws_succeeded := True\<rparr>)"
  "act_bind (set_chain chain) k s = k () (s\<lparr>ws_chain := chain\<rparr>)"
  "act_bind (update_manager f) k s = k () (s\<lparr>ws_chain := with_manager (ws_chain s) (f (cs_manager (ws_chain s)))\<rparr>)"
  "act_bind (cache_value env v) k s = k () (s\<lparr>ws_values := fst (value_cache_insert env v (ws_values s))\<rparr>)"
  by (simp_all add: act_bind_def)

lemma ensure_is_active_result:
  assumes "worker_ensure_is_active s = (r, s1)"
  obtains k where "s1 = s\<lparr>ws_knows_active := k\<rparr>"
proof -
  have "s1 = s\<lparr>ws_knows_active := ws_knows_active s1\<rparr>"
    using assms by (auto simp: worker_ensure_is_active_def split: if_splits sum.splits)
  then show ?thesis by (rule that)
qed

lemma expect_committee_result:
  assumes "expect_committee s = (r, s1)"
  shows "s1 = s" "r = Inr ec \<Longrightarrow> current_committee (chain_system (ws_chain s)) = Some ec"
  using assms by (auto simp: expect_committee_def)

lemma committeeE:
  assumes "act_bind worker_ensure_is_active (\<lambda>_. act_bind expect_committee f) s = (r, s')"
  obtains (fails) e k where "r = Inl e" "s' = s\<lparr>ws_knows_active := k\<rparr>"
    | (continues) epoch committee k where "current_committee (chain_system (ws_chain s)) = Some (epoch, committee)"
      "f (epoch, committee) (s\<lparr>ws_knows_active := k\<rparr>) = (r, s')"
  using assms
proof (cases rule: act_bindE)
  case (fails e)
  from ensure_is_active_result [OF fails(1)] obtain k where "s' = s\<lparr>ws_knows_active := k\<rparr>" .
  then show ?thesis using that(1) fails(2) by blast
next
  case (continues x s1)
  from ensure_is_active_result [OF continues(1)] obtain k where s1: "s1 = s\<lparr>ws_knows_active := k\<rparr>" .
  from continues(2) show ?thesis
  proof (cases rule: act_bindE)
    case (fails e)
    then show ?thesis using expect_committee_result(1) s1 that(1) by metis
  next
    case (continues ec s2)
    obtain epoch committee where ec: "ec = (epoch, committee)" by (cases ec)
    show ?thesis
      using that(2) [of epoch committee k] expect_committee_result [OF continues(1)] continues(2) s1 ec by simp
  qed
qed


subsection \<open>Confirming a block\<close>

text \<open>What is stored of the chain, and what no operation changes before it saves.\<close>

definition kept :: "'u worker_state \<Rightarrow> 'u chain \<times> bool \<times> worker_config" where
  "kept s = (ws_stored s, ws_succeeded s, ws_config s)"

lemma act_bind_keepsE:
  assumes "act_bind m k s = (r, s1)" "f s1 \<noteq> f s" "keeps f m"
  obtains x s2 where "m s = (Inr x, s2)" "f s2 = f s" "k x s2 = (r, s1)"
  using assms(1)
proof (cases rule: act_bindE)
  case (fails e)
  then show ?thesis using assms(2,3) keepsD by metis
next
  case (continues x s2)
  then show ?thesis using that assms(3) keepsD by metis
qed

lemma keeps_read: "keeps f (\<lambda>s. (g s, s))"
  by (simp add: keeps_def)

lemma keeps_kept:
  "keeps kept worker_ensure_is_active" "keeps kept expect_committee" "keeps kept (set_chain chain)"
  "keeps kept (network_actions_now env)" "keeps kept (store_confirmed certificate)"
  by (auto intro!: keepsI simp: kept_def worker_ensure_is_active_def expect_committee_def network_actions_now_def
      store_confirmed_def Let_def split: if_splits sum.splits elim!: act_bindE)

lemma init_before_confirmation_result:
  assumes "init_before_confirmation env t blk s = (r, s1)"
  shows "kept s1 = kept s" "trunk (ws_chain s1) = trunk (ws_chain s)" "is_active (ws_chain s) \<Longrightarrow> s1 = s"
    "ws_storage s1 = ws_storage s"
  using assms
  by (auto simp: init_before_confirmation_def kept_def split: if_splits option.splits prod.splits
      elim!: act_bindE dest!: execute_init_message_trunk)

lemma store_confirmed_result:
  assumes "store_confirmed c s = (Inr u, s1)"
  shows "s1 = s\<lparr>ws_storage := ws_storage s1\<rparr>"
    "db_confirmed_blocks (ws_storage s1) = (db_confirmed_blocks (ws_storage s))(gc_hash c \<mapsto> hashed_value (gc_value c))"
    "db_certificates (ws_storage s1) = (db_certificates (ws_storage s))(gc_hash c \<mapsto> gc_lite_certificate confirmed_cv c)"
  using assms by (auto simp: store_confirmed_def Let_def split: sum.splits)

lemma apply_confirmed_result:
  assumes "apply_confirmed env t c s = (Inr u, s1)"
  shows "\<exists>d next. s1 = s\<lparr>ws_chain := d\<rparr> \<and> confirmed_log d = confirmed_log (ws_chain s) @ [gc_hash c]
    \<and> cs_chain_id d = cs_chain_id (ws_chain s) \<and> try_add_one (next_block_height (tip_state (ws_chain s))) = Inr next
    \<and> next_block_height (tip_state d) = next \<and> tip_block_hash (tip_state d) = Some (gc_hash c)"
proof -
  obtain c1 c2 d o2 where rm: "remove_bundles_from_inboxes (ws_chain s)
      (eb_block (confirmed_executed_block (hashed_value (gc_value c)))) = Inr c1"
    and ex: "execute_block (chain_env_at env (ws_storage s)) c1
      (eb_block (confirmed_executed_block (hashed_value (gc_value c)))) t
      (Some (oracle_responses (eb_outcome (confirmed_executed_block (hashed_value (gc_value c)))))) = Inr (c2, o2)"
    and ad: "advance_tip c c2 = Inr d" and s1: "s1 = s\<lparr>ws_chain := d\<rparr>"
    using assms unfolding apply_confirmed_def Let_def by (auto elim!: act_bindE act_liftE)
  have tr: "trunk c2 = trunk (ws_chain s)"
    using execute_block_trunk [OF ex] remove_bundles_trunk [OF rm] by simp
  obtain nh where "try_add_one (next_block_height (tip_state c2)) = Inr nh"
    "confirmed_log d = confirmed_log c2 @ [gc_hash c]" "cs_chain_id d = cs_chain_id c2"
    "next_block_height (tip_state d) = nh" "tip_block_hash (tip_state d) = Some (gc_hash c)"
    using ad by (auto simp: advance_tip_def Let_def)
  with tr s1 show ?thesis by (auto simp: trunk_def)
qed

lemma apply_confirmed_kept: "keeps kept (apply_confirmed env t c)"
  unfolding apply_confirmed_def Let_def
  by (auto intro!: keeps_bind keeps_read keeps_kept split: prod.splits)

text \<open>What a confirmed block has passed, and what is saved.\<close>

definition confirms :: "'u worker_env \<Rightarrow> confirmed_block generic_certificate \<Rightarrow> 'u worker_state \<Rightarrow> 'u worker_state \<Rightarrow> bool" where
  "confirms env c s s1 \<longleftrightarrow>
     (let blk = eb_block (confirmed_executed_block (hashed_value (gc_value c))); chain = ws_chain s; d = ws_stored s1 in
      block_height_of blk = next_block_height (tip_state chain)
      \<and> previous_block_hash blk = tip_block_hash (tip_state chain)
      \<and> (is_active chain \<longrightarrow> (\<exists>epoch committee. current_committee (chain_system chain) = Some (epoch, committee)
          \<and> gc_check (we_scheme env) confirmed_cv c committee = Inr ()))
      \<and> ws_chain s1 = d \<and> ws_succeeded s1 \<and> ws_config s1 = ws_config s
      \<and> confirmed_log d = confirmed_log chain @ [gc_hash c] \<and> cs_chain_id d = cs_chain_id chain
      \<and> try_add_one (next_block_height (tip_state chain)) = Inr (next_block_height (tip_state d))
      \<and> tip_block_hash (tip_state d) = Some (gc_hash c)
      \<and> db_confirmed_blocks (ws_storage s1)
         = (db_confirmed_blocks (ws_storage s))(gc_hash c \<mapsto> hashed_value (gc_value c))
      \<and> db_certificates (ws_storage s1)
         = (db_certificates (ws_storage s))(gc_hash c \<mapsto> gc_lite_certificate confirmed_cv c))"

lemma check_confirmed_result:
  assumes "check_confirmed env t tip c s = (r, s1)"
  shows "kept s1 = kept s" "trunk (ws_chain s1) = trunk (ws_chain s)" "ws_storage s1 = ws_storage s"
    and "r = Inr u \<Longrightarrow> tip_block_hash tip = previous_block_hash (eb_block (confirmed_executed_block (hashed_value (gc_value c))))"
    and "r = Inr u \<Longrightarrow> is_active (ws_chain s) \<Longrightarrow> \<exists>epoch committee.
      current_committee (chain_system (ws_chain s)) = Some (epoch, committee)
      \<and> gc_check (we_scheme env) confirmed_cv c committee = Inr ()"
proof -
  let ?blk = "eb_block (confirmed_executed_block (hashed_value (gc_value c)))"
  have "\<exists>s2 r2. init_before_confirmation env t ?blk s = (r2, s2) \<and> (\<exists>k. s1 = s2\<lparr>ws_knows_active := k\<rparr>)
    \<and> (isl r \<or> tip_block_hash tip = previous_block_hash ?blk \<and> (\<exists>epoch committee.
      current_committee (chain_system (ws_chain s2)) = Some (epoch, committee)
      \<and> gc_check (we_scheme env) confirmed_cv c committee = Inr ()))"
    using assms unfolding check_confirmed_def Let_def
  proof (cases rule: act_bindE)
    case (fails e)
    then show ?thesis by (intro exI [of _ s1] exI [of _ "Inl e"]) (auto intro: exI [of _ "ws_knows_active s1"])
  next
    case (continues x s2)
    from continues(2) have "(\<exists>k. s1 = s2\<lparr>ws_knows_active := k\<rparr>)
      \<and> (isl r \<or> tip_block_hash tip = previous_block_hash ?blk \<and> (\<exists>epoch committee.
        current_committee (chain_system (ws_chain s2)) = Some (epoch, committee)
        \<and> gc_check (we_scheme env) confirmed_cv c committee = Inr ()))"
    proof (cases rule: committeeE)
      case (fails e k)
      then show ?thesis by auto
    next
      case (continues epoch committee k)
      then show ?thesis by (auto elim!: act_liftE split: if_splits) (auto simp: ensure_def split: if_splits)
    qed
    with continues(1) show ?thesis by blast
  qed
  then obtain s2 r2 k where s2: "init_before_confirmation env t ?blk s = (r2, s2)" and s1: "s1 = s2\<lparr>ws_knows_active := k\<rparr>"
    and r: "isl r \<or> tip_block_hash tip = previous_block_hash ?blk \<and> (\<exists>epoch committee.
      current_committee (chain_system (ws_chain s2)) = Some (epoch, committee)
      \<and> gc_check (we_scheme env) confirmed_cv c committee = Inr ())" by blast
  note i = init_before_confirmation_result [OF s2]
  show "kept s1 = kept s" "trunk (ws_chain s1) = trunk (ws_chain s)" "ws_storage s1 = ws_storage s"
    using i s1 by (simp_all add: kept_def)
  show "tip_block_hash tip = previous_block_hash ?blk" if "r = Inr u" using r that by auto
  show "\<exists>epoch committee. current_committee (chain_system (ws_chain s)) = Some (epoch, committee)
      \<and> gc_check (we_scheme env) confirmed_cv c committee = Inr ()" if "r = Inr u" "is_active (ws_chain s)"
    using r that i(3) by auto
qed

lemma finish_confirmed_saves:
  assumes run: "finish_confirmed env t c listener s = (r, s1)" and change: "kept s1 \<noteq> kept s"
  shows "ws_chain s1 = ws_stored s1" "ws_succeeded s1" "ws_config s1 = ws_config s" "ws_storage s1 = ws_storage s"
    "confirmed_log (ws_stored s1) = confirmed_log (ws_chain s) @ [gc_hash c]" "cs_chain_id (ws_stored s1) = cs_chain_id (ws_chain s)"
    "try_add_one (next_block_height (tip_state (ws_chain s))) = Inr (next_block_height (tip_state (ws_stored s1)))"
    "tip_block_hash (tip_state (ws_stored s1)) = Some (gc_hash c)"
proof -
  obtain w s4 where s4: "apply_confirmed env t c s = (Inr w, s4)" and s1: "ws_chain s1 = ws_chain s4"
    "ws_stored s1 = ws_chain s4" "ws_succeeded s1" "ws_config s1 = ws_config s4" "ws_storage s1 = ws_storage s4"
  proof (rule act_bind_keepsE [OF run [unfolded finish_confirmed_def Let_def] change apply_confirmed_kept], goal_cases)
    case (1 w s4)
    have "kept s1 \<noteq> kept s4" using change 1(3) by simp
    then have "ws_chain s1 = ws_chain s4 \<and> ws_stored s1 = ws_chain s4 \<and> ws_succeeded s1 \<and> ws_config s1 = ws_config s4
        \<and> ws_storage s1 = ws_storage s4"
      using 1(4) by (auto simp: network_actions_now_def kept_def register_delivery_notifier_def
          split: option.splits if_splits elim!: act_bindE)
    then show ?case using 1(1,2) by blast
  qed
  obtain d where d: "s4 = s\<lparr>ws_chain := d\<rparr>" "confirmed_log d = confirmed_log (ws_chain s) @ [gc_hash c]"
    "cs_chain_id d = cs_chain_id (ws_chain s)"
    "try_add_one (next_block_height (tip_state (ws_chain s))) = Inr (next_block_height (tip_state d))"
    "tip_block_hash (tip_state d) = Some (gc_hash c)"
    using apply_confirmed_result [OF s4] by blast
  show "ws_chain s1 = ws_stored s1" "ws_succeeded s1" "ws_config s1 = ws_config s" "ws_storage s1 = ws_storage s"
    "confirmed_log (ws_stored s1) = confirmed_log (ws_chain s) @ [gc_hash c]" "cs_chain_id (ws_stored s1) = cs_chain_id (ws_chain s)"
    "try_add_one (next_block_height (tip_state (ws_chain s))) = Inr (next_block_height (tip_state (ws_stored s1)))"
    "tip_block_hash (tip_state (ws_stored s1)) = Some (gc_hash c)"
    using s1 d by simp_all
qed

lemma process_confirmed_block_saves:
  assumes run: "process_confirmed_block env clock c listener s = (r, s1)" and change: "kept s1 \<noteq> kept s"
  shows "confirms env c s s1"
proof -
  let ?blk = "eb_block (confirmed_executed_block (hashed_value (gc_value c)))" and ?tip = "tip_state (ws_chain s)"
  have heights: "block_height_of ?blk = next_block_height ?tip"
    and start: "act_bind (check_confirmed env (clock 0) ?tip c) (\<lambda>_.
       act_bind (store_confirmed c) (\<lambda>_. finish_confirmed env (clock 1) c listener)) s = (r, s1)"
    using run change unfolding process_confirmed_block_def Let_def
    by (auto simp: network_actions_now_def split: if_splits elim!: act_bindE)
  have "keeps kept (check_confirmed env (clock 0) ?tip c)"
    by (rule keepsI) (rule check_confirmed_result(1))
  from act_bind_keepsE [OF start change this] obtain u s2 where s2: "check_confirmed env (clock 0) ?tip c s = (Inr u, s2)"
    "kept s2 = kept s" "act_bind (store_confirmed c) (\<lambda>_. finish_confirmed env (clock 1) c listener) s2 = (r, s1)" .
  note checked = check_confirmed_result [OF s2(1)]
  have "kept s1 \<noteq> kept s2" using change s2(2) by simp
  from act_bind_keepsE [OF s2(3) this keeps_kept(5)] obtain w s3 where s3: "store_confirmed c s2 = (Inr w, s3)"
    "kept s3 = kept s2" "finish_confirmed env (clock 1) c listener s3 = (r, s1)" .
  note stored = store_confirmed_result [OF s3(1)]
  have "ws_chain s3 = ws_chain s2" using arg_cong [OF stored(1), of ws_chain] by simp
  then have "trunk (ws_chain s3) = trunk (ws_chain s)" using checked(2) by simp
  moreover have "kept s1 \<noteq> kept s3" using change s2(2) s3(2) by simp
  note finish_confirmed_saves [OF s3(3) this]
  moreover have "ws_config s3 = ws_config s" using s3(2) s2(2) by (simp add: kept_def)
  ultimately show ?thesis
    using stored(2,3) checked(3) checked(4,5) [OF refl] heights unfolding confirms_def Let_def by (auto simp: trunk_def)
qed


subsection \<open>Operations that save the consensus state\<close>

text \<open>What saving leaves behind.\<close>

definition quiet :: "'u worker_state \<Rightarrow> 'u worker_state \<Rightarrow> bool" where
  "quiet s s1 \<longleftrightarrow> ws_stored s1 = ws_stored s \<and> ws_succeeded s1 = ws_succeeded s \<and> ws_config s1 = ws_config s
     \<and> ws_storage s1 = ws_storage s"

definition saved :: "'u chain \<Rightarrow> 'u worker_state \<Rightarrow> 'u worker_state \<Rightarrow> bool" where
  "saved chain s s1 \<longleftrightarrow> ws_stored s1 = chain \<and> ws_chain s1 = chain \<and> ws_succeeded s1 \<and> ws_config s1 = ws_config s
     \<and> ws_storage s1 = ws_storage s"

lemma process_timeout_saves:
  assumes "process_timeout env clock c s = (r, s1)"
  shows "quiet s s1 \<or>
    saved (with_manager (ws_chain s) (handle_timeout_certificate (cs_manager (ws_chain s)) c (clock 0))) s s1"
  using assms unfolding process_timeout_def Let_def
proof (cases rule: committeeE)
  case (fails e k)
  then show ?thesis by (simp add: quiet_def)
next
  case (continues epoch committee k)
  then show ?thesis
    by (auto elim!: act_liftE simp: quiet_def saved_def split: if_splits)
qed

lemma outcome_not_skip: "outcome \<noteq> OutcomeSkip \<longleftrightarrow> outcome = OutcomeAccept"
  by (cases outcome) simp_all

lemma not_yet_validated: "already_validated_block tip h = Inr False \<Longrightarrow> h = next_block_height tip"
  by (auto simp: already_validated_block_def)

lemma process_validated_block_saves:
  assumes "process_validated_block env clock c blobs s = (r, s1)" "\<not> quiet s s1"
  shows "\<exists>epoch committee found.
      current_committee (chain_system (ws_chain s)) = Some (epoch, committee)
      \<and> gc_check (we_scheme env) validated_cv c committee = Inr ()
      \<and> check_validated_block (cs_manager (ws_chain s)) c = Inr OutcomeAccept
      \<and> block_height_of (eb_block (validated_executed_block (hashed_value (gc_value c)))) = next_block_height (tip_state (ws_chain s))
      \<and> saved (with_manager (ws_chain s) (create_final_vote (we_scheme env) (we_hashers env) (cs_manager (ws_chain s)) c
          (key_pair (ws_config s)) (clock 0) found)) s s1"
  using assms(1) unfolding process_validated_block_def Let_def
proof (cases rule: committeeE)
  case (fails e k)
  then show ?thesis using assms(2) by (simp add: quiet_def)
next
  case (continues epoch committee k)
  with assms(2) show ?thesis
    by (auto elim!: act_liftE act_bindE simp: quiet_def saved_def outcome_not_skip split: if_splits
        dest!: not_yet_validated) blast+
qed

lemma vote_for_block_proposal_saves:
  assumes "vote_for_block_proposal env p outcome t s = (r, s1)" "\<not> quiet s s1"
  shows "\<exists>blobs. saved (with_manager (ws_chain s) (fst (create_vote (we_scheme env) (we_hashers env)
      (cs_manager (ws_chain s)) p \<lparr>eb_block = pc_block (bp_content p), eb_outcome = outcome\<rparr>
      (key_pair (ws_config s)) t blobs))) s s1"
  using assms(1) unfolding vote_for_block_proposal_def Let_def
proof (cases rule: act_bindE)
  case (fails e)
  then show ?thesis using assms(2) by (auto simp: quiet_def)
next
  case (continues blobs s2)
  then have "s2 = s" by auto
  with continues(2) show ?thesis
    by (intro exI [of _ blobs]) (auto simp: saved_def split: prod.splits option.splits sum.splits)
qed

lemma vote_for_leader_timeout_saves:
  assumes "vote_for_leader_timeout env t s = (r, s1)" "\<not> quiet s s1"
  shows "\<exists>cid ht ep. saved (with_manager (ws_chain s) (fst (vote_timeout (we_scheme env) (we_hashers env)
      (cs_manager (ws_chain s)) cid ht ep (key_pair (ws_config s)) t))) s s1"
  using assms unfolding vote_for_leader_timeout_def
  by (auto simp: saved_def quiet_def case_prod_beta split: option.splits if_splits) blast+

lemma vote_for_fallback_saves:
  assumes "vote_for_fallback env t s = (r, s1)" "\<not> quiet s s1"
  shows "\<exists>cid ht ep. saved (with_manager (ws_chain s) (fst (vote_fallback (we_scheme env) (we_hashers env)
      (cs_manager (ws_chain s)) cid ht ep (key_pair (ws_config s))))) s s1"
  using assms unfolding vote_for_fallback_def
  by (auto simp: saved_def quiet_def case_prod_beta split: option.splits if_splits list.splits) blast+

subsection \<open>Operations that keep the consensus state\<close>

text \<open>What the other requests keep of the chain: its trunk, and for a chain that has been opened everything consensus
  depends on.\<close>

definition same_core :: "'u chain \<Rightarrow> 'u chain \<Rightarrow> bool" where
  "same_core c d \<longleftrightarrow> trunk d = trunk c
     \<and> (sys_description (chain_system c) \<noteq> None \<longrightarrow> execution_state d = execution_state c \<and> cs_manager d = cs_manager c)"

lemma same_core_refl [simp]: "same_core c c"
  by (simp add: same_core_def)

lemma same_core_trans: "same_core a b \<Longrightarrow> same_core b c \<Longrightarrow> same_core a c"
  by (auto simp: same_core_def chain_system_def)

lemma process_unsubscribes_core: "process_unsubscribes c names app = Inr d \<Longrightarrow> same_core c d"
  by (auto simp: process_unsubscribes_def same_core_def split: if_splits)

lemma process_subscribes_core: "process_subscribes c names app = Inr (d, b) \<Longrightarrow> same_core c d"
  by (auto simp: process_subscribes_def same_core_def Let_def case_prod_beta split: if_splits)

lemma receive_in_inbox_core: "receive_in_inbox c orig b t = Inr d \<Longrightarrow> same_core c d"
  by (auto simp: receive_in_inbox_def same_core_def set_inbox_def Let_def case_prod_beta split: if_splits)

lemma handle_immediate_messages_same:
  assumes "sys_description (chain_system c) \<noteq> None" "handle_immediate_messages env source t u msgs c = Inr (d, x, y)"
  shows "d = c"
  using assms by (induction msgs arbitrary: c x y) (fastforce split: option.splits if_splits)+

lemma handle_immediate_messages_core:
  "handle_immediate_messages env source t u msgs c = Inr (d, x, y) \<Longrightarrow> same_core c d"
  using handle_immediate_messages_same handle_immediate_messages_trunk by (fastforce simp: same_core_def)

lemma receive_message_bundle_core:
  assumes "receive_message_bundle env c orig b t add = Inr (d, new)"
  shows "same_core c d"
proof -
  obtain c1 x y d1 d2 d3 where h: "handle_immediate_messages env (ChainAndHeight (origin_sender orig) (mb_height b))
      (mb_timestamp b) t (mb_messages b) c = Inr (c1, x, y)"
    and d: "process_unsubscribes c1 y SystemApp = Inr d1" "process_subscribes d1 x SystemApp = Inr (d2, new)"
    "(if mb_goes_to_inbox b then receive_in_inbox d2 orig b t else Inr d2) = Inr d3"
    "d = (if add then d3\<lparr>received_log := received_log d3 @ [ChainAndHeight (origin_sender orig) (mb_height b)]\<rparr> else d3)"
    using assms unfolding receive_message_bundle_def Let_def by (auto split: prod.splits)
  have "same_core c c1" using handle_immediate_messages_core [OF h] .
  moreover have "same_core c1 d1" using process_unsubscribes_core d(1) by blast
  moreover have "same_core d1 d2" using process_subscribes_core d(2) by blast
  moreover have "same_core d2 d3" using receive_in_inbox_core d(3) by (cases "mb_goes_to_inbox b") auto
  moreover have "same_core d3 d" using d(4) by (simp add: same_core_def)
  ultimately show ?thesis by (meson same_core_trans)
qed

text \<open>Work that has changed nothing consensus depends on, and has not been saved yet.\<close>

definition works :: "'u worker_state \<Rightarrow> 'u worker_state \<Rightarrow> bool" where
  "works s s1 \<longleftrightarrow> quiet s s1 \<and> same_core (ws_chain s) (ws_chain s1)"

lemma works_refl [simp]: "works s s"
  by (simp add: works_def quiet_def)

lemma works_trans: "works a b \<Longrightarrow> works b c \<Longrightarrow> works a c"
  unfolding works_def quiet_def by (auto intro: same_core_trans)

lemma works_fold:
  assumes "\<And>x acc s r s1. f x acc s = (r, s1) \<Longrightarrow> works s s1"
  shows "act_fold f xs acc s = (r, s1) \<Longrightarrow> works s s1"
proof (induction xs arbitrary: acc s)
  case (Cons x xs)
  from Cons.prems show ?case unfolding act_fold.simps
  proof (cases rule: act_bindE)
    case (fails e)
    then show ?thesis using assms by blast
  next
    case (continues acc1 s2)
    then have "works s s2" using assms by blast
    then show ?thesis using Cons.IH continues(2) works_trans by blast
  qed
qed simp

lemma receive_bundle_works:
  assumes "receive_bundle env orig t b acc s = (r, s1)"
  shows "works s s1"
  using assms unfolding receive_bundle_def
proof (cases rule: act_bindE)
  case (fails e)
  then show ?thesis by simp
next
  case (continues x s2)
  obtain chain new where x: "x = (chain, new)" by (cases x)
  have rm: "receive_message_bundle (chain_env_at env (ws_storage s)) (ws_chain s) orig b t (fst acc \<noteq> Some (mb_height b))
      = Inr (chain, new)"
    and "s1 = s\<lparr>ws_chain := chain\<rparr>"
    using continues x by auto
  then show ?thesis using receive_message_bundle_core [OF rm] by (simp add: works_def quiet_def)
qed

lemma receive_bundles_work: "act_fold (receive_bundle env orig t) bs acc s = (r, s1) \<Longrightarrow> works s s1"
  by (rule works_fold [of "receive_bundle env orig t"]) (auto intro: receive_bundle_works)

lemma process_cross_chain_update_saves:
  assumes run: "process_cross_chain_update env clock orig pairs s = (r, s1)" and "\<not> quiet s s1"
  shows "\<exists>chain. same_core (ws_chain s) chain \<and> saved chain s s1"
proof -
  obtain bundles where b: "act_bind (act_fold (receive_bundle env orig (clock 0)) bundles (None, False)) (\<lambda>(_, new_outbox_entries).
       act_bind (act_get (\<lambda>s. allow_inactive_chains (ws_config s) \<or> is_active (ws_chain s))) (\<lambda>accepted.
       if \<not> accepted then act_return None
       else
         act_bind (if new_outbox_entries then network_actions_now env else act_return network_actions_default) (\<lambda>actions.
         act_bind save (\<lambda>_. act_return (Some (mb_height (last bundles), actions)))))) s = (r, s1)"
    using run assms(2) unfolding process_cross_chain_update_def
    by (auto elim!: act_liftE simp: quiet_def split: if_splits)
  from b show ?thesis
  proof (cases rule: act_bindE)
    case (fails e)
    then show ?thesis using receive_bundles_work [OF fails(1)] assms(2) by (simp add: works_def)
  next
    case (continues x s2)
    have w: "works s s2" using receive_bundles_work [OF continues(1)] .
    have n: "network_actions_now env s2 = (q, s3) \<Longrightarrow> s3 = s2" for q s3 by (simp add: network_actions_now_def)
    from continues(2) have "saved (ws_chain s2) s2 s1 \<or> s1 = s2"
      by (auto simp: saved_def case_prod_beta split: if_splits elim!: act_bindE dest!: n)
    then show ?thesis using w assms(2) by (auto simp: works_def quiet_def saved_def)
  qed
qed

lemma mark_messages_as_received_core: "mark_messages_as_received c t h = Some (d, b) \<Longrightarrow> same_core c d"
  by (auto simp: mark_messages_as_received_def same_core_def Let_def case_prod_beta bind_eq_Some_conv split: if_splits)

lemma mark_delivered_works:
  assumes "mark_delivered env entry acc s = (r, s1)"
  shows "works s s1"
  using assms unfolding mark_delivered_def
proof (cases rule: act_bindE)
  case (fails e)
  then show ?thesis by simp
next
  case (continues x s2)
  obtain chain updated where x: "x = (chain, updated)" by (cases x)
  then have "mark_messages_as_received (ws_chain s) (fst entry) (snd entry) = Some (chain, updated)" "s1 = s\<lparr>ws_chain := chain\<rparr>"
    using continues by auto
  then show ?thesis using mark_messages_as_received_core by (auto simp: works_def quiet_def)
qed

lemma mark_delivered_all_work: "act_fold (mark_delivered env) xs acc s = (r, s1) \<Longrightarrow> works s s1"
  by (rule works_fold [of "mark_delivered env"]) (auto intro: mark_delivered_works)

lemma confirm_updated_recipient_saves:
  assumes "confirm_updated_recipient env heights s = (r, s1)" "\<not> quiet s s1"
  shows "\<exists>chain. same_core (ws_chain s) chain \<and> saved chain s s1"
  using assms(1) unfolding confirm_updated_recipient_def
proof (cases rule: act_bindE)
  case (fails e)
  then show ?thesis using mark_delivered_all_work assms(2) by (fastforce simp: works_def)
next
  case (continues x s2)
  have "works s s2" using mark_delivered_all_work [OF continues(1)] .
  then show ?thesis
    using continues(2) by (intro exI [of _ "ws_chain s2"]) (auto simp: works_def quiet_def saved_def case_prod_beta Let_def)
qed

lemma update_trackers_saves:
  assumes "worker_update_received_certificate_trackers trackers s = (r, s1)"
  shows "\<exists>chain. same_core (ws_chain s) chain \<and> saved chain s s1"
  using assms unfolding worker_update_received_certificate_trackers_def
  by (intro exI [of _ "update_received_certificate_trackers (ws_chain s) trackers"])
    (auto simp: saved_def same_core_def update_received_certificate_trackers_def)

subsection \<open>Validating a proposal\<close>

text \<open>A proposal that is accepted passes the checks of the consensus protocol.\<close>

lemma validate_block_accepts:
  assumes "validate_block env clock p s = (Inr (Some (outcome, t)), s1)"
  shows "\<exists>epoch committee pub_key.
      current_committee (chain_system (ws_chain s)) = Some (epoch, committee)
      \<and> verify_owner (ce_election (we_chain env)) (cs_manager (ws_chain s)) p = Some pub_key
      \<and> check_proposed_block (cs_manager (ws_chain s)) p = Inr OutcomeAccept
      \<and> verify_block_chaining (tip_state (ws_chain s)) (pc_block (bp_content p)) = Inr ()
      \<and> (case bp_validated_block_certificate p of
           None \<Rightarrow> pc_outcome (bp_content p) = None
         | Some lc \<Rightarrow> pc_outcome (bp_content p) = Some outcome
             \<and> lc_check (we_scheme env) lc committee = Inr (lc_value lc)
             \<and> lc_with_value validated_cv lc (hashed_new (hash_validated (we_hashers env)) (validated_block_new (we_hashers env)
                 \<lparr>eb_block = pc_block (bp_content p), eb_outcome = outcome\<rparr>)) \<noteq> None)"
  using assms unfolding validate_block_def Let_def
proof (cases rule: act_liftE)
  case (continues u)
  then have iff: "(bp_validated_block_certificate p \<noteq> None) = (pc_outcome (bp_content p) \<noteq> None)" by simp
  from continues(2) show ?thesis
  proof (cases rule: committeeE)
    case (continues epoch committee k)
    obtain s2 s3 s4 where
      auth: "check_proposal_authentication env (ws_chain s) committee p = Inr ()"
      and chaining: "verify_block_chaining (tip_state (ws_chain s)) (pc_block (bp_content p)) = Inr ()"
      and accept: "check_proposed_block (cs_manager (ws_chain s)) p = Inr OutcomeAccept"
      and given: "\<And>x. pc_outcome (bp_content p) = Some x \<Longrightarrow> x = outcome"
      and checked: "check_executed_block env (committee_policy committee) p
        \<lparr>eb_block = pc_block (bp_content p), eb_outcome = outcome\<rparr> s3 = (Inr (), s4)"
      using continues(2) by (auto elim!: act_liftE act_bindE simp: outcome_not_skip split: if_splits option.splits)
    obtain pub_key where "verify_owner (ce_election (we_chain env)) (cs_manager (ws_chain s)) p = Some pub_key"
      using auth by (auto simp: check_proposal_authentication_def)
    moreover have "case bp_validated_block_certificate p of
           None \<Rightarrow> pc_outcome (bp_content p) = None
         | Some lc \<Rightarrow> pc_outcome (bp_content p) = Some outcome
             \<and> lc_check (we_scheme env) lc committee = Inr (lc_value lc)
             \<and> lc_with_value validated_cv lc (hashed_new (hash_validated (we_hashers env)) (validated_block_new (we_hashers env)
                 \<lparr>eb_block = pc_block (bp_content p), eb_outcome = outcome\<rparr>)) \<noteq> None"
    proof (cases "bp_validated_block_certificate p")
      case None
      then show ?thesis using iff by simp
    next
      case (Some lc)
      then have "pc_outcome (bp_content p) = Some outcome" using iff given by auto
      moreover have "lc_check (we_scheme env) lc committee = Inr (lc_value lc)"
        using auth Some by (auto simp: check_proposal_authentication_def lc_check_def)
      moreover have "lc_with_value validated_cv lc (hashed_new (hash_validated (we_hashers env)) (validated_block_new (we_hashers env)
                 \<lparr>eb_block = pc_block (bp_content p), eb_outcome = outcome\<rparr>)) \<noteq> None"
        using checked Some unfolding check_executed_block_def by (auto elim!: act_bindE act_liftE)
      ultimately show ?thesis using Some by simp
    qed
    ultimately show ?thesis using continues(1) chaining accept by blast
  qed simp
qed simp

subsection \<open>Saving and rolling back\<close>

text \<open>Between two requests nothing is pending.\<close>

definition idle :: "'u worker_state \<Rightarrow> bool" where
  "idle s \<longleftrightarrow> ws_chain s = ws_stored s"

lemma attempted_changesE:
  assumes "attempted_changes work s = (r, s')" "idle s"
  obtains s1 where "work (s\<lparr>ws_succeeded := False\<rparr>) = (r, s1)" "s' = (if ws_succeeded s1 then s1 else rollback s1)"
  using assms by (auto simp: attempted_changes_def has_pending_changes_def idle_def split: prod.splits)

lemma attempted_quiet:
  assumes "quiet (s\<lparr>ws_succeeded := False\<rparr>) s1" "s' = (if ws_succeeded s1 then s1 else rollback s1)"
  shows "idle s'" "ws_stored s' = ws_stored s" "ws_config s' = ws_config s" "ws_storage s' = ws_storage s"
  using assms by (auto simp: quiet_def rollback_def idle_def)

lemma attempted_saved:
  assumes "saved chain (s\<lparr>ws_succeeded := False\<rparr>) s1" "s' = (if ws_succeeded s1 then s1 else rollback s1)"
  shows "idle s'" "ws_stored s' = chain" "ws_config s' = ws_config s" "ws_storage s' = ws_storage s"
  using assms by (auto simp: saved_def idle_def)

lemma temporary_changesE:
  assumes "temporary_changes work s = (r, s')" "idle s"
  obtains s1 where "work s = (r, s1)" "s' = rollback s1"
  using assms by (auto simp: temporary_changes_def has_pending_changes_def idle_def split: prod.splits)

text \<open>What the operations that drop their changes touch of the rest.\<close>

definition outer :: "'u worker_state \<Rightarrow> 'u chain \<times> worker_config \<times> db_storage" where
  "outer s = (ws_stored s, ws_config s, ws_storage s)"

lemma temporary_outer:
  assumes "keeps outer work" "temporary_changes work s = (r, s')" "idle s"
  shows "idle s'" "outer s' = outer s"
  using assms by (auto elim!: temporary_changesE simp: rollback_def idle_def outer_def dest: keepsD)

lemma keeps_outer_basic:
  "keeps outer worker_ensure_is_active" "keeps outer expect_committee" "keeps outer (set_chain chain)"
  by (auto intro!: keepsI simp: outer_def worker_ensure_is_active_def expect_committee_def split: if_splits sum.splits)

lemma validate_block_outer: "keeps outer (validate_block env clock p)"
  unfolding validate_block_def check_executed_block_def Let_def
  by (auto intro!: keeps_bind keeps_read keeps_outer_basic split: option.splits)

lemma temporary_requests_outer:
  "keeps outer (worker_describe_application app_id)" "keeps outer (stage_block_execution env clock blk)"
  "keeps outer (prepare_chain_info_response env query)"
  unfolding worker_describe_application_def stage_block_execution_def prepare_chain_info_response_def Let_def
  by (auto intro!: keeps_bind keeps_read keeps_outer_basic)


end
