(* ===== verification/Worker_Agreement.thy ===== *)
theory Worker_Agreement
  imports Worker_Requests
begin

section \<open>Agreement of the workers\<close>

text \<open>
  The workers of the honest validators for one chain, handling requests in any order and number, refine the consensus
  protocol of theory \<open>Consensus\<close>: as long as a worker has not confirmed a block at the height in question, each request
  it handles is a sequence of steps of the protocol, and it confirms only blocks that are certified. From the agreement of
  the protocol it follows that the workers store the same block at this height.
\<close>

subsection \<open>Requests as steps of the protocol\<close>

text \<open>A worker runs as the validator \<open>v\<close>: with the parameters of the protocol and its committee. The checks of a
  proposal that do not concern consensus are the worker's own; the protocol accepts whatever passes them.\<close>

definition runs_as :: "protocol \<Rightarrow> validator_name \<Rightarrow> 'u worker_env \<Rightarrow> 'u worker_state \<Rightarrow> bool" where
  "runs_as P v env s \<longleftrightarrow>
     pr_valid P = (\<lambda>_ _ _. True) \<and> we_scheme env = pr_scheme P \<and> we_hashers env = pr_hashers P \<and> ce_election (we_chain env) = pr_election P
     \<and> key_pair (ws_config s) = Some v \<and> is_active (ws_stored s)
     \<and> (\<exists>epoch. current_committee (chain_system (ws_stored s)) = Some (epoch, pr_committee P))"

text \<open>The certificates of a request for a block at height \<open>h\<close>: honest signers have cast the votes they sign for, and the
  value of a validated-block certificate carries its hash.\<close>

fun authentic :: "protocol \<Rightarrow> net \<Rightarrow> block_height \<Rightarrow> chain_worker_request \<Rightarrow> bool" where
  "authentic P n h (HandleBlockProposal p) =
     (block_height_of (pc_block (bp_content p)) = h \<longrightarrow>
        (case bp_validated_block_certificate p of
           None \<Rightarrow> True
         | Some lc \<Rightarrow> genuine P n (lv_value_hash (lc_value lc)) (lv_kind (lc_value lc)) (lc_round lc) (lc_signatures lc)))"
| "authentic P n h (ProcessValidatedBlock c _) =
     (block_height_of (eb_block (validated_executed_block (hashed_value (gc_value c)))) = h \<longrightarrow>
        gc_hash c = block_hash (pr_hashers P) ValidatedKind (validated_executed_block (hashed_value (gc_value c)))
        \<and> genuine P n (gc_hash c) ValidatedKind (gc_round c) (gc_signatures c))"
| "authentic P n h (ProcessConfirmedBlock c _) =
     (block_height_of (eb_block (confirmed_executed_block (hashed_value (gc_value c)))) = h \<longrightarrow>
        genuine P n (gc_hash c) ConfirmedKind (gc_round c) (gc_signatures c))"
| "authentic P n h _ = True"

definition matches :: "protocol \<Rightarrow> net \<Rightarrow> validator_name \<Rightarrow> 'u worker_state \<Rightarrow> bool" where
  "matches P n v s \<longleftrightarrow> v \<in> pr_honest P \<and> net_managers n v = cs_manager (ws_stored s)
     \<and> stored_ballots v (cs_manager (ws_stored s)) \<subseteq> net_ballots n"

text \<open>The effect of a request that confirms no block: the trunk of the chain stays, and for a worker that runs as a
  validator the new consensus state is reached by steps of the protocol.\<close>

definition effect ::
  "'u worker_env \<Rightarrow> (protocol \<Rightarrow> net \<Rightarrow> bool) \<Rightarrow> 'u worker_state \<Rightarrow> 'u worker_state \<Rightarrow> bool" where
  "effect env A s s' \<longleftrightarrow> idle s' \<and> ws_config s' = ws_config s \<and> trunk (ws_stored s') = trunk (ws_stored s)
     \<and> (\<forall>P n v. matches P n v s \<longrightarrow> runs_as P v env s \<longrightarrow> A P n \<longrightarrow>
          execution_state (ws_stored s') = execution_state (ws_stored s)
          \<and> (step P)\<^sup>*\<^sup>* n (net_update n v (cs_manager (ws_stored s'))))"

lemma net_update_same: "matches P n v s \<Longrightarrow> net_update n v (cs_manager (ws_stored s)) = n"
  by (cases n) (auto simp: matches_def net_update_def)

lemma effect_same:
  assumes "idle s'" "outer s' = outer s"
  shows "effect env A s s'"
  using assms net_update_same by (fastforce simp: effect_def outer_def)

lemma effect_quiet:
  assumes "quiet (s\<lparr>ws_succeeded := False\<rparr>) s1" "s' = (if ws_succeeded s1 then s1 else rollback s1)"
  shows "effect env A s s'"
  using attempted_quiet [OF assms] by (intro effect_same) (simp_all add: outer_def)

lemma effect_saved:
  assumes "saved (with_manager (ws_stored s) m) (s\<lparr>ws_succeeded := False\<rparr>) s1"
    "s' = (if ws_succeeded s1 then s1 else rollback s1)"
    and "\<And>P n v. matches P n v s \<Longrightarrow> runs_as P v env s \<Longrightarrow> A P n \<Longrightarrow> step P n (net_update n v m)"
  shows "effect env A s s'"
  using attempted_saved [OF assms(1,2)] assms(3)
  by (auto simp: effect_def with_manager_def intro!: r_into_rtranclp)

lemma effect_core:
  assumes "same_core (ws_stored s) chain" "saved chain (s\<lparr>ws_succeeded := False\<rparr>) s1"
    "s' = (if ws_succeeded s1 then s1 else rollback s1)"
  shows "effect env A s s'"
  using attempted_saved [OF assms(2,3)] assms(1) net_update_same
  by (fastforce simp: effect_def same_core_def runs_as_def is_active_def system_is_active_def)

text \<open>Two parts of a request, of which the first casts no vote for a block.\<close>

lemma runs_as_kept:
  "runs_as P v env s \<Longrightarrow> ws_config s' = ws_config s \<Longrightarrow> execution_state (ws_stored s') = execution_state (ws_stored s) \<Longrightarrow>
     runs_as P v env s'"
  by (simp add: runs_as_def is_active_def chain_system_def)

lemma effect_trans:
  assumes "effect env (\<lambda>_ _. True) s s1" "effect env (\<lambda>_ _. True) s1 s2"
    and votes: "\<And>v. stored_ballots v (cs_manager (ws_stored s1)) = stored_ballots v (cs_manager (ws_stored s))"
  shows "effect env A s s2"
proof -
  have "execution_state (ws_stored s2) = execution_state (ws_stored s)
      \<and> (step P)\<^sup>*\<^sup>* n (net_update n v (cs_manager (ws_stored s2)))" if m: "matches P n v s" and r: "runs_as P v env s" for P n v
  proof -
    let ?n1 = "net_update n v (cs_manager (ws_stored s1))"
    have e: "execution_state (ws_stored s1) = execution_state (ws_stored s)" "(step P)\<^sup>*\<^sup>* n ?n1"
      and c: "ws_config s1 = ws_config s"
      using assms(1) m r by (auto simp: effect_def)
    have "matches P ?n1 v s1" using m by (auto simp: matches_def votes)
    moreover have "runs_as P v env s1" using runs_as_kept r c e(1) .
    ultimately have "execution_state (ws_stored s2) = execution_state (ws_stored s)"
      "(step P)\<^sup>*\<^sup>* ?n1 (net_update ?n1 v (cs_manager (ws_stored s2)))"
      using assms(2) e(1) by (auto simp: effect_def)
    moreover have "net_update ?n1 v m' = net_update n v m'" for m'
      using m by (simp add: net_update_def matches_def votes Un_absorb2)
    ultimately show ?thesis using e(2) by (metis rtranclp_trans)
  qed
  then show ?thesis using assms(1,2) by (auto simp: effect_def)
qed

text \<open>The requests one by one.\<close>

lemma process_timeout_effect:
  assumes "attempted_changes (process_timeout env clock c) s = (r, s')" "idle s"
  shows "effect env A s s'"
  using assms
proof (rule attempted_changesE)
  fix s1 assume run: "process_timeout env clock c (s\<lparr>ws_succeeded := False\<rparr>) = (r, s1)"
    and s': "s' = (if ws_succeeded s1 then s1 else rollback s1)"
  have "step P n (net_update n v (handle_timeout_certificate (cs_manager (ws_stored s)) c (clock 0)))"
    if "matches P n v s" for P n v
    using that step.timeout [of v P n c "clock 0"] by (simp add: matches_def)
  then show ?thesis
    using process_timeout_saves [OF run] effect_quiet [OF _ s'] effect_saved [OF _ s'] assms(2) by (auto simp: idle_def)
qed

lemma process_validated_block_effect:
  assumes "attempted_changes (process_validated_block env clock c blobs) s = (r, s')" "idle s"
  shows "effect env (\<lambda>P n. authentic P n (next_block_height (tip_state (ws_stored s))) (ProcessValidatedBlock c blobs)) s s'"
  using assms
proof (rule attempted_changesE)
  let ?A = "\<lambda>P n. authentic P n (next_block_height (tip_state (ws_stored s))) (ProcessValidatedBlock c blobs)"
  fix s1 assume run: "process_validated_block env clock c blobs (s\<lparr>ws_succeeded := False\<rparr>) = (r, s1)"
    and s': "s' = (if ws_succeeded s1 then s1 else rollback s1)"
  show ?thesis
  proof (cases "quiet (s\<lparr>ws_succeeded := False\<rparr>) s1")
    case True
    then show ?thesis using effect_quiet s' by blast
  next
    case False
    from process_validated_block_saves [OF run False] assms(2) obtain epoch committee found where
      cc: "current_committee (chain_system (ws_stored s)) = Some (epoch, committee)"
      and checks: "gc_check (we_scheme env) validated_cv c committee = Inr ()"
        "check_validated_block (cs_manager (ws_stored s)) c = Inr OutcomeAccept"
        "block_height_of (eb_block (validated_executed_block (hashed_value (gc_value c)))) = next_block_height (tip_state (ws_stored s))"
      and sv: "saved (with_manager (ws_stored s) (create_final_vote (we_scheme env) (we_hashers env) (cs_manager (ws_stored s)) c
          (key_pair (ws_config s)) (clock 0) found)) (s\<lparr>ws_succeeded := False\<rparr>) s1"
      by (auto simp: idle_def)
    show ?thesis
    proof (rule effect_saved [OF sv s'])
      fix P n v assume m: "matches P n v s" and r: "runs_as P v env s" and a: "?A P n"
      have "certificate_checks P n (net_managers n v) c"
        using m r a checks cc by (auto simp: certificate_checks_def matches_def runs_as_def)
      then show "step P n (net_update n v (create_final_vote (we_scheme env) (we_hashers env) (cs_manager (ws_stored s)) c
          (key_pair (ws_config s)) (clock 0) found))"
        using step.validated [of v P n c "clock 0" found] m r by (simp add: matches_def runs_as_def)
    qed
  qed
qed

lemma handle_block_proposal_effect:
  assumes run: "handle_block_proposal env clock p s = (r, s')" and "idle s"
  shows "effect env (\<lambda>P n. authentic P n (next_block_height (tip_state (ws_stored s))) (HandleBlockProposal p)) s s'"
    (is "effect env ?A s s'")
proof -
  let ?eb = "\<lambda>outcome. \<lparr>eb_block = pc_block (bp_content p), eb_outcome = outcome\<rparr>"
  have temp: "idle s1 \<and> outer s1 = outer s" if "temporary_changes (validate_block env clock p) s = (q, s1)" for q s1
    using temporary_outer [OF validate_block_outer that assms(2)] by simp
  from run show ?thesis unfolding handle_block_proposal_def
  proof (cases rule: act_bindE)
    case (fails e)
    then show ?thesis using temp effect_same by blast
  next
    case (continues validation s1)
    note s1 = temp [OF continues(1)]
    show ?thesis
    proof (cases validation)
      case None
      then show ?thesis using continues(2) s1 effect_same by auto
    next
      case (Some x)
      obtain outcome t where x: "x = (outcome, t)" by (cases x)
      obtain q where vote: "attempted_changes (vote_for_block_proposal env p outcome t) s1 = (q, s')"
        using continues(2) by (auto simp: Some x network_actions_now_def elim!: act_bindE)
      obtain s0 where "validate_block env clock p s = (Inr (Some (outcome, t)), s0)"
        using continues(1) assms(2) by (auto simp: Some x elim!: temporary_changesE)
      note checks = validate_block_accepts [OF this]
      have "effect env ?A s1 s'"
        using vote conjunct1 [OF s1]
      proof (rule attempted_changesE)
        fix s2 assume run2: "vote_for_block_proposal env p outcome t (s1\<lparr>ws_succeeded := False\<rparr>) = (q, s2)"
          and s': "s' = (if ws_succeeded s2 then s2 else rollback s2)"
        show ?thesis
        proof (cases "quiet (s1\<lparr>ws_succeeded := False\<rparr>) s2")
          case True
          then show ?thesis using effect_quiet s' by blast
        next
          case False
          from vote_for_block_proposal_saves [OF run2 False] s1 obtain blobs where
            sv: "saved (with_manager (ws_stored s1) (fst (create_vote (we_scheme env) (we_hashers env)
              (cs_manager (ws_stored s1)) p (?eb outcome) (key_pair (ws_config s1)) t blobs))) (s1\<lparr>ws_succeeded := False\<rparr>) s2"
            by (auto simp: idle_def)
          show ?thesis
          proof (rule effect_saved [OF sv s'])
            fix P n v assume m: "matches P n v s1" and r: "runs_as P v env s1" and a: "?A P n"
            have "block_height_of (pc_block (bp_content p)) = next_block_height (tip_state (ws_stored s))"
              using checks assms(2) by (auto simp: idle_def verify_block_chaining_def)
            then have "proposal_checks P n (net_managers n v) p (?eb outcome)"
              using checks m r a s1 assms(2)
              by (auto simp: proposal_checks_def matches_def runs_as_def idle_def outer_def split: option.splits)
            then show "step P n (net_update n v (fst (create_vote (we_scheme env) (we_hashers env)
              (cs_manager (ws_stored s1)) p (?eb outcome) (key_pair (ws_config s1)) t blobs)))"
              using step.propose [of v P n p "?eb outcome" t blobs] m r by (simp add: matches_def runs_as_def)
          qed
        qed
      qed
      then show ?thesis using s1 by (auto simp: effect_def outer_def matches_def runs_as_def)
    qed
  qed
qed

text \<open>Votes for a timeout or a fallback leave the votes for blocks alone.\<close>

lemma vote_for_leader_timeout_effect:
  assumes "attempted_changes (vote_for_leader_timeout env t) s = (r, s')" "idle s"
  shows "effect env A s s'" "stored_ballots v (cs_manager (ws_stored s')) = stored_ballots v (cs_manager (ws_stored s))"
proof -
  obtain s1 where run: "vote_for_leader_timeout env t (s\<lparr>ws_succeeded := False\<rparr>) = (r, s1)"
    and s': "s' = (if ws_succeeded s1 then s1 else rollback s1)" using attempted_changesE [OF assms] .
  have "effect env A s s' \<and> stored_ballots v (cs_manager (ws_stored s')) = stored_ballots v (cs_manager (ws_stored s))"
  proof (cases "quiet (s\<lparr>ws_succeeded := False\<rparr>) s1")
    case True
    then show ?thesis using effect_quiet [OF _ s'] attempted_quiet(2) [OF _ s'] by simp
  next
    case False
    from vote_for_leader_timeout_saves [OF run False] assms(2) obtain cid ht ep where
      sv: "saved (with_manager (ws_stored s) (fst (vote_timeout (we_scheme env) (we_hashers env)
        (cs_manager (ws_stored s)) cid ht ep (key_pair (ws_config s)) t))) (s\<lparr>ws_succeeded := False\<rparr>) s1"
      by (auto simp: idle_def)
    have "effect env A s s'"
      by (rule effect_saved [OF sv s']) (metis matches_def runs_as_def step.timeout_vote)
    then show ?thesis using attempted_saved(2) [OF sv s'] vote_timeout_result(1) [OF refl] by simp
  qed
  then show "effect env A s s'" "stored_ballots v (cs_manager (ws_stored s')) = stored_ballots v (cs_manager (ws_stored s))"
    by simp_all
qed

lemma vote_for_fallback_effect:
  assumes "attempted_changes (vote_for_fallback env t) s = (r, s')" "idle s"
  shows "effect env A s s'" "stored_ballots v (cs_manager (ws_stored s')) = stored_ballots v (cs_manager (ws_stored s))"
proof -
  obtain s1 where run: "vote_for_fallback env t (s\<lparr>ws_succeeded := False\<rparr>) = (r, s1)"
    and s': "s' = (if ws_succeeded s1 then s1 else rollback s1)" using attempted_changesE [OF assms] .
  have "effect env A s s' \<and> stored_ballots v (cs_manager (ws_stored s')) = stored_ballots v (cs_manager (ws_stored s))"
  proof (cases "quiet (s\<lparr>ws_succeeded := False\<rparr>) s1")
    case True
    then show ?thesis using effect_quiet [OF _ s'] attempted_quiet(2) [OF _ s'] by simp
  next
    case False
    from vote_for_fallback_saves [OF run False] assms(2) obtain cid ht ep where
      sv: "saved (with_manager (ws_stored s) (fst (vote_fallback (we_scheme env) (we_hashers env)
        (cs_manager (ws_stored s)) cid ht ep (key_pair (ws_config s))))) (s\<lparr>ws_succeeded := False\<rparr>) s1"
      by (auto simp: idle_def)
    have "effect env A s s'"
      by (rule effect_saved [OF sv s']) (metis matches_def runs_as_def step.fallback_vote)
    then show ?thesis using attempted_saved(2) [OF sv s'] vote_fallback_result(1) [OF refl] by simp
  qed
  then show "effect env A s s'" "stored_ballots v (cs_manager (ws_stored s')) = stored_ballots v (cs_manager (ws_stored s))"
    by simp_all
qed

lemma effect_idle: "effect env A s s' \<Longrightarrow> idle s'"
  by (simp add: effect_def)

lemma effect_refl: "idle s \<Longrightarrow> effect env A s s"
  by (rule effect_same) simp_all

lemma handle_chain_info_query_effect:
  assumes run: "handle_chain_info_query env clock query s = (r, s')" and "idle s"
  shows "effect env A s s'"
proof -
  let ?any = "\<lambda>(_ :: protocol) (_ :: net). True"
  have one: "effect env ?any s s1 \<and> (\<forall>v. stored_ballots v (cs_manager (ws_stored s1)) = stored_ballots v (cs_manager (ws_stored s)))"
    if "(if request_leader_timeout query then attempted_changes (vote_for_leader_timeout env (clock 0)) else act_return ()) s = (q, s1)"
    for q s1
    using that vote_for_leader_timeout_effect assms(2) effect_refl by (fastforce split: if_splits)
  have two: "effect env ?any s1 s2 \<and> (\<forall>v. stored_ballots v (cs_manager (ws_stored s2)) = stored_ballots v (cs_manager (ws_stored s1)))"
    if "(if request_fallback query then attempted_changes (vote_for_fallback env (clock 1)) else act_return ()) s1 = (q, s2)" "idle s1"
    for q s1 s2
    using that vote_for_fallback_effect effect_refl by (fastforce split: if_splits)
  have any: "effect env ?any s s1 \<Longrightarrow> effect env A s s1" for s1 by (auto simp: effect_def)
  from run show ?thesis unfolding handle_chain_info_query_def
  proof (cases rule: act_bindE)
    case (fails e)
    then show ?thesis using one any by blast
  next
    case (continues u s1)
    note e1 = one [OF continues(1)]
    have i1: "idle s1" using e1 effect_idle by blast
    from continues(2) show ?thesis
    proof (cases rule: act_bindE)
      case (fails e)
      then show ?thesis using e1 two [OF _ i1] effect_trans by blast
    next
      case (continues u s2)
      note e2 = two [OF continues(1) i1]
      have e: "effect env ?any s s2" using e1 e2 effect_trans by blast
      have i2: "idle s2" using e effect_idle by blast
      obtain q where "temporary_changes (prepare_chain_info_response env query) s2 = (q, s')"
        using continues(2) by (auto simp: network_actions_now_def elim!: act_bindE)
      from temporary_outer [OF temporary_requests_outer(3) this i2]
      have "effect env ?any s2 s'" using effect_same by blast
      moreover have "\<And>v. stored_ballots v (cs_manager (ws_stored s2)) = stored_ballots v (cs_manager (ws_stored s))"
        using e1 e2 by simp
      ultimately show ?thesis using e effect_trans by blast
    qed
  qed
qed

lemma saved_core_effect:
  assumes saves: "\<And>s r s1. work s = (r, s1) \<Longrightarrow> \<not> quiet s s1 \<Longrightarrow> \<exists>chain. same_core (ws_chain s) chain \<and> saved chain s s1"
    and "attempted_changes work s = (r, s')" "idle s"
  shows "effect env A s s'"
  using assms(2,3)
proof (rule attempted_changesE)
  fix s1 assume run: "work (s\<lparr>ws_succeeded := False\<rparr>) = (r, s1)" and s': "s' = (if ws_succeeded s1 then s1 else rollback s1)"
  show ?thesis
  proof (cases "quiet (s\<lparr>ws_succeeded := False\<rparr>) s1")
    case True
    then show ?thesis using effect_quiet s' by blast
  next
    case False
    then show ?thesis using saves [OF run] effect_core [OF _ _ s'] assms(3) by (auto simp: idle_def)
  qed
qed

lemma temporary_effect:
  "keeps outer work \<Longrightarrow> temporary_changes work s = (r, s') \<Longrightarrow> idle s \<Longrightarrow> effect env A s s'"
  using temporary_outer effect_same by blast

lemma answerE:
  assumes "answer f work s = (r, s')"
  obtains q where "work s = (q, s')"
  using assms by (auto simp: answer_def elim!: act_bindE)

text \<open>A request either confirms the next block or has the effect of steps of the protocol.\<close>

lemma handle_request_effect:
  assumes "handle_request env clock req s = (r, s')" "idle s"
  shows "(\<exists>c listener. req = ProcessConfirmedBlock c listener \<and> idle s' \<and> confirms env c s s')
    \<or> effect env (\<lambda>P n. authentic P n (next_block_height (tip_state (ws_stored s))) req) s s'"
proof (cases req)
  case (DescribeApplication app)
  with assms show ?thesis
    using temporary_effect [OF temporary_requests_outer(1)] by (fastforce elim!: answerE)
next
  case (StageBlockExecution blk)
  with assms show ?thesis
    using temporary_effect [OF temporary_requests_outer(2)] by (fastforce elim!: answerE)
next
  case (ProcessTimeout c)
  with assms show ?thesis using process_timeout_effect by (auto elim!: answerE)
next
  case (HandleBlockProposal p)
  with assms show ?thesis using handle_block_proposal_effect by (fastforce elim!: answerE)
next
  case (ProcessValidatedBlock c blobs)
  with assms show ?thesis using process_validated_block_effect by (fastforce elim!: answerE)
next
  case (ProcessConfirmedBlock c listener)
  then obtain q where q: "attempted_changes (process_confirmed_block env clock c listener) s = (q, s')"
    using assms(1) by (auto elim!: answerE)
  from q assms(2) show ?thesis
  proof (rule attempted_changesE)
    fix s1 assume run: "process_confirmed_block env clock c listener (s\<lparr>ws_succeeded := False\<rparr>) = (q, s1)"
      and s': "s' = (if ws_succeeded s1 then s1 else rollback s1)"
    show ?thesis
    proof (cases "kept s1 = kept (s\<lparr>ws_succeeded := False\<rparr>)")
      case True
      then have "idle s'" "ws_stored s' = ws_stored s" "ws_config s' = ws_config s"
        using s' by (auto simp: kept_def rollback_def idle_def)
      then show ?thesis using net_update_same by (fastforce simp: effect_def)
    next
      case False
      from process_confirmed_block_saves [OF run False] have "confirms env c s s'" "idle s'"
        using s' by (auto simp: confirms_def Let_def idle_def)
      then show ?thesis using ProcessConfirmedBlock by blast
    qed
  qed
next
  case (ProcessCrossChainUpdate orig pairs)
  with assms show ?thesis
    using saved_core_effect [OF process_cross_chain_update_saves] by (fastforce elim!: answerE)
next
  case (ConfirmRecipient heights)
  with assms show ?thesis
    using saved_core_effect [OF confirm_updated_recipient_saves] by (fastforce elim!: answerE)
next
  case (HandleChainInfoQuery query)
  with assms show ?thesis using handle_chain_info_query_effect by (fastforce elim!: answerE)
next
  case (DownloadPendingBlob bid)
  with assms show ?thesis using effect_refl by (auto elim!: answerE)
next
  case (UpdateReceivedCertificateTrackers trackers)
  with assms show ?thesis
    using saved_core_effect [OF update_trackers_saves] by (fastforce elim!: answerE)
qed

subsection \<open>A network of workers\<close>

text \<open>The workers of the honest validators for one chain, and the votes for blocks at height \<open>h\<close> that they have stored so
  far. A worker whose chain has passed this height may handle any request.\<close>

record 'u worker_net =
  wn_workers :: "validator_name \<Rightarrow> 'u worker_state"
  wn_ballots :: "ballot set"

definition net_of :: "'u worker_net \<Rightarrow> net" where
  "net_of w = \<lparr>net_managers = (\<lambda>v. cs_manager (ws_stored (wn_workers w v))), net_ballots = wn_ballots w\<rparr>"

definition next_height :: "'u worker_state \<Rightarrow> block_height" where
  "next_height s = next_block_height (tip_state (ws_stored s))"

definition votes_at :: "block_height \<Rightarrow> validator_name \<Rightarrow> 'u worker_state \<Rightarrow> ballot set" where
  "votes_at h v s = (if next_height s = h then stored_ballots v (cs_manager (ws_stored s)) else {})"

definition worker_update :: "block_height \<Rightarrow> 'u worker_net \<Rightarrow> validator_name \<Rightarrow> 'u worker_state \<Rightarrow> 'u worker_net" where
  "worker_update h w v s =
     w\<lparr>wn_workers := (wn_workers w)(v := s), wn_ballots := wn_ballots w \<union> votes_at h v s\<rparr>"

text \<open>At the start the chain of every honest worker is active, waits for the block at height \<open>h\<close> and has a fresh consensus
  state.\<close>

definition workers_start ::
  "protocol \<Rightarrow> (validator_name \<Rightarrow> 'u worker_env) \<Rightarrow> chain_ownership \<Rightarrow> block_height \<Rightarrow> 'u worker_net \<Rightarrow> bool" where
  "workers_start P env own h w \<longleftrightarrow>
     wn_ballots w = {} \<and>
     (\<forall>v \<in> pr_honest P. let s = wn_workers w v in
        idle s \<and> runs_as P v (env v) s \<and> next_height s = h \<and> length (confirmed_log (ws_stored s)) = unat h
        \<and> (\<exists>owner_of seed t fallback.
             manager_new (pr_election P) owner_of own seed t fallback = Inr (cs_manager (ws_stored s))))"

inductive workers_reach ::
  "protocol \<Rightarrow> (validator_name \<Rightarrow> 'u worker_env) \<Rightarrow> chain_ownership \<Rightarrow> block_height \<Rightarrow> 'u worker_net \<Rightarrow> bool"
  for P env own h where
  start: "workers_start P env own h w \<Longrightarrow> workers_reach P env own h w"
| request: "workers_reach P env own h w \<Longrightarrow> v \<in> pr_honest P \<Longrightarrow> authentic P (net_of w) h req \<Longrightarrow>
    handle_request (env v) clock req (wn_workers w v) = (r, s') \<Longrightarrow>
    workers_reach P env own h (worker_update h w v s')"

subsection \<open>The workers refine the protocol\<close>

lemma genuine_mono: "genuine P n hash kind r sigs \<Longrightarrow> net_ballots n \<subseteq> net_ballots n' \<Longrightarrow> genuine P n' hash kind r sigs"
  unfolding genuine_def by blast

lemma authentic_cong: "net_ballots n = net_ballots n' \<Longrightarrow> authentic P n h req \<longleftrightarrow> authentic P n' h req"
  by (cases req) (auto simp: genuine_def split: option.splits)

lemma reachable_steps: "(step P)\<^sup>*\<^sup>* n n' \<Longrightarrow> reachable P own n \<Longrightarrow> reachable P own n'"
  by (induction rule: rtranclp_induct) (auto intro: reachable.step)

text \<open>A worker that waits for the block, and one that has confirmed it.\<close>

definition awaits :: "protocol \<Rightarrow> 'u worker_env \<Rightarrow> block_height \<Rightarrow> net \<Rightarrow> validator_name \<Rightarrow> 'u worker_state \<Rightarrow> bool" where
  "awaits P env h n v s \<longleftrightarrow> runs_as P v env s \<and> matches P n v s \<and> next_height s = h
     \<and> length (confirmed_log (ws_stored s)) = unat h"

definition decided :: "protocol \<Rightarrow> block_height \<Rightarrow> net \<Rightarrow> 'u worker_state \<Rightarrow> bool" where
  "decided P h n s \<longleftrightarrow> h < next_height s \<and> unat h < length (confirmed_log (ws_stored s))
     \<and> (\<exists>r sigs. let hash = confirmed_log (ws_stored s) ! unat h in
          check_signatures (pr_scheme P) hash ConfirmedKind r sigs (pr_committee P) = Inr ()
          \<and> genuine P n hash ConfirmedKind r sigs)"

definition simulated ::
  "protocol \<Rightarrow> (validator_name \<Rightarrow> 'u worker_env) \<Rightarrow> block_height \<Rightarrow> net \<Rightarrow> 'u worker_net \<Rightarrow> bool" where
  "simulated P env h n w \<longleftrightarrow> net_ballots n = wn_ballots w
     \<and> (\<forall>v \<in> pr_honest P. idle (wn_workers w v)
          \<and> (awaits P (env v) h n v (wn_workers w v) \<or> decided P h n (wn_workers w v)))"

lemma worker_update_simps [simp]:
  "wn_workers (worker_update h w v s) u = (if u = v then s else wn_workers w u)"
  "wn_ballots (worker_update h w v s) = wn_ballots w \<union> votes_at h v s"
  by (simp_all add: worker_update_def)

lemma awaits_other:
  "awaits P env h n u s \<Longrightarrow> u \<noteq> v \<Longrightarrow> awaits P env h (net_update n v m) u s"
  by (auto simp: awaits_def matches_def)

lemma decided_mono: "decided P h n s \<Longrightarrow> net_ballots n \<subseteq> net_ballots n' \<Longrightarrow> decided P h n' s"
  unfolding decided_def Let_def using genuine_mono by blast

text \<open>A worker that confirms the block.\<close>

lemma awaits_confirms:
  assumes "awaits P env h n v s" "idle s" "confirms env c s s'" "authentic P n h (ProcessConfirmedBlock c listener)"
  shows "decided P h n s'"
proof -
  have h: "next_block_height (tip_state (ws_chain s)) = h" "length (confirmed_log (ws_chain s)) = unat h"
    and r: "runs_as P v env s"
    using assms(1,2) by (auto simp: awaits_def next_height_def idle_def)
  have log: "confirmed_log (ws_stored s') = confirmed_log (ws_chain s) @ [gc_hash c]"
    and up: "try_add_one h = Inr (next_height s')"
    and at: "block_height_of (eb_block (confirmed_executed_block (hashed_value (gc_value c)))) = h"
    using assms(3) h by (auto simp: confirms_def Let_def next_height_def)
  have "gc_check (pr_scheme P) confirmed_cv c (pr_committee P) = Inr ()"
    using assms(2,3) r by (auto simp: confirms_def Let_def runs_as_def idle_def)
  then have "check_signatures (pr_scheme P) (gc_hash c) ConfirmedKind (gc_round c) (gc_signatures c) (pr_committee P) = Inr ()"
    by (simp add: gc_check_def confirmed_cv_def)
  moreover have "genuine P n (gc_hash c) ConfirmedKind (gc_round c) (gc_signatures c)" using assms(4) at by simp
  moreover have "h < next_height s'" using up try_add_one_less by blast
  ultimately show ?thesis
    unfolding decided_def Let_def using log h by (auto simp: nth_append)
qed

text \<open>A worker that has confirmed the block keeps it.\<close>

lemma decided_kept:
  assumes "decided P h n s" "idle s" "handle_request env clock req s = (r, s')"
  shows "decided P h n s' \<and> idle s'"
proof -
  have i: "unat h < length (confirmed_log (ws_stored s))" "h < next_height s" using assms(1) by (auto simp: decided_def)
  have "\<exists>hashes. idle s' \<and> confirmed_log (ws_stored s') = confirmed_log (ws_stored s) @ hashes \<and> next_height s \<le> next_height s'"
    using handle_request_effect [OF assms(3,2)]
  proof (elim disjE exE conjE)
    fix c assume c: "confirms env c s s'" and i: "idle s'"
    have "try_add_one (next_height s) = Inr (next_height s')"
      using c assms(2) by (auto simp: confirms_def Let_def next_height_def idle_def)
    then have "next_height s \<le> next_height s'" using try_add_one_less less_imp_le by blast
    moreover have "confirmed_log (ws_stored s') = confirmed_log (ws_stored s) @ [gc_hash c]"
      using c assms(2) by (auto simp: confirms_def Let_def idle_def)
    ultimately show ?thesis using i by blast
  next
    assume "effect env (\<lambda>P n. authentic P n (next_block_height (tip_state (ws_stored s))) req) s s'"
    then show ?thesis by (intro exI [of _ "[]"]) (auto simp: effect_def trunk_def next_height_def)
  qed
  then obtain hashes where "idle s'" "confirmed_log (ws_stored s') = confirmed_log (ws_stored s) @ hashes"
    "next_height s \<le> next_height s'" by blast
  moreover from this i have "h < next_height s'" "confirmed_log (ws_stored s') ! unat h = confirmed_log (ws_stored s) ! unat h"
    by (auto simp: nth_append)
  ultimately show ?thesis using assms(1) i by (auto simp: decided_def)
qed

lemma simulated_request:
  assumes sim: "simulated P env h n w" and reach: "reachable P own n" and v: "v \<in> pr_honest P"
    and auth: "authentic P (net_of w) h req" and run: "handle_request (env v) clock req (wn_workers w v) = (r, s')"
  shows "\<exists>n'. reachable P own n' \<and> simulated P env h n' (worker_update h w v s')"
proof -
  let ?s = "wn_workers w v"
  have b: "net_ballots n = wn_ballots w" and i: "idle ?s"
    and others: "\<And>u. u \<in> pr_honest P \<Longrightarrow> idle (wn_workers w u) \<and> (awaits P (env u) h n u (wn_workers w u) \<or> decided P h n (wn_workers w u))"
    using sim v by (auto simp: simulated_def)
  have a: "authentic P n h req" using auth authentic_cong [of n "net_of w"] b by (simp add: net_of_def)
  have stays: "simulated P env h n (worker_update h w v s')" if "decided P h n s'" "idle s'"
    using that others b by (auto simp: simulated_def votes_at_def decided_def)
  show ?thesis
  proof (cases "decided P h n ?s")
    case True
    then show ?thesis using decided_kept [OF True i run] stays reach by blast
  next
    case False
    then have wt: "awaits P (env v) h n v ?s" using others v by blast
    have h: "next_block_height (tip_state (ws_stored ?s)) = h" using wt by (simp add: awaits_def next_height_def)
    from handle_request_effect [OF run i, unfolded h] show ?thesis
    proof (elim disjE exE conjE)
      fix c listener assume "req = ProcessConfirmedBlock c listener" "idle s'" "confirms (env v) c ?s s'"
      then show ?thesis using awaits_confirms [OF wt i] a stays reach by blast
    next
      assume e: "effect (env v) (\<lambda>P n. authentic P n h req) ?s s'"
      let ?n' = "net_update n v (cs_manager (ws_stored s'))"
      have rm: "runs_as P v (env v) ?s" "matches P n v ?s" using wt by (auto simp: awaits_def)
      have x: "execution_state (ws_stored s') = execution_state (ws_stored ?s)" "(step P)\<^sup>*\<^sup>* n ?n'" "idle s'"
        "ws_config s' = ws_config ?s" "trunk (ws_stored s') = trunk (ws_stored ?s)"
        using e rm a unfolding effect_def by blast+
      have nh: "next_height s' = h" "length (confirmed_log (ws_stored s')) = unat h"
        using x(5) wt by (auto simp: awaits_def next_height_def trunk_def)
      have "awaits P (env v) h ?n' v s'"
        using nh rm(2) runs_as_kept [OF rm(1) x(4,1)] by (auto simp: awaits_def matches_def)
      moreover have "awaits P (env u) h ?n' u (wn_workers w u) \<or> decided P h ?n' (wn_workers w u)"
        if "u \<in> pr_honest P" "u \<noteq> v" for u
        using others [OF that(1)] awaits_other that(2) decided_mono [of P h n "wn_workers w u" ?n'] by auto
      ultimately have "simulated P env h ?n' (worker_update h w v s')"
        using b others x(3) nh(1) by (simp add: simulated_def votes_at_def)
      then show ?thesis using reachable_steps [OF x(2) reach] by blast
    qed
  qed
qed

lemma workers_simulated:
  assumes "workers_reach P env own h w"
  shows "\<exists>n. reachable P own n \<and> simulated P env h n w"
  using assms
proof (induction rule: workers_reach.induct)
  case (start w)
  have "initial_net P own (net_of w)"
    using start by (auto simp: workers_start_def initial_net_def net_of_def Let_def)
  moreover have "stored_ballots v (cs_manager (ws_stored (wn_workers w v))) = {}" if "v \<in> pr_honest P" for v
    using start that by (auto simp: workers_start_def Let_def stored_ballots_def dest!: bspec dest: manager_new_fields)
  then have "simulated P env h (net_of w) w"
    using start by (simp add: simulated_def workers_start_def Let_def awaits_def matches_def net_of_def)
  ultimately show ?case using reachable.init by blast
next
  case (request w v req clock r s')
  then show ?case using simulated_request by blast
qed

lemma decided_certified:
  assumes "protocol_ok P" "decided P h n s"
  obtains r eb where "certified P n ConfirmedKind r eb"
    "confirmed_log (ws_stored s) ! unat h = block_hash (pr_hashers P) ConfirmedKind eb"
proof -
  let ?hash = "confirmed_log (ws_stored s) ! unat h" and ?c = "pr_committee P"
  obtain r sigs where sig: "check_signatures (pr_scheme P) ?hash ConfirmedKind r sigs ?c = Inr ()"
    and gen: "genuine P n ?hash ConfirmedKind r sigs"
    using assms(2) by (auto simp: decided_def Let_def)
  have wf: "committee_wf ?c" using assms(1) by (simp add: protocol_ok_def)
  obtain v where v: "v \<in> set (signers sigs)" "v \<notin> committee_members ?c - pr_honest P"
    using cq.honest_in_one [OF wf check_signatures_quorum [OF wf sig], of "committee_members ?c - pr_honest P"]
      assms(1) cq.finite_members [OF wf] by (auto simp: protocol_ok_def)
  then have "v \<in> pr_honest P" using check_signatures_quorum(1) [OF wf sig] by blast
  with v(1) gen obtain eb where eb: "(v, ConfirmedKind, r, eb) \<in> net_ballots n"
    "block_hash (pr_hashers P) ConfirmedKind eb = ?hash" by (auto simp: genuine_def)
  have "certified P n ConfirmedKind r eb"
    unfolding certified_def using eb sig gen by (auto simp: net_blocks_def)
  then show ?thesis using that eb(2) by metis
qed

text \<open>C3: The workers of honest validators agree. Take a chain without super owners whose honest workers all wait for the
  block at height \<open>h\<close>, with less than a third of the voting power faulty. After any requests - proposals, certificates,
  timeouts, cross-chain updates, queries - in any order, two honest workers that have confirmed a block at this height
  have stored the same block hash in their logs.\<close>

theorem workers_agree:
  assumes "protocol_ok P" and "workers_reach P env own h w" and "collision_free P (net_of w)" and "super_owners own = []"
    and "u \<in> pr_honest P" and "unat h < length (confirmed_log (ws_stored (wn_workers w u)))"
    and "v \<in> pr_honest P" and "unat h < length (confirmed_log (ws_stored (wn_workers w v)))"
  shows "confirmed_log (ws_stored (wn_workers w u)) ! unat h = confirmed_log (ws_stored (wn_workers w v)) ! unat h"
proof -
  obtain n where n: "reachable P own n" "simulated P env h n w" using workers_simulated [OF assms(2)] by blast
  have cf: "collision_free P n"
    using assms(3) n(2) by (simp add: collision_free_def net_blocks_def simulated_def net_of_def)
  have d: "decided P h n (wn_workers w x)" if "x \<in> pr_honest P" "unat h < length (confirmed_log (ws_stored (wn_workers w x)))" for x
    using n(2) that by (auto simp: simulated_def awaits_def)
  obtain q A r B where A: "certified P n ConfirmedKind q A"
      "confirmed_log (ws_stored (wn_workers w u)) ! unat h = block_hash (pr_hashers P) ConfirmedKind A"
    and B: "certified P n ConfirmedKind r B"
      "confirmed_log (ws_stored (wn_workers w v)) ! unat h = block_hash (pr_hashers P) ConfirmedKind B"
    using decided_certified [OF assms(1) d] assms(5-8) by metis
  have "q \<noteq> Fast" "r \<noteq> Fast"
    using certified_voter [OF assms(1) _ cf] no_fast_votes [OF n(1) assms(1,4)] A(1) B(1) by blast+
  then have "A = B" using ra.agreement [of "(P, n)" r B q A] assms(1) n(1) cf A(1) B(1) by (auto simp: run_ok_def)
  then show ?thesis using A(2) B(2) by simp
qed

end
