(* ===== verification/Worker_Runs.thy ===== *)
theory Worker_Runs
  imports Worker_Agreement Consensus_Runs
begin

section \<open>A concrete run of two workers\<close>

text \<open>
  Two workers with concrete parameters, the first of which has a quorum of the votes: it handles a proposal, the
  certificate that its own vote makes, and the certificate of the confirmed block, which then the second worker also
  handles. The run satisfies the hypotheses of the agreement theorem.
\<close>

subsection \<open>The parameters\<close>

definition heavy_validators :: "(validator_name, validator_state) btree_map" where
  "heavy_validators = [(1, \<lparr>network_address = [], votes = 5\<rparr>), (2, \<lparr>network_address = [], votes = 1\<rparr>)]"

definition heavy_committee :: committee where
  "heavy_committee = committee_new heavy_validators policy_default"

definition run_protocol :: protocol where
  "run_protocol =
     \<lparr>pr_scheme = toy_scheme, pr_hashers = demo_hashers, pr_election = demo_election, pr_committee = heavy_committee,
      pr_honest = {1, 2}, pr_valid = (\<lambda>_ _ _. True)\<rparr>"

definition run_env :: "unit worker_env" where
  "run_env =
     \<lparr>we_chain = example_chain_env, we_scheme = toy_scheme, we_hashers = demo_hashers, we_proposal_verify = (\<lambda>_ _ _. True),
      we_sign_info = (\<lambda>_ _. 0), we_proposal_size = (\<lambda>_. 0), we_decompressed_size_at_most = (\<lambda>_ _. Inr True),
      we_targets = (\<lambda>_. []), we_origins = (\<lambda>_. []), we_lru_promote = (\<lambda>_ cache. cache),
      we_lru_push = (\<lambda>hash v cache. (hash, v) # cache)\<rparr>"

definition run_config :: "validator_name \<Rightarrow> worker_config" where
  "run_config v = \<lparr>key_pair = Some v, allow_inactive_chains = False, allow_messages_from_deprecated_epochs = False,
     long_lived_services = False, grace_period = 100000\<rparr>"

definition run_system :: system_state where
  "run_system = example_system\<lparr>sys_committees := [(0, heavy_committee)], sys_ownership := agree_own\<rparr>"

definition empty_storage :: db_storage where
  "empty_storage = \<lparr>db_certificates = Map.empty, db_confirmed_blocks = Map.empty, db_blobs = Map.empty,
     db_blob_states = Map.empty\<rparr>"

text \<open>The first block of the chain, which has no transactions.\<close>

definition run_block :: block where
  "run_block = \<lparr>block_chain_id = 1, block_epoch = 0, incoming_bundles = [], operations = [], block_height_of = 0,
     block_timestamp = 4, block_authenticated_signer = None, previous_block_hash = None\<rparr>"

definition run_executed :: executed_block where
  "run_executed = \<lparr>eb_block = run_block,
     eb_outcome = \<lparr>beo_messages = [], state_hash = 5, oracle_responses = [], beo_events = []\<rparr>\<rparr>"

definition run_proposal :: block_proposal where
  "run_proposal = proposal_new_initial (\<lambda>_. 7) 7 (MultiLeader 0) run_block []"

definition run_validated :: "validated_block generic_certificate" where
  "run_validated = gc_new (hashed_new (hash_validated demo_hashers) (validated_block_new demo_hashers run_executed))
     (MultiLeader 0) [(1, 1)]"

definition run_confirmed :: "confirmed_block generic_certificate" where
  "run_confirmed = gc_new (hashed_new (hash_confirmed demo_hashers) (confirmed_block_new demo_hashers run_executed))
     (MultiLeader 0) [(1, 1)]"

text \<open>A worker of validator \<open>v\<close> with the consensus state \<open>m\<close> that has not confirmed the block.\<close>

definition ready :: "validator_name \<Rightarrow> chain_manager \<Rightarrow> unit worker_state \<Rightarrow> bool" where
  "ready v m s \<longleftrightarrow> ws_config s = run_config v \<and> ws_storage s = empty_storage \<and> ws_tracked s = None
     \<and> ws_chain s = block_chain m run_system \<and> ws_stored s = block_chain m run_system"

subsection \<open>Facts about the parameters\<close>

lemma heavy_committee_facts:
  "committee_wf heavy_committee" "quorum_threshold heavy_committee = 5" "validity_threshold heavy_committee = 2"
  "committee_members heavy_committee = {1, 2}" "weight heavy_committee 1 = 5" "committee_policy heavy_committee = policy_default"
proof -
  show "committee_wf heavy_committee"
    unfolding heavy_committee_def by (rule committee_new_wf) (simp_all add: heavy_validators_def exact_votes_def)
qed (simp_all add: heavy_committee_def heavy_validators_def four_validators_eval Let_def)

lemma run_protocol_ok: "protocol_ok run_protocol"
  by (simp add: protocol_ok_def run_protocol_def heavy_committee_facts)

lemma run_signatures: "check_signatures toy_scheme hash kind r [(1, 1)] heavy_committee = Inr ()"
  by (simp add: check_signatures_def heavy_committee_facts toy_scheme_def Let_def)

lemma run_system_facts:
  "sys_timestamp run_system = 0" "\<not> sys_closed run_system" "sys_ownership run_system = agree_own"
  "current_committee run_system = Some (0, heavy_committee)"
  "current_committee (run_system\<lparr>sys_timestamp := x\<rparr>) = Some (0, heavy_committee)" "system_is_active run_system"
  "sys_description run_system = Some (Root 0)" "sys_application_permissions run_system = permissions_default"
  by (simp_all add: run_system_def example_system_def fresh_system_def current_committee_def bt_get_def system_is_active_def
      ownership_is_active_def agree_own_def single_owner_def bt_collect_def bt_extend_def bt_empty_def)

lemma block_chain_facts:
  "chain_system (block_chain m s) = s" "cs_chain_id (block_chain m s) = 1" "cs_manager (block_chain m s) = m"
  "execution_state (block_chain m s) = \<lparr>es_chain_id = 1, es_system = s, es_users = ()\<rparr>"
  "(block_chain m s)\<lparr>cs_manager := m'\<rparr> = block_chain m' s" "confirmed_log (block_chain m s) = []"
  "outboxes (block_chain m s) = Map.empty" "inboxes (block_chain m s) = Map.empty"
  "next_block_height (tip_state (block_chain m s)) = 0" "tip_block_hash (tip_state (block_chain m s)) = None"
  by (simp_all add: chain_system_def block_chain_def)

lemma run_block_facts:
  "block_chain_id run_block = 1" "block_epoch run_block = 0" "incoming_bundles run_block = []" "operations run_block = []"
  "block_height_of run_block = 0" "block_timestamp run_block = 4" "block_authenticated_signer run_block = None"
  "previous_block_hash run_block = None" "transactions run_block = []"
  by (simp_all add: run_block_def transactions_def)

lemma run_executed_facts:
  "eb_block run_executed = run_block" "beo_messages (eb_outcome run_executed) = []"
  "oracle_responses (eb_outcome run_executed) = []" "state_hash (eb_outcome run_executed) = 5"
  by (simp_all add: run_executed_def)

lemma run_start:
  "track_block_start run_block \<lparr>rc_policy = policy_default, rc_tracker = tracker_default, rc_account = None\<rparr> = Inr (sized_controller 91)"
proof -
  have "\<lparr>rc_policy = policy_default, rc_tracker = tracker_default, rc_account = None\<rparr> = sized_controller 0"
    by (simp add: sized_controller_def tracker_default_def)
  then show ?thesis
    by (simp add: track_block_start_def track_sized empty_executed_block_size_def track_same_size run_block_facts)
qed

lemma run_env_facts:
  "we_chain run_env = example_chain_env" "we_scheme run_env = toy_scheme" "we_hashers run_env = demo_hashers"
  "we_proposal_verify run_env c k sig" "we_proposal_size run_env x = 0" "we_targets run_env ts = []"
  "we_origins run_env os = []" "ce_election example_chain_env = demo_election"
  by (simp_all add: run_env_def example_chain_env_def demo_election_def)

subsection \<open>The execution of the block\<close>

lemma run_block_executes:
  assumes "replaying = None \<or> replaying = Some []"
  shows "\<exists>m'. execute_block (chain_env_at run_env storage) (block_chain m run_system) run_block t replaying
    = Inr ((block_chain m' (run_system\<lparr>sys_timestamp := 4\<rparr>))\<lparr>execution_state_hash := Some 5\<rparr>, eb_outcome run_executed)
    \<and> mgr_proposed m' = None"
proof -
  let ?sys = "run_system\<lparr>sys_timestamp := 4\<rparr>"
  let ?chain = "block_chain m ?sys"
  have stamp: "set_block_timestamp (block_chain m run_system) 4 = ?chain"
    by (simp add: set_block_timestamp_def block_chain_def chain_system_def)
  have fee: "with_chain_state (sized_controller 91) ?chain (track_block sources_holder)
      = Inr ((sized_controller 91)\<lparr>rc_tracker := (rc_tracker (sized_controller 91))\<lparr>rt_blocks := 1\<rparr>\<rparr>, ?chain)"
    by (simp add: with_chain_state_def with_state_def with_state_and_grant_def track_block_def sized_controller_def
      tracker_default_def funding_sources_def owner_source_def put_sources_def block_chain_def update_balance_def
      sources_holder_def policy_default_def try_add_def try_sub_assign_def checked_add_def checked_sub_def
      run_system_def example_system_def Let_def)
  have "\<exists>m'. manager_new demo_election id agree_own 1 t (keys_and_weights heavy_committee) = Inr m'"
    by (simp add: manager_new_def alias_new_def demo_election_def Let_def)
  then obtain m' where m': "manager_new demo_election id agree_own 1 t (keys_and_weights heavy_committee) = Inr m'" by blast
  have env: "ce_state_hash (chain_env_at run_env storage) e = 5" "ce_election (chain_env_at run_env storage) = demo_election"
    "se_owner_of (ev_system (ce_exec (chain_env_at run_env storage))) = id" for e
    by (simp_all add: chain_env_at_def run_env_def example_chain_env_def demo_election_def example_env_def)
  have reset: "reset_manager (chain_env_at run_env storage) (?chain\<lparr>execution_state_hash := Some 5\<rparr>) 1 t
      = Inr ((block_chain m' ?sys)\<lparr>execution_state_hash := Some 5\<rparr>)"
    using m' by (simp add: reset_manager_def manager_reset_def env run_system_facts block_chain_def chain_system_def)
  have height: "try_add_one (0 :: u64) = Inr 1" by (simp add: try_add_one_def checked_add_def)
  show ?thesis
    unfolding execute_block_def
    using assms m' manager_new_fields(1) [OF m']
    by (auto simp: block_chain_facts run_block_facts init_if_opened_def run_system_facts stamp is_closed_def
        heavy_committee_facts run_start fee env reset height Let_def with_execution_context_def run_executed_def
        check_application_permissions_def permissions_default_def simp del: set_block_timestamp_state)
qed

subsection \<open>The requests\<close>

lemma ensure_active_ready:
  "ready v m s \<Longrightarrow> worker_ensure_is_active s = (Inr (), s\<lparr>ws_knows_active := True\<rparr>)"
  by (cases s) (auto simp: worker_ensure_is_active_def ready_def ensure_is_active_def is_active_def block_chain_facts
      run_system_facts from_chain_def)

lemma required_blobs_none: "required_blob_ids run_executed = {}"
  by (simp add: required_blob_ids_def oracle_blob_ids_def published_blob_ids_def run_executed_def run_block_facts
      map_filter_simps)

lemma get_required_none: "mgr_proposed (cs_manager (ws_chain s)) = None \<or> (\<exists>p. mgr_proposed (cs_manager (ws_chain s)) = Some p \<and> bp_blobs p = [])
    \<Longrightarrow> get_required_blobs s run_executed [] = Inr []"
  by (auto simp: get_required_blobs_def required_blobs_none bt_empty_def bt_extend_def read_blobs_def map_filter_simps Let_def)

lemma run_proposal_facts:
  "bp_validated_block_certificate run_proposal = None" "pc_outcome (bp_content run_proposal) = None"
  "pc_block (bp_content run_proposal) = run_block" "pc_round (bp_content run_proposal) = MultiLeader 0"
  "bp_owner run_proposal = 7" "bp_blobs run_proposal = []"
  by (simp_all add: run_proposal_def proposal_new_initial_def Let_def)

lemma run_proposal_accepted:
  "verify_owner le (demo_manager agree_own) run_proposal = Some 7"
  "check_proposed_block (demo_manager agree_own) run_proposal = Inr OutcomeAccept"
  by (simp_all add: verify_owner_def check_proposed_block_def expected_round_def is_super_def demo_manager_fields agree_owner
      run_proposal_facts run_block_facts max_value_def word_gt_0 Let_def)

lemma remove_no_bundles: "remove_bundles_from_inboxes (block_chain m run_system) run_block = Inr (block_chain m run_system)"
  by (simp add: remove_bundles_from_inboxes_def run_block_facts bundles_by_origin_def)

lemma contents_checked:
  "check_proposal_contents run_env (run_config v) policy 4 run_proposal = Inr ()"
  by (simp add: check_proposal_contents_def run_proposal_facts run_block_facts published_blob_ids_def run_config_def
      saturating_sub_def checked_sub_def Let_def)

lemma executed_checked:
  assumes "ws_chain s = (block_chain m sys)\<lparr>execution_state_hash := h\<rparr>" "mgr_proposed m = None"
  shows "check_executed_block run_env policy run_proposal run_executed s = (Inr (), s)"
proof -
  have "mgr_proposed (cs_manager (ws_chain s)) = None" using assms by (simp add: block_chain_def)
  moreover have "verify_counters (tip_state (ws_chain s)) run_block (eb_outcome run_executed) = Inr ()"
    using assms(1) by (simp add: verify_counters_def checked_count_def try_from_nat_def checked_add_def run_block_facts
        run_executed_facts block_chain_def)
  moreover have "validate_incoming_bundles (ws_chain s) [] = Inr ()"
    by (simp add: validate_incoming_bundles_def)
  ultimately show ?thesis
    by (simp add: check_executed_block_def act_bind_def run_proposal_facts get_required_none from_chain_def
        check_proposal_size_def run_env_facts run_executed_facts bt_values_def)
qed

lemma validate_run_proposal:
  assumes "ready v (demo_manager agree_own) s"
  shows "\<exists>chain. validate_block run_env (\<lambda>_. 4) run_proposal s
    = (Inr (Some (eb_outcome run_executed, 4)), s\<lparr>ws_knows_active := True, ws_chain := chain\<rparr>)"
proof -
  obtain m' where x: "execute_block (chain_env_at run_env empty_storage) (block_chain (demo_manager agree_own) run_system) run_block 4 None
      = Inr ((block_chain m' (run_system\<lparr>sys_timestamp := 4\<rparr>))\<lparr>execution_state_hash := Some 5\<rparr>, eb_outcome run_executed)"
    and fresh: "mgr_proposed m' = None"
    using run_block_executes by blast
  have eb: "\<lparr>eb_block = run_block, eb_outcome = eb_outcome run_executed\<rparr> = run_executed"
    by (simp add: run_executed_def)
  show ?thesis
    using assms x ensure_active_ready [OF assms] executed_checked [OF _ fresh]
    by (auto simp: validate_block_def act_bind_def run_proposal_facts expect_committee_def ready_def block_chain_facts
        run_system_facts check_block_epoch_def run_block_facts check_proposal_authentication_def run_proposal_accepted
        run_env_facts from_chain_def verify_block_chaining_def remove_no_bundles set_chain_def contents_checked eb)
qed

text \<open>The consensus state after the two votes.\<close>

definition voted_manager :: "validator_name \<Rightarrow> chain_manager" where
  "voted_manager v = fst (create_vote toy_scheme demo_hashers (demo_manager agree_own) run_proposal run_executed (Some v) 4 [])"

definition locked_manager :: "validator_name \<Rightarrow> chain_manager" where
  "locked_manager v = create_final_vote toy_scheme demo_hashers (voted_manager v) run_validated (Some v) 4 []"

lemma idle_ready: "ready v m s \<Longrightarrow> \<not> has_pending_changes s"
  by (simp add: ready_def has_pending_changes_def)

lemma vote_run_proposal:
  assumes "ready v (demo_manager agree_own) s"
  shows "\<exists>s'. attempted_changes (vote_for_block_proposal run_env run_proposal (eb_outcome run_executed) 4) s = (Inr (), s')
    \<and> ready v (voted_manager v) s'"
proof -
  have eb: "\<lparr>eb_block = run_block, eb_outcome = eb_outcome run_executed\<rparr> = run_executed"
    by (simp add: run_executed_def)
  obtain vote where vote: "create_vote toy_scheme demo_hashers (demo_manager agree_own) run_proposal run_executed (Some v) 4 []
      = (voted_manager v, Some (Inl vote))"
    by (simp add: voted_manager_def create_vote_def run_proposal_facts Let_def)
  show ?thesis
    using assms idle_ready [OF assms] vote
    by (simp add: attempted_changes_def vote_for_block_proposal_def act_bind_def run_proposal_facts run_env_facts eb bt_empty_def
        ready_def run_config_def block_chain_facts update_manager_def cache_value_def save_def)
qed

lemma proposal_handled:
  assumes "ready v (demo_manager agree_own) s"
  shows "\<exists>r s'. handle_request run_env (\<lambda>_. 4) (HandleBlockProposal run_proposal) s = (r, s') \<and> ready v (voted_manager v) s'"
proof -
  obtain chain where val: "validate_block run_env (\<lambda>_. 4) run_proposal s
      = (Inr (Some (eb_outcome run_executed, 4)), s\<lparr>ws_knows_active := True, ws_chain := chain\<rparr>)"
    using validate_run_proposal [OF assms] by blast
  let ?s1 = "rollback (s\<lparr>ws_knows_active := True, ws_chain := chain\<rparr>)"
  have "ready v (demo_manager agree_own) ?s1"
    using assms by (simp add: ready_def rollback_def)
  from vote_run_proposal [OF this] obtain s' where
    "attempted_changes (vote_for_block_proposal run_env run_proposal (eb_outcome run_executed) 4) ?s1 = (Inr (), s')"
    "ready v (voted_manager v) s'" by blast
  then show ?thesis
    using val idle_ready [OF assms]
    by (cases "create_network_actions run_env s'")
      (auto simp: answer_def act_bind_def handle_block_proposal_def temporary_changes_def network_actions_now_def)
qed

lemma run_certificate_facts:
  "validated_executed_block (hashed_value (gc_value run_validated)) = run_executed"
  "confirmed_executed_block (hashed_value (gc_value run_confirmed)) = run_executed"
  "gc_round run_validated = MultiLeader 0" "gc_round run_confirmed = MultiLeader 0"
  "gc_signatures run_validated = [(1, 1)]" "gc_signatures run_confirmed = [(1, 1)]"
  "gc_hash run_validated = 5" "gc_hash run_confirmed = 5"
  by (simp_all add: run_validated_def run_confirmed_def gc_new_def gc_hash_def hashed_new_def validated_block_new_def
      confirmed_block_new_def validated_executed_block_def confirmed_executed_block_def demo_hashers_def run_executed_facts)

lemma voted_manager_facts:
  "mgr_proposed (voted_manager v) = Some run_proposal" "mgr_locked (voted_manager v) = None"
  "mgr_confirmed_vote (voted_manager v) = None" "mgr_current_round (voted_manager v) = MultiLeader 0"
  "mgr_ownership (voted_manager v) = agree_own"
  "\<exists>vote. mgr_validated_vote (voted_manager v) = Some vote \<and> vote_round vote = MultiLeader 0"
  by (simp_all add: voted_manager_def create_vote_def run_proposal_facts Let_def adopt_certificate_def demo_manager_fields
      vote_new_def agree_owner update_current_round_eq evidence_rounds_def)

lemma validated_handled:
  assumes "ready v (voted_manager v) s"
  shows "\<exists>r s'. handle_request run_env (\<lambda>_. 4) (ProcessValidatedBlock run_validated []) s = (r, s') \<and> ready v (locked_manager v) s'"
proof -
  obtain vote where "mgr_validated_vote (voted_manager v) = Some vote" "vote_round vote = MultiLeader 0"
    using voted_manager_facts(6) [of v] by blast
  then have "check_validated_block (voted_manager v) run_validated = Inr OutcomeAccept"
    by (simp add: check_validated_block_def voted_manager_facts(1-5) run_certificate_facts)
  moreover have "get_required_blobs s2 run_executed [] = Inr []"
    if "ws_chain s2 = block_chain (voted_manager v) run_system" for s2 :: "unit worker_state"
    using that by (intro get_required_none) (simp add: block_chain_facts voted_manager_facts(1) run_proposal_facts)
  moreover have "ready v (voted_manager v) (s\<lparr>ws_succeeded := False\<rparr>)"
    using assms by (simp add: ready_def)
  note ensure_active_ready [OF this]
  ultimately show ?thesis
    using idle_ready [OF assms] assms
    by (simp add: answer_def act_bind_def attempted_changes_def process_validated_block_def expect_committee_def ready_def
        block_chain_facts run_system_facts check_block_epoch_def run_certificate_facts run_executed_facts run_block_facts
        gc_check_def run_signatures run_env_facts from_chain_def already_validated_block_def cache_value_def
        check_for_unneeded_blobs_def update_manager_def save_def locked_manager_def run_config_def)
qed

lemma confirmed_checked:
  assumes "ready v m s"
  shows "check_confirmed run_env 4 (tip_state (block_chain m run_system)) run_confirmed s = (Inr (), s\<lparr>ws_knows_active := True\<rparr>)"
  using assms ensure_active_ready [OF assms]
  by (simp add: check_confirmed_def act_bind_def init_before_confirmation_def ready_def block_chain_facts is_active_def
      run_system_facts expect_committee_def check_block_epoch_def run_certificate_facts run_executed_facts run_block_facts
      gc_check_def run_signatures run_env_facts from_chain_def)

lemma confirmed_stored:
  assumes "ws_chain s = block_chain m run_system"
    and "mgr_proposed m = None \<or> (\<exists>p. mgr_proposed m = Some p \<and> bp_blobs p = [])"
  shows "\<exists>storage. store_confirmed run_confirmed s = (Inr (), s\<lparr>ws_storage := storage\<rparr>)"
proof -
  have "get_required_blobs s run_executed [] = Inr []"
    using assms by (intro get_required_none) (simp add: block_chain_facts)
  then show ?thesis
    by (simp add: store_confirmed_def act_bind_def run_certificate_facts Let_def) blast
qed

lemma no_network_actions: "create_network_actions run_env s = Inr network_actions_default"
proof -
  have "relevant_targets run_env s = []"
    by (simp add: relevant_targets_def run_env_facts Let_def split: option.split)
  then show ?thesis
    by (simp add: create_network_actions_def create_cross_chain_requests_def collect_heights_def bt_empty_def
        read_certificates_def from_view_def network_actions_default_def)
qed

lemma confirmed_finished:
  assumes "ws_chain s = block_chain m run_system"
  shows "\<exists>x s'. finish_confirmed run_env 4 run_confirmed None s = (Inr x, s') \<and> ws_succeeded s'
    \<and> confirmed_log (ws_stored s') = [5] \<and> ws_chain s' = ws_stored s'
    \<and> next_block_height (tip_state (ws_stored s')) = 1"
proof -
  obtain m' where x: "execute_block (chain_env_at run_env (ws_storage s)) (block_chain m run_system) run_block 4 (Some [])
      = Inr ((block_chain m' (run_system\<lparr>sys_timestamp := 4\<rparr>))\<lparr>execution_state_hash := Some 5\<rparr>, eb_outcome run_executed)"
    using run_block_executes by blast
  obtain chain where tip: "advance_tip run_confirmed
        ((block_chain m' (run_system\<lparr>sys_timestamp := 4\<rparr>))\<lparr>execution_state_hash := Some 5\<rparr>) = Inr chain"
    "confirmed_log chain = [5]" "next_block_height (tip_state chain) = 1"
    by (simp add: advance_tip_def block_chain_def try_add_one_def checked_add_def run_certificate_facts Let_def)
  have "apply_confirmed run_env 4 run_confirmed s = (Inr (), s\<lparr>ws_chain := chain\<rparr>)"
    using assms x tip(1)
    by (simp add: apply_confirmed_def act_bind_def run_certificate_facts run_executed_facts remove_no_bundles from_chain_def
        set_chain_def)
  then show ?thesis
    using tip
    by (simp add: finish_confirmed_def act_bind_def network_actions_now_def no_network_actions save_def cache_value_def
        register_delivery_notifier_def Let_def)
qed

lemma confirmed_handled:
  assumes "ready v m s" and "mgr_proposed m = None \<or> (\<exists>p. mgr_proposed m = Some p \<and> bp_blobs p = [])"
  shows "\<exists>r s'. handle_request run_env (\<lambda>_. 4) (ProcessConfirmedBlock run_confirmed None) s = (r, s')
    \<and> confirmed_log (ws_stored s') = [5] \<and> next_height s' = 1"
proof -
  let ?s = "s\<lparr>ws_succeeded := False\<rparr>"
  have "ready v m ?s" using assms(1) by (simp add: ready_def)
  note check = confirmed_checked [OF this]
  have chain: "ws_chain s = block_chain m run_system" using assms(1) by (simp add: ready_def)
  then obtain storage where store: "store_confirmed run_confirmed (?s\<lparr>ws_knows_active := True\<rparr>)
      = (Inr (), ?s\<lparr>ws_knows_active := True, ws_storage := storage\<rparr>)"
    using confirmed_stored [OF _ assms(2), of "?s\<lparr>ws_knows_active := True\<rparr>"] by auto
  obtain x s' where fin: "finish_confirmed run_env 4 run_confirmed None (?s\<lparr>ws_knows_active := True, ws_storage := storage\<rparr>) = (Inr x, s')"
    "ws_succeeded s'" "confirmed_log (ws_stored s') = [5]" "next_block_height (tip_state (ws_stored s')) = 1"
    using confirmed_finished [of "?s\<lparr>ws_knows_active := True, ws_storage := storage\<rparr>" m] chain by auto
  then show ?thesis
    using idle_ready [OF assms(1)] chain check store
    by (simp add: answer_def act_bind_def attempted_changes_def process_confirmed_block_def run_certificate_facts
        run_executed_facts run_block_facts block_chain_facts next_height_def)
qed

subsection \<open>The run\<close>

definition run_start_net :: "unit worker_net" where
  "run_start_net = \<lparr>wn_workers = (\<lambda>v. worker_load (run_config v) empty_storage [] None []
     (block_chain (demo_manager agree_own) run_system)), wn_ballots = {}\<rparr>"

lemma run_starts:
  "workers_start run_protocol (\<lambda>_. run_env) agree_own 0 run_start_net" "ready v (demo_manager agree_own) (wn_workers run_start_net v)"
  using manager_new_demo [of agree_own]
  by (auto simp: workers_start_def run_start_net_def worker_load_def idle_def runs_as_def run_protocol_def run_env_facts run_config_def
      is_active_def block_chain_facts run_system_facts next_height_def ready_def Let_def)

lemma votes_ready: "ready v m s \<Longrightarrow> votes_at 0 v s = stored_ballots v m"
  by (simp add: votes_at_def next_height_def ready_def block_chain_facts)

lemma run_votes:
  "stored_ballots v (voted_manager v) = {(v, ValidatedKind, MultiLeader 0, run_executed)}"
  "stored_ballots v (locked_manager v) = {(v, ConfirmedKind, MultiLeader 0, run_executed)}"
  "mgr_proposed (locked_manager v) = Some run_proposal"
proof -
  show "stored_ballots v (voted_manager v) = {(v, ValidatedKind, MultiLeader 0, run_executed)}"
    using create_vote_result(1) [of "voted_manager v" toy_scheme demo_hashers "demo_manager agree_own" run_proposal run_executed v 4 "[]"]
    by (simp add: voted_manager_def run_proposal_facts)
  show "stored_ballots v (locked_manager v) = {(v, ConfirmedKind, MultiLeader 0, run_executed)}"
    "mgr_proposed (locked_manager v) = Some run_proposal"
    by (simp_all add: locked_manager_def create_final_vote_def run_certificate_facts voted_manager_facts(1-5) Let_def
        stored_ballots_def vote_new_def hashed_new_def confirmed_block_new_def confirmed_executed_block_def)
qed

lemma run_hashes: "block_hash demo_hashers kind run_executed = 5"
  by (cases kind) (simp_all add: block_hash_def demo_hashers_def validated_block_new_def confirmed_block_new_def hashed_new_def
      validated_executed_block_def confirmed_executed_block_def run_executed_facts)

lemma run_authentic:
  "authentic run_protocol n 0 (HandleBlockProposal run_proposal)"
  "(1, ValidatedKind, MultiLeader 0, run_executed) \<in> net_ballots n \<Longrightarrow> authentic run_protocol n 0 (ProcessValidatedBlock run_validated [])"
  "(1, ConfirmedKind, MultiLeader 0, run_executed) \<in> net_ballots n \<Longrightarrow> authentic run_protocol n 0 (ProcessConfirmedBlock run_confirmed None)"
  by (auto simp: run_proposal_facts run_certificate_facts genuine_def run_protocol_def run_hashes intro!: exI [of _ run_executed])

lemma run_reaches:
  "\<exists>w. workers_reach run_protocol (\<lambda>_. run_env) agree_own 0 w
     \<and> confirmed_log (ws_stored (wn_workers w 1)) = [5] \<and> confirmed_log (ws_stored (wn_workers w 2)) = [5]
     \<and> wn_ballots w = {(1, ValidatedKind, MultiLeader 0, run_executed), (1, ConfirmedKind, MultiLeader 0, run_executed)}"
proof -
  let ?reach = "workers_reach run_protocol (\<lambda>_. run_env) agree_own 0" and ?w0 = run_start_net
  have honest: "1 \<in> pr_honest run_protocol" "2 \<in> pr_honest run_protocol"
    by (simp_all add: run_protocol_def)
  obtain r1 s1 where 1: "handle_request run_env (\<lambda>_. 4) (HandleBlockProposal run_proposal) (wn_workers ?w0 1) = (r1, s1)"
    "ready 1 (voted_manager 1) s1"
    using proposal_handled [OF run_starts(2)] by blast
  let ?w1 = "worker_update 0 ?w0 1 s1"
  have w1: "?reach ?w1" "wn_ballots ?w1 = {(1, ValidatedKind, MultiLeader 0, run_executed)}"
    using workers_reach.request [OF workers_reach.start [OF run_starts(1)] honest(1) run_authentic(1) 1(1)]
      votes_ready [OF 1(2)] by (simp_all add: run_votes run_start_net_def)
  obtain r2 s2 where 2: "handle_request run_env (\<lambda>_. 4) (ProcessValidatedBlock run_validated []) (wn_workers ?w1 1) = (r2, s2)"
    "ready 1 (locked_manager 1) s2"
    using validated_handled [OF 1(2)] by auto
  let ?w2 = "worker_update 0 ?w1 1 s2"
  have w2: "?reach ?w2"
    by (rule workers_reach.request [OF w1(1) honest(1) run_authentic(2) 2(1)]) (simp add: net_of_def w1(2) del: worker_update_simps)
  have b2: "wn_ballots ?w2 = {(1, ValidatedKind, MultiLeader 0, run_executed), (1, ConfirmedKind, MultiLeader 0, run_executed)}"
    using votes_ready [OF 2(2)] w1(2) by (auto simp: run_votes)
  obtain r3 s3 where 3: "handle_request run_env (\<lambda>_. 4) (ProcessConfirmedBlock run_confirmed None) (wn_workers ?w2 1) = (r3, s3)"
    "confirmed_log (ws_stored s3) = [5]" "next_height s3 = 1"
    using confirmed_handled [OF 2(2)] run_votes(3) run_proposal_facts(6) by auto
  let ?w3 = "worker_update 0 ?w2 1 s3"
  have w3: "?reach ?w3"
    by (rule workers_reach.request [OF w2 honest(1) run_authentic(3) 3(1)]) (simp add: net_of_def b2 del: worker_update_simps)
  have b3: "wn_ballots ?w3 = wn_ballots ?w2" using 3(3) by (simp add: votes_at_def)
  obtain r4 s4 where 4: "handle_request run_env (\<lambda>_. 4) (ProcessConfirmedBlock run_confirmed None) (wn_workers ?w3 2) = (r4, s4)"
    "confirmed_log (ws_stored s4) = [5]" "next_height s4 = 1"
    using confirmed_handled [OF run_starts(2) [of 2]] demo_manager_fields(2) by auto
  let ?w4 = "worker_update 0 ?w3 2 s4"
  have "?reach ?w4"
    by (rule workers_reach.request [OF w3 honest(2) run_authentic(3) 4(1)]) (simp add: net_of_def b3 b2 del: worker_update_simps)
  moreover have "wn_ballots ?w4 = wn_ballots ?w2" using 4(3) b3 by (simp add: votes_at_def)
  ultimately show ?thesis
    using 3(2) 4(2) b2 by (intro exI [of _ ?w4]) simp
qed

text \<open>Witness: both workers have stored the same block hash.\<close>

theorem workers_agree_witness:
  "\<exists>w. workers_reach run_protocol (\<lambda>_. run_env) agree_own 0 w
     \<and> protocol_ok run_protocol \<and> collision_free run_protocol (net_of w) \<and> super_owners agree_own = []
     \<and> length (confirmed_log (ws_stored (wn_workers w 1))) = 1 \<and> length (confirmed_log (ws_stored (wn_workers w 2))) = 1
     \<and> confirmed_log (ws_stored (wn_workers w 1)) ! 0 = confirmed_log (ws_stored (wn_workers w 2)) ! 0"
proof -
  obtain w where w: "workers_reach run_protocol (\<lambda>_. run_env) agree_own 0 w"
    "confirmed_log (ws_stored (wn_workers w 1)) = [5]" "confirmed_log (ws_stored (wn_workers w 2)) = [5]"
    "wn_ballots w = {(1, ValidatedKind, MultiLeader 0, run_executed), (1, ConfirmedKind, MultiLeader 0, run_executed)}"
    using run_reaches by blast
  have "net_blocks (net_of w) = {run_executed}" by (auto simp: net_blocks_def net_of_def w(4))
  then have cf: "collision_free run_protocol (net_of w)" by (simp add: collision_free_def)
  have honest: "1 \<in> pr_honest run_protocol" "2 \<in> pr_honest run_protocol" by (simp_all add: run_protocol_def)
  have "confirmed_log (ws_stored (wn_workers w 1)) ! 0 = confirmed_log (ws_stored (wn_workers w 2)) ! 0"
    using workers_agree [OF run_protocol_ok w(1) cf agree_owner(2) honest(1) _ honest(2)] w(2,3) by simp
  then show ?thesis using w run_protocol_ok cf agree_owner(2) by (intro exI [of _ w]) simp
qed

end
