(* ===== verification/Spec2Isabelle.thy ===== *)
theory Spec2Isabelle
  imports Proposers View_Codecs Block_Spending Worker_Runs
begin

text \<open>
  \<^bold>\<open>Verification of the Linera protocol.\<close>

  Linera runs many chains of blocks on one set of validators. A block of a chain holds operations and messages that
  other chains sent; its owners propose it, the validators vote in rounds, and a quorum of votes is a certificate.
  Confirmed blocks are executed, and what they send to other chains goes through outboxes and inboxes. Everything is
  kept in views over a key-value store. The development follows these layers.

  \<^bold>\<open>Theories and sources.\<close>

  \<^item> \<open>Linera_Prelude\<close>, \<open>Std_Maps\<close>, \<open>Stateful_Results\<close>: the vocabulary. Machine integers are words, \<open>Result\<close> is a sum
    with the error on the left, \<open>BTreeMap\<close> is a sorted association list (locale \<open>ordered_map\<close>, interpreted as \<open>btree\<close>),
    and an \<open>action\<close> is code on a mutable state whose effects survive an error.
  \<^item> \<open>Base_Types\<close>, \<open>Ownership\<close> (linera-base/src/data_types.rs, identifiers.rs, ownership.rs): amounts, heights, times,
    rounds, identifiers, who owns a chain and which round follows which.
  \<^item> \<open>Policy\<close>, \<open>Committee\<close>, \<open>Execution_Types\<close> (linera-execution/src/policy.rs, committee.rs, lib.rs): prices and
    limits, voting powers and their thresholds, operations and messages.
  \<^item> \<open>Chain_Types\<close>, \<open>Certificates\<close>, \<open>Manager\<close> (linera-chain/src/data_types.rs, block.rs, certificate, manager.rs): blocks,
    bundles, votes, the aggregation of signatures, and the state of the consensus for the next block of a chain.
  \<^item> \<open>Consensus\<close>, \<open>Consensus_Runs\<close>: the network of managers of one height as a step relation, and concrete runs of it;
    \<open>Proposers\<close>: who may propose, for a manager that goes through any of its operations.
  \<^item> \<open>Mailboxes\<close>, \<open>Chain_State\<close>, \<open>Chain_Inboxes\<close>, \<open>Chain_Execution\<close> (linera-chain/src/inbox.rs, outbox.rs, chain.rs):
    cross-chain messages, the state of a chain, and the execution of a block.
  \<^item> \<open>Applications\<close>, \<open>Transaction_Tracker\<close>, \<open>System_Execution\<close>, \<open>System_Accounts\<close>, \<open>Resources\<close>, \<open>Execution_State\<close>
    (linera-execution/src/applications.rs, transaction_tracker.rs, system.rs, resources.rs, execution.rs): the registry of
    applications, the system application, charging for resources; \<open>Token_Ledger\<close> puts many chains together, and
    \<open>Block_Spending\<close> follows the account of a user through the execution of a block.
  \<^item> \<open>Key_Ranges\<close>, \<open>Write_Batch\<close>, \<open>Memory_Store\<close>, \<open>Journaling\<close>, \<open>Journal_Recovery\<close>, \<open>Queue_View\<close>, \<open>Bucket_Queue_View\<close>
    (linera-views/src/common.rs, batch.rs, backends/memory.rs, backends/journaling.rs, views/queue_view.rs,
    views/bucket_queue_view.rs): batches of writes, stores and persistent queues; \<open>Bcs_Codec\<close> and \<open>View_Codecs\<close> give
    encodings that satisfy what these theories assume of the serialisation.
  \<^item> \<open>Db_Storage\<close>, \<open>Chain_Info\<close>, \<open>Chain_Worker\<close> (linera-storage/src/db_storage.rs, linera-core/src/data_types.rs,
    linera-core/src/chain_worker): certificates and blobs in storage, the information a validator gives, and the worker
    that handles the requests to a chain, saving its changes or rolling them back. \<open>Worker_Requests\<close> shows what each
    request may save, \<open>Worker_Agreement\<close> that the workers refine the consensus protocol, and \<open>Worker_Runs\<close> is a run.

  A struct is a record, an enum a datatype, a method a function from the state to a result with the new state; the names
  are those of the source, with a prefix where they would clash. A method that fails returns only the error where its
  caller drops the state it worked on; the worker, whose storage and flags outlive an error, uses actions. A panic is an
  error of its own.

  \<^bold>\<open>What is shown.\<close>

  \<^item> Agreement: two confirmed certificates for one height are for the same block, unless one is from the fast round and
    the other is not; a run with such a conflict exists. This rests on the locks and votes of the managers
    (\<open>round_agreement\<close>), on quorums (\<open>quorum_system\<close>) and on the certificates the aggregator makes. The workers refine
    this protocol: the requests that concern the next height are steps of it, however they are mixed with other requests,
    so that honest workers store the same block at each height of a chain without super owners.
  \<^item> Rounds: the current round of a manager, the order of rounds, that all validators agree on the key a proposal must be
    signed with and on the leaders, and when a client's idea of who may propose differs from theirs.
  \<^item> Messages: bundles deliver exactly the messages for a recipient; an inbox reconciles what was received with what was
    executed; the counters of an outbox and the queue of unskippable bundles are exact.
  \<^item> Execution: tokens are conserved; what a user loses is accounted for, to the amount, by a transfer or claim the user
    signed or by fees, and a block signed by someone else takes no more than the user's claims that it accepts; system
    states stay well formed, fees are exact, the search for dependencies ends and is topological, a closed chain only
    rejects messages.
  \<^item> Persistence: batches keep their meaning through simplification and expansion, a journaled write is atomic under any
    failure and completes, and both queue views refine lists (\<open>persistent_queue\<close>, \<open>kv_store\<close>).
  \<^item> Storage: a certificate is read back as it was written.
  \<^item> Divergences that the model showed: wrap-around of thresholds from a voting power of \<open>2 ^ 63\<close> on, a lost lock of the
    fast round, a lost change of a bucket, message indices and block sizes that fall behind.

  \<^bold>\<open>Parameters, bounds and fuel.\<close> Hash functions, signatures, the election of leaders, serialised sizes and BCS, blobs in
  storage, user applications and the clock are arguments of the definitions; what a theorem needs of them is a named
  hypothesis, and its witness instantiates it. There is no fuel: loops recurse over lists or numbers that decrease, and
  the loops that are not structural have termination proofs. A write to the journaled store may fail at any point: the
  number of successful writes is a budget, over which the theorems quantify. \<open>usize\<close> is a natural number.

  \<^bold>\<open>Not modelled.\<close> Wasm and the runtime of applications, the external databases and the caching, metering and
  value-splitting stores, and the other views (maps, sets, logs and registers, which appear as maps, lists and values);
  the dispatch of requests to workers, clients, wallets, the network protocols and services; the SDK, macros, the
  Ethereum bridge, the indexer, the explorer and the examples. These are I/O, generated code or third-party code, or
  orchestrate the parts above. Within the modelled parts: formatting, metrics, logging, GraphQL, locks, queries of
  applications and what only tests use.
\<close>

section \<open>The length of a sequence in a block\<close>

lemma bit_width_pos: "n \<noteq> 0 \<Longrightarrow> bit_width n = Suc (bit_width (n div 2))"
  by (simp add: bit_width.simps [of n])

lemma bit_width_half: "bit_width (n div 2) = bit_width n - 1"
  by (cases "n = 0") (simp_all add: bit_width.simps [of 0] bit_width_pos)

lemma bit_width_shift: "bit_width (n div 2 ^ k) = bit_width n - k"
proof (induction k)
  case (Suc k)
  have "n div 2 ^ Suc k = n div 2 ^ k div 2" by (simp only: power_Suc2 div_mult2_eq)
  then show ?case using bit_width_half [of "n div 2 ^ k"] Suc by simp
qed simp

lemma bit_width_zero_iff: "bit_width n = 0 \<longleftrightarrow> n = 0"
  by (simp add: bit_width.simps [of n])

lemma bit_width_le_iff: "bit_width n \<le> k \<longleftrightarrow> n < 2 ^ k"
proof -
  have "bit_width n \<le> k \<longleftrightarrow> n div 2 ^ k = 0"
    using bit_width_shift [of n k] bit_width_zero_iff [of "n div 2 ^ k"] by simp
  then show ?thesis by (simp add: div_eq_0_iff)
qed

text \<open>ULEB128 takes one byte for every seven binary digits, the last seven begun included.\<close>

lemma length_uleb128_digits: "length (uleb128 n) = max 1 ((bit_width n + 6) div 7)"
proof (induction n rule: uleb128.induct)
  case (1 n)
  show ?case
  proof (cases "n < 128")
    case True
    then have "bit_width n \<le> 7" by (simp add: bit_width_le_iff)
    then have "(bit_width n + 6) div 7 \<le> 1" by presburger
    with True show ?thesis by (simp add: uleb128.simps [of n])
  next
    case False
    then have w: "7 < bit_width n" using bit_width_le_iff [of n 7] by simp
    have "bit_width (n div 128) = bit_width n - 7" using bit_width_shift [of n 7] by simp
    then have "length (uleb128 n) = Suc (max 1 ((bit_width n - 1) div 7))"
      using False 1 w by (simp add: uleb128.simps [of n])
    moreover obtain k where "bit_width n = k + 8" using w that [of "bit_width n - 8"] by simp
    ultimately show ?thesis by simp
  qed
qed

lemma div_seven_up: "(w + 6) div 7 = w div 7 + (if 7 dvd w then 0 else 1 :: nat)"
proof -
  have "(w + 6) div 7 = w div 7 + (w mod 7 + 6) div 7"
    using div_plus_div_distrib_dvd_left [of 7 "7 * (w div 7)" "w mod 7 + 6"] by simp
  moreover have "(w mod 7 + 6) div 7 = (if w mod 7 = 0 then 0 else 1)"
    using mod_less_divisor [of 7 w] by auto
  ultimately show ?thesis by (simp add: dvd_eq_mod_eq_0)
qed

text \<open>C40: The length of a sequence is undercounted when a block is measured. A sequence starts with its length, in ULEB128.
  The number of bytes the code takes for it is never too large, and at most one too small; it is right exactly for
  lengths below 128 and those whose number of binary digits is a multiple of seven. When the 128th element is added
  the encoded length grows by a byte, and the executed block size does not change.\<close>

theorem sequence_length_undercounted:
  "sequence_len_size n \<le> length (uleb128 n) \<and> length (uleb128 n) \<le> sequence_len_size n + 1
    \<and> (sequence_len_size n = length (uleb128 n) \<longleftrightarrow> n < 128 \<or> 7 dvd bit_width n)
    \<and> length (uleb128 128) = length (uleb128 127) + 1
    \<and> track_executed_block_size_sequence_extension rc 127 1 = Inr rc"
proof -
  have exact: "sequence_len_size n = length (uleb128 n) \<longleftrightarrow> bit_width n \<le> 7 \<or> 7 dvd bit_width n"
  proof (cases "bit_width n < 7")
    case True
    then show ?thesis by (simp add: length_uleb128_digits sequence_len_size_def div_seven_up)
  next
    case False
    then have "1 \<le> bit_width n div 7" by (simp add: less_eq_div_iff_mult_less_eq)
    with False show ?thesis by (auto simp: length_uleb128_digits sequence_len_size_def div_seven_up max_def)
  qed
  have "bit_width 127 = 7" "bit_width 128 = 8"
    using bit_width_le_iff [of 127 6] bit_width_le_iff [of 127 7] bit_width_le_iff [of 128 7] bit_width_le_iff [of 128 8]
    by simp_all
  then have "length (uleb128 128) = length (uleb128 127) + 1"
    "track_executed_block_size_sequence_extension rc 127 1 = Inr rc"
    by (simp_all add: length_uleb128_digits track_executed_block_size_sequence_extension_def sequence_len_size_def)
  moreover have "sequence_len_size n \<le> length (uleb128 n)" "length (uleb128 n) \<le> sequence_len_size n + 1"
    by (simp_all add: length_uleb128_digits sequence_len_size_def div_seven_up max_def)
  moreover have "bit_width n \<le> 7 \<longleftrightarrow> n < 128" using bit_width_le_iff [of n 7] by simp
  ultimately show ?thesis using exact by simp
qed

end
